(* ===== verification/Prelude.thy ===== *)
theory Prelude
  imports Main "HOL-Library.Word" "HOL-Library.Sublist"
begin

text \<open>
  What every component shares: the machine types of the Go program (\<open>uint64\<close> offsets and epochs,
  bytes), the error values that functions return, and the lemmas on words, slices and prefixes that
  carry the stream proofs. Go strings are byte strings and are modelled as \<open>string\<close> (a \<open>char\<close> is
  one byte); byte slices of the SSH stream are lists of 8-bit words.
\<close>

section \<open>Machine types\<close>

type_synonym u64 = "64 word"
type_synonym byte = "8 word"
type_synonym bytes = "byte list"

text \<open>\<open>time.Time\<close> and \<open>time.Duration\<close> count nanoseconds; a zero \<open>time.Time\<close> is \<open>None\<close> where
  the code asks \<open>IsZero\<close>.\<close>

type_synonym duration = int
type_synonym instant = int

section \<open>Errors\<close>

text \<open>
  Go errors. \<open>Errorf\<close> is \<open>fmt.Errorf\<close> or \<open>errors.New\<close> with the given text; \<open>Wrapf\<close> is
  \<open>fmt.Errorf\<close> with a prefix and \<open>%w\<close>; \<open>FrameError\<close> is \<open>frameError\<close> of protocol.go;
  \<open>DialErr\<close> is \<open>DialError\<close> of timing.go; \<open>PathStateErr\<close> is \<open>PathStateError\<close> of path_state.go;
  \<open>Joined\<close> is \<open>errors.Join\<close>; \<open>NetErr\<close> is an error of the environment (a socket, a file), with
  its text. The others are sentinels the code compares by identity.
\<close>

datatype gerror =
    Errorf string
  | Wrapf string gerror
  | FrameError gerror
  | DialErr string gerror
  | PathStateErr string gerror
  | Joined "gerror list"
  | NetErr string
  | EOF
  | ShortWrite
  | Canceled
  | DeadlineExceeded
  | HeartbeatPending
  | HeartbeatClosed
  | ActivationSuperseded
  | ClientRuntimeClosed
  | ProbePathFailed

type_synonym 'a result = "gerror + 'a"

text \<open>\<open>strings.Join\<close>, used by \<open>errors.Join\<close> with a newline.\<close>

fun join_with :: "string \<Rightarrow> string list \<Rightarrow> string" where
  "join_with sep [] = []"
| "join_with sep [x] = x"
| "join_with sep (x # xs) = x @ sep @ join_with sep xs"

text \<open>The \<open>Error\<close> methods.\<close>

fun error_text :: "gerror \<Rightarrow> string" where
  "error_text (Errorf s) = s"
| "error_text (Wrapf s e) = s @ error_text e"
| "error_text (FrameError e) = error_text e"
| "error_text (DialErr phase e) = phase @ '': '' @ error_text e"
| "error_text (PathStateErr operation e) = ''path state '' @ operation @ '': '' @ error_text e"
| "error_text (Joined es) = join_with [CHR 0x0A] (map error_text es)"
| "error_text (NetErr s) = s"
| "error_text EOF = ''EOF''"
| "error_text ShortWrite = ''short write''"
| "error_text Canceled = ''context canceled''"
| "error_text DeadlineExceeded = ''context deadline exceeded''"
| "error_text HeartbeatPending = ''heartbeat already pending''"
| "error_text HeartbeatClosed = ''heartbeat tracker closed''"
| "error_text ActivationSuperseded = ''active connection changed before candidate promotion''"
| "error_text ClientRuntimeClosed = ''client runtime is closed''"
| "error_text ProbePathFailed = ''one or more probe paths failed''"

text \<open>\<open>errors.As\<close> with a \<open>frameError\<close> or a \<open>DialError\<close> target: the first match along the chain
  of \<open>Unwrap\<close> calls, depth first through joined errors.\<close>

fun is_frame_error :: "gerror \<Rightarrow> bool" where
  "is_frame_error (FrameError e) = True"
| "is_frame_error (Wrapf s e) = is_frame_error e"
| "is_frame_error (DialErr phase e) = is_frame_error e"
| "is_frame_error (PathStateErr operation e) = is_frame_error e"
| "is_frame_error (Joined es) = (\<exists>e \<in> set es. is_frame_error e)"
| "is_frame_error _ = False"

fun first_some :: "'a option list \<Rightarrow> 'a option" where
  "first_some [] = None"
| "first_some (None # xs) = first_some xs"
| "first_some (Some x # xs) = Some x"

fun dial_phase_of :: "gerror \<Rightarrow> string option" where
  "dial_phase_of (DialErr phase e) = Some phase"
| "dial_phase_of (FrameError e) = dial_phase_of e"
| "dial_phase_of (Wrapf s e) = dial_phase_of e"
| "dial_phase_of (PathStateErr operation e) = dial_phase_of e"
| "dial_phase_of (Joined es) = first_some (map dial_phase_of es)"
| "dial_phase_of _ = None"

text \<open>\<open>errors.Is\<close> with a sentinel target.\<close>

fun errors_is :: "gerror \<Rightarrow> gerror \<Rightarrow> bool" where
  "errors_is (FrameError e) t = (FrameError e = t \<or> errors_is e t)"
| "errors_is (DialErr phase e) t = (DialErr phase e = t \<or> errors_is e t)"
| "errors_is (Wrapf s e) t = (Wrapf s e = t \<or> errors_is e t)"
| "errors_is (PathStateErr s e) t = (PathStateErr s e = t \<or> errors_is e t)"
| "errors_is (Joined es) t = (Joined es = t \<or> (\<exists>e \<in> set es. errors_is e t))"
| "errors_is e t = (e = t)"

text \<open>\<open>errors.Join\<close>: nil arguments are dropped, and the result is nil when nothing is left.\<close>

definition errors_join :: "gerror option list \<Rightarrow> gerror option" where
  "errors_join es = (let xs = List.map_filter id es in if xs = [] then None else Some (Joined xs))"

section \<open>Words and slices\<close>

named_theorems stream_simps \<open>rewrite rules on offsets, slices and prefixes\<close>

abbreviation stream_limit :: nat where
  "stream_limit \<equiv> 2 ^ 64"

lemma unat_of_nat_u64 [stream_simps]:
  "n < stream_limit \<Longrightarrow> unat (of_nat n :: u64) = n"
  by (simp add: unat_of_nat)

lemma u64_add_nat:
  "unat (a :: u64) + n < stream_limit \<Longrightarrow> unat (a + of_nat n) = unat a + n"
  by (simp add: unat_word_ariths unat_of_nat)

lemma u64_diff_nat [stream_simps]:
  "b \<le> (a :: u64) \<Longrightarrow> unat (a - b) = unat a - unat b"
  by (rule unat_sub)

text \<open>A payload is a slice of its stream at an offset.\<close>

definition slice_at :: "nat \<Rightarrow> 'a list \<Rightarrow> 'a list \<Rightarrow> bool" where
  "slice_at off p src \<longleftrightarrow> off + length p \<le> length src \<and> take (length p) (drop off src) = p"

lemma slice_at_append [intro]: "slice_at off p src \<Longrightarrow> slice_at off p (src @ more)"
  by (auto simp: slice_at_def)

lemma slice_at_prefix: "slice_at off p src \<Longrightarrow> prefix src src' \<Longrightarrow> slice_at off p src'"
  by (auto simp: prefix_def)

lemma slice_at_drop:
  "off \<le> length src \<Longrightarrow> slice_at off (take n (drop off src)) src"
  by (auto simp: slice_at_def min_def)

lemma slice_at_end: "slice_at (length src) p (src @ p)"
  by (simp add: slice_at_def)

lemma prefix_extend_slice:
  assumes "prefix xs src" and "slice_at (length xs) p src"
  shows "prefix (xs @ take n p) src"
proof -
  from assms(1) obtain zs where src: "src = xs @ zs" by (auto simp: prefix_def)
  with assms(2) have "take (length p) zs = p" by (simp add: slice_at_def)
  then have "prefix p zs" by (metis take_is_prefix)
  then have "prefix (take n p) zs" by (metis take_is_prefix prefix_order.trans)
  with src show ?thesis by simp
qed

end
