(* ===== verification/Json.thy ===== *)
theory Json
  imports Prelude
begin

text \<open>
  The part of Go's \<open>encoding/json\<close> that protocol.go and path_state.go rest on: the string and
  integer encoders, and a parser for JSON texts. Strings are bytes; the encoder replaces invalid
  UTF-8 and escapes the characters that \<open>json.Marshal\<close> escapes, and the decoder undoes it.
\<close>

section \<open>UTF-8\<close>

abbreviation code_of :: "char \<Rightarrow> nat" where
  "code_of c \<equiv> of_char c"

definition in_range :: "nat \<Rightarrow> nat \<Rightarrow> char \<Rightarrow> bool" where
  "in_range lo hi c \<longleftrightarrow> lo \<le> code_of c \<and> code_of c \<le> hi"

text \<open>The width of the rune a string starts with; \<open>None\<close> where \<open>utf8.DecodeRune\<close> returns
  \<open>RuneError\<close> with width 1 or the string is empty.\<close>

definition utf8_width :: "string \<Rightarrow> nat option" where
  "utf8_width s = (case s of
     [] \<Rightarrow> None
   | b # r \<Rightarrow>
      if in_range 0 0x7F b then Some 1
      else if in_range 0xC2 0xDF b then
        (case r of x # _ \<Rightarrow> if in_range 0x80 0xBF x then Some 2 else None | _ \<Rightarrow> None)
      else if in_range 0xE0 0xEF b then
        (case r of x # y # _ \<Rightarrow>
           if in_range (if code_of b = 0xE0 then 0xA0 else 0x80) (if code_of b = 0xED then 0x9F else 0xBF) x
              \<and> in_range 0x80 0xBF y then Some 3 else None
         | _ \<Rightarrow> None)
      else if in_range 0xF0 0xF4 b then
        (case r of x # y # z # _ \<Rightarrow>
           if in_range (if code_of b = 0xF0 then 0x90 else 0x80) (if code_of b = 0xF4 then 0x8F else 0xBF) x
              \<and> in_range 0x80 0xBF y \<and> in_range 0x80 0xBF z then Some 4 else None
         | _ \<Rightarrow> None)
      else None)"

lemma utf8_width_bounds: "utf8_width s = Some n \<Longrightarrow> 1 \<le> n \<and> n \<le> length s"
  by (auto simp: utf8_width_def split: list.splits if_splits)

text \<open>\<open>utf8.AppendRune\<close> for a code point that is not a surrogate.\<close>

definition utf8_encode :: "nat \<Rightarrow> string" where
  "utf8_encode x =
     (if x < 0x80 then [char_of x]
      else if x < 0x800 then [char_of (0xC0 + x div 64), char_of (0x80 + x mod 64)]
      else if x < 0x10000 then
        [char_of (0xE0 + x div 4096), char_of (0x80 + x div 64 mod 64), char_of (0x80 + x mod 64)]
      else
        [char_of (0xF0 + x div 262144), char_of (0x80 + x div 4096 mod 64),
         char_of (0x80 + x div 64 mod 64), char_of (0x80 + x mod 64)])"

definition replacement :: string where
  "replacement = [CHR 0xEF, CHR 0xBF, CHR 0xBD]"

function utf8_valid :: "string \<Rightarrow> bool" where
  "utf8_valid s = (s = [] \<or> (case utf8_width s of None \<Rightarrow> False | Some n \<Rightarrow> utf8_valid (drop n s)))"
  by pat_completeness auto
termination
  by (relation "measure length") (auto dest: utf8_width_bounds)

declare utf8_valid.simps [simp del]

section \<open>Encoding\<close>

definition hex_digit :: "nat \<Rightarrow> char" where
  "hex_digit n = (if n < 10 then char_of (48 + n) else char_of (87 + n))"

definition escape_ascii :: "char \<Rightarrow> string" where
  "escape_ascii c =
     (if c = CHR 0x22 \<or> c = CHR 0x5C then [CHR 0x5C, c]
      else if c = CHR 0x08 then [CHR 0x5C, CHR ''b'']
      else if c = CHR 0x0C then [CHR 0x5C, CHR ''f'']
      else if c = CHR 0x0A then [CHR 0x5C, CHR ''n'']
      else if c = CHR 0x0D then [CHR 0x5C, CHR ''r'']
      else if c = CHR 0x09 then [CHR 0x5C, CHR ''t'']
      else if code_of c < 0x20 \<or> c = CHR ''<'' \<or> c = CHR ''>'' \<or> c = CHR ''&'' then
        [CHR 0x5C, CHR ''u'', CHR ''0'', CHR ''0'', hex_digit (code_of c div 16), hex_digit (code_of c mod 16)]
      else [c])"

text \<open>\<open>appendString\<close> of encoding/json with HTML escaping on, as \<open>json.Marshal\<close> runs it.\<close>

function json_escape :: "string \<Rightarrow> string" where
  "json_escape [] = []"
| "json_escape (c # r) =
     (if code_of c < 0x80 then escape_ascii c @ json_escape r
      else case utf8_width (c # r) of
        None \<Rightarrow> CHR 0x5C # ''ufffd'' @ json_escape r
      | Some n \<Rightarrow>
          (if take 3 (c # r) = [CHR 0xE2, CHR 0x80, CHR 0xA8] then CHR 0x5C # ''u2028''
           else if take 3 (c # r) = [CHR 0xE2, CHR 0x80, CHR 0xA9] then CHR 0x5C # ''u2029''
           else take n (c # r)) @ json_escape (drop n (c # r)))"
  by pat_completeness auto
termination
  by (relation "measure length") (auto dest: utf8_width_bounds)

declare json_escape.simps(2) [simp del]

definition json_string :: "string \<Rightarrow> string" where
  "json_string s = CHR 0x22 # json_escape s @ [CHR 0x22]"

definition digit_char :: "nat \<Rightarrow> char" where
  "digit_char n = char_of (48 + n)"

fun dec_nat :: "nat \<Rightarrow> string" where
  "dec_nat n = (if n < 10 then [digit_char n] else dec_nat (n div 10) @ [digit_char (n mod 10)])"

declare dec_nat.simps [simp del]

definition dec_int :: "int \<Rightarrow> string" where
  "dec_int i = (if i < 0 then CHR ''-'' # dec_nat (nat (- i)) else dec_nat (nat i))"

section \<open>Parsing\<close>

text \<open>Numbers keep their literal: the decoder converts it by the type of the field it fills.\<close>

datatype json =
    JNull
  | JBool bool
  | JNum string
  | JStr string
  | JArr "json list"
  | JObj "(string \<times> json) list"

definition json_space :: "char \<Rightarrow> bool" where
  "json_space c \<longleftrightarrow> c = CHR '' '' \<or> c = CHR 0x09 \<or> c = CHR 0x0D \<or> c = CHR 0x0A"

definition skip_space :: "string \<Rightarrow> string" where
  "skip_space s = dropWhile json_space s"

definition is_digit :: "char \<Rightarrow> bool" where
  "is_digit c \<longleftrightarrow> in_range 48 57 c"

definition hex_value :: "char \<Rightarrow> nat option" where
  "hex_value c =
     (if in_range 48 57 c then Some (code_of c - 48)
      else if in_range 97 102 c then Some (code_of c - 87)
      else if in_range 65 70 c then Some (code_of c - 55)
      else None)"

text \<open>\<open>getu4\<close>: the code unit of \<open>\uXXXX\<close> at the head of the string.\<close>

fun getu4 :: "string \<Rightarrow> nat option" where
  "getu4 (b # u # p # q # r # s # _) =
     (if b = CHR 0x5C \<and> u = CHR ''u'' then
        (case (hex_value p, hex_value q, hex_value r, hex_value s) of
           (Some i, Some j, Some k, Some l) \<Rightarrow> Some (i * 4096 + j * 256 + k * 16 + l)
         | _ \<Rightarrow> None)
      else None)"
| "getu4 _ = None"

definition is_surrogate :: "nat \<Rightarrow> bool" where
  "is_surrogate x \<longleftrightarrow> 0xD800 \<le> x \<and> x < 0xE000"

definition utf16_decode :: "nat \<Rightarrow> nat \<Rightarrow> nat option" where
  "utf16_decode x y =
     (if 0xD800 \<le> x \<and> x < 0xDC00 \<and> 0xDC00 \<le> y \<and> y < 0xE000
      then Some ((x - 0xD800) * 1024 + (y - 0xDC00) + 0x10000) else None)"

definition simple_escape :: "char \<Rightarrow> char option" where
  "simple_escape c =
     (if c = CHR 0x22 \<or> c = CHR 0x5C \<or> c = CHR ''/'' then Some c
      else if c = CHR ''b'' then Some (CHR 0x08)
      else if c = CHR ''f'' then Some (CHR 0x0C)
      else if c = CHR ''n'' then Some (CHR 0x0A)
      else if c = CHR ''r'' then Some (CHR 0x0D)
      else if c = CHR ''t'' then Some (CHR 0x09)
      else None)"

text \<open>The characters after an opening quote up to the closing one: the decoded string and the rest.\<close>

definition push_out :: "string \<Rightarrow> (string \<times> string) option \<Rightarrow> (string \<times> string) option" where
  "push_out pre m = map_option (\<lambda>(s, r). (pre @ s, r)) m"

function string_body :: "string \<Rightarrow> (string \<times> string) option" where
  "string_body [] = None"
| "string_body (c # r) =
     (if c = CHR 0x22 then Some ([], r)
      else if c = CHR 0x5C then
        (case r of
           [] \<Rightarrow> None
         | e # r' \<Rightarrow>
            if e = CHR ''u'' then
              (case getu4 (c # r) of
                 None \<Rightarrow> None
               | Some x \<Rightarrow>
                   if is_surrogate x then
                     (case getu4 (drop 6 (c # r)) of
                        None \<Rightarrow> push_out replacement (string_body (drop 6 (c # r)))
                      | Some y \<Rightarrow>
                         (case utf16_decode x y of
                            Some z \<Rightarrow> push_out (utf8_encode z) (string_body (drop 12 (c # r)))
                          | None \<Rightarrow> push_out replacement (string_body (drop 6 (c # r)))))
                   else push_out (utf8_encode x) (string_body (drop 6 (c # r))))
            else
              (case simple_escape e of
                 None \<Rightarrow> None
               | Some d \<Rightarrow> push_out [d] (string_body r')))
      else if code_of c < 0x20 then None
      else
        (case utf8_width (c # r) of
           None \<Rightarrow> push_out replacement (string_body r)
         | Some n \<Rightarrow> push_out (take n (c # r)) (string_body (drop n (c # r)))))"
  by pat_completeness auto
termination
  by (relation "measure length") (auto dest: utf8_width_bounds)

declare string_body.simps(2) [simp del]

definition split_digits :: "string \<Rightarrow> string \<times> string" where
  "split_digits s = (takeWhile is_digit s, dropWhile is_digit s)"

text \<open>A number literal: sign, integer part without a leading zero, fraction, exponent.\<close>

definition number_int :: "string \<Rightarrow> (string \<times> string) option" where
  "number_int s = (case split_digits s of
     ([], _) \<Rightarrow> None
   | (d # ds, r) \<Rightarrow> if d = CHR ''0'' then Some ([d], ds @ r) else Some (d # ds, r))"

definition number_frac :: "string \<Rightarrow> (string \<times> string) option" where
  "number_frac s = (case s of
     c # r \<Rightarrow> if c = CHR ''.'' then
                (case split_digits r of ([], _) \<Rightarrow> None | (ds, r') \<Rightarrow> Some (c # ds, r'))
              else Some ([], s)
   | [] \<Rightarrow> Some ([], s))"

definition number_exp :: "string \<Rightarrow> (string \<times> string) option" where
  "number_exp s = (case s of
     c # r \<Rightarrow> if c = CHR ''e'' \<or> c = CHR ''E'' then
                (let (sg, r') = (case r of x # r' \<Rightarrow> if x = CHR ''+'' \<or> x = CHR ''-'' then ([x], r') else ([], r)
                                         | [] \<Rightarrow> ([], r))
                 in case split_digits r' of ([], _) \<Rightarrow> None | (ds, r'') \<Rightarrow> Some (c # sg @ ds, r''))
              else Some ([], s)
   | [] \<Rightarrow> Some ([], s))"

definition parse_number :: "string \<Rightarrow> (string \<times> string) option" where
  "parse_number s =
     (let (sg, s0) = (case s of c # r \<Rightarrow> if c = CHR ''-'' then ([c], r) else ([], s) | [] \<Rightarrow> ([], s))
      in case number_int s0 of None \<Rightarrow> None
       | Some (i, s1) \<Rightarrow> (case number_frac s1 of None \<Rightarrow> None
          | Some (f, s2) \<Rightarrow> (case number_exp s2 of None \<Rightarrow> None
             | Some (e, s3) \<Rightarrow> Some (sg @ i @ f @ e, s3))))"

definition strip_lit :: "string \<Rightarrow> string \<Rightarrow> string option" where
  "strip_lit lit s = (if take (length lit) s = lit then Some (drop (length lit) s) else None)"

text \<open>
  A value, the members of an object after its brace or a comma, and the elements of an array. Every
  call spends one unit of fuel; \<open>depth\<close> counts the open brackets, at most 10000 as in the scanner.
\<close>

definition max_depth :: nat where
  "max_depth = 10000"

definition expect :: "char \<Rightarrow> string \<Rightarrow> string option" where
  "expect c s = (case skip_space s of [] \<Rightarrow> None | x # r \<Rightarrow> if x = c then Some r else None)"

fun parse_value :: "nat \<Rightarrow> nat \<Rightarrow> string \<Rightarrow> (json \<times> string) option"
and parse_members :: "nat \<Rightarrow> nat \<Rightarrow> string \<Rightarrow> ((string \<times> json) list \<times> string) option"
and parse_elements :: "nat \<Rightarrow> nat \<Rightarrow> string \<Rightarrow> (json list \<times> string) option" where
  "parse_value 0 depth s = None"
| "parse_value (Suc fuel) depth s =
     (case skip_space s of
        [] \<Rightarrow> None
      | c # r \<Rightarrow>
         if c = CHR ''{'' then
           (if max_depth \<le> depth then None
            else case expect (CHR ''}'') r of
                   Some r' \<Rightarrow> Some (JObj [], r')
                 | None \<Rightarrow> map_option (apfst JObj) (parse_members fuel (Suc depth) r))
         else if c = CHR ''['' then
           (if max_depth \<le> depth then None
            else case expect (CHR '']'') r of
                   Some r' \<Rightarrow> Some (JArr [], r')
                 | None \<Rightarrow> map_option (apfst JArr) (parse_elements fuel (Suc depth) r))
         else if c = CHR 0x22 then map_option (apfst JStr) (string_body r)
         else if c = CHR ''t'' then map_option (Pair (JBool True)) (strip_lit ''true'' (c # r))
         else if c = CHR ''f'' then map_option (Pair (JBool False)) (strip_lit ''false'' (c # r))
         else if c = CHR ''n'' then map_option (Pair JNull) (strip_lit ''null'' (c # r))
         else map_option (apfst JNum) (parse_number (c # r)))"
| "parse_members 0 depth s = None"
| "parse_members (Suc fuel) depth s =
     (case Option.bind (expect (CHR 0x22) s) string_body of
        None \<Rightarrow> None
      | Some (k, r1) \<Rightarrow>
         (case Option.bind (expect (CHR '':'') r1) (parse_value fuel depth) of
            None \<Rightarrow> None
          | Some (v, r2) \<Rightarrow>
             (case expect (CHR ''}'') r2 of
                Some r3 \<Rightarrow> Some ([(k, v)], r3)
              | None \<Rightarrow>
                 (case expect (CHR '','') r2 of
                    Some r3 \<Rightarrow> map_option (apfst ((#) (k, v))) (parse_members fuel depth r3)
                  | None \<Rightarrow> None))))"
| "parse_elements 0 depth s = None"
| "parse_elements (Suc fuel) depth s =
     (case parse_value fuel depth s of
        None \<Rightarrow> None
      | Some (v, r) \<Rightarrow>
         (case expect (CHR '']'') r of
            Some r' \<Rightarrow> Some ([v], r')
          | None \<Rightarrow>
             (case expect (CHR '','') r of
                Some r' \<Rightarrow> map_option (apfst ((#) v)) (parse_elements fuel depth r')
              | None \<Rightarrow> None)))"

text \<open>A whole text: one value and white space. Twice the length is enough fuel, since every second
  call consumes a character.\<close>

definition parse_json :: "string \<Rightarrow> json option" where
  "parse_json s = (case parse_value (2 * length s + 2) 0 s of
     Some (v, r) \<Rightarrow> if skip_space r = [] then Some v else None
   | None \<Rightarrow> None)"

text \<open>\<open>strconv.ParseInt\<close> and \<open>strconv.ParseUint\<close> in base 10 on a number literal.\<close>

definition digits_value :: "string \<Rightarrow> nat" where
  "digits_value s = foldl (\<lambda>n c. 10 * n + (code_of c - 48)) 0 s"

definition parse_uint64 :: "string \<Rightarrow> u64 option" where
  "parse_uint64 s = (if s \<noteq> [] \<and> list_all is_digit s \<and> digits_value s < 2 ^ 64
     then Some (of_nat (digits_value s)) else None)"

definition parse_int64 :: "string \<Rightarrow> int option" where
  "parse_int64 s =
     (let (neg, ds) = (case s of c # r \<Rightarrow> if c = CHR ''-'' then (True, r)
                                          else if c = CHR ''+'' then (False, r) else (False, s)
                               | [] \<Rightarrow> (False, s));
          n = int (digits_value ds)
      in if ds = [] \<or> \<not> list_all is_digit ds then None
         else if neg then (if n \<le> 2 ^ 63 then Some (- n) else None)
         else (if n < 2 ^ 63 then Some n else None))"

section \<open>Round trips\<close>

lemma hex_value_digit [simp]: "n < 16 \<Longrightarrow> hex_value (hex_digit n) = Some n"
  by (auto simp: hex_value_def hex_digit_def in_range_def)

lemma hex_value_literals [simp]:
  "hex_value (CHR ''0'') = Some 0" "hex_value (CHR ''2'') = Some 2"
  "hex_value (CHR ''8'') = Some 8" "hex_value (CHR ''9'') = Some 9"
  by (simp_all add: hex_value_def in_range_def)

lemma utf8_encode_separator:
  "utf8_encode 8232 = [CHR 0xE2, CHR 0x80, CHR 0xA8]" "utf8_encode 8233 = [CHR 0xE2, CHR 0x80, CHR 0xA9]"
  by (simp_all add: utf8_encode_def char_of_eq_iff)

lemma hex_digit_code: "x < 128 \<Longrightarrow> x div 16 < 16 \<and> x mod 16 < 16 \<and> x div 16 * 16 + x mod 16 = (x::nat)"
  by auto

lemma push_out_push_out [simp]: "push_out a (push_out b m) = push_out (a @ b) m"
  by (cases m) (auto simp: push_out_def)

lemma push_out_Some [simp]: "push_out a (Some (s, r)) = Some (a @ s, r)"
  by (simp add: push_out_def)

lemma not_special_code:
  "code_of c \<noteq> 34 \<Longrightarrow> c \<noteq> CHR 0x22" "code_of c \<noteq> 92 \<Longrightarrow> c \<noteq> CHR 0x5C"
  by auto

lemma string_body_escape_ascii:
  assumes "code_of c < 0x80"
  shows "string_body (escape_ascii c @ rest) = push_out [c] (string_body rest)"
proof -
  have u: "getu4 (CHR 0x5C # CHR ''u'' # CHR ''0'' # CHR ''0'' # hex_digit (code_of c div 16)
      # hex_digit (code_of c mod 16) # rest) = Some (code_of c)"
    using assms hex_digit_code [of "code_of c"] by simp
  have w: "utf8_width (c # rest) = Some 1"
    using assms by (simp add: utf8_width_def in_range_def)
  show ?thesis
    using assms u w
    by (auto simp: escape_ascii_def string_body.simps(2) simple_escape_def is_surrogate_def utf8_encode_def)
qed

lemma utf8_width_take:
  "utf8_width s = Some n \<Longrightarrow> utf8_width (take n s @ rest) = Some n"
proof (cases s)
  case (Cons b r)
  assume "utf8_width s = Some n"
  with Cons show ?thesis
    by (cases r; cases "tl r"; cases "tl (tl r)") (auto simp: utf8_width_def split: if_split_asm)
qed (simp add: utf8_width_def)

lemma width_three:
  assumes "utf8_width s = Some n" and "take 3 s = [CHR 0xE2, x, y]"
  shows "n = 3"
proof -
  from assms(2) obtain t where "s = CHR 0xE2 # x # y # t"
    by (cases s; cases "tl s"; cases "tl (tl s)") auto
  with assms(1) show ?thesis
    by (simp add: utf8_width_def in_range_def split: if_splits)
qed

lemma string_body_unicode:
  assumes "getu4 (CHR 0x5C # CHR ''u'' # p # q # r # s # rest) = Some x" and "\<not> is_surrogate x"
  shows "string_body (CHR 0x5C # CHR ''u'' # p # q # r # s # rest) = push_out (utf8_encode x) (string_body rest)"
  using assms by (subst string_body.simps(2)) (simp del: getu4.simps)

lemma string_body_separator:
  "string_body (CHR 0x5C # CHR ''u'' # CHR ''2'' # CHR ''0'' # CHR ''2'' # CHR ''8'' # rest)
     = push_out [CHR 0xE2, CHR 0x80, CHR 0xA8] (string_body rest)"
  "string_body (CHR 0x5C # CHR ''u'' # CHR ''2'' # CHR ''0'' # CHR ''2'' # CHR ''9'' # rest)
     = push_out [CHR 0xE2, CHR 0x80, CHR 0xA9] (string_body rest)"
proof -
  have "getu4 (CHR 0x5C # CHR ''u'' # CHR ''2'' # CHR ''0'' # CHR ''2'' # CHR ''8'' # rest) = Some 8232"
    "getu4 (CHR 0x5C # CHR ''u'' # CHR ''2'' # CHR ''0'' # CHR ''2'' # CHR ''9'' # rest) = Some 8233"
    by simp_all
  from this [THEN string_body_unicode] show
    "string_body (CHR 0x5C # CHR ''u'' # CHR ''2'' # CHR ''0'' # CHR ''2'' # CHR ''8'' # rest)
       = push_out [CHR 0xE2, CHR 0x80, CHR 0xA8] (string_body rest)"
    "string_body (CHR 0x5C # CHR ''u'' # CHR ''2'' # CHR ''0'' # CHR ''2'' # CHR ''9'' # rest)
       = push_out [CHR 0xE2, CHR 0x80, CHR 0xA9] (string_body rest)"
    by (simp_all add: is_surrogate_def utf8_encode_separator)
qed

lemma string_body_rune:
  assumes "utf8_width (c # r) = Some n" and "\<not> code_of c < 0x80"
  shows "string_body (take n (c # r) @ rest) = push_out (take n (c # r)) (string_body rest)"
proof -
  from assms(1) have n: "1 \<le> n" "n \<le> Suc (length r)" using utf8_width_bounds by fastforce+
  obtain m where m: "n = Suc m" using n(1) by (cases n) auto
  have "c \<noteq> CHR 0x22" "c \<noteq> CHR 0x5C" "\<not> code_of c < 0x20" using assms(2) by auto
  moreover have "utf8_width (c # take m r @ rest) = Some n"
    using utf8_width_take [OF assms(1), of rest] m by simp
  ultimately show ?thesis using m n by (simp add: string_body.simps(2))
qed

lemma string_body_escape:
  "utf8_valid s \<Longrightarrow> string_body (json_escape s @ CHR 0x22 # r) = Some (s, r)"
proof (induction s rule: utf8_valid.induct)
  case (1 s)
  show ?case
  proof (cases s)
    case Nil
    then show ?thesis by (simp add: string_body.simps(2))
  next
    case (Cons c t)
    with "1.prems" obtain n where n: "utf8_width s = Some n" and v: "utf8_valid (drop n s)"
      by (subst (asm) utf8_valid.simps) (auto split: option.splits)
    from "1.IH" [OF n v] Cons
    have IH: "string_body (json_escape (drop n s) @ CHR 0x22 # r) = Some (drop n s, r)" by simp
    show ?thesis
    proof (cases "code_of c < 0x80")
      case True
      with n Cons have "n = 1" by (simp add: utf8_width_def in_range_def)
      with True Cons IH show ?thesis
        by (simp add: json_escape.simps(2) string_body_escape_ascii)
    next
      case False
      with Cons n IH show ?thesis
        using string_body_rune [of c t n "json_escape (drop n s) @ CHR 0x22 # r"]
          width_three [OF n] append_take_drop_id [of n s]
        by (auto simp: json_escape.simps(2) string_body_separator simp del: append_take_drop_id)
    qed
  qed
qed

text \<open>Decimal integers.\<close>

lemma digit_char_code [simp]: "n < 10 \<Longrightarrow> code_of (digit_char n) = 48 + n"
  by (simp add: digit_char_def)

lemma digit_char_digit [simp]: "n < 10 \<Longrightarrow> is_digit (digit_char n)"
  by (simp add: is_digit_def in_range_def)

lemma dec_nat_nonempty [simp]: "dec_nat n \<noteq> []"
  by (subst dec_nat.simps) simp

lemma dec_nat_digits: "list_all is_digit (dec_nat n)"
proof (induction n rule: dec_nat.induct)
  case (1 n)
  then show ?case by (subst dec_nat.simps) auto
qed

lemma digits_value_snoc: "digits_value (s @ [c]) = 10 * digits_value s + (code_of c - 48)"
  by (simp add: digits_value_def)

lemma digits_value_dec_nat [simp]: "digits_value (dec_nat n) = n"
proof (induction n rule: dec_nat.induct)
  case (1 n)
  show ?case
  proof (cases "n < 10")
    case True
    then show ?thesis by (subst dec_nat.simps) (simp add: digits_value_def)
  next
    case False
    with 1 show ?thesis by (subst dec_nat.simps) (simp add: digits_value_snoc)
  qed
qed

lemma dec_nat_head: "0 < n \<Longrightarrow> hd (dec_nat n) \<noteq> CHR ''0''"
proof (induction n rule: dec_nat.induct)
  case (1 n)
  show ?case
  proof (cases "n < 10")
    case True
    then have "code_of (digit_char n) \<noteq> 48" using "1.prems" by simp
    then have "digit_char n \<noteq> CHR ''0''" by auto
    with True show ?thesis by (subst dec_nat.simps) simp
  next
    case False
    with 1 have "hd (dec_nat (n div 10)) \<noteq> CHR ''0''" by simp
    with False show ?thesis by (subst dec_nat.simps) simp
  qed
qed

definition ends_number :: "string \<Rightarrow> bool" where
  "ends_number r \<longleftrightarrow> (case r of [] \<Rightarrow> True | c # _ \<Rightarrow> \<not> is_digit c \<and> c \<noteq> CHR ''.'' \<and> c \<noteq> CHR ''e'' \<and> c \<noteq> CHR ''E'')"

lemma split_digits_append:
  "list_all is_digit ds \<Longrightarrow> ends_number r \<Longrightarrow> split_digits (ds @ r) = (ds, r)"
  by (cases r) (auto simp: split_digits_def ends_number_def takeWhile_append dropWhile_append list_all_iff)

lemma number_int_dec_nat:
  assumes "ends_number r"
  shows "number_int (dec_nat n @ r) = Some (dec_nat n, r)"
proof (cases "n = 0")
  case True
  have "dec_nat 0 = ''0''" by (subst dec_nat.simps) (simp add: digit_char_def char_of_eq_iff)
  then show ?thesis using assms True split_digits_append [OF dec_nat_digits [of n] assms]
    by (simp add: number_int_def)
next
  case False
  then have "hd (dec_nat n) \<noteq> CHR ''0''" by (simp add: dec_nat_head)
  with split_digits_append [OF dec_nat_digits [of n] assms] show ?thesis
    by (cases "dec_nat n") (auto simp: number_int_def)
qed

lemma number_tail: "ends_number r \<Longrightarrow> number_frac r = Some ([], r) \<and> number_exp r = Some ([], r)"
  by (cases r) (auto simp: ends_number_def number_frac_def number_exp_def)

lemma dec_nat_no_sign: "dec_nat n = c # r \<Longrightarrow> c \<noteq> CHR ''-'' \<and> c \<noteq> CHR ''+''"
  using dec_nat_digits [of n] by (auto simp: is_digit_def in_range_def)

lemma parse_number_dec_nat:
  assumes "ends_number r"
  shows "parse_number (dec_nat n @ r) = Some (dec_nat n, r)"
proof -
  obtain c t where c: "dec_nat n = c # t" by (cases "dec_nat n") auto
  then have "c \<noteq> CHR ''-''" by (blast dest: dec_nat_no_sign)
  then show ?thesis
    using number_int_dec_nat [OF assms, of n] number_tail [OF assms] c by (simp add: parse_number_def)
qed

lemma parse_number_dec_int:
  assumes "ends_number r"
  shows "parse_number (dec_int i @ r) = Some (dec_int i, r)"
  using number_int_dec_nat [OF assms, of "nat (- i)"] number_tail [OF assms] parse_number_dec_nat [OF assms]
  by (auto simp: dec_int_def parse_number_def)

lemma parse_uint64_dec_nat: "parse_uint64 (dec_nat (unat (x :: u64))) = Some x"
proof -
  have "unat x < 2 ^ 64" using unsigned_less [of x] by simp
  then show ?thesis by (simp add: parse_uint64_def dec_nat_digits)
qed

lemma parse_int64_dec_int:
  assumes "- (2 ^ 63) \<le> i" and "i < 2 ^ 63"
  shows "parse_int64 (dec_int i) = Some i"
proof (cases "i < 0")
  case True
  then show ?thesis using assms dec_nat_digits [of "nat (- i)"]
    by (simp add: parse_int64_def dec_int_def)
next
  case False
  obtain c t where c: "dec_nat (nat i) = c # t" by (cases "dec_nat (nat i)") auto
  then have "c \<noteq> CHR ''-''" "c \<noteq> CHR ''+''" by (blast dest: dec_nat_no_sign)+
  moreover have "list_all is_digit (c # t)" "digits_value (c # t) = nat i"
    using dec_nat_digits [of "nat i"] digits_value_dec_nat [of "nat i"] c by simp_all
  ultimately show ?thesis using assms False c
    by (auto simp: parse_int64_def dec_int_def)
qed

end
