(* ===== verification/Protocol.thy ===== *)
theory Protocol
  imports Json
begin

text \<open>
  The wire protocol of internal/tunnel/protocol.go: the frame header with its JSON form, the binary
  envelope of \<open>writeFrame\<close> and \<open>readFrame\<close>, and the round trip between the two. The WebSocket
  package is a parameter of the program: here a message is the byte string that
  \<open>websocket.Message.Send\<close> is given and \<open>Receive\<close> returns.
\<close>

section \<open>Constants\<close>

definition wsProtocol :: string where
  "wsProtocol = ''moltssh.v1''"

definition maxHeaderBytes :: nat where
  "maxHeaderBytes = 65536"

definition maxPayloadBytes :: nat where
  "maxPayloadBytes = 1048576"

definition dirClientToServer :: string where
  "dirClientToServer = ''client_to_server''"

definition dirServerToClient :: string where
  "dirServerToClient = ''server_to_client''"

lemma directions_distinct [simp]:
  "dirClientToServer \<noteq> dirServerToClient" "dirServerToClient \<noteq> dirClientToServer"
  by (simp_all add: dirClientToServer_def dirServerToClient_def)

section \<open>The frame header\<close>

record frame_header =
  h_type :: string
  h_version :: int
  h_name :: string
  h_resume :: bool
  h_session_id :: string
  h_epoch :: u64
  h_direction :: string
  h_offset :: u64
  h_received_offset :: u64
  h_c2s_rx :: u64
  h_s2c_rx :: u64
  h_nonce :: string
  h_sent_at :: int
  h_code :: string
  h_message :: string

definition zero_header :: frame_header where
  "zero_header = \<lparr>h_type = '''', h_version = 0, h_name = '''', h_resume = False, h_session_id = '''',
     h_epoch = 0, h_direction = '''', h_offset = 0, h_received_offset = 0, h_c2s_rx = 0, h_s2c_rx = 0,
     h_nonce = '''', h_sent_at = 0, h_code = '''', h_message = ''''\<rparr>"

lemma zero_header_simps [simp]:
  "h_type zero_header = ''''" "h_version zero_header = 0" "h_name zero_header = ''''"
  "h_resume zero_header = False" "h_session_id zero_header = ''''" "h_epoch zero_header = 0"
  "h_direction zero_header = ''''" "h_offset zero_header = 0" "h_received_offset zero_header = 0"
  "h_c2s_rx zero_header = 0" "h_s2c_rx zero_header = 0" "h_nonce zero_header = ''''"
  "h_sent_at zero_header = 0" "h_code zero_header = ''''" "h_message zero_header = ''''"
  by (simp_all add: zero_header_def)

type_synonym frame = "frame_header \<times> bytes"

section \<open>JSON form of a header\<close>

text \<open>\<open>json.Marshal\<close> of a compact value.\<close>

definition render_member :: "string \<times> string \<Rightarrow> string" where
  "render_member m = json_string (fst m) @ '':'' @ snd m"

fun render_json :: "json \<Rightarrow> string" where
  "render_json JNull = ''null''"
| "render_json (JBool b) = (if b then ''true'' else ''false'')"
| "render_json (JNum s) = s"
| "render_json (JStr s) = json_string s"
| "render_json (JArr vs) = ''['' @ join_with '','' (map render_json vs) @ '']''"
| "render_json (JObj ms) = ''{'' @ join_with '','' (map (\<lambda>(k, v). render_member (k, render_json v)) ms) @ ''}''"

text \<open>The struct tags of \<open>frameHeader\<close>: every field but \<open>type\<close> is \<open>omitempty\<close>.\<close>

definition unless_zero :: "bool \<Rightarrow> string \<Rightarrow> json \<Rightarrow> (string \<times> json) list" where
  "unless_zero zero name v = (if zero then [] else [(name, v)])"

definition header_members :: "frame_header \<Rightarrow> (string \<times> json) list" where
  "header_members h =
     [(''type'', JStr (h_type h))]
     @ unless_zero (h_version h = 0) ''version'' (JNum (dec_int (h_version h)))
     @ unless_zero (h_name h = '''') ''name'' (JStr (h_name h))
     @ unless_zero (\<not> h_resume h) ''resume'' (JBool (h_resume h))
     @ unless_zero (h_session_id h = '''') ''session_id'' (JStr (h_session_id h))
     @ unless_zero (h_epoch h = 0) ''epoch'' (JNum (dec_nat (unat (h_epoch h))))
     @ unless_zero (h_direction h = '''') ''direction'' (JStr (h_direction h))
     @ unless_zero (h_offset h = 0) ''offset'' (JNum (dec_nat (unat (h_offset h))))
     @ unless_zero (h_received_offset h = 0) ''received_offset'' (JNum (dec_nat (unat (h_received_offset h))))
     @ unless_zero (h_c2s_rx h = 0) ''client_to_server_rx'' (JNum (dec_nat (unat (h_c2s_rx h))))
     @ unless_zero (h_s2c_rx h = 0) ''server_to_client_rx'' (JNum (dec_nat (unat (h_s2c_rx h))))
     @ unless_zero (h_nonce h = '''') ''nonce'' (JStr (h_nonce h))
     @ unless_zero (h_sent_at h = 0) ''sent_at_unix_nano'' (JNum (dec_int (h_sent_at h)))
     @ unless_zero (h_code h = '''') ''code'' (JStr (h_code h))
     @ unless_zero (h_message h = '''') ''message'' (JStr (h_message h))"

definition marshal_header :: "frame_header \<Rightarrow> string" where
  "marshal_header h = render_json (JObj (header_members h))"

text \<open>
  \<open>json.Unmarshal\<close> into a \<open>frameHeader\<close>: members in order, an exact name first, then a name equal up
  to the case folding of encoding/json (which also folds the Kelvin sign and the long s); unknown
  names are skipped, \<open>null\<close> leaves a field as it is, and a value of the wrong type fails the call.
\<close>

function fold_name :: "string \<Rightarrow> string" where
  "fold_name [] = []"
| "fold_name (c # r) =
     (if take 3 (c # r) = [CHR 0xE2, CHR 0x84, CHR 0xAA] then CHR ''K'' # fold_name (drop 2 r)
      else if take 2 (c # r) = [CHR 0xC5, CHR 0xBF] then CHR ''S'' # fold_name (drop 1 r)
      else if in_range 97 122 c then char_of (code_of c - 32) # fold_name r
      else c # fold_name r)"
  by pat_completeness auto
termination
  by (relation "measure length") auto

definition header_names :: "string list" where
  "header_names = [''type'', ''version'', ''name'', ''resume'', ''session_id'', ''epoch'', ''direction'',
     ''offset'', ''received_offset'', ''client_to_server_rx'', ''server_to_client_rx'', ''nonce'',
     ''sent_at_unix_nano'', ''code'', ''message'']"

definition resolve_name :: "string \<Rightarrow> string \<Rightarrow> bool" where
  "resolve_name name key \<longleftrightarrow> key = name \<or> (key \<notin> set header_names \<and> fold_name key = fold_name name)"

definition set_string :: "(string \<Rightarrow> frame_header) \<Rightarrow> frame_header \<Rightarrow> json \<Rightarrow> frame_header option" where
  "set_string upd h v = (case v of JNull \<Rightarrow> Some h | JStr s \<Rightarrow> Some (upd s) | _ \<Rightarrow> None)"

definition set_bool :: "(bool \<Rightarrow> frame_header) \<Rightarrow> frame_header \<Rightarrow> json \<Rightarrow> frame_header option" where
  "set_bool upd h v = (case v of JNull \<Rightarrow> Some h | JBool b \<Rightarrow> Some (upd b) | _ \<Rightarrow> None)"

definition set_int :: "(int \<Rightarrow> frame_header) \<Rightarrow> frame_header \<Rightarrow> json \<Rightarrow> frame_header option" where
  "set_int upd h v = (case v of JNull \<Rightarrow> Some h | JNum s \<Rightarrow> map_option upd (parse_int64 s) | _ \<Rightarrow> None)"

definition set_uint :: "(u64 \<Rightarrow> frame_header) \<Rightarrow> frame_header \<Rightarrow> json \<Rightarrow> frame_header option" where
  "set_uint upd h v = (case v of JNull \<Rightarrow> Some h | JNum s \<Rightarrow> map_option upd (parse_uint64 s) | _ \<Rightarrow> None)"

definition set_member :: "string \<Rightarrow> json \<Rightarrow> frame_header \<Rightarrow> frame_header option" where
  "set_member key v h =
     (if resolve_name ''type'' key then set_string (\<lambda>x. h\<lparr>h_type := x\<rparr>) h v
      else if resolve_name ''version'' key then set_int (\<lambda>x. h\<lparr>h_version := x\<rparr>) h v
      else if resolve_name ''name'' key then set_string (\<lambda>x. h\<lparr>h_name := x\<rparr>) h v
      else if resolve_name ''resume'' key then set_bool (\<lambda>x. h\<lparr>h_resume := x\<rparr>) h v
      else if resolve_name ''session_id'' key then set_string (\<lambda>x. h\<lparr>h_session_id := x\<rparr>) h v
      else if resolve_name ''epoch'' key then set_uint (\<lambda>x. h\<lparr>h_epoch := x\<rparr>) h v
      else if resolve_name ''direction'' key then set_string (\<lambda>x. h\<lparr>h_direction := x\<rparr>) h v
      else if resolve_name ''offset'' key then set_uint (\<lambda>x. h\<lparr>h_offset := x\<rparr>) h v
      else if resolve_name ''received_offset'' key then set_uint (\<lambda>x. h\<lparr>h_received_offset := x\<rparr>) h v
      else if resolve_name ''client_to_server_rx'' key then set_uint (\<lambda>x. h\<lparr>h_c2s_rx := x\<rparr>) h v
      else if resolve_name ''server_to_client_rx'' key then set_uint (\<lambda>x. h\<lparr>h_s2c_rx := x\<rparr>) h v
      else if resolve_name ''nonce'' key then set_string (\<lambda>x. h\<lparr>h_nonce := x\<rparr>) h v
      else if resolve_name ''sent_at_unix_nano'' key then set_int (\<lambda>x. h\<lparr>h_sent_at := x\<rparr>) h v
      else if resolve_name ''code'' key then set_string (\<lambda>x. h\<lparr>h_code := x\<rparr>) h v
      else if resolve_name ''message'' key then set_string (\<lambda>x. h\<lparr>h_message := x\<rparr>) h v
      else Some h)"

fun set_members :: "(string \<times> json) list \<Rightarrow> frame_header \<Rightarrow> frame_header option" where
  "set_members [] h = Some h"
| "set_members ((k, v) # ms) h = Option.bind (set_member k v h) (set_members ms)"

definition unmarshal_header :: "string \<Rightarrow> frame_header option" where
  "unmarshal_header s = (case parse_json s of
     Some (JObj ms) \<Rightarrow> set_members ms zero_header
   | Some JNull \<Rightarrow> Some zero_header
   | _ \<Rightarrow> None)"

section \<open>The envelope\<close>

type_synonym u32 = "32 word"

definition bytes_of :: "string \<Rightarrow> bytes" where
  "bytes_of s = map (\<lambda>c. of_nat (code_of c)) s"

definition string_of :: "bytes \<Rightarrow> string" where
  "string_of bs = map (\<lambda>b. char_of (unat b)) bs"

text \<open>\<open>binary.BigEndian\<close>.\<close>

definition put_u32 :: "u32 \<Rightarrow> bytes" where
  "put_u32 x = (let n = unat x in
     [of_nat (n div 16777216), of_nat (n div 65536), of_nat (n div 256), of_nat n])"

fun get_u32 :: "bytes \<Rightarrow> nat" where
  "get_u32 (a # b # c # d # _) = unat a * 16777216 + unat b * 65536 + unat c * 256 + unat d"
| "get_u32 _ = 0"

text \<open>The text of encoding/json's own errors is not modelled.\<close>

definition json_error :: gerror where
  "json_error = NetErr ''json''"

definition writeFrame :: "frame_header \<Rightarrow> bytes \<Rightarrow> bytes result" where
  "writeFrame h payload =
     (if h_type h = '''' then Inl (Errorf ''frame type is required'')
      else if h_type h \<noteq> ''data'' \<and> length payload \<noteq> 0 then
        Inl (Errorf (h_type h @ '' frame must not carry payload''))
      else if h_type h = ''data'' \<and> maxPayloadBytes < length payload then
        Inl (Errorf ''data payload too large'')
      else let header = bytes_of (marshal_header h) in
        if maxHeaderBytes < length header then Inl (Errorf ''frame header too large'')
        else Inr (put_u32 (of_nat (length header)) @ put_u32 (of_nat (length payload)) @ header @ payload))"

definition readFrame :: "bytes \<Rightarrow> frame result" where
  "readFrame msg =
     (if length msg < 8 then Inl (FrameError (Errorf ''truncated frame envelope''))
      else let headerLen = get_u32 (take 4 msg); payloadLen = get_u32 (take 4 (drop 4 msg)) in
        if maxHeaderBytes < headerLen then Inl (FrameError (Errorf ''frame header too large''))
        else if maxPayloadBytes < payloadLen then Inl (FrameError (Errorf ''frame payload too large''))
        else let want = 8 + headerLen + payloadLen in
          if length msg \<noteq> want then Inl (FrameError (Errorf ''truncated frame body''))
          else case unmarshal_header (string_of (take headerLen (drop 8 msg))) of
            None \<Rightarrow> Inl (FrameError (Wrapf ''bad frame header: '' json_error))
          | Some h \<Rightarrow>
              if h_type h = '''' then Inl (FrameError (Errorf ''frame type is required''))
              else let payload = drop (8 + headerLen) msg in
                if h_type h \<noteq> ''data'' \<and> length payload \<noteq> 0 then
                  Inl (FrameError (Errorf (h_type h @ '' frame must not carry payload'')))
                else Inr (h, payload))"

section \<open>Round trip of the header\<close>

definition scalar_ok :: "json \<Rightarrow> bool" where
  "scalar_ok v \<longleftrightarrow> (case v of
     JStr s \<Rightarrow> utf8_valid s | JNum s \<Rightarrow> (\<exists>i. s = dec_int i) | JBool b \<Rightarrow> True | JNull \<Rightarrow> True | _ \<Rightarrow> False)"

lemma skip_space_id: "\<not> json_space c \<Longrightarrow> skip_space (c # r) = c # r"
  by (simp add: skip_space_def)

lemma dec_int_head:
  assumes "dec_int i = c # r"
  shows "is_digit c \<or> c = CHR ''-''"
  using assms dec_nat_digits [of "nat i"] by (auto simp: dec_int_def split: if_splits)

lemma dec_int_nonempty: "dec_int i \<noteq> []"
  by (simp add: dec_int_def)

lemma digit_not_special:
  assumes "is_digit c \<or> c = CHR ''-''"
  shows "\<not> json_space c" "c \<noteq> CHR ''{''" "c \<noteq> CHR ''[''" "c \<noteq> CHR 0x22"
    "c \<noteq> CHR ''t''" "c \<noteq> CHR ''f''" "c \<noteq> CHR ''n''"
  using assms by (auto simp: is_digit_def in_range_def json_space_def)

lemma parse_value_scalar:
  assumes "scalar_ok v" and "ends_number r"
  shows "parse_value (Suc fuel) depth (render_json v @ r) = Some (v, r)"
proof (cases v)
  case (JNum s)
  with assms(1) obtain i where s: "s = dec_int i" by (auto simp: scalar_ok_def)
  obtain c t where c: "dec_int i = c # t" using dec_int_nonempty by (cases "dec_int i") auto
  from dec_int_head [OF c] have "\<not> json_space c" "c \<noteq> CHR ''{''" "c \<noteq> CHR ''[''" "c \<noteq> CHR 0x22"
    "c \<noteq> CHR ''t''" "c \<noteq> CHR ''f''" "c \<noteq> CHR ''n''" by (rule digit_not_special)+
  with parse_number_dec_int [OF assms(2), of i] JNum s c show ?thesis
    by (simp add: skip_space_id)
next
  case (JStr s)
  with assms(1) string_body_escape [of s r] show ?thesis
    by (simp add: scalar_ok_def json_string_def skip_space_id json_space_def)
qed (use assms in \<open>auto simp: scalar_ok_def skip_space_id json_space_def strip_lit_def\<close>)

lemma expect_head: "\<not> json_space c \<Longrightarrow> expect d (c # r) = (if c = d then Some r else None)"
  by (simp add: expect_def skip_space_id)

lemma expect_simps [simp]:
  "expect (CHR 0x22) (CHR 0x22 # r) = Some r"
  "expect (CHR '':'') (CHR '':'' # r) = Some r"
  "expect (CHR '','') (CHR '','' # r) = Some r"
  "expect (CHR ''}'') (CHR ''}'' # r) = Some r"
  "expect (CHR ''}'') (CHR '','' # r) = None"
  "expect (CHR ''}'') (CHR 0x22 # r) = None"
  by (simp_all add: expect_head json_space_def)

definition member_ok :: "string \<times> json \<Rightarrow> bool" where
  "member_ok m \<longleftrightarrow> utf8_valid (fst m) \<and> scalar_ok (snd m)"

abbreviation render_pair :: "string \<times> json \<Rightarrow> string" where
  "render_pair \<equiv> \<lambda>(k, v). render_member (k, render_json v)"

lemma ends_number_punct [simp]: "ends_number (CHR ''}'' # r)" "ends_number (CHR '','' # r)"
  by (simp_all add: ends_number_def is_digit_def in_range_def)

lemma parse_members_render:
  assumes "list_all member_ok ms" and "ms \<noteq> []" and "length ms < fuel"
  shows "parse_members fuel depth (join_with '','' (map render_pair ms) @ CHR ''}'' # r) = Some (ms, r)"
  using assms
proof (induction ms arbitrary: fuel)
  case Nil
  then show ?case by simp
next
  case (Cons m ms)
  obtain k v where m: "m = (k, v)" by (cases m)
  from Cons.prems(3) obtain g where fuel: "fuel = Suc (Suc g)" and g: "ms \<noteq> [] \<Longrightarrow> length ms < Suc g"
    by (cases fuel; cases "fuel - 1") auto
  from Cons.prems(1) m have k: "utf8_valid k" and v: "scalar_ok v"
    by (simp_all add: member_ok_def)
  from Cons.prems(1) have ms: "list_all member_ok ms" by simp
  show ?case
  proof (cases ms)
    case Nil
    then show ?thesis
      using m fuel string_body_escape [OF k] parse_value_scalar [OF v, of "CHR ''}'' # r" g depth]
      by (simp add: render_member_def json_string_def)
  next
    case (Cons m' ms')
    then have "parse_members (Suc g) depth (join_with '','' (map render_pair ms) @ CHR ''}'' # r) = Some (ms, r)"
      using ms g by (intro Cons.IH) auto
    then show ?thesis
      using m fuel string_body_escape [OF k] Cons
        parse_value_scalar [OF v, of "CHR '','' # join_with '','' (map render_pair ms) @ CHR ''}'' # r" g depth]
      by (simp add: render_member_def json_string_def del: parse_members.simps parse_value.simps
          add: parse_members.simps(2) [of "Suc g"])
  qed
qed

lemma length_join_members: "length ms \<le> length (join_with '','' (map render_pair ms))"
proof (induction ms)
  case (Cons m ms)
  then show ?case by (cases ms) (auto simp: render_member_def json_string_def split: prod.splits)
qed simp

lemma parse_value_object:
  assumes "parse_members fuel (Suc depth) (CHR 0x22 # t) = Some (ms, r)" and "depth < max_depth"
  shows "parse_value (Suc fuel) depth (CHR ''{'' # CHR 0x22 # t) = Some (JObj ms, r)"
  using assms by (simp add: skip_space_id json_space_def)

lemma parse_json_render:
  assumes "list_all member_ok ms" and "ms \<noteq> []"
  shows "parse_json (render_json (JObj ms)) = Some (JObj ms)"
proof -
  let ?body = "join_with '','' (map render_pair ms) @ CHR ''}'' # []"
  obtain t where t: "?body = CHR 0x22 # t"
    using assms(2) by (cases ms; cases "tl ms") (auto simp: render_member_def json_string_def split: prod.splits)
  have len: "length ms < 2 * length ?body + 3" using length_join_members [of ms] by simp
  have "parse_members (2 * length ?body + 3) (Suc 0) ?body = Some (ms, [])"
    using parse_members_render [OF assms len, of "Suc 0" "[]"] by simp
  then have "parse_value (Suc (2 * length ?body + 3)) 0 (CHR ''{'' # ?body) = Some (JObj ms, [])"
    unfolding t by (rule parse_value_object) (simp add: max_depth_def)
  moreover have "2 * length (CHR ''{'' # ?body) + 2 = Suc (2 * length ?body + 3)" by simp
  ultimately have "parse_json (CHR ''{'' # ?body) = Some (JObj ms)"
    by (simp only: parse_json_def option.case prod.case) (simp add: skip_space_def)
  then show ?thesis by simp
qed

lemma dec_nat_is_dec_int: "\<exists>i. dec_nat n = dec_int i"
  by (rule exI [of _ "int n"]) (simp add: dec_int_def)

definition wf_header :: "frame_header \<Rightarrow> bool" where
  "wf_header h \<longleftrightarrow> list_all utf8_valid [h_type h, h_name h, h_session_id h, h_direction h, h_nonce h, h_code h, h_message h]
     \<and> - (2 ^ 63) \<le> h_version h \<and> h_version h < 2 ^ 63 \<and> - (2 ^ 63) \<le> h_sent_at h \<and> h_sent_at h < 2 ^ 63"

lemma utf8_valid_ascii: "list_all (\<lambda>c. code_of c < 0x80) s \<Longrightarrow> utf8_valid s"
proof (induction s)
  case (Cons c s)
  then have "utf8_width (c # s) = Some 1" by (simp add: utf8_width_def in_range_def)
  with Cons show ?case by (subst utf8_valid.simps) simp
qed (subst utf8_valid.simps, simp)

lemma header_members_ok: "wf_header h \<Longrightarrow> list_all member_ok (header_members h)"
  using dec_nat_is_dec_int
  by (auto simp: header_members_def unless_zero_def member_ok_def scalar_ok_def wf_header_def utf8_valid_ascii)

lemma set_members_append:
  "set_members (xs @ ys) h = Option.bind (set_members xs h) (set_members ys)"
  by (induction xs arbitrary: h) (auto split: bind_split)

lemma resolve_exact:
  "a \<in> set header_names \<Longrightarrow> resolve_name b a \<longleftrightarrow> a = b"
  by (auto simp: resolve_name_def)

lemma set_members_unless:
  "set_members (unless_zero z name v) h = (if z then Some h else set_member name v h)"
  by (cases "set_member name v h") (auto simp: unless_zero_def)

text \<open>Decoding the encoding of one field sets that field, whether it was written or left out.\<close>

lemmas set_field_defs =
  set_members_unless set_member_def resolve_exact header_names_def set_string_def set_int_def set_uint_def
  set_bool_def parse_uint64_dec_nat

lemma set_string_fields:
  "h_name h = [] \<Longrightarrow> set_members (unless_zero (x = []) ''name'' (JStr x)) h = Some (h\<lparr>h_name := x\<rparr>)"
  "h_session_id h = [] \<Longrightarrow> set_members (unless_zero (x = []) ''session_id'' (JStr x)) h = Some (h\<lparr>h_session_id := x\<rparr>)"
  "h_direction h = [] \<Longrightarrow> set_members (unless_zero (x = []) ''direction'' (JStr x)) h = Some (h\<lparr>h_direction := x\<rparr>)"
  "h_nonce h = [] \<Longrightarrow> set_members (unless_zero (x = []) ''nonce'' (JStr x)) h = Some (h\<lparr>h_nonce := x\<rparr>)"
  "h_code h = [] \<Longrightarrow> set_members (unless_zero (x = []) ''code'' (JStr x)) h = Some (h\<lparr>h_code := x\<rparr>)"
  "h_message h = [] \<Longrightarrow> set_members (unless_zero (x = []) ''message'' (JStr x)) h = Some (h\<lparr>h_message := x\<rparr>)"
  by (cases h; simp add: set_field_defs)+

lemma set_uint_fields:
  "h_epoch h = 0 \<Longrightarrow> set_members (unless_zero (x = 0) ''epoch'' (JNum (dec_nat (unat x)))) h = Some (h\<lparr>h_epoch := x\<rparr>)"
  "h_offset h = 0 \<Longrightarrow> set_members (unless_zero (x = 0) ''offset'' (JNum (dec_nat (unat x)))) h = Some (h\<lparr>h_offset := x\<rparr>)"
  "h_received_offset h = 0 \<Longrightarrow>
     set_members (unless_zero (x = 0) ''received_offset'' (JNum (dec_nat (unat x)))) h = Some (h\<lparr>h_received_offset := x\<rparr>)"
  "h_c2s_rx h = 0 \<Longrightarrow>
     set_members (unless_zero (x = 0) ''client_to_server_rx'' (JNum (dec_nat (unat x)))) h = Some (h\<lparr>h_c2s_rx := x\<rparr>)"
  "h_s2c_rx h = 0 \<Longrightarrow>
     set_members (unless_zero (x = 0) ''server_to_client_rx'' (JNum (dec_nat (unat x)))) h = Some (h\<lparr>h_s2c_rx := x\<rparr>)"
  by (cases h; simp add: set_field_defs)+

lemma set_other_fields:
  "h_resume h = False \<Longrightarrow> set_members (unless_zero (\<not> b) ''resume'' (JBool b)) h = Some (h\<lparr>h_resume := b\<rparr>)"
  "h_version h = 0 \<Longrightarrow> parse_int64 (dec_int i) = Some i \<Longrightarrow>
     set_members (unless_zero (i = 0) ''version'' (JNum (dec_int i))) h = Some (h\<lparr>h_version := i\<rparr>)"
  "h_sent_at h = 0 \<Longrightarrow> parse_int64 (dec_int i) = Some i \<Longrightarrow>
     set_members (unless_zero (i = 0) ''sent_at_unix_nano'' (JNum (dec_int i))) h = Some (h\<lparr>h_sent_at := i\<rparr>)"
  "set_members ((''type'', JStr x) # ms) h = set_members ms (h\<lparr>h_type := x\<rparr>)"
  by (cases h; simp add: set_field_defs)+

lemma set_members_header:
  assumes "wf_header h"
  shows "set_members (header_members h) zero_header = Some h"
proof -
  have ints: "parse_int64 (dec_int (h_version h)) = Some (h_version h)"
    "parse_int64 (dec_int (h_sent_at h)) = Some (h_sent_at h)"
    using assms by (auto simp: wf_header_def intro!: parse_int64_dec_int)
  show ?thesis
    by (simp add: header_members_def set_members_append set_string_fields set_uint_fields set_other_fields ints
        del: set_members.simps)
qed

lemma header_members_nonempty: "header_members h \<noteq> []"
  by (simp add: header_members_def)

lemma unmarshal_marshal: "wf_header h \<Longrightarrow> unmarshal_header (marshal_header h) = Some h"
  by (simp add: unmarshal_header_def marshal_header_def parse_json_render header_members_ok set_members_header
      header_members_nonempty del: render_json.simps)

section \<open>Round trip of a frame\<close>

lemma string_of_bytes_of [simp]: "string_of (bytes_of s) = s"
  by (simp add: string_of_def bytes_of_def comp_def unat_of_nat)

lemma length_put_u32 [simp]: "length (put_u32 x) = 4"
  by (simp add: put_u32_def Let_def)

lemma get_put_u32 [simp]: "get_u32 (put_u32 x) = unat x"
proof -
  have "unat x < 4294967296" using unsigned_less [of x] by simp
  moreover obtain n where n: "unat x = n" by simp
  ultimately have "n < 4294967296" by simp
  then have "n div 16777216 mod 256 = n div 16777216" by simp
  moreover have "n div 65536 = n div 256 div 256" "n div 16777216 = n div 65536 div 256"
    by (simp_all add: div_mult2_eq [symmetric])
  moreover note div_mult_mod_eq [of n 256] div_mult_mod_eq [of "n div 256" 256] div_mult_mod_eq [of "n div 65536" 256]
  ultimately have "n div 16777216 mod 256 * 16777216 + n div 65536 mod 256 * 65536 + n div 256 mod 256 * 256
      + n mod 256 = n"
    by linarith
  then show ?thesis by (simp only: put_u32_def Let_def n get_u32.simps) (simp add: unat_of_nat del: mod_less)
qed

lemma writeFrame_Inr:
  assumes "writeFrame h p = Inr msg"
  obtains "h_type h \<noteq> []" and "h_type h \<noteq> ''data'' \<Longrightarrow> p = []" and "length p \<le> maxPayloadBytes"
    and "length (marshal_header h) \<le> maxHeaderBytes"
    and "msg = put_u32 (of_nat (length (marshal_header h))) @ put_u32 (of_nat (length p))
           @ bytes_of (marshal_header h) @ p"
proof -
  have "length p \<le> maxPayloadBytes"
    using assms by (cases "p = []") (auto simp: writeFrame_def Let_def split: if_splits)
  with assms that show ?thesis
    by (auto simp: writeFrame_def Let_def bytes_of_def split: if_splits)
qed

lemma readFrame_writeFrame:
  assumes wf: "wf_header h" and w: "writeFrame h p = Inr msg"
  shows "readFrame msg = Inr (h, p)"
  using w
proof (rule writeFrame_Inr)
  let ?j = "marshal_header h"
  assume t: "h_type h \<noteq> []" and d: "h_type h \<noteq> ''data'' \<Longrightarrow> p = []" and pl: "length p \<le> maxPayloadBytes"
    and hl: "length ?j \<le> maxHeaderBytes"
    and m: "msg = put_u32 (of_nat (length ?j)) @ put_u32 (of_nat (length p)) @ bytes_of ?j @ p"
  have j: "unat (of_nat (length ?j) :: u32) = length ?j" and q: "unat (of_nat (length p) :: u32) = length p"
    using pl hl by (simp_all add: unat_of_nat maxHeaderBytes_def maxPayloadBytes_def)
  have "get_u32 (take 4 msg) = length ?j" "get_u32 (take 4 (drop 4 msg)) = length p"
    using m j q by simp_all
  moreover have "length msg = 8 + length ?j + length p" "take (length ?j) (drop 8 msg) = bytes_of ?j"
    "drop (8 + length ?j) msg = p"
    using m by (simp_all add: bytes_of_def)
  ultimately show ?thesis
    using t d pl hl unmarshal_marshal [OF wf] by (auto simp: readFrame_def Let_def)
qed

lemma readFrame_Inr:
  assumes "readFrame msg = Inr (h, p)"
  shows "h_type h \<noteq> []" "h_type h \<noteq> ''data'' \<Longrightarrow> p = []" "length p \<le> maxPayloadBytes"
    "length msg \<le> 8 + maxHeaderBytes + maxPayloadBytes" "suffix p msg"
proof -
  define hl where "hl = get_u32 (take 4 msg)"
  define pl where "pl = get_u32 (take 4 (drop 4 msg))"
  note r = assms [unfolded readFrame_def Let_def, folded hl_def pl_def]
  from r have 1: "\<not> length msg < 8" by (rule contrapos_pn) simp
  from r 1 have 2: "\<not> maxHeaderBytes < hl" by (cases "maxHeaderBytes < hl") simp_all
  from r 1 2 have 3: "\<not> maxPayloadBytes < pl" by (cases "maxPayloadBytes < pl") simp_all
  from r 1 2 3 have 4: "length msg = 8 + hl + pl" by (cases "length msg = 8 + hl + pl") simp_all
  from r 1 2 3 4 obtain h' where h': "unmarshal_header (string_of (take hl (drop 8 msg))) = Some h'"
    by (cases "unmarshal_header (string_of (take hl (drop 8 msg)))") simp_all
  from r 1 2 3 4 h' have 5: "h_type h' \<noteq> []" by (cases "h_type h' = []") simp_all
  from r 1 2 3 4 h' 5 have "h' = h \<and> p = drop (8 + hl) msg \<and> (h_type h \<noteq> ''data'' \<longrightarrow> p = [])"
    by (cases "h_type h' = ''data''"; cases "length (drop (8 + hl) msg) = 0") simp_all
  then show "h_type h \<noteq> []" "h_type h \<noteq> ''data'' \<Longrightarrow> p = []" "length p \<le> maxPayloadBytes"
    "length msg \<le> 8 + maxHeaderBytes + maxPayloadBytes" "suffix p msg"
    using 2 3 4 5 by (auto simp: suffix_drop)
qed

text \<open>Every error of the envelope itself is a \<open>frameError\<close>, so the server answers it with an error frame.\<close>

definition frame_error_only :: "'a result \<Rightarrow> bool" where
  "frame_error_only r \<longleftrightarrow> (case r of Inl e \<Rightarrow> is_frame_error e | Inr _ \<Rightarrow> True)"

lemma frame_error_only_intros:
  "frame_error_only (Inl (FrameError e))" "frame_error_only (Inr x)"
  "frame_error_only r \<Longrightarrow> frame_error_only r' \<Longrightarrow> frame_error_only (if b then r else r')"
  "frame_error_only r \<Longrightarrow> (\<And>y. frame_error_only (f y)) \<Longrightarrow> frame_error_only (case m of None \<Rightarrow> r | Some y \<Rightarrow> f y)"
  by (auto simp: frame_error_only_def split: option.split)

lemma readFrame_error_is_frame_error: "readFrame msg = Inl e \<Longrightarrow> is_frame_error e"
proof -
  have "frame_error_only (readFrame msg)"
    unfolding readFrame_def Let_def by (intro frame_error_only_intros)
  then show "readFrame msg = Inl e \<Longrightarrow> is_frame_error e" by (simp add: frame_error_only_def)
qed

end
