(* ===== verification/Frame_Size.thy ===== *)
theory Frame_Size
  imports Protocol
begin

text \<open>
  How large a frame gets: \<open>writeFrame\<close> refuses nothing that the program itself builds from short
  identifiers and messages, whatever the offsets are.
\<close>

lemma length_json_escape: "length (json_escape s) \<le> 6 * length s"
proof (induction s rule: json_escape.induct)
  case (2 c r)
  have a: "length (escape_ascii c) \<le> 6" by (simp add: escape_ascii_def)
  show ?case
  proof (cases "code_of c < 0x80")
    case True
    with 2 a show ?thesis by (simp add: json_escape.simps(2))
  next
    case f: False
    show ?thesis
    proof (cases "utf8_width (c # r)")
      case None
      with 2 f show ?thesis by (simp add: json_escape.simps(2))
    next
      case (Some n)
      with utf8_width_bounds have n: "1 \<le> n" "n \<le> length (c # r)" by blast+
      define x where "x = length (json_escape (drop n (c # r)))"
      have "x \<le> 6 * (length (c # r) - n)"
        using 2(3) [OF f Some] by (simp add: x_def)
      with n have "6 + x \<le> 6 * length (c # r)" "n + x \<le> 6 * length (c # r)" by linarith+
      with f Some n show ?thesis by (auto simp: json_escape.simps(2) x_def [symmetric])
    qed
  qed
qed simp

lemma length_json_string: "length (json_string s) \<le> 6 * length s + 2"
  using length_json_escape [of s] by (simp add: json_string_def)

lemma length_dec_nat: "n < 10 ^ k \<Longrightarrow> 0 < k \<Longrightarrow> length (dec_nat n) \<le> k"
proof (induction k arbitrary: n)
  case (Suc k)
  show ?case
  proof (cases "n < 10")
    case True
    then show ?thesis by (subst dec_nat.simps) simp
  next
    case False
    with Suc.prems have "n div 10 < 10 ^ k" "0 < k"
      by (auto simp: less_mult_imp_div_less mult.commute) (cases k; simp)
    with Suc.IH False show ?thesis by (subst dec_nat.simps) simp
  qed
qed simp

lemma length_dec_u64: "length (dec_nat (unat (x :: u64))) \<le> 20"
proof (rule length_dec_nat)
  have "unat x < 2 ^ 64" using unsigned_less [of x] by simp
  then show "unat x < 10 ^ 20" by (rule less_trans) simp
qed simp

lemma length_dec_int: "- (2 ^ 63) \<le> i \<Longrightarrow> i < 2 ^ 63 \<Longrightarrow> length (dec_int i) \<le> 20"
  using length_dec_nat [of "nat i" 19] length_dec_nat [of "nat (- i)" 19]
  by (auto simp: dec_int_def nat_less_iff)

lemma length_join_with: "length (join_with [c] xs) \<le> sum_list (map (\<lambda>x. Suc (length x)) xs)"
  by (induction "[c]" xs rule: join_with.induct) auto

definition member_size :: "string \<times> json \<Rightarrow> nat" where
  "member_size m = 4 + 6 * length (fst m) + length (render_json (snd m))"

lemma length_render_pair: "Suc (length (render_pair m)) \<le> member_size m"
  using length_json_string [of "fst m"] by (cases m) (simp add: member_size_def render_member_def)

lemma marshal_members: "length (render_json (JObj ms)) \<le> 2 + sum_list (map member_size ms)"
proof -
  have "sum_list (map (\<lambda>x. Suc (length x)) (map render_pair ms)) \<le> sum_list (map member_size ms)"
    unfolding map_map comp_def by (rule sum_list_mono) (rule length_render_pair)
  with length_join_with [of "CHR '',''" "map render_pair ms"] show ?thesis by simp
qed

lemma member_size_unless: "member_size (n, v) \<le> k \<Longrightarrow> sum_list (map member_size (unless_zero z n v)) \<le> k"
  by (simp add: unless_zero_def)

text \<open>The free text of a header.\<close>

definition header_text :: "frame_header \<Rightarrow> nat" where
  "header_text h = length (h_type h) + length (h_name h) + length (h_session_id h) + length (h_direction h)
     + length (h_nonce h) + length (h_code h) + length (h_message h)"

lemma member_size_str: "member_size (n, JStr s) \<le> 6 + 6 * length n + 6 * length s"
  using length_json_string [of s] by (simp add: member_size_def)

lemma member_size_u64: "member_size (n, JNum (dec_nat (unat (x :: u64)))) \<le> 24 + 6 * length n"
  using length_dec_u64 [of x] by (simp add: member_size_def)

lemma member_size_i64:
  "- (2 ^ 63) \<le> i \<Longrightarrow> i < 2 ^ 63 \<Longrightarrow> member_size (n, JNum (dec_int i)) \<le> 24 + 6 * length n"
  using length_dec_int [of i] by (simp add: member_size_def)

lemma marshal_size:
  assumes "wf_header h"
  shows "length (marshal_header h) \<le> 1200 + 6 * header_text h"
proof -
  note u = member_size_unless [OF member_size_u64] and s = member_size_unless [OF member_size_str]
    and i = member_size_unless [OF member_size_i64]
  have iv: "sum_list (map member_size (unless_zero z n (JNum (dec_int (h_version h))))) \<le> 24 + 6 * length n"
    "sum_list (map member_size (unless_zero z n (JNum (dec_int (h_sent_at h))))) \<le> 24 + 6 * length n" for z n
    using assms by (auto intro!: i simp: wf_header_def)
  have b: "sum_list (map member_size (unless_zero z n (JBool x))) \<le> 9 + 6 * length n" for z n x
    by (rule member_size_unless) (simp add: member_size_def)
  show ?thesis
    unfolding marshal_header_def
    by (rule order.trans [OF marshal_members])
       (use member_size_str [of "''type''" "h_type h"] iv(1) [of "h_version h = 0" "''version''"]
         s [of "h_name h = []" "''name''" "h_name h"] b [of "\<not> h_resume h" "''resume''" "h_resume h"]
         s [of "h_session_id h = []" "''session_id''" "h_session_id h"] u [of "h_epoch h = 0" "''epoch''" "h_epoch h"]
         s [of "h_direction h = []" "''direction''" "h_direction h"] u [of "h_offset h = 0" "''offset''" "h_offset h"]
         u [of "h_received_offset h = 0" "''received_offset''" "h_received_offset h"]
         u [of "h_c2s_rx h = 0" "''client_to_server_rx''" "h_c2s_rx h"]
         u [of "h_s2c_rx h = 0" "''server_to_client_rx''" "h_s2c_rx h"]
         s [of "h_nonce h = []" "''nonce''" "h_nonce h"] iv(2) [of "h_sent_at h = 0" "''sent_at_unix_nano''"]
         s [of "h_code h = []" "''code''" "h_code h"] s [of "h_message h = []" "''message''" "h_message h"]
        in \<open>simp add: header_members_def header_text_def\<close>)
qed

text \<open>A well-formed header with up to 10000 characters of text is always written.\<close>

lemma writeFrame_small:
  assumes "wf_header h" and "header_text h \<le> 10000" and "h_type h \<noteq> []"
    and "h_type h \<noteq> ''data'' \<Longrightarrow> p = []" and "length p \<le> maxPayloadBytes"
  shows "\<exists>msg. writeFrame h p = Inr msg"
  using assms marshal_size [OF assms(1)]
  by (cases "h_type h = ''data''") (auto simp: writeFrame_def Let_def bytes_of_def maxHeaderBytes_def)

end
