(* ===== verification/Streams.thy ===== *)
theory Streams
  imports Frame_Size
begin

text \<open>
  The pieces of the resumable byte stream that client and server share: sockets as the program uses
  them, the loops of util.go (\<open>writeAll\<close>, the chunked resend of \<open>sendDataChunks\<close>), and the two
  interfaces of the protocol as locales. \<open>ack_sender\<close> is the sending side of one direction (a buffer
  of unacknowledged bytes with absolute offsets), \<open>ordered_receiver\<close> the receiving side (bytes are
  written downstream only at the current receive offset). Both are interpreted twice, on the server
  session and on the client runtime.
\<close>

text \<open>The size of one read from the target or from standard input (server_io.go).\<close>

definition dataChunkBytes :: nat where
  "dataChunkBytes = 32768"

section \<open>WebSocket connections\<close>

text \<open>
  A local endpoint of a WebSocket: the frames that \<open>websocket.Message.Send\<close> accepted, in order; how
  many more sends will succeed (\<open>None\<close>: no limit), which is the environment's choice; and whether
  \<open>Close\<close> was called.
\<close>

record ws =
  ws_out :: "frame list"
  ws_budget :: "nat option"
  ws_closed :: bool

definition ws_send :: "frame_header \<Rightarrow> bytes \<Rightarrow> ws \<Rightarrow> gerror option \<times> ws" where
  "ws_send h p w = (case writeFrame h p of
     Inl e \<Rightarrow> (Some e, w)
   | Inr msg \<Rightarrow>
       if ws_closed w then (Some (NetErr ''use of closed network connection''), w)
       else if ws_budget w = Some 0 then (Some (NetErr ''broken pipe''), w)
       else (None, w\<lparr>ws_out := ws_out w @ [(h, p)], ws_budget := map_option (\<lambda>n. n - 1) (ws_budget w)\<rparr>))"

definition ws_close :: "ws \<Rightarrow> ws" where
  "ws_close w = w\<lparr>ws_closed := True\<rparr>"

lemma ws_close_simps [simp]:
  "ws_out (ws_close w) = ws_out w" "ws_closed (ws_close w)" "ws_budget (ws_close w) = ws_budget w"
  by (simp_all add: ws_close_def)

lemma ws_send_cases:
  obtains e where "ws_send h p w = (Some e, w)"
  | w' where "ws_send h p w = (None, w')" and "ws_out w' = ws_out w @ [(h, p)]" and "ws_closed w' = ws_closed w"
      and "\<exists>msg. writeFrame h p = Inr msg" and "\<not> ws_closed w"
  by (cases "writeFrame h p"; cases "ws_closed w"; cases "ws_budget w = Some 0") (auto simp: ws_send_def)

lemma ws_send_out:
  "ws_out (snd (ws_send h p w)) = ws_out w @ (if fst (ws_send h p w) = None then [(h, p)] else [])"
  by (rule ws_send_cases [of h p w]) auto

lemma ws_send_closed [simp]: "ws_closed (snd (ws_send h p w)) = ws_closed w"
  by (rule ws_send_cases [of h p w]) auto

section \<open>Writers\<close>

text \<open>
  A downstream writer (the target connection of the server, the standard output of the client): the
  bytes written, how many more it takes before it fails (\<open>None\<close>: no limit) and whether its write
  side was closed.
\<close>

record sink =
  sk_written :: bytes
  sk_budget :: "nat option"
  sk_closed :: bool

definition sink_write :: "sink \<Rightarrow> bytes \<Rightarrow> nat \<times> gerror option \<times> sink" where
  "sink_write w p =
     (if sk_closed w then (0, Some (NetErr ''write on closed connection''), w)
      else case sk_budget w of
        None \<Rightarrow> (length p, None, w\<lparr>sk_written := sk_written w @ p\<rparr>)
      | Some k \<Rightarrow>
          if length p \<le> k then
            (length p, None, w\<lparr>sk_written := sk_written w @ p, sk_budget := Some (k - length p)\<rparr>)
          else (k, Some (NetErr ''write failed''), w\<lparr>sk_written := sk_written w @ take k p, sk_budget := Some 0\<rparr>))"

text \<open>\<open>writeAll\<close>: write until nothing is left, an error, or a write of no bytes.\<close>

function writeAll :: "('w \<Rightarrow> bytes \<Rightarrow> nat \<times> gerror option \<times> 'w) \<Rightarrow> 'w \<Rightarrow> bytes \<Rightarrow> nat \<times> gerror option \<times> 'w" where
  "writeAll wr w p =
     (if p = [] then (0, None, w)
      else case wr w p of (n, err, w') \<Rightarrow>
        if err \<noteq> None then (n, err, w')
        else if n = 0 then (0, Some ShortWrite, w')
        else case writeAll wr w' (drop n p) of (m, err', w'') \<Rightarrow> (n + m, err', w''))"
  by pat_completeness auto
termination
  by (relation "measure (\<lambda>(wr, w, p). length p)") auto

declare writeAll.simps [simp del]

text \<open>The contract of \<open>io.Writer\<close>: a write takes a prefix of its argument and reports how much.\<close>

locale io_writer =
  fixes wr :: "'w \<Rightarrow> bytes \<Rightarrow> nat \<times> gerror option \<times> 'w"
    and log :: "'w \<Rightarrow> bytes"
  assumes write_count: "wr w p = (n, err, w') \<Longrightarrow> n \<le> length p"
    and write_log: "wr w p = (n, err, w') \<Longrightarrow> log w' = log w @ take n p"
begin

lemma writeAll_log:
  "writeAll wr w p = (n, err, w') \<Longrightarrow> n \<le> length p \<and> log w' = log w @ take n p \<and> (err = None \<longrightarrow> n = length p)"
proof (induction p arbitrary: w n err w' rule: length_induct)
  case (1 p)
  show ?case
  proof (cases "p = []")
    case True
    with "1.prems" show ?thesis by (simp add: writeAll.simps)
  next
    case False
    obtain k e v where wp: "wr w p = (k, e, v)" by (cases "wr w p")
    have k: "k \<le> length p" and v: "log v = log w @ take k p"
      using write_count [OF wp] write_log [OF wp] by auto
    show ?thesis
    proof (cases "e = None \<and> k \<noteq> 0")
      case True
      obtain m e' u where r: "writeAll wr v (drop k p) = (m, e', u)"
        by (cases "writeAll wr v (drop k p)")
      have "length (drop k p) < length p" using True False by simp
      with "1.IH" r have "m \<le> length (drop k p) \<and> log u = log v @ take m (drop k p)
          \<and> (e' = None \<longrightarrow> m = length (drop k p))"
        by blast
      with "1.prems" False wp True r k v show ?thesis
        by (auto simp: writeAll.simps [of wr w p] take_add)
    next
      case f: False
      with "1.prems" False wp k v show ?thesis
        by (auto simp: writeAll.simps [of wr w p] split: if_splits)
    qed
  qed
qed

lemma writeAll_complete: "writeAll wr w p = (n, None, w') \<Longrightarrow> n = length p \<and> log w' = log w @ p"
  using writeAll_log [of w p n None w'] by auto

end

interpretation sink_writer: io_writer sink_write sk_written
  by unfold_locales (auto simp: sink_write_def split: if_splits option.splits)

section \<open>Resending in chunks\<close>

text \<open>The loop of \<open>sendDataChunks\<close> and of \<open>replayClientBytes\<close>, over the send of one chunk.\<close>

function chunk_loop :: "(u64 \<Rightarrow> bytes \<Rightarrow> 'w \<Rightarrow> gerror option \<times> 'w) \<Rightarrow> u64 \<Rightarrow> bytes \<Rightarrow> 'w \<Rightarrow> gerror option \<times> 'w" where
  "chunk_loop send offset data w =
     (if data = [] then (None, w)
      else let n = min (length data) maxPayloadBytes in
        case send offset (take n data) w of
          (Some e, w') \<Rightarrow> (Some e, w')
        | (None, w') \<Rightarrow> chunk_loop send (offset + of_nat n) (drop n data) w')"
  by pat_completeness auto
termination
  by (relation "measure (\<lambda>(send, offset, data, w). length data)") (auto simp: maxPayloadBytes_def)

declare chunk_loop.simps [simp del]

text \<open>The chunks it sends.\<close>

function chunks :: "u64 \<Rightarrow> bytes \<Rightarrow> (u64 \<times> bytes) list" where
  "chunks offset data =
     (if data = [] then []
      else let n = min (length data) maxPayloadBytes in
        (offset, take n data) # chunks (offset + of_nat n) (drop n data))"
  by pat_completeness auto
termination
  by (relation "measure (\<lambda>(offset, data). length data)") (auto simp: maxPayloadBytes_def)

declare chunks.simps [simp del]

text \<open>Data frames that follow each other in the stream.\<close>

fun contiguous :: "u64 \<Rightarrow> frame list \<Rightarrow> bool" where
  "contiguous off [] = True"
| "contiguous off ((h, p) # fs) = (h_type h = ''data'' \<and> h_offset h = off \<and> contiguous (off + of_nat (length p)) fs)"

lemma maxPayload_pos [simp]: "0 < maxPayloadBytes"
  by (simp add: maxPayloadBytes_def)

lemma chunks_concat: "concat (map snd (chunks offset data)) = data"
proof (induction offset data rule: chunks.induct)
  case (1 offset data)
  then show ?case by (subst chunks.simps) (auto simp: Let_def)
qed

lemma chunks_size: "(off, c) \<in> set (chunks offset data) \<Longrightarrow> c \<noteq> [] \<and> length c \<le> maxPayloadBytes"
proof (induction offset data rule: chunks.induct)
  case (1 offset data)
  let ?n = "min (length data) maxPayloadBytes"
  from "1.prems" have ne: "data \<noteq> []" by (subst (asm) chunks.simps) (auto split: if_splits)
  then have n: "0 < ?n" by simp
  from "1.prems" ne consider "c = take ?n data" | "(off, c) \<in> set (chunks (offset + of_nat ?n) (drop ?n data))"
    by (subst (asm) chunks.simps) (auto simp: Let_def)
  then show ?case
  proof cases
    case 1
    with ne n show ?thesis by auto
  next
    case 2
    with "1.IH" [OF ne refl] show ?thesis by blast
  qed
qed

text \<open>Each chunk is a slice of the stream it is taken from.\<close>

lemma chunks_slices:
  "(off, c) \<in> set (chunks offset (drop (unat offset) src)) \<Longrightarrow> length src < stream_limit \<Longrightarrow>
     unat offset \<le> length src \<Longrightarrow> slice_at (unat off) c src"
proof (induction offset "drop (unat offset) src" arbitrary: offset rule: chunks.induct)
  case (1 offset)
  let ?data = "drop (unat offset) src"
  let ?n = "min (length ?data) maxPayloadBytes"
  from "1.prems"(1) have ne: "?data \<noteq> []" by (subst (asm) chunks.simps) (auto split: if_splits)
  have add: "unat (offset + of_nat ?n) = unat offset + ?n"
    using "1.prems"(2,3) by (intro u64_add_nat) (auto simp: min_def)
  then have rest: "drop ?n ?data = drop (unat (offset + of_nat ?n)) src"
    by (simp add: add.commute)
  from "1.prems"(1) ne consider "(off, c) = (offset, take ?n ?data)"
    | "(off, c) \<in> set (chunks (offset + of_nat ?n) (drop ?n ?data))"
    by (subst (asm) chunks.simps) (auto simp: Let_def)
  then show ?case
  proof cases
    case 1
    with "1.prems"(3) show ?thesis by (simp add: slice_at_drop)
  next
    case 2
    have le: "unat (offset + of_nat ?n) \<le> length src" unfolding add using "1.prems"(3) by simp
    show ?thesis
      using "1.hyps" [OF ne refl rest] 2 [unfolded rest] "1.prems"(2) le by blast
  qed
qed

text \<open>The loop sends a prefix of the chunks, all of them when it reports no error.\<close>

fun send_all :: "(u64 \<Rightarrow> bytes \<Rightarrow> 'w \<Rightarrow> gerror option \<times> 'w) \<Rightarrow> (u64 \<times> bytes) list \<Rightarrow> 'w \<Rightarrow> gerror option \<times> 'w" where
  "send_all send [] w = (None, w)"
| "send_all send ((off, c) # cs) w = (case send off c w of
     (Some e, w') \<Rightarrow> (Some e, w') | (None, w') \<Rightarrow> send_all send cs w')"

lemma chunk_loop_send_all: "chunk_loop send offset data w = send_all send (chunks offset data) w"
proof (induction send offset data w rule: chunk_loop.induct)
  case (1 send offset data w)
  then show ?case
    by (subst chunk_loop.simps, subst chunks.simps) (auto simp: Let_def split: option.splits prod.splits)
qed

lemma send_all_invariant:
  assumes step: "\<And>off c w. (off, c) \<in> set cs \<Longrightarrow> P w \<Longrightarrow> P (snd (send off c w))" and "P w"
  shows "P (snd (send_all send cs w))"
  using assms
proof (induction cs arbitrary: w)
  case (Cons oc cs)
  obtain off c where oc: "oc = (off, c)" by (cases oc)
  obtain e w' where s: "send off c w = (e, w')" by (cases "send off c w")
  have "P (snd (send off c w))" using Cons.prems oc by simp
  then have w': "P w'" using s by simp
  have "P (snd (send_all send cs w'))" using Cons.IH [OF _ w'] Cons.prems(1) by simp
  with s w' oc show ?case by (cases e) simp_all
qed simp

section \<open>The sending side of a direction\<close>

text \<open>
  The fields of a sender against the stream \<open>src\<close> it has taken from upstream so far: offsets count
  bytes of \<open>src\<close>, and the buffer holds exactly the bytes that are not acknowledged.
\<close>

definition sender_ok :: "u64 \<Rightarrow> u64 \<Rightarrow> u64 \<Rightarrow> bytes \<Rightarrow> bytes \<Rightarrow> bool" where
  "sender_ok nxt ack frm buf src \<longleftrightarrow>
     frm = ack \<and> length src < stream_limit \<and> unat nxt = length src \<and> unat ack \<le> length src
     \<and> buf = drop (unat ack) src"

text \<open>
  The operations a client of the sender calls: \<open>advance\<close> on an acknowledged offset
  (\<open>advanceS2CAckLocked\<close>, \<open>advanceC2SAckLocked\<close>) and \<open>append\<close> of bytes read upstream.
\<close>

locale ack_sender =
  fixes next_of :: "'s \<Rightarrow> u64" and ack_of :: "'s \<Rightarrow> u64" and from_of :: "'s \<Rightarrow> u64" and buf_of :: "'s \<Rightarrow> bytes"
    and advance :: "u64 \<Rightarrow> 's \<Rightarrow> 's result" and append_bytes :: "bytes \<Rightarrow> 's \<Rightarrow> 's"
  assumes advance_stale: "off < ack_of s \<Longrightarrow> advance off s = Inr s"
    and advance_ahead: "\<not> off < ack_of s \<Longrightarrow> next_of s < off \<Longrightarrow> \<exists>e. advance off s = Inl e"
    and advance_moves: "\<not> off < ack_of s \<Longrightarrow> \<not> next_of s < off \<Longrightarrow>
      \<not> of_nat (length (buf_of s)) < off - from_of s \<Longrightarrow>
      \<exists>s'. advance off s = Inr s' \<and> next_of s' = next_of s \<and> ack_of s' = off \<and> from_of s' = off
        \<and> buf_of s' = drop (unat (off - from_of s)) (buf_of s)"
    and append_next: "next_of (append_bytes p s) = next_of s + of_nat (length p)"
    and append_ack: "ack_of (append_bytes p s) = ack_of s"
    and append_from: "from_of (append_bytes p s) = from_of s"
    and append_buf: "buf_of (append_bytes p s) = buf_of s @ p"
begin

lemma append_sender_ok:
  assumes "sender_ok (next_of s) (ack_of s) (from_of s) (buf_of s) src"
    and "length src + length p < stream_limit"
  shows "sender_ok (next_of (append_bytes p s)) (ack_of (append_bytes p s)) (from_of (append_bytes p s))
    (buf_of (append_bytes p s)) (src @ p)"
  using assms
  by (auto simp: sender_ok_def append_next append_ack append_from append_buf u64_add_nat)

text \<open>An offset within the stream is always taken: the buffer test never fails on a good sender.\<close>

lemma advance_accepts:
  assumes ok: "sender_ok (next_of s) (ack_of s) (from_of s) (buf_of s) src" and le: "unat off \<le> length src"
  obtains s' where "advance off s = Inr s'" and "next_of s' = next_of s"
    and "ack_of s' = (if off < ack_of s then ack_of s else off)"
    and "sender_ok (next_of s') (ack_of s') (from_of s') (buf_of s') src"
proof (cases "off < ack_of s")
  case True
  then show ?thesis using that [of s] ok by (simp add: advance_stale)
next
  case False
  from ok le have n: "\<not> next_of s < off" by (simp add: sender_ok_def word_less_nat_alt)
  from False have d: "unat (off - from_of s) = unat off - unat (ack_of s)"
    using ok by (simp add: sender_ok_def u64_diff_nat)
  moreover have "unat (of_nat (length (buf_of s)) :: u64) = length src - unat (ack_of s)"
  proof -
    have "length (buf_of s) = length src - unat (ack_of s)" "length (buf_of s) < stream_limit"
      using ok by (auto simp: sender_ok_def)
    then show ?thesis by (metis unat_of_nat_u64)
  qed
  ultimately have b: "\<not> of_nat (length (buf_of s)) < off - from_of s"
    using le by (simp add: word_less_nat_alt)
  from advance_moves [OF False n b] obtain s' where s': "advance off s = Inr s'" "next_of s' = next_of s"
    "ack_of s' = off" "from_of s' = off" "buf_of s' = drop (unat (off - from_of s)) (buf_of s)" by blast
  moreover have "sender_ok (next_of s') (ack_of s') (from_of s') (buf_of s') src"
    using ok le s' d False by (auto simp: sender_ok_def word_less_nat_alt)
  ultimately show ?thesis using that [of s'] False by simp
qed

lemma advance_rejects:
  assumes "sender_ok (next_of s) (ack_of s) (from_of s) (buf_of s) src" and "length src < unat off"
  shows "\<exists>e. advance off s = Inl e"
  using assms advance_ahead [of off s] by (simp add: sender_ok_def word_less_nat_alt)

text \<open>The abstract sender knows only the stream and the count of acknowledged bytes.\<close>

lemma advance_refines:
  assumes "sender_ok (next_of s) (ack_of s) (from_of s) (buf_of s) src" and "advance off s = Inr s'"
  shows "sender_ok (next_of s') (ack_of s') (from_of s') (buf_of s') src"
    and "unat (ack_of s') = max (unat (ack_of s)) (unat off)" and "unat off \<le> length src"
    and "next_of s' = next_of s"
proof -
  have le: "unat off \<le> length src"
    using advance_rejects [OF assms(1), of off] assms(2) by (cases "length src < unat off") auto
  then obtain t where "advance off s = Inr t" "next_of t = next_of s"
    "ack_of t = (if off < ack_of s then ack_of s else off)"
    "sender_ok (next_of t) (ack_of t) (from_of t) (buf_of t) src"
    by (rule advance_accepts [OF assms(1)])
  with assms(2) le show "sender_ok (next_of s') (ack_of s') (from_of s') (buf_of s') src"
    "unat (ack_of s') = max (unat (ack_of s)) (unat off)" "unat off \<le> length src" "next_of s' = next_of s"
    by (auto simp: word_less_nat_alt max_def)
qed

end

text \<open>What a sender resends after a reconnect are slices of its stream.\<close>

lemma sender_ok_chunks:
  assumes "sender_ok nxt ack frm buf src"
  shows "(off, c) \<in> set (chunks frm buf) \<Longrightarrow> slice_at (unat off) c src"
    and "concat (map snd (chunks frm buf)) = drop (unat frm) src"
  using assms chunks_slices [of off c frm src] by (auto simp: sender_ok_def chunks_concat)

section \<open>The receiving side of a direction\<close>

text \<open>
  \<open>receive off p\<close> is the effect of a data frame of the right direction. The laws are the branches of
  \<open>handleClientData\<close> and \<open>handleServerData\<close>: a frame that is not at the receive offset writes nothing,
  one at the offset writes a prefix of its payload and counts it.
\<close>

locale ordered_receiver =
  fixes rx_of :: "'s \<Rightarrow> u64" and out_of :: "'s \<Rightarrow> bytes" and receive :: "u64 \<Rightarrow> bytes \<Rightarrow> 's \<Rightarrow> 's"
  assumes receive_elsewhere: "off \<noteq> rx_of s \<Longrightarrow> rx_of (receive off p s) = rx_of s \<and> out_of (receive off p s) = out_of s"
    and receive_here: "off = rx_of s \<Longrightarrow>
      \<exists>n \<le> length p. rx_of (receive off p s) = rx_of s + of_nat n \<and> out_of (receive off p s) = out_of s @ take n p"
begin

lemma receive_counts:
  assumes "unat (rx_of s) = length (out_of s)" and "length (out_of s) + length p < stream_limit"
  shows "unat (rx_of (receive off p s)) = length (out_of (receive off p s))"
proof (cases "off = rx_of s")
  case True
  from receive_here [OF True, of p] obtain n where "n \<le> length p"
    "rx_of (receive off p s) = rx_of s + of_nat n" "out_of (receive off p s) = out_of s @ take n p" by blast
  with assms show ?thesis by (simp add: u64_add_nat)
next
  case False
  with assms show ?thesis by (simp add: receive_elsewhere)
qed

lemma receive_extends: "prefix (out_of s) (out_of (receive off p s))"
  using receive_elsewhere [of off s p] receive_here [of off s p] by (cases "off = rx_of s") auto

text \<open>A truthful frame keeps the output a prefix of the stream.\<close>

lemma receive_prefix:
  assumes "unat (rx_of s) = length (out_of s)" and "prefix (out_of s) src" and "slice_at (unat off) p src"
  shows "prefix (out_of (receive off p s)) src"
proof (cases "off = rx_of s")
  case True
  from receive_here [OF True, of p] obtain n where "out_of (receive off p s) = out_of s @ take n p" by blast
  with prefix_extend_slice [OF assms(2), of p n] assms(1,3) True show ?thesis by simp
next
  case False
  with assms(2) show ?thesis by (simp add: receive_elsewhere)
qed

end

end
