(* ===== verification/Go_Float.thy ===== *)
theory Go_Float
  imports Prelude Complex_Main
begin

text \<open>
  The part of \<open>float64\<close> arithmetic the program uses: finite values as rationals, rounding to nearest
  even at 53 bits (with the gradual underflow of binary64), conversion from an integer and truncation
  to one. Overflow does not arise: the program multiplies and divides durations by ratios.
\<close>

datatype f64 = NaN | PosInf | NegInf | Fin rat

text \<open>The comparison operators: \<open>NaN\<close> is not comparable with anything.\<close>

instantiation f64 :: ord
begin

definition less_eq_f64 :: "f64 \<Rightarrow> f64 \<Rightarrow> bool" where
  "less_eq_f64 x y = (case x of NaN \<Rightarrow> False | NegInf \<Rightarrow> y \<noteq> NaN | PosInf \<Rightarrow> y = PosInf
     | Fin a \<Rightarrow> (case y of Fin b \<Rightarrow> a \<le> b | PosInf \<Rightarrow> True | _ \<Rightarrow> False))"

definition less_f64 :: "f64 \<Rightarrow> f64 \<Rightarrow> bool" where
  "less_f64 x y = (x \<le> y \<and> x \<noteq> y)"

instance ..

end

lemma f64_le_Fin [simp]:
  "x \<le> Fin b \<longleftrightarrow> (case x of NegInf \<Rightarrow> True | Fin a \<Rightarrow> a \<le> b | _ \<Rightarrow> False)"
  by (cases x) (simp_all add: less_eq_f64_def)

lemma f64_less_Fin [simp]:
  "x < Fin b \<longleftrightarrow> (case x of NegInf \<Rightarrow> True | Fin a \<Rightarrow> a < b | _ \<Rightarrow> False)"
  by (cases x) (auto simp: less_f64_def)

fun log2_nat :: "nat \<Rightarrow> nat" where
  "log2_nat n = (if n < 2 then 0 else Suc (log2_nat (n div 2)))"

declare log2_nat.simps [simp del]

definition floor_log2 :: "rat \<Rightarrow> int" where
  "floor_log2 x = (case quotient_of x of (a, b) \<Rightarrow>
     let k = int (log2_nat (nat a)) - int (log2_nat (nat b)) in if (2 :: rat) powi k \<le> x then k else k - 1)"

definition round_even :: "rat \<Rightarrow> int" where
  "round_even q = (let f = \<lfloor>q\<rfloor>; d = q - of_int f in
     if d < 1 / 2 then f else if 1 / 2 < d then f + 1 else if even f then f else f + 1)"

definition f64_round :: "rat \<Rightarrow> rat" where
  "f64_round x = (if x = 0 then 0 else
     let u = (2 :: rat) powi (max (floor_log2 \<bar>x\<bar> - 52) (- 1074)) in of_int (round_even (x / u)) * u)"

definition f64_of_int :: "int \<Rightarrow> rat" where
  "f64_of_int i = f64_round (of_int i)"

text \<open>Conversion to an integer type truncates towards zero.\<close>

definition f64_trunc :: "rat \<Rightarrow> int" where
  "f64_trunc x = (if 0 \<le> x then \<lfloor>x\<rfloor> else \<lceil>x\<rceil>)"

text \<open>\<open>math.Nextafter(1, 0)\<close>.\<close>

definition below_one :: rat where
  "below_one = 1 - 1 / 2 ^ 53"

end
