(* ===== verification/Config_Types.thy ===== *)
theory Config_Types
  imports Go_Float
begin

text \<open>
  The configuration of internal/tunnel/config.go as the running program reads it, and the functions of
  config.go and path_state.go that select paths from it.
\<close>

record server_config =
  sv_listen :: string
  sv_http_path :: string
  sv_connect :: string

record resume_config =
  rc_timeout :: duration
  rc_buffer :: int

record probe_config =
  pr_interval :: duration
  pr_timeout :: duration
  pr_switch_cooldown :: duration
  pr_active_failures :: int
  pr_candidate_successes :: int
  pr_better_min_delta :: duration
  pr_better_ratio :: f64

record path_config =
  pc_name :: string
  pc_transport :: string
  pc_endpoint :: string
  pc_priority :: int
  pc_enabled :: bool

record config =
  cfg_schema :: int
  cfg_name :: string
  cfg_server :: server_config
  cfg_resume :: resume_config
  cfg_probe :: probe_config
  cfg_paths :: "path_config list"
  cfg_identity :: string

definition enabledPaths :: "path_config list \<Rightarrow> path_config list" where
  "enabledPaths paths = filter pc_enabled paths"

definition pathsExcept :: "path_config list \<Rightarrow> string \<Rightarrow> path_config list" where
  "pathsExcept paths excluded = filter (\<lambda>p. pc_name p \<noteq> excluded) paths"

text \<open>\<open>cfg\<close> is the pointer argument, which may be nil.\<close>

definition enabledPathByName :: "config option \<Rightarrow> string \<Rightarrow> path_config option" where
  "enabledPathByName cfg name = (case cfg of None \<Rightarrow> None
     | Some c \<Rightarrow> if name = [] then None else find (\<lambda>p. pc_name p = name \<and> pc_enabled p) (cfg_paths c))"

lemma enabledPathByName_Some:
  "enabledPathByName (Some c) name = Some p \<Longrightarrow> p \<in> set (enabledPaths (cfg_paths c)) \<and> pc_name p = name \<and> name \<noteq> []"
  by (auto simp: enabledPathByName_def enabledPaths_def find_Some_iff in_set_conv_nth split: if_splits)

lemma pathsExcept_disjoint: "p \<in> set (pathsExcept paths name) \<Longrightarrow> pc_name p \<noteq> name"
  by (simp add: pathsExcept_def)

end
