(* ===== verification/Server_Session.thy ===== *)
theory Server_Session
  imports Streams Config_Types
begin

text \<open>
  The server side of one session: internal/tunnel/server_session.go and server_io.go. A session owns
  one TCP connection to the target; WebSocket connections come and go with rising epochs. The mutex
  protects the fields of the record; the condition variable is the field \<open>ss_reader\<close>, the state of the
  \<open>readTarget\<close> goroutine. Each definition is one critical path of the code run without interruption,
  except that \<open>handleClientData\<close> is also given in the two locked parts that the code really has.
\<close>

section \<open>State\<close>

text \<open>The target connection: what was read from it so far, and its write side.\<close>

record target =
  tg_read :: bytes
  tg_sink :: sink
  tg_closed :: bool

text \<open>A \<open>serverConn\<close> is identified by its WebSocket; the session pointer is implicit.\<close>

record server_conn =
  sc_ws :: nat
  sc_epoch :: u64

text \<open>
  Where the \<open>readTarget\<close> goroutine is: before the locked check at the head of its loop, asleep in
  \<open>cond.Wait\<close>, in \<open>target.Read\<close>, or returned.
\<close>

datatype reader = ReaderCheck | ReaderWaiting | ReaderReading | ReaderStopped

record server_session =
  ss_id :: string
  ss_target :: target
  ss_epoch :: u64
  ss_active :: "server_conn option"
  ss_disconnected :: "instant option"
  ss_disconnectTTL :: "instant option"
  ss_closed :: bool
  ss_c2sRx :: u64
  ss_c2sFin :: bool
  ss_s2cNext :: u64
  ss_s2cAck :: u64
  ss_s2cBuf :: bytes
  ss_s2cBufFrom :: u64
  ss_s2cFin :: bool
  ss_reader :: reader

text \<open>A session with its surroundings: the configuration, the clock, the WebSockets by number, and
  whether the server's table still holds the session.\<close>

record sworld =
  sw_cfg :: resume_config
  sw_now :: instant
  sw_sess :: server_session
  sw_ws :: "nat \<Rightarrow> ws"
  sw_registered :: bool

definition newServerSession :: "string \<Rightarrow> target \<Rightarrow> server_session" where
  "newServerSession i tgt = \<lparr>ss_id = i, ss_target = tgt, ss_epoch = 0, ss_active = None,
     ss_disconnected = None, ss_disconnectTTL = None, ss_closed = False, ss_c2sRx = 0, ss_c2sFin = False,
     ss_s2cNext = 0, ss_s2cAck = 0, ss_s2cBuf = [], ss_s2cBufFrom = 0, ss_s2cFin = False,
     ss_reader = ReaderCheck\<rparr>"

abbreviation upd_sess :: "(server_session \<Rightarrow> server_session) \<Rightarrow> sworld \<Rightarrow> sworld" where
  "upd_sess f w \<equiv> w\<lparr>sw_sess := f (sw_sess w)\<rparr>"

section \<open>Operations\<close>

text \<open>\<open>cond.Broadcast\<close>: a sleeping reader goes back to the head of its loop.\<close>

definition cond_broadcast :: "server_session \<Rightarrow> server_session" where
  "cond_broadcast s = (if ss_reader s = ReaderWaiting then s\<lparr>ss_reader := ReaderCheck\<rparr> else s)"

definition path_level :: "string \<Rightarrow> bool" where
  "path_level t \<longleftrightarrow> t = ''ping'' \<or> t = ''pong'' \<or> t = ''error''"

text \<open>\<open>serverConn.send\<close>.\<close>

definition fill_header :: "string \<Rightarrow> u64 \<Rightarrow> frame_header \<Rightarrow> frame_header" where
  "fill_header sid e h = h
     \<lparr>h_session_id := (if h_session_id h = [] \<and> \<not> path_level (h_type h) then sid else h_session_id h),
      h_epoch := (if h_epoch h = 0 \<and> \<not> path_level (h_type h) then e else h_epoch h)\<rparr>"

definition server_send :: "server_conn \<Rightarrow> frame_header \<Rightarrow> bytes \<Rightarrow> sworld \<Rightarrow> gerror option \<times> sworld" where
  "server_send conn h p w =
     (case ws_send (fill_header (ss_id (sw_sess w)) (sc_epoch conn) h) p (sw_ws w (sc_ws conn)) of
        (e, s) \<Rightarrow> (e, w\<lparr>sw_ws := (sw_ws w)(sc_ws conn := s)\<rparr>))"

definition server_ws_close :: "nat \<Rightarrow> sworld \<Rightarrow> sworld" where
  "server_ws_close i w = w\<lparr>sw_ws := (sw_ws w)(i := ws_close (sw_ws w i))\<rparr>"

definition sendDataChunks :: "server_conn \<Rightarrow> string \<Rightarrow> u64 \<Rightarrow> bytes \<Rightarrow> sworld \<Rightarrow> gerror option \<times> sworld" where
  "sendDataChunks conn direction offset data w =
     chunk_loop (\<lambda>off p. server_send conn (zero_header\<lparr>h_type := ''data'', h_direction := direction, h_offset := off\<rparr>) p)
       offset data w"

definition advanceS2CAckLocked :: "u64 \<Rightarrow> server_session \<Rightarrow> server_session result" where
  "advanceS2CAckLocked offset s =
     (if offset < ss_s2cAck s then Inr s
      else if ss_s2cNext s < offset then Inl (Errorf ''server_to_client ack is ahead of sender'')
      else let dropped = offset - ss_s2cBufFrom s in
        if of_nat (length (ss_s2cBuf s)) < dropped then Inl (Errorf ''server_to_client ack outside buffer'')
        else Inr (s\<lparr>ss_s2cBuf := drop (unat dropped) (ss_s2cBuf s), ss_s2cBufFrom := offset, ss_s2cAck := offset\<rparr>))"

definition target_close :: "target \<Rightarrow> target" where
  "target_close t = t\<lparr>tg_closed := True, tg_sink := (tg_sink t)\<lparr>sk_closed := True\<rparr>\<rparr>"

text \<open>\<open>closeWrite\<close> on the target, which is a TCP connection and has \<open>CloseWrite\<close>.\<close>

definition target_close_write :: "target \<Rightarrow> target" where
  "target_close_write t = t\<lparr>tg_sink := (tg_sink t)\<lparr>sk_closed := True\<rparr>\<rparr>"

definition close_header :: "string \<Rightarrow> string \<Rightarrow> frame_header" where
  "close_header code message = zero_header\<lparr>h_type := ''close'', h_code := code, h_message := message\<rparr>"

definition error_header :: "string \<Rightarrow> frame_header" where
  "error_header message = zero_header\<lparr>h_type := ''error'', h_code := ''protocol_error'', h_message := message\<rparr>"

definition ack_header :: "string \<Rightarrow> u64 \<Rightarrow> frame_header" where
  "ack_header direction rx = zero_header\<lparr>h_type := ''ack'', h_direction := direction, h_received_offset := rx\<rparr>"

definition fin_header :: "string \<Rightarrow> u64 \<Rightarrow> frame_header" where
  "fin_header direction off = zero_header\<lparr>h_type := ''fin'', h_direction := direction, h_offset := off\<rparr>"

definition pong_header :: "frame_header \<Rightarrow> frame_header" where
  "pong_header f = zero_header\<lparr>h_type := ''pong'', h_nonce := h_nonce f, h_sent_at := h_sent_at f\<rparr>"

definition closeTerminal :: "string \<Rightarrow> string \<Rightarrow> sworld \<Rightarrow> sworld" where
  "closeTerminal code message w =
     (let s = sw_sess w in
      if ss_closed s then w
      else
        let active = ss_active s;
            w1 = w\<lparr>sw_sess := cond_broadcast (s\<lparr>ss_closed := True, ss_active := None, ss_disconnectTTL := None\<rparr>)\<rparr>;
            w2 = (case active of None \<Rightarrow> w1
                  | Some conn \<Rightarrow> server_ws_close (sc_ws conn) (snd (server_send conn (close_header code message) [] w1)))
        in (upd_sess (\<lambda>s. s\<lparr>ss_target := target_close (ss_target s)\<rparr>) w2)\<lparr>sw_registered := False\<rparr>)"

definition disconnect :: "server_conn \<Rightarrow> sworld \<Rightarrow> sworld" where
  "disconnect conn w =
     (let s = sw_sess w in
      if ss_closed s \<or> ss_active s \<noteq> Some conn then w
      else w\<lparr>sw_sess := cond_broadcast (s\<lparr>ss_active := None, ss_disconnected := Some (sw_now w),
              ss_disconnectTTL := Some (sw_now w + rc_timeout (sw_cfg w))\<rparr>)\<rparr>)"

text \<open>The timer set by \<open>disconnect\<close>.\<close>

definition disconnectTTL_fires :: "sworld \<Rightarrow> sworld" where
  "disconnectTTL_fires w =
     (case ss_disconnectTTL (sw_sess w) of
        None \<Rightarrow> w
      | Some t \<Rightarrow>
          if t \<le> sw_now w then
            closeTerminal ''resume_timeout'' ''resume timeout'' (upd_sess (\<lambda>s. s\<lparr>ss_disconnectTTL := None\<rparr>) w)
          else w)"

definition handleClientData :: "server_conn \<Rightarrow> frame_header \<Rightarrow> bytes \<Rightarrow> sworld \<Rightarrow> gerror option \<times> sworld" where
  "handleClientData conn f payload w =
     (if h_direction f \<noteq> dirClientToServer then (Some (Errorf ''bad data direction''), w)
      else let rx = ss_c2sRx (sw_sess w) in
        if h_offset f < rx then
          (if h_offset f + of_nat (length payload) \<le> rx then server_send conn (ack_header dirClientToServer rx) [] w
           else (Some (Errorf ''partial duplicate client data''), w))
        else if rx < h_offset f then (Some (Errorf ''client data offset gap''), w)
        else case writeAll sink_write (tg_sink (ss_target (sw_sess w))) payload of
          (n, err, sink) \<Rightarrow>
            let w1 = upd_sess (\<lambda>s. s\<lparr>ss_target := (ss_target s)\<lparr>tg_sink := sink\<rparr>, ss_c2sRx := ss_c2sRx s + of_nat n\<rparr>) w;
                w2 = snd (server_send conn (ack_header dirClientToServer (ss_c2sRx (sw_sess w1))) [] w1)
            in case err of
                 Some e \<Rightarrow> (None, closeTerminal ''target_closed'' (error_text e) w2)
               | None \<Rightarrow> (None, w2))"

definition handleClientFin :: "server_conn \<Rightarrow> frame_header \<Rightarrow> sworld \<Rightarrow> gerror option \<times> sworld" where
  "handleClientFin conn f w =
     (if h_direction f \<noteq> dirClientToServer then (Some (Errorf ''bad fin direction''), w)
      else let s = sw_sess w; rx = ss_c2sRx s in
        if h_offset f < rx \<or> (h_offset f = rx \<and> ss_c2sFin s) then
          server_send conn (ack_header dirClientToServer rx) [] w
        else if h_offset f \<noteq> rx then (Some (Errorf ''client fin offset gap''), w)
        else server_send conn (ack_header dirClientToServer rx) []
               (upd_sess (\<lambda>s. s\<lparr>ss_c2sFin := True, ss_target := target_close_write (ss_target s)\<rparr>) w))"

definition isActive :: "server_conn \<Rightarrow> frame_header \<Rightarrow> sworld \<Rightarrow> bool" where
  "isActive conn f w \<longleftrightarrow> (let s = sw_sess w in
     \<not> ss_closed s \<and> ss_active s = Some conn \<and> h_session_id f = ss_id s \<and> h_epoch f = ss_epoch s)"

text \<open>Answer an error frame and give the connection up: the common tail of \<open>run\<close>'s failing branches.\<close>

definition reject :: "server_conn \<Rightarrow> string \<Rightarrow> sworld \<Rightarrow> bool \<times> sworld" where
  "reject conn message w = (False, disconnect conn (snd (server_send conn (error_header message) [] w)))"

text \<open>One round of the loop of \<open>run\<close> on a frame that was read; the result says whether it loops again.\<close>

definition run_frame :: "server_conn \<Rightarrow> frame_header \<Rightarrow> bytes \<Rightarrow> sworld \<Rightarrow> bool \<times> sworld" where
  "run_frame conn f payload w =
     (if h_type f = ''ping'' then (True, snd (server_send conn (pong_header f) [] w))
      else if \<not> isActive conn f w then (True, w)
      else if h_type f = ''data'' then
        (case handleClientData conn f payload w of
           (Some e, w') \<Rightarrow> reject conn (error_text e) w'
         | (None, w') \<Rightarrow> (True, w'))
      else if h_type f = ''ack'' then
        (if h_direction f \<noteq> dirServerToClient then reject conn ''bad ack direction'' w
         else case advanceS2CAckLocked (h_received_offset f) (sw_sess w) of
           Inl e \<Rightarrow> reject conn (error_text e) (upd_sess cond_broadcast w)
         | Inr s \<Rightarrow> (True, w\<lparr>sw_sess := cond_broadcast s\<rparr>))
      else if h_type f = ''fin'' then
        (case handleClientFin conn f w of
           (Some e, w') \<Rightarrow> reject conn (error_text e) w'
         | (None, w') \<Rightarrow> (True, w'))
      else if h_type f = ''close'' then (False, closeTerminal ''normal'' ''client closed'' w)
      else if h_type f = ''error'' then (False, disconnect conn w)
      else reject conn ''unknown frame type'' w)"

text \<open>The round in which \<open>readFrame\<close> fails.\<close>

definition run_read_error :: "server_conn \<Rightarrow> gerror \<Rightarrow> sworld \<Rightarrow> sworld" where
  "run_read_error conn e w =
     disconnect conn
       (if is_frame_error e then snd (server_send conn (error_header (error_text e)) [] w) else w)"

definition accept_header :: "string \<Rightarrow> u64 \<Rightarrow> u64 \<Rightarrow> u64 \<Rightarrow> frame_header" where
  "accept_header sid e c2s s2c = zero_header\<lparr>h_type := ''accept'', h_session_id := sid, h_epoch := e,
     h_c2s_rx := c2s, h_s2c_rx := s2c\<rparr>"

text \<open>\<open>resume\<close>: the checks, the new epoch, then the accept frame and the replay outside the lock.\<close>

definition resume_commit :: "nat \<Rightarrow> server_session \<Rightarrow> server_session" where
  "resume_commit i s = s\<lparr>ss_epoch := ss_epoch s + 1,
     ss_active := Some \<lparr>sc_ws = i, sc_epoch = ss_epoch s + 1\<rparr>, ss_disconnected := None, ss_disconnectTTL := None\<rparr>"

definition resume_replay :: "server_conn \<Rightarrow> server_session \<Rightarrow> sworld \<Rightarrow> gerror option \<times> sworld" where
  "resume_replay conn s w =
     (case server_send conn (accept_header (ss_id s) (ss_epoch s) (ss_c2sRx s) (ss_s2cAck s)) [] w of
        (Some e, w1) \<Rightarrow> (Some e, disconnect conn w1)
      | (None, w1) \<Rightarrow>
         (case sendDataChunks conn dirServerToClient (ss_s2cBufFrom s) (ss_s2cBuf s) w1 of
            (Some e, w2) \<Rightarrow> (Some e, disconnect conn w2)
          | (None, w2) \<Rightarrow>
             (None, if ss_s2cFin s then snd (server_send conn (fin_header dirServerToClient (ss_s2cNext s)) [] w2) else w2)))"

definition resume :: "nat \<Rightarrow> frame_header \<Rightarrow> sworld \<Rightarrow> server_conn result \<times> sworld" where
  "resume i f w =
     (let s = sw_sess w in
      if ss_closed s then (Inl (Errorf ''session is closed''), w)
      else if (\<exists>t. ss_disconnected s = Some t \<and> rc_timeout (sw_cfg w) < sw_now w - t) then
        (Inl (Errorf ''resume timeout''), closeTerminal ''resume_timeout'' ''resume timeout'' w)
      else if ss_c2sRx s < h_c2s_rx f then (Inl (Errorf ''client_to_server_rx is ahead of server''), w)
      else case advanceS2CAckLocked (h_s2c_rx f) s of
        Inl e \<Rightarrow> (Inl e, w)
      | Inr s1 \<Rightarrow>
          let s2 = resume_commit i s1; conn = \<lparr>sc_ws = i, sc_epoch = ss_epoch s2\<rparr>; w1 = w\<lparr>sw_sess := s2\<rparr>;
              w2 = (case ss_active s of None \<Rightarrow> w1 | Some old \<Rightarrow> server_ws_close (sc_ws old) w1)
          in case resume_replay conn s2 w2 of
               (Some e, w3) \<Rightarrow> (Inl e, w3)
             | (None, w3) \<Rightarrow> (Inr conn, w3))"

section \<open>The target reader\<close>

text \<open>The locked head of the loop of \<open>readTarget\<close>.\<close>

definition reader_check :: "sworld \<Rightarrow> sworld" where
  "reader_check w = upd_sess (\<lambda>s.
     if ss_closed s then s\<lparr>ss_reader := ReaderStopped\<rparr>
     else if rc_buffer (sw_cfg w) \<le> int (length (ss_s2cBuf s)) then s\<lparr>ss_reader := ReaderWaiting\<rparr>
     else s\<lparr>ss_reader := ReaderReading\<rparr>) w"

text \<open>The rest of the round, after \<open>target.Read\<close> returned \<open>bs\<close> and perhaps an error.\<close>

definition append_s2c :: "bytes \<Rightarrow> server_session \<Rightarrow> server_session" where
  "append_s2c bs s = s\<lparr>ss_s2cNext := ss_s2cNext s + of_nat (length bs), ss_s2cBuf := ss_s2cBuf s @ bs\<rparr>"

definition note_read :: "bytes \<Rightarrow> server_session \<Rightarrow> server_session" where
  "note_read bs s = s\<lparr>ss_target := (ss_target s)\<lparr>tg_read := tg_read (ss_target s) @ bs\<rparr>\<rparr>"

definition reader_data :: "bytes \<Rightarrow> sworld \<Rightarrow> sworld" where
  "reader_data bs w =
     (if bs = [] then w
      else let offset = ss_s2cNext (sw_sess w); w1 = upd_sess (\<lambda>s. append_s2c bs (note_read bs s)) w in
        case ss_active (sw_sess w1) of
          None \<Rightarrow> w1
        | Some conn \<Rightarrow>
            (case server_send conn (zero_header\<lparr>h_type := ''data'', h_direction := dirServerToClient, h_offset := offset\<rparr>) bs w1 of
               (Some e, w2) \<Rightarrow> disconnect conn w2
             | (None, w2) \<Rightarrow> w2))"

definition reader_end :: "sworld \<Rightarrow> sworld" where
  "reader_end w =
     (let w1 = upd_sess (\<lambda>s. s\<lparr>ss_s2cFin := True, ss_reader := ReaderStopped\<rparr>) w;
          w2 = (case ss_active (sw_sess w1) of
                  None \<Rightarrow> w1
                | Some conn \<Rightarrow> snd (server_send conn (fin_header dirServerToClient (ss_s2cNext (sw_sess w1))) [] w1))
      in closeTerminal ''target_closed'' ''target closed'' w2)"

definition reader_read :: "bytes \<Rightarrow> bool \<Rightarrow> sworld \<Rightarrow> sworld" where
  "reader_read bs failed w =
     (let w1 = reader_data bs (upd_sess (\<lambda>s. s\<lparr>ss_reader := ReaderCheck\<rparr>) w) in
      if failed then reader_end w1 else w1)"

section \<open>What a send touches\<close>

lemma fill_header_simps [simp]:
  "h_type (fill_header sid e h) = h_type h" "h_direction (fill_header sid e h) = h_direction h"
  "h_offset (fill_header sid e h) = h_offset h" "h_received_offset (fill_header sid e h) = h_received_offset h"
  "h_c2s_rx (fill_header sid e h) = h_c2s_rx h" "h_s2c_rx (fill_header sid e h) = h_s2c_rx h"
  "h_nonce (fill_header sid e h) = h_nonce h" "h_code (fill_header sid e h) = h_code h"
  by (simp_all add: fill_header_def)

lemma server_send_frame [simp]:
  "sw_cfg (snd (server_send conn h p w)) = sw_cfg w" "sw_now (snd (server_send conn h p w)) = sw_now w"
  "sw_sess (snd (server_send conn h p w)) = sw_sess w"
  "sw_registered (snd (server_send conn h p w)) = sw_registered w"
  by (simp_all add: server_send_def split: prod.split)

lemma server_ws_close_frame [simp]:
  "sw_cfg (server_ws_close i w) = sw_cfg w" "sw_now (server_ws_close i w) = sw_now w"
  "sw_sess (server_ws_close i w) = sw_sess w" "sw_registered (server_ws_close i w) = sw_registered w"
  "ws_out (sw_ws (server_ws_close i w) j) = ws_out (sw_ws w j)"
  by (simp_all add: server_ws_close_def)

lemma server_send_out:
  "ws_out (sw_ws (snd (server_send conn h p w)) i) = ws_out (sw_ws w i) @
     (if i = sc_ws conn \<and> fst (server_send conn h p w) = None
      then [(fill_header (ss_id (sw_sess w)) (sc_epoch conn) h, p)] else [])"
proof -
  let ?h = "fill_header (ss_id (sw_sess w)) (sc_epoch conn) h"
  obtain e s where s: "ws_send ?h p (sw_ws w (sc_ws conn)) = (e, s)"
    by (cases "ws_send ?h p (sw_ws w (sc_ws conn))")
  with ws_send_out [of ?h p "sw_ws w (sc_ws conn)"] show ?thesis by (simp add: server_send_def)
qed

lemma sendDataChunks_frame [simp]:
  "sw_cfg (snd (sendDataChunks conn d off data w)) = sw_cfg w"
  "sw_now (snd (sendDataChunks conn d off data w)) = sw_now w"
  "sw_sess (snd (sendDataChunks conn d off data w)) = sw_sess w"
  "sw_registered (snd (sendDataChunks conn d off data w)) = sw_registered w"
  unfolding sendDataChunks_def chunk_loop_send_all
  by (rule send_all_invariant [of _ "\<lambda>v. sw_cfg v = sw_cfg w"] send_all_invariant [of _ "\<lambda>v. sw_now v = sw_now w"]
      send_all_invariant [of _ "\<lambda>v. sw_sess v = sw_sess w"]
      send_all_invariant [of _ "\<lambda>v. sw_registered v = sw_registered w"]; simp)+

text \<open>Results of sends as pairs, for splitting the \<open>case\<close> of the code.\<close>

lemma server_send_eq:
  "server_send conn h p w = (e, w') \<Longrightarrow> sw_cfg w' = sw_cfg w \<and> sw_now w' = sw_now w \<and> sw_sess w' = sw_sess w
     \<and> sw_registered w' = sw_registered w"
  by (metis server_send_frame snd_conv)

section \<open>Interpretations of the stream interfaces\<close>

interpretation s2c: ack_sender ss_s2cNext ss_s2cAck ss_s2cBufFrom ss_s2cBuf advanceS2CAckLocked append_s2c
  by unfold_locales (auto simp: advanceS2CAckLocked_def append_s2c_def Let_def)

definition server_receive :: "server_conn \<Rightarrow> frame_header \<Rightarrow> u64 \<Rightarrow> bytes \<Rightarrow> sworld \<Rightarrow> sworld" where
  "server_receive conn f off p w =
     snd (handleClientData conn (f\<lparr>h_direction := dirClientToServer, h_offset := off\<rparr>) p w)"

abbreviation target_written :: "sworld \<Rightarrow> bytes" where
  "target_written w \<equiv> sk_written (tg_sink (ss_target (sw_sess w)))"

abbreviation target_source :: "sworld \<Rightarrow> bytes" where
  "target_source w \<equiv> tg_read (ss_target (sw_sess w))"

lemma cond_broadcast_simps [simp]:
  "ss_id (cond_broadcast s) = ss_id s" "ss_target (cond_broadcast s) = ss_target s"
  "ss_epoch (cond_broadcast s) = ss_epoch s" "ss_active (cond_broadcast s) = ss_active s"
  "ss_disconnected (cond_broadcast s) = ss_disconnected s"
  "ss_disconnectTTL (cond_broadcast s) = ss_disconnectTTL s" "ss_closed (cond_broadcast s) = ss_closed s"
  "ss_c2sRx (cond_broadcast s) = ss_c2sRx s" "ss_c2sFin (cond_broadcast s) = ss_c2sFin s"
  "ss_s2cNext (cond_broadcast s) = ss_s2cNext s" "ss_s2cAck (cond_broadcast s) = ss_s2cAck s"
  "ss_s2cBuf (cond_broadcast s) = ss_s2cBuf s" "ss_s2cBufFrom (cond_broadcast s) = ss_s2cBufFrom s"
  "ss_s2cFin (cond_broadcast s) = ss_s2cFin s"
  by (simp_all add: cond_broadcast_def)

lemma target_close_simps [simp]:
  "tg_read (target_close t) = tg_read t" "sk_written (tg_sink (target_close t)) = sk_written (tg_sink t)"
  "tg_closed (target_close t)" "tg_read (target_close_write t) = tg_read t"
  "sk_written (tg_sink (target_close_write t)) = sk_written (tg_sink t)"
  "tg_closed (target_close_write t) = tg_closed t"
  by (simp_all add: target_close_def target_close_write_def)

text \<open>\<open>closeTerminal\<close> and \<open>disconnect\<close> leave both streams alone.\<close>

definition same_streams :: "server_session \<Rightarrow> server_session \<Rightarrow> bool" where
  "same_streams s s' \<longleftrightarrow> ss_id s' = ss_id s \<and> tg_read (ss_target s') = tg_read (ss_target s)
     \<and> sk_written (tg_sink (ss_target s')) = sk_written (tg_sink (ss_target s))
     \<and> ss_c2sRx s' = ss_c2sRx s \<and> ss_s2cNext s' = ss_s2cNext s \<and> ss_s2cAck s' = ss_s2cAck s
     \<and> ss_s2cBuf s' = ss_s2cBuf s \<and> ss_s2cBufFrom s' = ss_s2cBufFrom s \<and> ss_epoch s' = ss_epoch s"

lemma same_streams_closeTerminal: "same_streams (sw_sess w) (sw_sess (closeTerminal code message w))"
  by (simp add: closeTerminal_def same_streams_def Let_def split: option.split)

lemma same_streams_disconnect: "same_streams (sw_sess w) (sw_sess (disconnect conn w))"
  by (simp add: disconnect_def same_streams_def Let_def)

interpretation c2s_rx: ordered_receiver "\<lambda>w. ss_c2sRx (sw_sess w)" target_written "server_receive conn f" for conn f
proof
  fix off p and w :: sworld
  assume "off \<noteq> ss_c2sRx (sw_sess w)"
  then show "ss_c2sRx (sw_sess (server_receive conn f off p w)) = ss_c2sRx (sw_sess w)
      \<and> target_written (server_receive conn f off p w) = target_written w"
    by (auto simp: server_receive_def handleClientData_def Let_def)
next
  fix off p and w :: sworld
  assume off: "off = ss_c2sRx (sw_sess w)"
  obtain n err sk where wr: "writeAll sink_write (tg_sink (ss_target (sw_sess w))) p = (n, err, sk)"
    by (cases "writeAll sink_write (tg_sink (ss_target (sw_sess w))) p")
  note sink_writer.writeAll_log [OF wr]
  moreover have "same_streams (sw_sess v) (sw_sess (closeTerminal code m v))" for code m v
    by (rule same_streams_closeTerminal)
  ultimately show "\<exists>n \<le> length p. ss_c2sRx (sw_sess (server_receive conn f off p w)) = ss_c2sRx (sw_sess w) + of_nat n
      \<and> target_written (server_receive conn f off p w) = target_written w @ take n p"
    using off wr
    by (intro exI [of _ n]) (auto simp: server_receive_def handleClientData_def Let_def same_streams_def split: option.split)
qed

end
