(* ===== verification/Step_Systems.thy ===== *)
theory Step_Systems
  imports Prelude
begin

text \<open>
  What the components with a step relation share. \<open>step_system\<close>: a relation and an invariant that each step keeps.
  \<open>refinement\<close>: a system whose runs are runs of a specification, seen through an abstraction function.
  \<open>component_system\<close>: a system inside a larger one, where each step of the whole is no step, or one step, of the
  component; so what holds of the runs of the component alone holds of it inside the whole.
\<close>

lemma run_then: "step\<^sup>*\<^sup>* s s' \<Longrightarrow> step s' s'' \<Longrightarrow> step\<^sup>*\<^sup>* s s''"
  by (rule rtranclp.rtrancl_into_rtrancl)

locale step_system =
  fixes step :: "'s \<Rightarrow> 's \<Rightarrow> bool" and inv :: "'s \<Rightarrow> bool"
  assumes step_inv: "step s s' \<Longrightarrow> inv s \<Longrightarrow> inv s'"
begin

lemma run_inv: "step\<^sup>*\<^sup>* s s' \<Longrightarrow> inv s \<Longrightarrow> inv s'"
  by (induction rule: rtranclp_induct) (auto intro: step_inv)

text \<open>What single steps keep, given the invariant, runs keep.\<close>

lemma run_keeps:
  assumes "step\<^sup>*\<^sup>* s s'" and "inv s" and "P s"
    and keeps: "\<And>u v. inv u \<Longrightarrow> step u v \<Longrightarrow> P u \<Longrightarrow> P v"
  shows "P s'"
  using assms(1)
proof (induction rule: rtranclp_induct)
  case (step u v)
  show ?case by (rule keeps [OF run_inv [OF step(1) assms(2)] step(2,3)])
qed (rule assms(3))

end

text \<open>Each step, given the invariant, is a run of the specification, seen through \<open>abs\<close>.\<close>

locale refinement =
  concrete: step_system step inv
  for step :: "'s \<Rightarrow> 's \<Rightarrow> bool" and inv +
  fixes spec_step :: "'p \<Rightarrow> 'p \<Rightarrow> bool" and abs :: "'s \<Rightarrow> 'p"
  assumes step_refines: "inv s \<Longrightarrow> step s s' \<Longrightarrow> spec_step\<^sup>*\<^sup>* (abs s) (abs s')"
begin

lemma run_refines:
  assumes "step\<^sup>*\<^sup>* s s'" and "inv s"
  shows "spec_step\<^sup>*\<^sup>* (abs s) (abs s')"
proof (rule concrete.run_keeps [OF assms])
  fix u v assume "inv u" "step u v" "spec_step\<^sup>*\<^sup>* (abs s) (abs u)"
  then show "spec_step\<^sup>*\<^sup>* (abs s) (abs v)" by (blast intro: rtranclp_trans step_refines)
qed simp

end

locale component_system =
  whole: step_system step inv + part: step_system part_step part_inv
  for step :: "'s \<Rightarrow> 's \<Rightarrow> bool" and inv and part_step :: "'p \<Rightarrow> 'p \<Rightarrow> bool" and part_inv +
  fixes part :: "'s \<Rightarrow> 'p"
  assumes inv_part: "inv s \<Longrightarrow> part_inv (part s)"
    and step_part: "inv s \<Longrightarrow> step s s' \<Longrightarrow> part s' = part s \<or> part_step (part s) (part s')"
begin

sublocale refines: refinement step inv part_step part
proof
  fix s s' assume "inv s" "step s s'"
  with step_part show "part_step\<^sup>*\<^sup>* (part s) (part s')" by (metis r_into_rtranclp rtranclp.rtrancl_refl)
qed

lemmas run_part = refines.run_refines

text \<open>What the steps of the component keep, runs of the whole keep of the component.\<close>

lemma run_part_keeps:
  assumes "step\<^sup>*\<^sup>* s s'" and "inv s" and "P (part s)"
    and "\<And>u v. part_inv u \<Longrightarrow> part_step u v \<Longrightarrow> P u \<Longrightarrow> P v"
  shows "P (part s')"
  by (rule part.run_keeps [where P = P, OF run_part [OF assms(1,2)] inv_part [OF assms(2)] assms(3,4)])

end

end
