(* ===== verification/Server_Inv.thy ===== *)
theory Server_Inv
  imports Server_Session Step_Systems
begin

text \<open>
  Invariants of a server session: its two streams agree with the target connection, its life cycle
  fields agree with each other, its buffer is bounded, and every frame it ever put on a connection is
  truthful. Each operation keeps them; the step relation lifts that to every reachable state.
\<close>

section \<open>The invariants\<close>

definition server_streams :: "server_session \<Rightarrow> bool" where
  "server_streams s \<longleftrightarrow>
     sender_ok (ss_s2cNext s) (ss_s2cAck s) (ss_s2cBufFrom s) (ss_s2cBuf s) (tg_read (ss_target s))
     \<and> unat (ss_c2sRx s) = length (sk_written (tg_sink (ss_target s)))"

definition life_of :: "resume_config \<Rightarrow> instant \<Rightarrow> server_session \<Rightarrow> bool \<Rightarrow> bool" where
  "life_of cfg now s registered \<longleftrightarrow>
     (if ss_closed s then
        ss_active s = None \<and> ss_disconnectTTL s = None \<and> \<not> registered \<and> tg_closed (ss_target s)
      else registered \<and> (case ss_active s of
          Some c \<Rightarrow> sc_epoch c = ss_epoch s \<and> ss_disconnected s = None \<and> ss_disconnectTTL s = None
        | None \<Rightarrow> (case ss_disconnected s of
             None \<Rightarrow> False
           | Some d \<Rightarrow> d \<le> now \<and> ss_disconnectTTL s = Some (d + rc_timeout cfg))))"

abbreviation server_life :: "sworld \<Rightarrow> bool" where
  "server_life w \<equiv> life_of (sw_cfg w) (sw_now w) (sw_sess w) (sw_registered w)"

definition server_buffer :: "resume_config \<Rightarrow> server_session \<Rightarrow> bool" where
  "server_buffer cfg s \<longleftrightarrow> 0 < rc_buffer cfg
     \<and> int (length (ss_s2cBuf s)) < rc_buffer cfg + int dataChunkBytes
     \<and> (ss_reader s = ReaderReading \<longrightarrow> int (length (ss_s2cBuf s)) < rc_buffer cfg)
     \<and> (ss_s2cFin s \<longrightarrow> ss_reader s = ReaderStopped)"

text \<open>What a frame of the server says is true of the session, now and later.\<close>

definition server_frame_ok :: "server_session \<Rightarrow> frame \<Rightarrow> bool" where
  "server_frame_ok s fr \<longleftrightarrow> (case fr of (h, p) \<Rightarrow>
     (h_type h = ''data'' \<longrightarrow> h_direction h = dirServerToClient \<and> slice_at (unat (h_offset h)) p (tg_read (ss_target s)))
     \<and> (h_type h = ''ack'' \<longrightarrow> h_direction h = dirClientToServer
          \<and> unat (h_received_offset h) \<le> length (sk_written (tg_sink (ss_target s))))
     \<and> (h_type h = ''accept'' \<longrightarrow> unat (h_c2s_rx h) \<le> length (sk_written (tg_sink (ss_target s))))
     \<and> (h_type h = ''fin'' \<longrightarrow> h_direction h = dirServerToClient
          \<and> unat (h_offset h) = length (tg_read (ss_target s)) \<and> ss_reader s = ReaderStopped))"

definition frames_ok_in :: "server_session \<Rightarrow> sworld \<Rightarrow> bool" where
  "frames_ok_in s w \<longleftrightarrow> (\<forall>i. \<forall>fr \<in> set (ws_out (sw_ws w i)). server_frame_ok s fr)"

definition server_inv :: "sworld \<Rightarrow> bool" where
  "server_inv w \<longleftrightarrow> server_streams (sw_sess w) \<and> server_life w \<and> server_buffer (sw_cfg w) (sw_sess w)
     \<and> frames_ok_in (sw_sess w) w"

text \<open>How a session may change so that the frames already sent stay true.\<close>

definition session_grows :: "server_session \<Rightarrow> server_session \<Rightarrow> bool" where
  "session_grows s s' \<longleftrightarrow>
     prefix (tg_read (ss_target s)) (tg_read (ss_target s'))
     \<and> prefix (sk_written (tg_sink (ss_target s))) (sk_written (tg_sink (ss_target s')))
     \<and> (ss_reader s = ReaderStopped \<longrightarrow> ss_reader s' = ReaderStopped \<and> tg_read (ss_target s') = tg_read (ss_target s))"

lemma session_grows_refl [simp]: "session_grows s s"
  by (simp add: session_grows_def)

lemma session_grows_trans: "session_grows s t \<Longrightarrow> session_grows t u \<Longrightarrow> session_grows s u"
  by (auto simp: session_grows_def intro: prefix_order.trans)

lemma frame_ok_grows:
  assumes "server_frame_ok s fr" and "session_grows s s'"
  shows "server_frame_ok s' fr"
  using assms
  by (auto simp: server_frame_ok_def session_grows_def dest: slice_at_prefix prefix_length_le split: prod.splits)

lemma frames_ok_grows: "frames_ok_in s w \<Longrightarrow> session_grows s s' \<Longrightarrow> frames_ok_in s' w"
  by (auto simp: frames_ok_in_def intro: frame_ok_grows)

lemma frames_ok_same_ws: "sw_ws w' = sw_ws w \<Longrightarrow> frames_ok_in s w' = frames_ok_in s w"
  by (simp add: frames_ok_in_def)

lemma frames_ok_update [simp]:
  "frames_ok_in s (w\<lparr>sw_sess := x\<rparr>) = frames_ok_in s w" "frames_ok_in s (w\<lparr>sw_registered := b\<rparr>) = frames_ok_in s w"
  "frames_ok_in s (w\<lparr>sw_now := t\<rparr>) = frames_ok_in s w"
  by (simp_all add: frames_ok_in_def)

lemma frames_ok_send:
  assumes "frames_ok_in s w" and "server_frame_ok s (fill_header (ss_id (sw_sess w)) (sc_epoch conn) h, p)"
  shows "frames_ok_in s (snd (server_send conn h p w))"
  using assms by (auto simp: frames_ok_in_def server_send_out)

lemma frame_ok_fill [simp]: "server_frame_ok s (fill_header sid e h, p) = server_frame_ok s (h, p)"
  by (simp add: server_frame_ok_def)

lemma frames_ok_close [simp]: "frames_ok_in s (server_ws_close i w) = frames_ok_in s w"
  by (simp add: frames_ok_in_def)

text \<open>The frames the code builds.\<close>

lemma header_types [simp]:
  "h_type (close_header c m) = ''close''" "h_type (error_header m) = ''error''" "h_type (ack_header d r) = ''ack''"
  "h_type (fin_header d off) = ''fin''" "h_type (pong_header f) = ''pong''" "h_type (accept_header i e a b) = ''accept''"
  "h_direction (ack_header d r) = d" "h_received_offset (ack_header d r) = r"
  "h_direction (fin_header d off) = d" "h_offset (fin_header d off) = off"
  "h_c2s_rx (accept_header i e a b) = a" "h_s2c_rx (accept_header i e a b) = b"
  "h_session_id (accept_header i e a b) = i" "h_epoch (accept_header i e a b) = e"
  by (simp_all add: close_header_def error_header_def ack_header_def fin_header_def pong_header_def accept_header_def)

lemma frame_ok_plain [simp]:
  "server_frame_ok s (close_header c m, [])" "server_frame_ok s (error_header m, [])" "server_frame_ok s (pong_header f, [])"
  by (simp_all add: server_frame_ok_def)

lemma frame_ok_ack [simp]:
  "server_frame_ok s (ack_header d r, []) \<longleftrightarrow>
     d = dirClientToServer \<and> unat r \<le> length (sk_written (tg_sink (ss_target s)))"
  by (simp add: server_frame_ok_def)

lemma frame_ok_accept [simp]:
  "server_frame_ok s (accept_header i e a b, []) \<longleftrightarrow> unat a \<le> length (sk_written (tg_sink (ss_target s)))"
  by (simp add: server_frame_ok_def)

lemma frame_ok_fin [simp]:
  "server_frame_ok s (fin_header d off, []) \<longleftrightarrow>
     d = dirServerToClient \<and> unat off = length (tg_read (ss_target s)) \<and> ss_reader s = ReaderStopped"
  by (simp add: server_frame_ok_def)

lemma frame_ok_data [simp]:
  "server_frame_ok s (zero_header\<lparr>h_type := ''data'', h_direction := d, h_offset := off\<rparr>, p) \<longleftrightarrow>
     d = dirServerToClient \<and> slice_at (unat off) p (tg_read (ss_target s))"
  by (simp add: server_frame_ok_def)

section \<open>Every operation keeps them\<close>

lemma cond_broadcast_reader:
  "ss_reader (cond_broadcast s) = (if ss_reader s = ReaderWaiting then ReaderCheck else ss_reader s)"
  by (simp add: cond_broadcast_def)

lemma sess_closeTerminal:
  "sw_sess (closeTerminal code m w) = (let s = sw_sess w in if ss_closed s then s else
     (cond_broadcast (s\<lparr>ss_closed := True, ss_active := None, ss_disconnectTTL := None\<rparr>))
       \<lparr>ss_target := target_close (ss_target s)\<rparr>)"
  "sw_registered (closeTerminal code m w) = (sw_registered w \<and> ss_closed (sw_sess w))"
  "sw_cfg (closeTerminal code m w) = sw_cfg w" "sw_now (closeTerminal code m w) = sw_now w"
  by (simp_all add: closeTerminal_def Let_def split: option.split)

lemma frames_ok_closeTerminal: "frames_ok_in s w \<Longrightarrow> frames_ok_in s (closeTerminal code m w)"
  by (simp add: closeTerminal_def Let_def frames_ok_send split: option.split)

lemma grows_closeTerminal: "session_grows (sw_sess w) (sw_sess (closeTerminal code m w))"
  by (simp add: session_grows_def sess_closeTerminal Let_def cond_broadcast_reader)

lemma server_streams_same: "server_streams s \<Longrightarrow> same_streams s s' \<Longrightarrow> server_streams s'"
  by (simp add: server_streams_def same_streams_def)

lemma closeTerminal_inv':
  assumes "server_streams (sw_sess w)" and "server_buffer (sw_cfg w) (sw_sess w)" and "frames_ok_in (sw_sess w) w"
    and "ss_closed (sw_sess w) \<Longrightarrow> server_life w"
  shows "server_inv (closeTerminal code m w)"
proof -
  have "server_streams (sw_sess (closeTerminal code m w))"
    using assms(1) same_streams_closeTerminal by (rule server_streams_same)
  moreover have "server_life (closeTerminal code m w)"
    using assms(4) by (auto simp: life_of_def sess_closeTerminal Let_def)
  moreover have "server_buffer (sw_cfg (closeTerminal code m w)) (sw_sess (closeTerminal code m w))"
    using assms(2) by (auto simp: server_buffer_def sess_closeTerminal Let_def cond_broadcast_reader)
  moreover have "frames_ok_in (sw_sess (closeTerminal code m w)) (closeTerminal code m w)"
    using assms(3) frames_ok_grows [OF frames_ok_closeTerminal grows_closeTerminal] by blast
  ultimately show ?thesis by (simp add: server_inv_def)
qed

lemma closeTerminal_inv: "server_inv w \<Longrightarrow> server_inv (closeTerminal code m w)"
  by (rule closeTerminal_inv') (simp_all add: server_inv_def)

lemma sess_disconnect:
  "sw_sess (disconnect conn w) = (let s = sw_sess w in if ss_closed s \<or> ss_active s \<noteq> Some conn then s else
     cond_broadcast (s\<lparr>ss_active := None, ss_disconnected := Some (sw_now w),
       ss_disconnectTTL := Some (sw_now w + rc_timeout (sw_cfg w))\<rparr>))"
  "sw_registered (disconnect conn w) = sw_registered w" "sw_cfg (disconnect conn w) = sw_cfg w"
  "sw_now (disconnect conn w) = sw_now w" "sw_ws (disconnect conn w) = sw_ws w"
  by (simp_all add: disconnect_def Let_def)

lemma grows_disconnect: "session_grows (sw_sess w) (sw_sess (disconnect conn w))"
  by (simp add: session_grows_def sess_disconnect Let_def cond_broadcast_reader)

lemma disconnect_inv:
  assumes "server_inv w"
  shows "server_inv (disconnect conn w)"
proof -
  have "server_streams (sw_sess (disconnect conn w))"
    using assms server_streams_same [OF _ same_streams_disconnect] by (simp add: server_inv_def)
  moreover have "server_life (disconnect conn w)"
    using assms by (simp add: server_inv_def life_of_def sess_disconnect Let_def)
  moreover have "server_buffer (sw_cfg (disconnect conn w)) (sw_sess (disconnect conn w))"
    using assms by (auto simp: server_inv_def server_buffer_def sess_disconnect Let_def cond_broadcast_reader)
  moreover have "frames_ok_in (sw_sess (disconnect conn w)) (disconnect conn w)"
    using assms frames_ok_grows [OF _ grows_disconnect, of w w conn]
    by (simp add: server_inv_def frames_ok_same_ws [of "disconnect conn w" w] sess_disconnect(5))
  ultimately show ?thesis by (simp add: server_inv_def)
qed

lemma server_send_inv:
  assumes "server_inv w" and "server_frame_ok (sw_sess w) (h, p)"
  shows "server_inv (snd (server_send conn h p w))"
  using assms by (simp add: server_inv_def frames_ok_send)

lemma server_send_inv_eq:
  assumes "server_send conn h p w = (e, w')" and "server_inv w" and "server_frame_ok (sw_sess w) (h, p)"
  shows "server_inv w'"
  using server_send_inv [OF assms(2,3), of conn] assms(1) by simp

lemma reject_inv: "server_inv w \<Longrightarrow> server_inv (snd (reject conn m w))"
  by (simp add: reject_def disconnect_inv server_send_inv)

lemma run_read_error_inv: "server_inv w \<Longrightarrow> server_inv (run_read_error conn e w)"
  by (simp add: run_read_error_def disconnect_inv server_send_inv)

lemma disconnectTTL_fires_inv:
  assumes "server_inv w"
  shows "server_inv (disconnectTTL_fires w)"
proof (cases "ss_disconnectTTL (sw_sess w)")
  case (Some t)
  have "server_inv (closeTerminal ''resume_timeout'' ''resume timeout'' (upd_sess (\<lambda>s. s\<lparr>ss_disconnectTTL := None\<rparr>) w))"
    using assms Some
    by (intro closeTerminal_inv')
       (auto simp: server_inv_def server_streams_def server_buffer_def life_of_def session_grows_def
         elim!: frames_ok_grows)
  with Some assms show ?thesis by (simp add: disconnectTTL_fires_def)
qed (simp add: assms disconnectTTL_fires_def)

text \<open>An update of the stream fields only: what is left to show about it.\<close>

definition same_control :: "server_session \<Rightarrow> server_session \<Rightarrow> bool" where
  "same_control s s' \<longleftrightarrow> ss_closed s' = ss_closed s \<and> ss_active s' = ss_active s
     \<and> ss_disconnected s' = ss_disconnected s \<and> ss_disconnectTTL s' = ss_disconnectTTL s
     \<and> ss_epoch s' = ss_epoch s \<and> tg_closed (ss_target s') = tg_closed (ss_target s)"

lemma life_of_same: "same_control s s' \<Longrightarrow> life_of cfg now s' r = life_of cfg now s r"
  by (simp add: life_of_def same_control_def split: option.split)

lemma server_inv_update:
  assumes "server_inv w" and "same_control (sw_sess w) s'" and "session_grows (sw_sess w) s'"
    and "server_streams s'" and "server_buffer (sw_cfg w) s'"
  shows "server_inv (w\<lparr>sw_sess := s'\<rparr>)"
  using assms by (auto simp: server_inv_def life_of_same elim: frames_ok_grows)

text \<open>Delivering a payload to the target.\<close>

lemma deliver_inv:
  assumes inv: "server_inv w" and wr: "writeAll sink_write (tg_sink (ss_target (sw_sess w))) p = (n, err, sk)"
    and fit: "length (target_written w) + length p < stream_limit"
  shows "server_inv (upd_sess (\<lambda>s. s\<lparr>ss_target := (ss_target s)\<lparr>tg_sink := sk\<rparr>, ss_c2sRx := ss_c2sRx s + of_nat n\<rparr>) w)"
proof -
  from sink_writer.writeAll_log [OF wr] have n: "n \<le> length p" and sk: "sk_written sk = target_written w @ take n p"
    by auto
  have "unat (ss_c2sRx (sw_sess w) + of_nat n) = length (target_written w) + n"
    using inv fit n by (subst u64_add_nat) (auto simp: server_inv_def server_streams_def)
  with inv n sk show ?thesis
    by (intro server_inv_update [OF inv])
       (auto simp: server_inv_def server_streams_def same_control_def server_buffer_def session_grows_def)
qed

lemma rx_le_written: "server_inv w \<Longrightarrow> unat (ss_c2sRx (sw_sess w)) = length (target_written w)"
  by (simp add: server_inv_def server_streams_def)

lemma handleClientData_inv:
  assumes inv: "server_inv w" and fit: "length (target_written w) + length p < stream_limit"
  shows "server_inv (snd (handleClientData conn f p w))"
proof -
  obtain n err sk where wr: "writeAll sink_write (tg_sink (ss_target (sw_sess w))) p = (n, err, sk)"
    by (cases "writeAll sink_write (tg_sink (ss_target (sw_sess w))) p")
  note d = deliver_inv [OF inv wr fit]
  show ?thesis
    using inv rx_le_written [OF inv] wr d rx_le_written [OF d]
    by (auto simp: handleClientData_def Let_def server_send_inv closeTerminal_inv split: option.split)
qed

lemma handleClientFin_inv:
  assumes "server_inv w"
  shows "server_inv (snd (handleClientFin conn f w))"
proof -
  have "server_inv (upd_sess (\<lambda>s. s\<lparr>ss_c2sFin := True, ss_target := target_close_write (ss_target s)\<rparr>) w)"
    using assms by (intro server_inv_update [OF assms])
      (auto simp: server_inv_def server_streams_def same_control_def server_buffer_def session_grows_def)
  with assms rx_le_written [OF assms] show ?thesis
    by (auto simp: handleClientFin_def Let_def intro!: server_send_inv)
qed

lemma broadcast_inv:
  assumes "server_inv w" and "server_inv (w\<lparr>sw_sess := s\<rparr>)"
  shows "server_inv (w\<lparr>sw_sess := cond_broadcast s\<rparr>)"
proof -
  have "server_inv ((w\<lparr>sw_sess := s\<rparr>)\<lparr>sw_sess := cond_broadcast s\<rparr>)"
    using assms(2) by (intro server_inv_update [OF assms(2)])
      (auto simp: server_inv_def server_streams_def same_control_def server_buffer_def session_grows_def cond_broadcast_reader)
  then show ?thesis by simp
qed

lemma advance_frame:
  assumes "advanceS2CAckLocked off s = Inr s'"
  shows "same_control s s'" "ss_target s' = ss_target s" "ss_reader s' = ss_reader s" "ss_s2cFin s' = ss_s2cFin s"
    "ss_c2sRx s' = ss_c2sRx s" "length (ss_s2cBuf s') \<le> length (ss_s2cBuf s)" "ss_id s' = ss_id s"
  using assms by (auto simp: advanceS2CAckLocked_def Let_def same_control_def split: if_splits)

lemma advance_inv:
  assumes inv: "server_inv w" and adv: "advanceS2CAckLocked off (sw_sess w) = Inr s'"
  shows "server_inv (w\<lparr>sw_sess := s'\<rparr>)"
proof -
  have "sender_ok (ss_s2cNext s') (ss_s2cAck s') (ss_s2cBufFrom s') (ss_s2cBuf s') (target_source w)"
    using inv s2c.advance_refines(1) [OF _ adv] by (simp add: server_inv_def server_streams_def)
  with inv advance_frame [OF adv] show ?thesis
    by (intro server_inv_update [OF inv])
       (auto simp: server_inv_def server_streams_def server_buffer_def session_grows_def)
qed

lemma run_frame_inv:
  assumes inv: "server_inv w" and fit: "length (target_written w) + length p < stream_limit"
  shows "server_inv (snd (run_frame conn f p w))"
proof -
  have b: "server_inv (upd_sess cond_broadcast w)"
    using broadcast_inv [OF inv, of "sw_sess w"] inv by simp
  have a: "server_inv (w\<lparr>sw_sess := cond_broadcast s\<rparr>)" if "advanceS2CAckLocked off (sw_sess w) = Inr s" for off s
    using broadcast_inv [OF inv advance_inv [OF inv that]] .
  obtain e1 w1 where d: "handleClientData conn f p w = (e1, w1)" by fastforce
  obtain e2 w2 where n: "handleClientFin conn f w = (e2, w2)" by fastforce
  have i: "server_inv w1" "server_inv w2"
    using handleClientData_inv [OF inv fit, of conn f] handleClientFin_inv [OF inv, of conn f] d n by simp_all
  show ?thesis
    using inv b a i
    by (simp add: run_frame_def d n reject_inv closeTerminal_inv disconnect_inv server_send_inv
        split: option.split sum.split)
qed

section \<open>Resuming\<close>

lemma resume_commit_frame [simp]:
  "ss_target (resume_commit i s) = ss_target s" "ss_reader (resume_commit i s) = ss_reader s"
  "ss_id (resume_commit i s) = ss_id s" "ss_c2sRx (resume_commit i s) = ss_c2sRx s"
  "ss_s2cNext (resume_commit i s) = ss_s2cNext s" "ss_s2cAck (resume_commit i s) = ss_s2cAck s"
  "ss_s2cBuf (resume_commit i s) = ss_s2cBuf s" "ss_s2cBufFrom (resume_commit i s) = ss_s2cBufFrom s"
  "ss_s2cFin (resume_commit i s) = ss_s2cFin s" "ss_closed (resume_commit i s) = ss_closed s"
  "ss_epoch (resume_commit i s) = ss_epoch s + 1"
  "ss_active (resume_commit i s) = Some \<lparr>sc_ws = i, sc_epoch = ss_epoch s + 1\<rparr>"
  by (simp_all add: resume_commit_def)

lemma resume_commit_inv:
  assumes "server_inv w" and "\<not> ss_closed (sw_sess w)"
  shows "server_inv (upd_sess (resume_commit i) w)"
  using assms
  by (auto simp: server_inv_def server_streams_def server_buffer_def session_grows_def life_of_def
      resume_commit_def elim!: frames_ok_grows)

lemma sendDataChunks_inv:
  assumes inv: "server_inv w"
  shows "server_inv (snd (sendDataChunks conn dirServerToClient (ss_s2cBufFrom (sw_sess w)) (ss_s2cBuf (sw_sess w)) w))"
proof -
  let ?s = "sw_sess w"
  have ok: "sender_ok (ss_s2cNext ?s) (ss_s2cAck ?s) (ss_s2cBufFrom ?s) (ss_s2cBuf ?s) (target_source w)"
    using inv by (simp add: server_inv_def server_streams_def)
  have "sw_sess (snd (sendDataChunks conn dirServerToClient (ss_s2cBufFrom ?s) (ss_s2cBuf ?s) w)) = ?s" by simp
  have "server_inv v \<and> sw_sess v = ?s"
    if v: "v = snd (sendDataChunks conn dirServerToClient (ss_s2cBufFrom ?s) (ss_s2cBuf ?s) w)" for v
    unfolding v sendDataChunks_def chunk_loop_send_all
    by (rule send_all_invariant) (use inv sender_ok_chunks(1) [OF ok] in \<open>auto intro!: server_send_inv\<close>)
  then show ?thesis by blast
qed

lemma resume_replay_inv:
  assumes inv: "server_inv w"
  shows "server_inv (snd (resume_replay conn (sw_sess w) w))"
proof -
  let ?s = "sw_sess w"
  obtain e1 w1 where s1: "server_send conn (accept_header (ss_id ?s) (ss_epoch ?s) (ss_c2sRx ?s) (ss_s2cAck ?s)) [] w
      = (e1, w1)" by fastforce
  have i1: "server_inv w1" using server_send_inv_eq [OF s1 inv] rx_le_written [OF inv] by simp
  have k1: "sw_sess w1 = ?s" using server_send_eq [OF s1] by simp
  obtain e2 w2 where s2: "sendDataChunks conn dirServerToClient (ss_s2cBufFrom ?s) (ss_s2cBuf ?s) w1 = (e2, w2)"
    by fastforce
  have i2: "server_inv w2" using sendDataChunks_inv [OF i1, of conn] s2 k1 by simp
  have k2: "sw_sess w2 = ?s"
    using sendDataChunks_frame(3) [of conn dirServerToClient "ss_s2cBufFrom ?s" "ss_s2cBuf ?s" w1] s2 k1 by simp
  have "server_inv (snd (server_send conn (fin_header dirServerToClient (ss_s2cNext ?s)) [] w2))" if "ss_s2cFin ?s"
    using that i2 k2 by (intro server_send_inv)
      (auto simp: server_inv_def server_buffer_def server_streams_def sender_ok_def)
  with s1 s2 i1 i2 show ?thesis
    by (simp add: resume_replay_def disconnect_inv split: option.split)
qed

lemma server_ws_close_inv: "server_inv w \<Longrightarrow> server_inv (server_ws_close i w)"
  by (simp add: server_inv_def)

lemma resume_inv:
  assumes inv: "server_inv w"
  shows "server_inv (snd (resume i f w))"
proof (cases "advanceS2CAckLocked (h_s2c_rx f) (sw_sess w)")
  case (Inl e)
  then show ?thesis using inv by (simp add: resume_def Let_def closeTerminal_inv)
next
  case (Inr s1)
  show ?thesis
  proof (cases "ss_closed (sw_sess w)")
    case False
    let ?w1 = "w\<lparr>sw_sess := resume_commit i s1\<rparr>"
    let ?w2 = "case ss_active (sw_sess w) of None \<Rightarrow> ?w1 | Some old \<Rightarrow> server_ws_close (sc_ws old) ?w1"
    have "server_inv (w\<lparr>sw_sess := s1\<rparr>)" by (rule advance_inv [OF inv Inr])
    moreover have "\<not> ss_closed s1" using advance_frame(1) [OF Inr] False by (simp add: same_control_def)
    ultimately have "server_inv ?w1" using resume_commit_inv [of "w\<lparr>sw_sess := s1\<rparr>" i] by simp
    then have i2: "server_inv ?w2" by (simp add: server_ws_close_inv split: option.split)
    have k2: "sw_sess ?w2 = resume_commit i s1" by (simp split: option.split)
    let ?conn = "\<lparr>sc_ws = i, sc_epoch = ss_epoch (resume_commit i s1)\<rparr>"
    obtain e w3 where r: "resume_replay ?conn (resume_commit i s1) ?w2 = (e, w3)" by fastforce
    have "server_inv w3" using resume_replay_inv [OF i2, of ?conn] k2 r by simp
    then show ?thesis
      using inv Inr False r
      by (simp add: resume_def Let_def closeTerminal_inv del: resume_commit_frame split: option.split)
  qed (use inv in \<open>simp add: resume_def Let_def\<close>)
qed

section \<open>The reader\<close>

lemma reader_check_inv:
  assumes "server_inv w" and "ss_reader (sw_sess w) = ReaderCheck"
  shows "server_inv (reader_check w)"
  using assms unfolding reader_check_def
  by (intro server_inv_update)
     (auto simp: server_inv_def server_streams_def server_buffer_def same_control_def session_grows_def)

lemma reader_data_inv:
  assumes inv: "server_inv w" and r: "ss_reader (sw_sess w) = ReaderCheck"
    and room: "int (length (ss_s2cBuf (sw_sess w))) < rc_buffer (sw_cfg w)" and len: "length bs \<le> dataChunkBytes"
    and fit: "length (target_source w) + length bs < stream_limit"
  shows "server_inv (reader_data bs w)" "ss_reader (sw_sess (reader_data bs w)) = ReaderCheck"
proof -
  let ?s = "sw_sess w" and ?s1 = "append_s2c bs (note_read bs (sw_sess w))"
  let ?h = "zero_header\<lparr>h_type := ''data'', h_direction := dirServerToClient, h_offset := ss_s2cNext ?s\<rparr>"
  have ok: "sender_ok (ss_s2cNext ?s) (ss_s2cAck ?s) (ss_s2cBufFrom ?s) (ss_s2cBuf ?s) (target_source w)"
    using inv by (simp add: server_inv_def server_streams_def)
  then have "sender_ok (ss_s2cNext ?s1) (ss_s2cAck ?s1) (ss_s2cBufFrom ?s1) (ss_s2cBuf ?s1) (target_source w @ bs)"
    using s2c.append_sender_ok [of "note_read bs ?s" "target_source w" bs] fit by (simp add: note_read_def)
  then have i1: "server_inv (w\<lparr>sw_sess := ?s1\<rparr>)"
    using inv r room len
    by (intro server_inv_update [OF inv])
       (auto simp: server_inv_def server_streams_def same_control_def session_grows_def server_buffer_def
         append_s2c_def note_read_def)
  have d: "server_frame_ok ?s1 (?h, bs)"
    using ok by (simp add: append_s2c_def note_read_def sender_ok_def slice_at_end)
  have i2: "server_inv w2" "ss_reader (sw_sess w2) = ReaderCheck"
    if "server_send conn ?h bs (w\<lparr>sw_sess := ?s1\<rparr>) = (e, w2)" for conn e w2
    using server_send_inv_eq [OF that i1] d server_send_eq [OF that] r
    by (simp_all add: append_s2c_def note_read_def)
  show "server_inv (reader_data bs w)" "ss_reader (sw_sess (reader_data bs w)) = ReaderCheck"
    using inv i1 i2 r
    by (auto simp: reader_data_def Let_def disconnect_inv sess_disconnect cond_broadcast_reader append_s2c_def
        note_read_def split: option.split prod.split)
qed

lemma reader_end_inv:
  assumes inv: "server_inv w"
  shows "server_inv (reader_end w)"
proof -
  let ?w1 = "upd_sess (\<lambda>s. s\<lparr>ss_s2cFin := True, ss_reader := ReaderStopped\<rparr>) w"
  have i1: "server_inv ?w1"
    using inv by (intro server_inv_update [OF inv])
      (auto simp: server_inv_def server_streams_def server_buffer_def same_control_def session_grows_def)
  have "server_frame_ok (sw_sess ?w1) (fin_header dirServerToClient (ss_s2cNext (sw_sess ?w1)), [])"
    using inv by (simp add: server_inv_def server_streams_def sender_ok_def)
  then have "server_inv (snd (server_send conn (fin_header dirServerToClient (ss_s2cNext (sw_sess ?w1))) [] ?w1))" for conn
    by (rule server_send_inv [OF i1])
  with i1 show ?thesis by (simp add: reader_end_def Let_def closeTerminal_inv split: option.split)
qed

lemma reader_read_inv:
  assumes inv: "server_inv w" and r: "ss_reader (sw_sess w) = ReaderReading" and len: "length bs \<le> dataChunkBytes"
    and fit: "length (target_source w) + length bs < stream_limit"
  shows "server_inv (reader_read bs failed w)"
proof -
  let ?w = "upd_sess (\<lambda>s. s\<lparr>ss_reader := ReaderCheck\<rparr>) w"
  have "server_inv ?w"
    using inv r by (intro server_inv_update [OF inv])
      (auto simp: server_inv_def server_streams_def server_buffer_def same_control_def session_grows_def)
  moreover have "int (length (ss_s2cBuf (sw_sess w))) < rc_buffer (sw_cfg w)"
    using inv r by (simp add: server_inv_def server_buffer_def)
  ultimately have "server_inv (reader_data bs ?w)"
    using len fit by (intro reader_data_inv) simp_all
  then show ?thesis by (simp add: reader_read_def Let_def reader_end_inv)
qed

section \<open>Runs of a session\<close>

text \<open>The session as \<open>wsServer.accept\<close> leaves it for a new hello: connection \<open>i\<close> is active at epoch 1.\<close>

definition open_session :: "string \<Rightarrow> nat \<Rightarrow> target \<Rightarrow> server_session" where
  "open_session sid i tgt =
     (newServerSession sid tgt)\<lparr>ss_active := Some \<lparr>sc_ws = i, sc_epoch = 1\<rparr>, ss_epoch := 1\<rparr>"

text \<open>
  What can happen to a session: a frame or a read error on any of its connections, a resume, the
  reader, the timer, the clock, and the environment changing how much a socket or the target takes.
  Streams stay below \<open>2 ^ 64\<close> bytes. A frame can arrive from a connection of any epoch.
\<close>

inductive session_step :: "sworld \<Rightarrow> sworld \<Rightarrow> bool" where
  step_frame: "length (target_written w) + length p < stream_limit \<Longrightarrow> session_step w (snd (run_frame conn f p w))"
| step_error: "session_step w (run_read_error conn e w)"
| step_resume: "session_step w (snd (resume i f w))"
| step_check: "ss_reader (sw_sess w) = ReaderCheck \<Longrightarrow> session_step w (reader_check w)"
| step_read: "ss_reader (sw_sess w) = ReaderReading \<Longrightarrow> length bs \<le> dataChunkBytes \<Longrightarrow>
    length (target_source w) + length bs < stream_limit \<Longrightarrow> session_step w (reader_read bs failed w)"
| step_timer: "session_step w (disconnectTTL_fires w)"
| step_clock: "sw_now w \<le> t \<Longrightarrow> session_step w (w\<lparr>sw_now := t\<rparr>)"
| step_socket: "session_step w (w\<lparr>sw_ws := (sw_ws w)(i := (sw_ws w i)\<lparr>ws_budget := b\<rparr>)\<rparr>)"
| step_target: "session_step w (upd_sess (\<lambda>s. s\<lparr>ss_target := (ss_target s)\<lparr>tg_sink := (tg_sink (ss_target s))\<lparr>sk_budget := b\<rparr>\<rparr>\<rparr>) w)"

abbreviation session_reachable :: "sworld \<Rightarrow> sworld \<Rightarrow> bool" where
  "session_reachable \<equiv> session_step\<^sup>*\<^sup>*"

lemmas session_start = rtranclp.rtrancl_refl [of session_step]
  and session_next = run_then [of session_step]

lemma life_of_later: "life_of cfg now s r \<Longrightarrow> now \<le> t \<Longrightarrow> life_of cfg t s r"
  by (cases "ss_closed s") (auto simp: life_of_def split: option.splits)

lemma session_step_inv:
  assumes "session_step w w'" and inv: "server_inv w"
  shows "server_inv w'"
  using assms(1)
proof cases
  case (step_clock t)
  with inv show ?thesis by (auto simp: server_inv_def elim: life_of_later)
next
  case (step_socket i b)
  with inv show ?thesis by (auto simp: server_inv_def frames_ok_in_def)
next
  case (step_target b)
  show ?thesis
    unfolding step_target using inv by (intro server_inv_update [OF inv])
      (auto simp: server_inv_def server_streams_def server_buffer_def same_control_def session_grows_def)
qed (use inv in \<open>simp_all add: run_frame_inv run_read_error_inv resume_inv reader_check_inv reader_read_inv
       disconnectTTL_fires_inv\<close>)

interpretation session: step_system session_step server_inv
  by unfold_locales (rule session_step_inv)

lemmas reachable_inv = session.run_inv

end
