(* ===== verification/Server_Props.thy ===== *)
theory Server_Props
  imports Server_Inv
begin

text \<open>
  What a server session does: every branch of the frame handlers, fencing by epoch, the exact frames
  a resume sends, the finality of \<open>closeTerminal\<close>, the timer, and two behaviours of the concurrent
  code that the locked parts allow: a reader that a resume does not wake, and a payload that two
  overlapping connections both deliver.
\<close>

section \<open>Reachable sessions\<close>

text \<open>A session right after the hello that created it, on connection \<open>i\<close>, with untouched sockets.\<close>

definition fresh_world :: "resume_config \<Rightarrow> instant \<Rightarrow> string \<Rightarrow> nat \<Rightarrow> sworld" where
  "fresh_world cfg now sid i = \<lparr>sw_cfg = cfg, sw_now = now,
     sw_sess = open_session sid i \<lparr>tg_read = [], tg_sink = \<lparr>sk_written = [], sk_budget = None, sk_closed = False\<rparr>, tg_closed = False\<rparr>,
     sw_ws = (\<lambda>_. \<lparr>ws_out = [], ws_budget = None, ws_closed = False\<rparr>), sw_registered = True\<rparr>"

lemma fresh_inv: "0 < rc_buffer cfg \<Longrightarrow> server_inv (fresh_world cfg now sid i)"
  by (simp add: server_inv_def fresh_world_def open_session_def newServerSession_def server_streams_def
      sender_ok_def life_of_def server_buffer_def frames_ok_in_def dataChunkBytes_def)

lemmas reachable_fresh_inv = reachable_inv [OF _ fresh_inv]

text \<open>
  In every reachable state of a server session the replay buffer holds exactly the bytes read from
  the target that the client has not acknowledged, \<open>s2cNext\<close> counts the bytes read, and \<open>c2sRx\<close>
  counts the bytes written to the target.
\<close>

theorem session_offsets_exact:
  assumes "0 < rc_buffer cfg" and "session_reachable (fresh_world cfg now sid i) w"
  shows "unat (ss_s2cNext (sw_sess w)) = length (target_source w)
    \<and> ss_s2cBufFrom (sw_sess w) = ss_s2cAck (sw_sess w)
    \<and> unat (ss_s2cAck (sw_sess w)) \<le> length (target_source w)
    \<and> ss_s2cBuf (sw_sess w) = drop (unat (ss_s2cAck (sw_sess w))) (target_source w)
    \<and> unat (ss_c2sRx (sw_sess w)) = length (target_written w)"
  using reachable_fresh_inv [OF assms(2,1)] by (simp add: server_inv_def server_streams_def sender_ok_def)

definition demo_cfg :: resume_config where
  "demo_cfg = \<lparr>rc_timeout = 60000000000, rc_buffer = 4\<rparr>"

definition demo_world :: sworld where
  "demo_world = fresh_world demo_cfg 0 ''s'' 0"

lemma demo_reads:
  "session_reachable (fresh_world demo_cfg 0 ''s'' 0) (reader_read [1, 2, 3, 4, 5] False (reader_check demo_world))"
proof -
  have "session_reachable (fresh_world demo_cfg 0 ''s'' 0) (reader_check demo_world)"
    unfolding demo_world_def
    by (rule session_next [OF session_start], rule step_check)
       (simp add: fresh_world_def open_session_def newServerSession_def)
  then show ?thesis
    by (rule session_next, intro step_read)
       (simp_all add: reader_check_def demo_world_def fresh_world_def open_session_def newServerSession_def
         demo_cfg_def dataChunkBytes_def)
qed

theorem session_offsets_exact_witness:
  "unat (ss_s2cNext (sw_sess (reader_read [1, 2, 3, 4, 5] False (reader_check demo_world))))
     = length (target_source (reader_read [1, 2, 3, 4, 5] False (reader_check demo_world)))"
  using session_offsets_exact [OF _ demo_reads] by (simp add: demo_cfg_def)

text \<open>
  The replay buffer is bounded: it never holds as much as \<open>buffer_bytes\<close> plus one read of 32 KiB,
  because \<open>readTarget\<close> reads only while the buffer is below \<open>buffer_bytes\<close>.
\<close>

theorem session_buffer_bounded:
  assumes "0 < rc_buffer cfg" and "session_reachable (fresh_world cfg now sid i) w"
  shows "int (length (ss_s2cBuf (sw_sess w))) < rc_buffer (sw_cfg w) + int dataChunkBytes"
  using reachable_fresh_inv [OF assms(2,1)] by (simp add: server_inv_def server_buffer_def)

theorem session_buffer_bounded_witness:
  "int (length (ss_s2cBuf (sw_sess (reader_read [1, 2, 3, 4, 5] False (reader_check demo_world)))))
     < rc_buffer (sw_cfg (reader_read [1, 2, 3, 4, 5] False (reader_check demo_world))) + int dataChunkBytes"
  using session_buffer_bounded [OF _ demo_reads] by (simp add: demo_cfg_def)

text \<open>
  Every frame the server ever put on any connection of a session is truthful: data is a slice of
  the bytes read from the target at its offset, an acknowledgement or accept never claims more than
  was written to the target, and a fin carries the final length of the target's stream.
\<close>

theorem session_frames_truthful:
  assumes "0 < rc_buffer cfg" and "session_reachable (fresh_world cfg now sid i) w"
    and "(h, p) \<in> set (ws_out (sw_ws w k))"
  shows "(h_type h = ''data'' \<longrightarrow> slice_at (unat (h_offset h)) p (target_source w))
    \<and> (h_type h = ''ack'' \<longrightarrow> unat (h_received_offset h) \<le> length (target_written w))
    \<and> (h_type h = ''accept'' \<longrightarrow> unat (h_c2s_rx h) \<le> length (target_written w))
    \<and> (h_type h = ''fin'' \<longrightarrow> unat (h_offset h) = length (target_source w))"
  using reachable_fresh_inv [OF assms(2,1)] assms(3)
  by (fastforce simp: server_inv_def frames_ok_in_def server_frame_ok_def)

lemma demo_frame:
  "(zero_header\<lparr>h_type := ''data'', h_direction := dirServerToClient, h_offset := 0, h_session_id := ''s'', h_epoch := 1\<rparr>, [1, 2, 3, 4, 5])
     \<in> set (ws_out (sw_ws (reader_read [1, 2, 3, 4, 5] False (reader_check demo_world)) 0))"
proof -
  let ?h = "zero_header\<lparr>h_type := ''data'', h_direction := dirServerToClient, h_offset := 0, h_session_id := ''s'', h_epoch := 1\<rparr>"
  have "\<exists>msg. writeFrame ?h [1, 2, 3, 4, 5] = Inr msg"
    by (rule writeFrame_small)
       (simp_all add: wf_header_def header_text_def utf8_valid_ascii dirServerToClient_def maxPayloadBytes_def)
  then show ?thesis
    by (auto simp: reader_read_def reader_check_def reader_data_def demo_world_def fresh_world_def open_session_def
        newServerSession_def demo_cfg_def append_s2c_def note_read_def server_send_def fill_header_def path_level_def
        ws_send_def Let_def)
qed

theorem session_frames_truthful_witness:
  "slice_at 0 [1, 2, 3, 4, 5] (target_source (reader_read [1, 2, 3, 4, 5] False (reader_check demo_world)))"
  using session_frames_truthful [OF _ demo_reads demo_frame] by (simp add: demo_cfg_def)

section \<open>Handling client data\<close>

text \<open>
  \<open>handleClientData\<close> on every branch: a frame below the receive offset is acknowledged again or
  refused as a partial overlap, one above it is a gap, and one at the offset is written to the target
  and counted; on success the whole payload is written exactly once.
\<close>

theorem handleClientData_branches:
  "(h_direction f \<noteq> dirClientToServer \<longrightarrow> handleClientData conn f p w = (Some (Errorf ''bad data direction''), w))
   \<and> (h_direction f = dirClientToServer \<and> h_offset f < ss_c2sRx (sw_sess w)
        \<and> h_offset f + of_nat (length p) \<le> ss_c2sRx (sw_sess w) \<longrightarrow>
      handleClientData conn f p w = server_send conn (ack_header dirClientToServer (ss_c2sRx (sw_sess w))) [] w)
   \<and> (h_direction f = dirClientToServer \<and> h_offset f < ss_c2sRx (sw_sess w)
        \<and> ss_c2sRx (sw_sess w) < h_offset f + of_nat (length p) \<longrightarrow>
      handleClientData conn f p w = (Some (Errorf ''partial duplicate client data''), w))
   \<and> (h_direction f = dirClientToServer \<and> ss_c2sRx (sw_sess w) < h_offset f \<longrightarrow>
      handleClientData conn f p w = (Some (Errorf ''client data offset gap''), w))
   \<and> (h_direction f = dirClientToServer \<and> h_offset f = ss_c2sRx (sw_sess w) \<longrightarrow>
      (\<exists>n \<le> length p. \<exists>w'. handleClientData conn f p w = (None, w')
        \<and> target_written w' = target_written w @ take n p
        \<and> ss_c2sRx (sw_sess w') = ss_c2sRx (sw_sess w) + of_nat n
        \<and> (n < length p \<longrightarrow> ss_closed (sw_sess w'))))"
proof -
  have "\<exists>n \<le> length p. \<exists>w'. handleClientData conn f p w = (None, w')
        \<and> target_written w' = target_written w @ take n p
        \<and> ss_c2sRx (sw_sess w') = ss_c2sRx (sw_sess w) + of_nat n
        \<and> (n < length p \<longrightarrow> ss_closed (sw_sess w'))"
    if d: "h_direction f = dirClientToServer" and o: "h_offset f = ss_c2sRx (sw_sess w)"
  proof -
    obtain n err sk where wr: "writeAll sink_write (tg_sink (ss_target (sw_sess w))) p = (n, err, sk)"
      by (cases "writeAll sink_write (tg_sink (ss_target (sw_sess w))) p")
    from sink_writer.writeAll_log [OF wr] d o wr show ?thesis
      by (intro exI [of _ n])
         (auto simp: handleClientData_def Let_def sess_closeTerminal split: option.split)
  qed
  then show ?thesis by (auto simp: handleClientData_def Let_def not_le)
qed

theorem handleClientData_branches_witness:
  "\<exists>w'. handleClientData \<lparr>sc_ws = 0, sc_epoch = 1\<rparr>
       (zero_header\<lparr>h_direction := dirClientToServer\<rparr>) [7, 8] demo_world = (None, w')
     \<and> target_written w' = [7, 8] \<and> ss_c2sRx (sw_sess w') = 2"
proof -
  have "\<exists>n \<le> length [7, 8 :: byte]. \<exists>w'. handleClientData \<lparr>sc_ws = 0, sc_epoch = 1\<rparr>
        (zero_header\<lparr>h_direction := dirClientToServer\<rparr>) [7, 8] demo_world = (None, w')
      \<and> target_written w' = target_written demo_world @ take n [7, 8]
      \<and> ss_c2sRx (sw_sess w') = ss_c2sRx (sw_sess demo_world) + of_nat n
      \<and> (n < length [7, 8 :: byte] \<longrightarrow> ss_closed (sw_sess w'))"
    using handleClientData_branches [of "zero_header\<lparr>h_direction := dirClientToServer\<rparr>" "\<lparr>sc_ws = 0, sc_epoch = 1\<rparr>"
        "[7, 8]" demo_world]
    by (simp add: demo_world_def fresh_world_def open_session_def newServerSession_def)
  moreover have "\<not> ss_closed (sw_sess (snd (handleClientData \<lparr>sc_ws = 0, sc_epoch = 1\<rparr>
        (zero_header\<lparr>h_direction := dirClientToServer\<rparr>) [7, 8] demo_world)))"
    by (simp add: handleClientData_def demo_world_def fresh_world_def open_session_def newServerSession_def
        writeAll.simps sink_write_def Let_def)
  ultimately obtain n w' where "handleClientData \<lparr>sc_ws = 0, sc_epoch = 1\<rparr>
        (zero_header\<lparr>h_direction := dirClientToServer\<rparr>) [7, 8] demo_world = (None, w')"
      and "target_written w' = target_written demo_world @ take n [7, 8]" and "n = 2"
      and "ss_c2sRx (sw_sess w') = ss_c2sRx (sw_sess demo_world) + of_nat n"
    by fastforce
  then show ?thesis by (auto simp: demo_world_def fresh_world_def open_session_def newServerSession_def)
qed

section \<open>Fencing\<close>

lemma run_frame_inactive:
  "\<not> isActive conn f w \<Longrightarrow> sw_sess (snd (run_frame conn f p w)) = sw_sess w
     \<and> sw_registered (snd (run_frame conn f p w)) = sw_registered w"
  by (simp add: run_frame_def)

text \<open>A connection that is not the active one cannot change the session, whatever it sends.\<close>

lemma not_active_inert:
  "ss_active (sw_sess w) \<noteq> Some conn \<Longrightarrow> sw_sess (snd (run_frame conn f p w)) = sw_sess w
     \<and> sw_sess (run_read_error conn e w) = sw_sess w"
  by (simp add: run_frame_inactive isActive_def Let_def run_read_error_def sess_disconnect)

section \<open>What a resume sends\<close>

definition data_header :: "string \<Rightarrow> u64 \<Rightarrow> frame_header" where
  "data_header d off = zero_header\<lparr>h_type := ''data'', h_direction := d, h_offset := off\<rparr>"

definition chunk_frames :: "string \<Rightarrow> u64 \<Rightarrow> string \<Rightarrow> (u64 \<times> bytes) list \<Rightarrow> frame list" where
  "chunk_frames sid e d cs = map (\<lambda>(off, c). (fill_header sid e (data_header d off), c)) cs"

lemma contiguous_chunks: "contiguous off (chunk_frames sid e d (chunks off data))"
proof (induction off data rule: chunks.induct)
  case (1 off data)
  then show ?case
    by (subst chunks.simps) (auto simp: Let_def chunk_frames_def data_header_def min_def)
qed

lemma concat_chunk_frames [simp]: "concat (map snd (chunk_frames sid e d (chunks off data))) = data"
proof -
  have "map snd (chunk_frames sid e d cs) = map snd cs" for cs
    by (induction cs) (auto simp: chunk_frames_def)
  then show ?thesis by (simp add: chunks_concat)
qed

lemma send_all_frames:
  assumes "send_all (\<lambda>off p. server_send conn (data_header d off) p) cs w = (None, w')"
  shows "ws_out (sw_ws w' (sc_ws conn)) = ws_out (sw_ws w (sc_ws conn)) @ chunk_frames (ss_id (sw_sess w)) (sc_epoch conn) d cs"
  using assms
proof (induction cs arbitrary: w)
  case (Cons oc cs)
  obtain off c where oc: "oc = (off, c)" by (cases oc)
  obtain e w1 where s: "server_send conn (data_header d off) c w = (e, w1)" by fastforce
  with Cons.prems oc have e: "e = None" and r: "send_all (\<lambda>off p. server_send conn (data_header d off) p) cs w1 = (None, w')"
    by (cases e; simp)+
  have "ws_out (sw_ws w1 (sc_ws conn)) = ws_out (sw_ws w (sc_ws conn))
      @ [(fill_header (ss_id (sw_sess w)) (sc_epoch conn) (data_header d off), c)]"
    using server_send_out [of conn "data_header d off" c w "sc_ws conn"] s e by simp
  with Cons.IH [OF r] oc server_send_eq [OF s] show ?case by (simp add: chunk_frames_def)
qed (simp add: chunk_frames_def)

lemma sendDataChunks_out:
  "sendDataChunks conn d off data w = (None, w') \<Longrightarrow>
   ws_out (sw_ws w' (sc_ws conn)) = ws_out (sw_ws w (sc_ws conn))
     @ chunk_frames (ss_id (sw_sess w)) (sc_epoch conn) d (chunks off data)"
  unfolding sendDataChunks_def chunk_loop_send_all by (rule send_all_frames) (simp add: data_header_def)


text \<open>A successful \<open>resume\<close>, taken apart.\<close>

lemma resume_success:
  assumes "resume i f w = (Inr conn, w')"
  obtains s1 w2 where "\<not> ss_closed (sw_sess w)" and "\<not> ss_c2sRx (sw_sess w) < h_c2s_rx f"
    and "\<not> (\<exists>t. ss_disconnected (sw_sess w) = Some t \<and> rc_timeout (sw_cfg w) < sw_now w - t)"
    and "advanceS2CAckLocked (h_s2c_rx f) (sw_sess w) = Inr s1"
    and "conn = \<lparr>sc_ws = i, sc_epoch = ss_epoch s1 + 1\<rparr>"
    and "w2 = (case ss_active (sw_sess w) of None \<Rightarrow> w\<lparr>sw_sess := resume_commit i s1\<rparr>
           | Some old \<Rightarrow> server_ws_close (sc_ws old) (w\<lparr>sw_sess := resume_commit i s1\<rparr>))"
    and "resume_replay conn (resume_commit i s1) w2 = (None, w')"
proof -
  let ?s = "sw_sess w"
  have c: "\<not> ss_closed ?s" using assms by (auto simp: resume_def Let_def split: if_splits)
  have t: "\<not> (\<exists>t. ss_disconnected ?s = Some t \<and> rc_timeout (sw_cfg w) < sw_now w - t)"
    using assms c by (auto simp: resume_def Let_def split: if_splits)
  have r: "\<not> ss_c2sRx ?s < h_c2s_rx f" using assms c t by (auto simp: resume_def Let_def split: if_splits)
  obtain s1 where a: "advanceS2CAckLocked (h_s2c_rx f) ?s = Inr s1"
    using assms c t r by (cases "advanceS2CAckLocked (h_s2c_rx f) ?s") (auto simp: resume_def Let_def)
  let ?conn = "\<lparr>sc_ws = i, sc_epoch = ss_epoch s1 + 1\<rparr>"
  let ?w2 = "case ss_active ?s of None \<Rightarrow> w\<lparr>sw_sess := resume_commit i s1\<rparr>
     | Some old \<Rightarrow> server_ws_close (sc_ws old) (w\<lparr>sw_sess := resume_commit i s1\<rparr>)"
  obtain e w3 where p: "resume_replay ?conn (resume_commit i s1) ?w2 = (e, w3)" by fastforce
  have "resume i f w = (case e of Some x \<Rightarrow> (Inl x, w3) | None \<Rightarrow> (Inr ?conn, w3))"
    using c t r a p by (cases e) (auto simp: resume_def Let_def)
  with assms have "e = None" "conn = ?conn" "w3 = w'" by (auto split: option.splits)
  with that c t r a p show ?thesis by blast
qed

lemma resume_replay_success:
  assumes "resume_replay conn s w = (None, w')"
  obtains w1 w2 where "server_send conn (accept_header (ss_id s) (ss_epoch s) (ss_c2sRx s) (ss_s2cAck s)) [] w = (None, w1)"
    and "sendDataChunks conn dirServerToClient (ss_s2cBufFrom s) (ss_s2cBuf s) w1 = (None, w2)"
    and "w' = (if ss_s2cFin s then snd (server_send conn (fin_header dirServerToClient (ss_s2cNext s)) [] w2) else w2)"
proof -
  obtain e1 w1 where s1: "server_send conn (accept_header (ss_id s) (ss_epoch s) (ss_c2sRx s) (ss_s2cAck s)) [] w = (e1, w1)"
    by fastforce
  obtain e2 w2 where s2: "sendDataChunks conn dirServerToClient (ss_s2cBufFrom s) (ss_s2cBuf s) w1 = (e2, w2)"
    by fastforce
  have "e1 = None" using assms s1 by (cases e1) (auto simp: resume_replay_def)
  moreover have "e2 = None" using assms s1 s2 calculation by (cases e2) (auto simp: resume_replay_def)
  ultimately show ?thesis using that assms s1 s2 by (simp add: resume_replay_def)
qed

lemma resume_replay_sess:
  assumes "resume_replay conn s w = (None, w')"
  shows "sw_sess w' = sw_sess w" "sw_registered w' = sw_registered w" "sw_cfg w' = sw_cfg w" "sw_now w' = sw_now w"
proof -
  obtain w1 w2 where "server_send conn (accept_header (ss_id s) (ss_epoch s) (ss_c2sRx s) (ss_s2cAck s)) [] w = (None, w1)"
    and "sendDataChunks conn dirServerToClient (ss_s2cBufFrom s) (ss_s2cBuf s) w1 = (None, w2)"
    and w': "w' = (if ss_s2cFin s then snd (server_send conn (fin_header dirServerToClient (ss_s2cNext s)) [] w2) else w2)"
    by (rule resume_replay_success [OF assms])
  then have "w1 = snd (server_send conn (accept_header (ss_id s) (ss_epoch s) (ss_c2sRx s) (ss_s2cAck s)) [] w)"
    "w2 = snd (sendDataChunks conn dirServerToClient (ss_s2cBufFrom s) (ss_s2cBuf s) w1)" by simp_all
  with w' show "sw_sess w' = sw_sess w" "sw_registered w' = sw_registered w" "sw_cfg w' = sw_cfg w" "sw_now w' = sw_now w"
    by simp_all
qed

lemma resume_sess:
  assumes "resume i f w = (Inr conn, w')"
  shows "\<exists>s1. advanceS2CAckLocked (h_s2c_rx f) (sw_sess w) = Inr s1 \<and> sw_sess w' = resume_commit i s1
     \<and> conn = \<lparr>sc_ws = i, sc_epoch = ss_epoch (sw_sess w) + 1\<rparr>"
proof (rule resume_success [OF assms])
  fix s1 w2
  assume a: "advanceS2CAckLocked (h_s2c_rx f) (sw_sess w) = Inr s1"
    and c: "conn = \<lparr>sc_ws = i, sc_epoch = ss_epoch s1 + 1\<rparr>"
    and w2: "w2 = (case ss_active (sw_sess w) of None \<Rightarrow> w\<lparr>sw_sess := resume_commit i s1\<rparr>
           | Some old \<Rightarrow> server_ws_close (sc_ws old) (w\<lparr>sw_sess := resume_commit i s1\<rparr>))"
    and r: "resume_replay conn (resume_commit i s1) w2 = (None, w')"
  have "sw_sess w' = resume_commit i s1"
    using resume_replay_sess(1) [OF r] w2 by (simp split: option.splits)
  with a c advance_frame(1) [OF a] show ?thesis by (simp add: same_control_def)
qed




text \<open>A socket that takes everything, and the frames that a session sends on it.\<close>

definition healthy :: "ws \<Rightarrow> bool" where
  "healthy s \<longleftrightarrow> \<not> ws_closed s \<and> ws_budget s = None"

definition short_id :: "string \<Rightarrow> bool" where
  "short_id sid \<longleftrightarrow> utf8_valid sid \<and> length sid \<le> 9000"

lemma server_send_healthy:
  assumes "healthy (sw_ws w (sc_ws conn))" and "\<exists>msg. writeFrame (fill_header (ss_id (sw_sess w)) (sc_epoch conn) h) p = Inr msg"
  shows "fst (server_send conn h p w) = None" "healthy (sw_ws (snd (server_send conn h p w)) (sc_ws conn))"
  using assms by (auto simp: healthy_def server_send_def ws_send_def)

lemma accept_written:
  "short_id sid \<Longrightarrow> \<exists>msg. writeFrame (fill_header sid' e' (accept_header sid e a b)) [] = Inr msg"
  if "short_id sid'"
  using that
  by (intro writeFrame_small)
     (auto simp: fill_header_def path_level_def accept_header_def wf_header_def header_text_def utf8_valid_ascii short_id_def)

lemma data_written:
  "short_id sid \<Longrightarrow> length p \<le> maxPayloadBytes \<Longrightarrow> d = dirServerToClient \<Longrightarrow>
   \<exists>msg. writeFrame (fill_header sid e (zero_header\<lparr>h_type := ''data'', h_direction := d, h_offset := off\<rparr>)) p = Inr msg"
  by (rule writeFrame_small)
     (auto simp: fill_header_def path_level_def wf_header_def header_text_def utf8_valid_ascii short_id_def
       dirServerToClient_def)

lemma send_all_healthy:
  assumes "healthy (sw_ws w (sc_ws conn))" and "short_id (ss_id (sw_sess w))"
    and "\<And>off c. (off, c) \<in> set cs \<Longrightarrow> length c \<le> maxPayloadBytes"
  shows "fst (send_all (\<lambda>off p. server_send conn
    (zero_header\<lparr>h_type := ''data'', h_direction := dirServerToClient, h_offset := off\<rparr>) p) cs w) = None"
  using assms
proof (induction cs arbitrary: w)
  case (Cons oc cs)
  obtain off c where oc: "oc = (off, c)" by (cases oc)
  let ?h = "zero_header\<lparr>h_type := ''data'', h_direction := dirServerToClient, h_offset := off\<rparr>"
  obtain e w1 where s: "server_send conn ?h c w = (e, w1)" by fastforce
  have "\<exists>msg. writeFrame (fill_header (ss_id (sw_sess w)) (sc_epoch conn) ?h) c = Inr msg"
    using Cons.prems oc by (intro data_written) auto
  with Cons.prems(1) server_send_healthy [of w conn ?h c] s have e: "e = None" "healthy (sw_ws w1 (sc_ws conn))" by auto
  with Cons.IH [of w1] Cons.prems server_send_eq [OF s] oc s show ?case by auto
qed simp

lemma inv_sender_ok:
  "server_inv w \<Longrightarrow> sender_ok (ss_s2cNext (sw_sess w)) (ss_s2cAck (sw_sess w)) (ss_s2cBufFrom (sw_sess w)) (ss_s2cBuf (sw_sess w))
      (target_source w)"
  by (simp add: server_inv_def server_streams_def)

lemma resume_accepts:
  assumes ok: "sender_ok (ss_s2cNext (sw_sess w)) (ss_s2cAck (sw_sess w)) (ss_s2cBufFrom (sw_sess w)) (ss_s2cBuf (sw_sess w))
      (target_source w)" and "\<not> ss_closed (sw_sess w)"
    and "\<And>t. ss_disconnected (sw_sess w) = Some t \<Longrightarrow> sw_now w - t \<le> rc_timeout (sw_cfg w)"
    and c2s: "\<not> ss_c2sRx (sw_sess w) < h_c2s_rx f" and s2c: "unat (h_s2c_rx f) \<le> length (target_source w)"
    and ws: "healthy (sw_ws w i)" "\<And>old. ss_active (sw_sess w) = Some old \<Longrightarrow> sc_ws old \<noteq> i"
    and sid: "short_id (ss_id (sw_sess w))"
  shows "\<exists>conn. fst (resume i f w) = Inr conn"
proof -
  let ?s = "sw_sess w"
  obtain s1 where a: "advanceS2CAckLocked (h_s2c_rx f) ?s = Inr s1" by (rule s2c.advance_accepts [OF ok s2c])
  let ?s2 = "resume_commit i s1" and ?conn = "\<lparr>sc_ws = i, sc_epoch = ss_epoch s1 + 1\<rparr>"
  let ?w2 = "case ss_active ?s of None \<Rightarrow> w\<lparr>sw_sess := ?s2\<rparr>
     | Some old \<Rightarrow> server_ws_close (sc_ws old) (w\<lparr>sw_sess := ?s2\<rparr>)"
  let ?acc = "accept_header (ss_id ?s2) (ss_epoch ?s2) (ss_c2sRx ?s2) (ss_s2cAck ?s2)"
  have k: "sw_sess ?w2 = ?s2" "healthy (sw_ws ?w2 i)"
    using ws by (auto simp: server_ws_close_def split: option.split)
  have id: "short_id (ss_id ?s2)" using sid advance_frame(7) [OF a] by simp
  obtain e1 w3 where s1: "server_send ?conn ?acc [] ?w2 = (e1, w3)" by fastforce
  have "healthy (sw_ws ?w2 (sc_ws ?conn))" using k by simp
  moreover have "\<exists>msg. writeFrame (fill_header (ss_id (sw_sess ?w2)) (sc_epoch ?conn) ?acc) [] = Inr msg"
    unfolding k by (intro accept_written id)
  ultimately have e1: "e1 = None" and h3: "healthy (sw_ws w3 i)"
    using server_send_healthy [of ?w2 ?conn ?acc "[]"] s1 by auto
  have k3: "sw_sess w3 = ?s2" using server_send_eq [OF s1] k by simp
  have "fst (sendDataChunks ?conn dirServerToClient (ss_s2cBufFrom ?s2) (ss_s2cBuf ?s2) w3) = None"
    unfolding sendDataChunks_def chunk_loop_send_all
    by (rule send_all_healthy) (use h3 k3 id chunks_size in auto)
  then obtain w4 where "sendDataChunks ?conn dirServerToClient (ss_s2cBufFrom ?s2) (ss_s2cBuf ?s2) w3 = (None, w4)"
    by (cases "sendDataChunks ?conn dirServerToClient (ss_s2cBufFrom ?s2) (ss_s2cBuf ?s2) w3") simp
  with s1 e1 have "\<exists>w5. resume_replay ?conn ?s2 ?w2 = (None, w5)"
    by (simp add: resume_replay_def)
  then obtain w5 where r: "resume_replay ?conn ?s2 ?w2 = (None, w5)" ..
  have "\<not> (\<exists>t. ss_disconnected ?s = Some t \<and> rc_timeout (sw_cfg w) < sw_now w - t)"
    using assms(3) by force
  with c2s have "resume i f w = (Inr ?conn, w5)"
    using assms(2) a r by (auto simp: resume_def Let_def)
  then show ?thesis by simp
qed

definition demo_read :: sworld where
  "demo_read = reader_read [1, 2, 3, 4, 5] False (reader_check demo_world)"

definition demo_hello :: frame_header where
  "demo_hello = zero_header\<lparr>h_type := ''hello'', h_resume := True, h_session_id := ''s'', h_s2c_rx := 2\<rparr>"

lemma demo_read_inv: "server_inv demo_read"
  unfolding demo_read_def by (rule reachable_fresh_inv [OF demo_reads]) (simp add: demo_cfg_def)

lemma demo_read_state:
  "\<not> ss_closed (sw_sess demo_read)" "ss_disconnected (sw_sess demo_read) = None" "target_source demo_read = [1, 2, 3, 4, 5]"
  "ss_id (sw_sess demo_read) = ''s''" "healthy (sw_ws demo_read 1)"
  "ss_active (sw_sess demo_read) = Some \<lparr>sc_ws = 0, sc_epoch = 1\<rparr>" "target_written demo_read = []"
  "ss_s2cAck (sw_sess demo_read) = 0" "sw_cfg demo_read = demo_cfg"
  "ss_reader (sw_sess demo_read) = ReaderCheck" "ss_epoch (sw_sess demo_read) = 1" "ss_c2sRx (sw_sess demo_read) = 0"
  "tg_sink (ss_target (sw_sess demo_read)) = \<lparr>sk_written = [], sk_budget = None, sk_closed = False\<rparr>"
proof -
  let ?w = "upd_sess (\<lambda>s. append_s2c [1, 2, 3, 4, 5] (note_read [1, 2, 3, 4, 5] (s\<lparr>ss_reader := ReaderCheck\<rparr>))) (reader_check demo_world)"
  let ?h = "zero_header\<lparr>h_type := ''data'', h_direction := dirServerToClient, h_offset := 0\<rparr>"
  have "\<exists>msg. writeFrame (fill_header ''s'' 1 ?h) [1, 2, 3, 4, 5] = Inr msg"
    by (rule data_written) (simp_all add: short_id_def utf8_valid_ascii maxPayloadBytes_def)
  then obtain w2 where sent: "server_send \<lparr>sc_ws = 0, sc_epoch = 1\<rparr> ?h [1, 2, 3, 4, 5] ?w = (None, w2)"
    using server_send_healthy(1) [of ?w "\<lparr>sc_ws = 0, sc_epoch = 1\<rparr>" ?h "[1, 2, 3, 4, 5]"]
    by (cases "server_send \<lparr>sc_ws = 0, sc_epoch = 1\<rparr> ?h [1, 2, 3, 4, 5] ?w")
       (simp add: reader_check_def demo_world_def fresh_world_def open_session_def newServerSession_def append_s2c_def
         note_read_def healthy_def)
  have act: "ss_active (sw_sess ?w) = Some \<lparr>sc_ws = 0, sc_epoch = 1\<rparr>" "ss_s2cNext (sw_sess (reader_check demo_world)) = 0"
    by (simp_all add: reader_check_def demo_world_def fresh_world_def open_session_def newServerSession_def
        append_s2c_def note_read_def)
  have "demo_read = w2"
    using sent act by (simp add: demo_read_def reader_read_def reader_data_def Let_def)
  with sent have d: "demo_read = snd (server_send \<lparr>sc_ws = 0, sc_epoch = 1\<rparr> ?h [1, 2, 3, 4, 5] ?w)" by simp
  show "\<not> ss_closed (sw_sess demo_read)" "ss_disconnected (sw_sess demo_read) = None"
    "target_source demo_read = [1, 2, 3, 4, 5]" "ss_id (sw_sess demo_read) = ''s''" "healthy (sw_ws demo_read 1)"
    "ss_active (sw_sess demo_read) = Some \<lparr>sc_ws = 0, sc_epoch = 1\<rparr>" "target_written demo_read = []" "ss_s2cAck (sw_sess demo_read) = 0"
    "sw_cfg demo_read = demo_cfg" "ss_reader (sw_sess demo_read) = ReaderCheck" "ss_epoch (sw_sess demo_read) = 1"
    "ss_c2sRx (sw_sess demo_read) = 0"
    "tg_sink (ss_target (sw_sess demo_read)) = \<lparr>sk_written = [], sk_budget = None, sk_closed = False\<rparr>"
    unfolding d
    by (simp_all add: server_send_def reader_check_def demo_world_def demo_cfg_def healthy_def
        fresh_world_def open_session_def newServerSession_def append_s2c_def note_read_def split: prod.split)
qed

lemma demo_resume_succeeds:
  obtains conn w' where "resume 1 demo_hello demo_read = (Inr conn, w')"
proof -
  have "\<exists>conn. fst (resume 1 demo_hello demo_read) = Inr conn"
    by (rule resume_accepts [OF inv_sender_ok [OF demo_read_inv]])
       (simp_all add: demo_read_state demo_hello_def short_id_def utf8_valid_ascii del: One_nat_def)
  with that show ?thesis by (metis prod.collapse)
qed

text \<open>
  A resume with truthful offsets is never refused: on an open session within its timeout, a hello
  that claims no more than was sent in each direction is accepted on a fresh connection.
\<close>

theorem resume_accepts_truthful_offsets:
  assumes inv: "server_inv w" and "\<not> ss_closed (sw_sess w)"
    and "\<And>t. ss_disconnected (sw_sess w) = Some t \<Longrightarrow> sw_now w - t \<le> rc_timeout (sw_cfg w)"
    and c2s: "unat (h_c2s_rx f) \<le> length (target_written w)" and s2c: "unat (h_s2c_rx f) \<le> length (target_source w)"
    and ws: "healthy (sw_ws w i)" "\<And>old. ss_active (sw_sess w) = Some old \<Longrightarrow> sc_ws old \<noteq> i"
    and sid: "short_id (ss_id (sw_sess w))"
  shows "\<exists>w'. resume i f w = (Inr \<lparr>sc_ws = i, sc_epoch = ss_epoch (sw_sess w) + 1\<rparr>, w')
    \<and> ss_active (sw_sess w') = Some \<lparr>sc_ws = i, sc_epoch = ss_epoch (sw_sess w) + 1\<rparr>
    \<and> ss_disconnected (sw_sess w') = None \<and> ss_disconnectTTL (sw_sess w') = None"
proof -
  have "\<not> ss_c2sRx (sw_sess w) < h_c2s_rx f"
    using c2s rx_le_written [OF inv] by (simp add: word_less_nat_alt)
  from resume_accepts [OF inv_sender_ok [OF inv] assms(2,3) this s2c ws sid] obtain conn w' where r: "resume i f w = (Inr conn, w')" by (metis prod.collapse)
  from resume_sess [OF r] obtain s1 where a: "advanceS2CAckLocked (h_s2c_rx f) (sw_sess w) = Inr s1"
    and "sw_sess w' = resume_commit i s1" "conn = \<lparr>sc_ws = i, sc_epoch = ss_epoch (sw_sess w) + 1\<rparr>" by blast
  with r advance_frame(1) [OF a] show ?thesis by (simp add: same_control_def resume_commit_def)
qed

theorem resume_accepts_truthful_offsets_witness:
  "\<exists>w'. resume 1 demo_hello demo_read = (Inr \<lparr>sc_ws = 1, sc_epoch = ss_epoch (sw_sess demo_read) + 1\<rparr>, w')"
  using resume_accepts_truthful_offsets [OF demo_read_inv, where i = 1 and f = demo_hello]
  by (simp add: demo_read_state demo_hello_def short_id_def utf8_valid_ascii del: One_nat_def) blast


text \<open>The frames of a resume, one by one.\<close>

lemma resume_sends:
  assumes inv: "server_inv w" and r: "resume i f w = (Inr conn, w')"
  obtains fins where "ws_out (sw_ws w' i) = ws_out (sw_ws w i)
      @ [(accept_header (ss_id (sw_sess w)) (sc_epoch conn) (ss_c2sRx (sw_sess w)) (max (ss_s2cAck (sw_sess w)) (h_s2c_rx f)), [])]
      @ chunk_frames (ss_id (sw_sess w)) (sc_epoch conn) dirServerToClient
          (chunks (max (ss_s2cAck (sw_sess w)) (h_s2c_rx f)) (drop (unat (max (ss_s2cAck (sw_sess w)) (h_s2c_rx f))) (target_source w)))
      @ fins"
    and "\<forall>h p. (h, p) \<in> set fins \<longrightarrow> h_type h = ''fin'' \<and> unat (h_offset h) = length (target_source w)"
proof -
  let ?s = "sw_sess w" and ?off = "max (ss_s2cAck (sw_sess w)) (h_s2c_rx f)"
  have ok: "sender_ok (ss_s2cNext ?s) (ss_s2cAck ?s) (ss_s2cBufFrom ?s) (ss_s2cBuf ?s) (target_source w)"
    using inv by (simp add: server_inv_def server_streams_def)
  obtain s1 w2 where a: "advanceS2CAckLocked (h_s2c_rx f) ?s = Inr s1"
    and c: "conn = \<lparr>sc_ws = i, sc_epoch = ss_epoch s1 + 1\<rparr>"
    and w2: "w2 = (case ss_active ?s of None \<Rightarrow> w\<lparr>sw_sess := resume_commit i s1\<rparr>
           | Some old \<Rightarrow> server_ws_close (sc_ws old) (w\<lparr>sw_sess := resume_commit i s1\<rparr>))"
    and p: "resume_replay conn (resume_commit i s1) w2 = (None, w')"
    by (rule resume_success [OF r])
  let ?s2 = "resume_commit i s1"
  have ack: "ss_s2cAck s1 = ?off"
    using s2c.advance_refines(2) [OF ok a]
    by (metis max_def unsigned_word_eqI word_le_nat_alt)
  have ok1: "sender_ok (ss_s2cNext s1) (ss_s2cAck s1) (ss_s2cBufFrom s1) (ss_s2cBuf s1) (target_source w)"
    by (rule s2c.advance_refines(1) [OF ok a])
  have k2: "sw_sess w2 = ?s2" "ws_out (sw_ws w2 i) = ws_out (sw_ws w i)" using w2 by (simp_all split: option.split)
  obtain w3 w4 where acc: "server_send conn (accept_header (ss_id ?s2) (ss_epoch ?s2) (ss_c2sRx ?s2) (ss_s2cAck ?s2)) [] w2 = (None, w3)"
    and dat: "sendDataChunks conn dirServerToClient (ss_s2cBufFrom ?s2) (ss_s2cBuf ?s2) w3 = (None, w4)"
    and w': "w' = (if ss_s2cFin ?s2 then snd (server_send conn (fin_header dirServerToClient (ss_s2cNext ?s2)) [] w4) else w4)"
    by (rule resume_replay_success [OF p])
  let ?acc = "accept_header (ss_id ?s) (sc_epoch conn) (ss_c2sRx ?s) ?off"
  let ?frames = "chunk_frames (ss_id ?s) (sc_epoch conn) dirServerToClient (chunks (ss_s2cBufFrom s1) (ss_s2cBuf s1))"
  have fill: "fill_header (ss_id ?s) (sc_epoch conn) ?acc = ?acc"
    by (simp add: fill_header_def accept_header_def path_level_def)
  have o3: "ws_out (sw_ws w3 i) = ws_out (sw_ws w i) @ [(?acc, [])]"
    using server_send_out [of conn "accept_header (ss_id ?s2) (ss_epoch ?s2) (ss_c2sRx ?s2) (ss_s2cAck ?s2)" "[]" w2 i]
      acc k2 c ack fill advance_frame [OF a] by simp
  have o4: "ws_out (sw_ws w4 i) = ws_out (sw_ws w3 i) @ ?frames"
    using sendDataChunks_out [OF dat] server_send_eq [OF acc] k2 c advance_frame [OF a] by simp
  obtain e w5 where fin: "server_send conn (fin_header dirServerToClient (ss_s2cNext ?s2)) [] w4 = (e, w5)" by fastforce
  let ?fins = "if ss_s2cFin s1 \<and> e = None
     then [(fill_header (ss_id (sw_sess w4)) (sc_epoch conn) (fin_header dirServerToClient (ss_s2cNext s1)), [])] else []"
  have "ws_out (sw_ws w' i) = ws_out (sw_ws w4 i) @ ?fins"
    using server_send_out [of conn "fin_header dirServerToClient (ss_s2cNext s1)" "[]" w4 i] w' c fin by simp
  with o3 o4 have "ws_out (sw_ws w' i) = ws_out (sw_ws w i) @ [(?acc, [])] @ ?frames @ ?fins" by simp
  moreover have "ss_s2cBufFrom s1 = ?off" "ss_s2cBuf s1 = drop (unat ?off) (target_source w)"
    using ok1 ack by (simp_all add: sender_ok_def)
  moreover have "\<forall>h p. (h, p) \<in> set ?fins \<longrightarrow> h_type h = ''fin'' \<and> unat (h_offset h) = length (target_source w)"
    using ok1 by (simp add: sender_ok_def)
  ultimately show thesis by (intro that [of ?fins]) simp_all
qed



section \<open>Closing\<close>

lemma closed_run_frame:
  assumes "ss_closed (sw_sess w)"
  shows "sw_sess (snd (run_frame conn f p w)) = sw_sess w"
    "sw_registered (snd (run_frame conn f p w)) = sw_registered w"
  using assms run_frame_inactive [of conn f w p] by (simp_all add: isActive_def Let_def)

lemma closed_inactive: "server_inv w \<Longrightarrow> ss_closed (sw_sess w) \<Longrightarrow>
   ss_active (sw_sess w) = None \<and> ss_disconnectTTL (sw_sess w) = None \<and> \<not> sw_registered w \<and> tg_closed (ss_target (sw_sess w))"
  by (simp add: server_inv_def life_of_def)

lemma closed_reader_read:
  assumes "ss_closed (sw_sess w)" and "ss_active (sw_sess w) = None"
  shows "ss_closed (sw_sess (reader_read bs failed w))" "target_written (reader_read bs failed w) = target_written w"
    "sw_ws (reader_read bs failed w) = sw_ws w"
  using assms
  by (simp_all add: reader_read_def reader_data_def reader_end_def closeTerminal_def Let_def append_s2c_def note_read_def)

lemma closed_step:
  assumes "session_step w w'" and inv: "server_inv w" and c: "ss_closed (sw_sess w)"
  shows "ss_closed (sw_sess w') \<and> target_written w' = target_written w"
  using assms(1)
proof cases
  case (step_read bs failed)
  with c closed_inactive [OF inv c] show ?thesis by (simp add: closed_reader_read)
next
  case step_timer
  with closed_inactive [OF inv c] c show ?thesis by (simp add: disconnectTTL_fires_def)
next
  case (step_resume i f)
  with c show ?thesis by (simp add: resume_def Let_def)
next
  case (step_error conn e)
  with c show ?thesis by (simp add: run_read_error_def sess_disconnect)
qed (use c closed_run_frame [OF c] in \<open>auto simp: reader_check_def\<close>)

lemma closed_reachable:
  assumes "session_reachable w w'" and "server_inv w" and "ss_closed (sw_sess w)"
  shows "ss_closed (sw_sess w') \<and> target_written w' = target_written w"
  by (rule session.run_keeps [OF assms(1,2)]) (use assms(3) in \<open>auto dest: closed_step\<close>)

text \<open>
  \<open>closeTerminal\<close> is final: whatever happens afterwards, the session stays closed and out of the
  server's table, its target connection stays closed and receives nothing more, no resume succeeds,
  and a second \<open>closeTerminal\<close> changes nothing.
\<close>

theorem closeTerminal_final:
  assumes inv: "server_inv w" and reach: "session_reachable (closeTerminal code m w) w'"
  shows "ss_closed (sw_sess w') \<and> \<not> sw_registered w' \<and> tg_closed (ss_target (sw_sess w')) \<and> ss_active (sw_sess w') = None
    \<and> target_written w' = target_written w
    \<and> fst (resume i f w') = Inl (Errorf ''session is closed'')
    \<and> closeTerminal code' m' w' = w'"
proof -
  let ?c = "closeTerminal code m w"
  have i: "server_inv ?c" and c: "ss_closed (sw_sess ?c)"
    using closeTerminal_inv [OF inv] by (simp_all add: sess_closeTerminal Let_def)
  have t: "target_written ?c = target_written w" by (simp add: sess_closeTerminal Let_def)
  from closed_reachable [OF reach i c] t have d: "ss_closed (sw_sess w')" "target_written w' = target_written w" by simp_all
  with closed_inactive [OF reachable_inv [OF reach i] d(1)] show ?thesis
    by (simp add: resume_def closeTerminal_def Let_def)
qed

theorem closeTerminal_final_witness:
  "\<not> sw_registered (disconnectTTL_fires (closeTerminal ''normal'' ''client closed'' demo_read))"
  using closeTerminal_final [OF demo_read_inv session_next [OF session_start step_timer]] by blast

text \<open>
  The resume timer: as soon as the active connection is lost the timer is armed for the configured
  timeout, the session survives until then, and if the timer fires without a resume the session is closed.
\<close>

theorem disconnect_starts_resume_timer:
  assumes "server_inv w" and "ss_active (sw_sess w) = Some conn"
  shows "ss_disconnectTTL (sw_sess (disconnect conn w)) = Some (sw_now w + rc_timeout (sw_cfg w))
    \<and> \<not> ss_closed (sw_sess (disconnect conn w)) \<and> ss_active (sw_sess (disconnect conn w)) = None
    \<and> same_streams (sw_sess w) (sw_sess (disconnect conn w))
    \<and> (\<forall>t. let fired = disconnectTTL_fires ((disconnect conn w)\<lparr>sw_now := t\<rparr>) in
          ss_closed (sw_sess fired) = (sw_now w + rc_timeout (sw_cfg w) \<le> t)
          \<and> sw_registered fired = (t < sw_now w + rc_timeout (sw_cfg w)))"
proof -
  have l: "\<not> ss_closed (sw_sess w)" "sw_registered w"
    using assms by (auto simp: server_inv_def life_of_def split: if_splits)
  have s: "sw_sess (disconnect conn w) = cond_broadcast ((sw_sess w)\<lparr>ss_active := None, ss_disconnected := Some (sw_now w),
       ss_disconnectTTL := Some (sw_now w + rc_timeout (sw_cfg w))\<rparr>)" "sw_registered (disconnect conn w)"
    using assms(2) l by (simp_all add: sess_disconnect)
  then show ?thesis
    using l same_streams_disconnect [of w conn]
    by (auto simp: disconnectTTL_fires_def sess_closeTerminal Let_def)
qed

theorem disconnect_starts_resume_timer_witness:
  "ss_disconnectTTL (sw_sess (disconnect \<lparr>sc_ws = 0, sc_epoch = 1\<rparr> demo_read))
     = Some (sw_now demo_read + rc_timeout (sw_cfg demo_read))"
  using disconnect_starts_resume_timer [OF demo_read_inv demo_read_state(6)] by simp

end
