(* ===== verification/Server_Races.thy ===== *)
theory Server_Races
  imports Server_Props
begin

text \<open>
  Two behaviours of a server session that come from where its locks begin and end. \<open>resume\<close> drops
  acknowledged bytes from the replay buffer without waking the reader that waits for room in it, and
  \<open>handleClientData\<close> releases the mutex between its check of the receive offset and its count of the
  bytes written, so that a connection that resumes in between delivers the same bytes again.
\<close>

section \<open>A reader that stays asleep\<close>

lemma resume_reader:
  assumes "resume i f w = (Inr conn, w')"
  shows "ss_reader (sw_sess w') = ss_reader (sw_sess w)" "ss_closed (sw_sess w') = ss_closed (sw_sess w)"
proof -
  from resume_sess [OF assms] obtain s1 where a: "advanceS2CAckLocked (h_s2c_rx f) (sw_sess w) = Inr s1"
    and s: "sw_sess w' = resume_commit i s1" by blast
  show "ss_reader (sw_sess w') = ss_reader (sw_sess w)" "ss_closed (sw_sess w') = ss_closed (sw_sess w)"
    using advance_frame [OF a] s by (simp_all add: same_control_def)
qed

text \<open>
  \<open>readTarget\<close> sleeps while the replay buffer is full. A resume that acknowledges every byte empties
  the buffer but does not signal the condition variable: the session goes on with an empty buffer and a
  sleeping reader. An acknowledgement frame does wake it.
\<close>

theorem resume_leaves_reader_asleep:
  assumes inv: "server_inv w" and r: "resume i f w = (Inr conn, w')"
    and asleep: "ss_reader (sw_sess w) = ReaderWaiting" and all: "unat (h_s2c_rx f) = length (target_source w)"
  shows "ss_reader (sw_sess w') = ReaderWaiting \<and> ss_s2cBuf (sw_sess w') = [] \<and> \<not> ss_closed (sw_sess w')
    \<and> (\<forall>off s. advanceS2CAckLocked off (sw_sess w') = Inr s \<longrightarrow> ss_reader (cond_broadcast s) = ReaderCheck)"
proof -
  from resume_sess [OF r] obtain s1 where a: "advanceS2CAckLocked (h_s2c_rx f) (sw_sess w) = Inr s1"
    and s: "sw_sess w' = resume_commit i s1" by blast
  have ok: "sender_ok (ss_s2cNext (sw_sess w)) (ss_s2cAck (sw_sess w)) (ss_s2cBufFrom (sw_sess w))
      (ss_s2cBuf (sw_sess w)) (target_source w)"
    using inv by (simp add: server_inv_def server_streams_def)
  have "unat (ss_s2cAck s1) = length (target_source w)"
    using s2c.advance_refines(2) [OF ok a] all ok by (simp add: sender_ok_def)
  then have "ss_s2cBuf s1 = []"
    using s2c.advance_refines(1) [OF ok a] by (simp add: sender_ok_def)
  moreover have "\<not> ss_closed (sw_sess w')"
    using resume_success [OF r] resume_reader(2) [OF r] by metis
  moreover have "ss_reader s1 = ReaderWaiting" using advance_frame(3) [OF a] asleep by simp
  ultimately show ?thesis
    using s by (auto simp: cond_broadcast_reader advance_frame(3))
qed

definition demo_full :: sworld where
  "demo_full = reader_check demo_read"

definition demo_hello_all :: frame_header where
  "demo_hello_all = zero_header\<lparr>h_type := ''hello'', h_resume := True, h_session_id := ''s'', h_s2c_rx := 5\<rparr>"

lemma demo_full_state:
  "server_inv demo_full" "ss_reader (sw_sess demo_full) = ReaderWaiting" "target_source demo_full = [1, 2, 3, 4, 5]"
proof -
  have "server_inv demo_full"
    unfolding demo_full_def by (rule reader_check_inv [OF demo_read_inv demo_read_state(10)])
  moreover have "ss_s2cBuf (sw_sess demo_read) = [1, 2, 3, 4, 5]"
    using demo_read_inv by (simp add: server_inv_def server_streams_def sender_ok_def demo_read_state)
  ultimately show "server_inv demo_full" "ss_reader (sw_sess demo_full) = ReaderWaiting" "target_source demo_full = [1, 2, 3, 4, 5]"
    by (simp_all add: demo_full_def reader_check_def demo_read_state demo_cfg_def)
qed

theorem resume_leaves_reader_asleep_witness:
  "\<exists>conn w'. resume 1 demo_hello_all demo_full = (Inr conn, w') \<and> ss_reader (sw_sess w') = ReaderWaiting
     \<and> ss_s2cBuf (sw_sess w') = [] \<and> \<not> ss_closed (sw_sess w')"
proof -
  have same: "sw_ws demo_full = sw_ws demo_read" "ss_disconnected (sw_sess demo_full) = None" "\<not> ss_closed (sw_sess demo_full)"
    "ss_active (sw_sess demo_full) = Some \<lparr>sc_ws = 0, sc_epoch = 1\<rparr>" "ss_id (sw_sess demo_full) = ''s''"
    by (simp_all add: demo_full_def reader_check_def demo_read_state)
  have "\<exists>conn. fst (resume 1 demo_hello_all demo_full) = Inr conn"
    by (rule resume_accepts [OF inv_sender_ok [OF demo_full_state(1)]])
       (simp_all add: same demo_full_state demo_read_state demo_hello_all_def short_id_def utf8_valid_ascii del: One_nat_def)
  then obtain conn w' where r: "resume 1 demo_hello_all demo_full = (Inr conn, w')" by (metis prod.collapse)
  have "unat (h_s2c_rx demo_hello_all) = length (target_source demo_full)"
    by (simp add: demo_hello_all_def demo_full_state)
  from resume_leaves_reader_asleep [OF demo_full_state(1) r demo_full_state(2) this] r show ?thesis by blast
qed

section \<open>A payload delivered twice\<close>

text \<open>
  The stretches of \<open>handleClientData\<close>: up to the decision to write (\<open>None\<close>, or the answer of an early
  return), the unlocked write to the target, and the locked count with the acknowledgement.
\<close>

definition client_data_check :: "server_conn \<Rightarrow> frame_header \<Rightarrow> bytes \<Rightarrow> sworld \<Rightarrow> (gerror option \<times> sworld) option" where
  "client_data_check conn f payload w =
     (if h_direction f \<noteq> dirClientToServer then Some (Some (Errorf ''bad data direction''), w)
      else let rx = ss_c2sRx (sw_sess w) in
        if h_offset f < rx then
          (if h_offset f + of_nat (length payload) \<le> rx then Some (server_send conn (ack_header dirClientToServer rx) [] w)
           else Some (Some (Errorf ''partial duplicate client data''), w))
        else if rx < h_offset f then Some (Some (Errorf ''client data offset gap''), w)
        else None)"

definition client_data_write :: "bytes \<Rightarrow> sworld \<Rightarrow> nat \<times> gerror option \<times> sworld" where
  "client_data_write payload w =
     (case writeAll sink_write (tg_sink (ss_target (sw_sess w))) payload of
        (n, err, sink) \<Rightarrow> (n, err, upd_sess (\<lambda>s. s\<lparr>ss_target := (ss_target s)\<lparr>tg_sink := sink\<rparr>\<rparr>) w))"

definition client_data_count :: "server_conn \<Rightarrow> nat \<Rightarrow> gerror option \<Rightarrow> sworld \<Rightarrow> gerror option \<times> sworld" where
  "client_data_count conn n err w =
     (let w1 = upd_sess (\<lambda>s. s\<lparr>ss_c2sRx := ss_c2sRx s + of_nat n\<rparr>) w;
          w2 = snd (server_send conn (ack_header dirClientToServer (ss_c2sRx (sw_sess w1))) [] w1)
      in case err of
           Some e \<Rightarrow> (None, closeTerminal ''target_closed'' (error_text e) w2)
         | None \<Rightarrow> (None, w2))"

lemma handleClientData_stretches:
  "handleClientData conn f p w = (case client_data_check conn f p w of
     Some answer \<Rightarrow> answer
   | None \<Rightarrow> (case client_data_write p w of (n, err, w1) \<Rightarrow> client_data_count conn n err w1))"
  by (auto simp: handleClientData_def client_data_check_def client_data_write_def client_data_count_def Let_def
      split: prod.split option.split)

lemma client_data_check_passes:
  "client_data_check conn f p w = None \<longleftrightarrow> h_direction f = dirClientToServer \<and> h_offset f = ss_c2sRx (sw_sess w)"
  by (auto simp: client_data_check_def Let_def not_less)

lemma client_data_write_ok:
  assumes "client_data_write p w = (n, None, w')"
  shows "n = length p" "target_written w' = target_written w @ p" "ss_c2sRx (sw_sess w') = ss_c2sRx (sw_sess w)"
  using assms sink_writer.writeAll_complete [of "tg_sink (ss_target (sw_sess w))" p]
  by (auto simp: client_data_write_def split: prod.splits)

lemma resume_target:
  assumes "resume i f w = (Inr conn, w')"
  shows "ss_target (sw_sess w') = ss_target (sw_sess w)" "ss_c2sRx (sw_sess w') = ss_c2sRx (sw_sess w)"
proof -
  from resume_sess [OF assms] obtain s1 where a: "advanceS2CAckLocked (h_s2c_rx f) (sw_sess w) = Inr s1"
    and s: "sw_sess w' = resume_commit i s1" by blast
  show "ss_target (sw_sess w') = ss_target (sw_sess w)" "ss_c2sRx (sw_sess w') = ss_c2sRx (sw_sess w)"
    using advance_frame [OF a] s by simp_all
qed

text \<open>
  A data frame that passed the check on one connection is written to the target; before its bytes
  are counted the client resumes on a second connection and resends the same bytes. Both frames pass
  the check, and the target receives the payload twice.
\<close>

theorem overlapping_delivery_duplicates:
  assumes old: "client_data_check old f p w = None" and first: "client_data_write p w = (n, None, w1)"
    and resumed: "resume i g w1 = (Inr conn, w2)"
    and again: "h_direction f' = dirClientToServer" "h_offset f' = h_offset f"
    and second: "client_data_write p w2 = (m, None, w3)"
  shows "client_data_check conn f' p w2 = None
    \<and> target_written (snd (client_data_count old n None (snd (client_data_count conn m None w3)))) = target_written w @ p @ p
    \<and> ss_c2sRx (sw_sess (snd (client_data_count old n None (snd (client_data_count conn m None w3)))))
        = ss_c2sRx (sw_sess w) + of_nat (length p) + of_nat (length p)"
proof -
  have "target_written w3 = target_written w @ p @ p" "ss_c2sRx (sw_sess w3) = ss_c2sRx (sw_sess w)"
    using client_data_write_ok [OF first] client_data_write_ok [OF second] resume_target [OF resumed] by simp_all
  moreover have "client_data_check conn f' p w2 = None"
    using old again client_data_write_ok(3) [OF first] resume_target(2) [OF resumed]
    by (simp add: client_data_check_passes)
  ultimately show ?thesis
    using client_data_write_ok(1) [OF first] client_data_write_ok(1) [OF second]
    by (simp add: client_data_count_def Let_def)
qed

lemma client_data_write_free:
  assumes "sk_budget (tg_sink (ss_target (sw_sess w))) = None" and "\<not> sk_closed (tg_sink (ss_target (sw_sess w)))" and "p \<noteq> []"
  shows "client_data_write p w = (length p, None, upd_sess (\<lambda>s. s\<lparr>ss_target := (ss_target s)\<lparr>tg_sink :=
    (tg_sink (ss_target s))\<lparr>sk_written := sk_written (tg_sink (ss_target s)) @ p\<rparr>\<rparr>\<rparr>) w)"
  using assms by (simp add: client_data_write_def writeAll.simps sink_write_def)

theorem overlapping_delivery_duplicates_witness:
  "\<exists>w'. target_written w' = [7, 8, 7, 8] \<and> ss_c2sRx (sw_sess w') = 4"
proof -
  let ?f = "zero_header\<lparr>h_type := ''data'', h_direction := dirClientToServer\<rparr>" and ?old = "\<lparr>sc_ws = 0, sc_epoch = 1\<rparr>"
  have check: "client_data_check ?old ?f [7, 8] demo_read = None"
    by (simp add: client_data_check_passes demo_read_state)
  obtain w1 where first: "client_data_write [7, 8] demo_read = (2, None, w1)"
    and w1: "w1 = upd_sess (\<lambda>s. s\<lparr>ss_target := (ss_target s)\<lparr>tg_sink :=
      (tg_sink (ss_target s))\<lparr>sk_written := sk_written (tg_sink (ss_target s)) @ [7, 8]\<rparr>\<rparr>\<rparr>) demo_read"
    using client_data_write_free [of demo_read "[7, 8]"] by (simp add: demo_read_state)
  have "\<exists>conn. fst (resume 1 demo_hello w1) = Inr conn"
    by (rule resume_accepts)
       (use inv_sender_ok [OF demo_read_inv] in \<open>simp_all add: w1 demo_read_state demo_hello_def short_id_def utf8_valid_ascii
         del: One_nat_def\<close>)
  then obtain conn w2 where resumed: "resume 1 demo_hello w1 = (Inr conn, w2)" by (metis prod.collapse)
  obtain w3 where second: "client_data_write [7, 8] w2 = (2, None, w3)"
    using client_data_write_free [of w2 "[7, 8]"] resume_target(1) [OF resumed] w1 by (simp add: demo_read_state)
  from overlapping_delivery_duplicates [OF check first resumed, of ?f 2 w3] second
  show ?thesis by (auto simp: demo_read_state)
qed

end
