(* ===== verification/Heartbeat.thy ===== *)
theory Heartbeat
  imports Step_Systems
begin

text \<open>
  The heartbeat tracker of internal/tunnel/heartbeat.go: at most one ping is outstanding on a
  connection, and its outcome (a pong, a timeout, or the end of the connection) is delivered once on
  the channel of that ping. A channel of capacity one is the list of values sent to it; channels are
  numbered by the call of \<open>begin\<close> that made them.
\<close>

section \<open>State and operations\<close>

record heartbeat_result =
  hr_rtt :: duration
  hr_timed_out :: bool
  hr_closed :: bool

record heartbeat_pending =
  hp_nonce :: string
  hp_sent_at :: instant
  hp_done :: nat

record heartbeat_tracker =
  ht_pending :: "heartbeat_pending option"
  ht_closed :: bool
  ht_chans :: "heartbeat_result list list"

definition newHeartbeatTracker :: heartbeat_tracker where
  "newHeartbeatTracker = \<lparr>ht_pending = None, ht_closed = False, ht_chans = []\<rparr>"

text \<open>\<open>done <- result\<close>.\<close>

definition chan_send :: "nat \<Rightarrow> heartbeat_result \<Rightarrow> heartbeat_tracker \<Rightarrow> heartbeat_tracker" where
  "chan_send c r t = t\<lparr>ht_chans := (ht_chans t)[c := ht_chans t ! c @ [r]]\<rparr>"

definition hb_begin :: "string \<Rightarrow> instant \<Rightarrow> heartbeat_tracker \<Rightarrow> nat result \<times> heartbeat_tracker" where
  "hb_begin nonce sentAt t =
     (if ht_closed t then (Inl HeartbeatClosed, t)
      else if ht_pending t \<noteq> None then (Inl HeartbeatPending, t)
      else let c = length (ht_chans t) in
        (Inr c, t\<lparr>ht_chans := ht_chans t @ [[]],
                  ht_pending := Some \<lparr>hp_nonce = nonce, hp_sent_at = sentAt, hp_done = c\<rparr>\<rparr>))"

definition resolvePong :: "string \<Rightarrow> instant \<Rightarrow> heartbeat_tracker \<Rightarrow> bool \<times> heartbeat_tracker" where
  "resolvePong nonce now t =
     (case ht_pending t of
        None \<Rightarrow> (False, t)
      | Some p \<Rightarrow>
          if hp_nonce p \<noteq> nonce then (False, t)
          else let rtt = now - hp_sent_at p; rtt = (if rtt < 0 then 0 else rtt) in
            (True, chan_send (hp_done p) \<lparr>hr_rtt = rtt, hr_timed_out = False, hr_closed = False\<rparr> (t\<lparr>ht_pending := None\<rparr>)))"

definition hb_timeout :: "string \<Rightarrow> heartbeat_tracker \<Rightarrow> bool \<times> heartbeat_tracker" where
  "hb_timeout nonce t =
     (case ht_pending t of
        None \<Rightarrow> (False, t)
      | Some p \<Rightarrow>
          if hp_nonce p \<noteq> nonce then (False, t)
          else (True, chan_send (hp_done p) \<lparr>hr_rtt = 0, hr_timed_out = True, hr_closed = False\<rparr> (t\<lparr>ht_pending := None\<rparr>)))"

definition hb_close :: "heartbeat_tracker \<Rightarrow> heartbeat_tracker" where
  "hb_close t =
     (if ht_closed t then t
      else let t1 = t\<lparr>ht_closed := True\<rparr> in
        case ht_pending t1 of
          None \<Rightarrow> t1
        | Some p \<Rightarrow> chan_send (hp_done p) \<lparr>hr_rtt = 0, hr_timed_out = False, hr_closed = True\<rparr> (t1\<lparr>ht_pending := None\<rparr>))"

section \<open>Each ping is answered once\<close>

text \<open>
  The channel of the outstanding ping is empty and is the newest one; every older channel holds
  exactly one value. So no send ever blocks on a full channel, and whoever waits on a channel whose
  ping is no longer outstanding finds its one value there.
\<close>

definition tracker_ok :: "heartbeat_tracker \<Rightarrow> bool" where
  "tracker_ok t \<longleftrightarrow>
     (case ht_pending t of
        None \<Rightarrow> (\<forall>c < length (ht_chans t). length (ht_chans t ! c) = 1)
      | Some p \<Rightarrow> \<not> ht_closed t \<and> ht_chans t \<noteq> [] \<and> hp_done p = length (ht_chans t) - 1 \<and> ht_chans t ! hp_done p = []
          \<and> (\<forall>c < length (ht_chans t). c \<noteq> hp_done p \<longrightarrow> length (ht_chans t ! c) = 1))"

inductive tracker_step :: "heartbeat_tracker \<Rightarrow> heartbeat_tracker \<Rightarrow> bool" where
  ts_begin: "tracker_step t (snd (hb_begin nonce at t))"
| ts_pong: "tracker_step t (snd (resolvePong nonce now t))"
| ts_timeout: "tracker_step t (snd (hb_timeout nonce t))"
| ts_close: "tracker_step t (hb_close t)"

lemma tracker_ok_new [simp]: "tracker_ok newHeartbeatTracker"
  by (simp add: tracker_ok_def newHeartbeatTracker_def)

lemma tracker_ok_answer:
  assumes "tracker_ok t" and "ht_pending t = Some p"
  shows "tracker_ok (chan_send (hp_done p) r (t\<lparr>ht_closed := b, ht_pending := None\<rparr>))"
    "ht_chans (chan_send (hp_done p) r (t\<lparr>ht_closed := b, ht_pending := None\<rparr>)) ! hp_done p = [r]"
  using assms by (auto simp: tracker_ok_def chan_send_def nth_list_update)

lemma tracker_ok_answer':
  assumes "tracker_ok t" and "ht_pending t = Some p"
  shows "tracker_ok (chan_send (hp_done p) r (t\<lparr>ht_pending := None\<rparr>))"
    "ht_chans (chan_send (hp_done p) r (t\<lparr>ht_pending := None\<rparr>)) ! hp_done p = [r]"
  using tracker_ok_answer [OF assms, of r "ht_closed t"] by (cases t; simp)+

lemma tracker_ok_step: "tracker_step t t' \<Longrightarrow> tracker_ok t \<Longrightarrow> tracker_ok t'"
proof (induction rule: tracker_step.induct)
  case (ts_begin t nonce at)
  then show ?case by (auto simp: hb_begin_def Let_def tracker_ok_def nth_append less_Suc_eq)
next
  case (ts_pong t nonce now)
  then show ?case by (auto simp: resolvePong_def Let_def tracker_ok_answer' split: option.split)
next
  case (ts_timeout t nonce)
  then show ?case by (auto simp: hb_timeout_def tracker_ok_answer' split: option.split)
next
  case (ts_close t)
  show ?case
  proof (cases "ht_pending t")
    case None
    with ts_close show ?thesis by (simp add: hb_close_def tracker_ok_def)
  next
    case (Some p)
    with ts_close tracker_ok_answer(1) [OF ts_close Some, of _ True] show ?thesis
      by (simp add: hb_close_def Let_def)
  qed
qed

interpretation tracker: step_system tracker_step tracker_ok
  by unfold_locales (rule tracker_ok_step)

lemma tracker_ok_reachable: "tracker_step\<^sup>*\<^sup>* newHeartbeatTracker t \<Longrightarrow> tracker_ok t"
  by (rule tracker.run_inv [OF _ tracker_ok_new])

text \<open>
  C34. In every reachable state of a tracker each finished ping has delivered exactly one result on its
  channel and the outstanding one, if any, has delivered none; in particular the buffered channel of
  capacity one never blocks a sender.
\<close>

theorem heartbeat_resolves_once:
  assumes "tracker_step\<^sup>*\<^sup>* newHeartbeatTracker t" and "c < length (ht_chans t)"
  shows "length (ht_chans t ! c) = (if \<exists>p. ht_pending t = Some p \<and> hp_done p = c then 0 else 1)"
  using tracker_ok_reachable [OF assms(1)] assms(2)
  by (cases "ht_pending t") (auto simp: tracker_ok_def)

theorem heartbeat_resolves_once_witness:
  "ht_chans (snd (resolvePong ''n'' 7 (snd (hb_begin ''n'' 2 newHeartbeatTracker)))) ! 0
     = [\<lparr>hr_rtt = 5, hr_timed_out = False, hr_closed = False\<rparr>]
   \<and> length (ht_chans (snd (resolvePong ''n'' 7 (snd (hb_begin ''n'' 2 newHeartbeatTracker)))) ! 0) = 1"
proof -
  let ?t = "snd (resolvePong ''n'' 7 (snd (hb_begin ''n'' 2 newHeartbeatTracker)))"
  have "tracker_step\<^sup>*\<^sup>* newHeartbeatTracker ?t"
    by (rule rtranclp.rtrancl_into_rtrancl [OF r_into_rtranclp [of tracker_step, OF ts_begin] ts_pong])
  from heartbeat_resolves_once [OF this, of 0] show ?thesis
    by (simp add: resolvePong_def hb_begin_def newHeartbeatTracker_def chan_send_def)
qed

text \<open>The ping of channel \<open>c\<close> keeps its nonce while it is outstanding.\<close>

definition owns_chan :: "nat \<Rightarrow> string \<Rightarrow> heartbeat_tracker \<Rightarrow> bool" where
  "owns_chan c nonce t \<longleftrightarrow> c < length (ht_chans t) \<and> (\<forall>p. ht_pending t = Some p \<longrightarrow> hp_done p = c \<longrightarrow> hp_nonce p = nonce)"

lemma owns_chan_step: "tracker_step t t' \<Longrightarrow> owns_chan c nonce t \<Longrightarrow> owns_chan c nonce t'"
proof (induction rule: tracker_step.induct)
  case (ts_close t)
  then show ?case by (cases "ht_pending t") (auto simp: hb_close_def owns_chan_def chan_send_def Let_def)
qed (auto simp: hb_begin_def resolvePong_def hb_timeout_def owns_chan_def chan_send_def Let_def split: option.split)

interpretation owner: step_system tracker_step "owns_chan c nonce" for c nonce
  by unfold_locales (rule owns_chan_step)

lemmas owns_chan_reachable = owner.run_inv

lemma timeout_answers:
  assumes "tracker_ok t" and "owns_chan c nonce t"
  shows "length (ht_chans (snd (hb_timeout nonce t)) ! c) = 1"
proof (cases "ht_pending t")
  case None
  with assms show ?thesis by (simp add: tracker_ok_def owns_chan_def hb_timeout_def)
next
  case (Some p)
  show ?thesis
  proof (cases "hp_done p = c")
    case True
    with Some assms have "hp_nonce p = nonce" by (simp add: owns_chan_def)
    with Some True tracker_ok_answer'(2) [OF assms(1) Some] show ?thesis by (simp add: hb_timeout_def)
  next
    case False
    with Some assms have "length (ht_chans t ! c) = 1" by (simp add: tracker_ok_def owns_chan_def)
    with False Some show ?thesis by (simp add: hb_timeout_def chan_send_def)
  qed
qed

text \<open>
  C35. Whoever waits for a ping gets an answer: whatever happened to the tracker since \<open>begin\<close>, once the
  waiter has called \<open>timeout\<close> with its nonce, its channel holds exactly one result, so the receive that
  follows a lost race does not block. Closing the connection answers it as well.
\<close>

theorem heartbeat_wait_ends:
  assumes "tracker_step\<^sup>*\<^sup>* newHeartbeatTracker t" and "hb_begin nonce at t = (Inr c, t1)"
    and "tracker_step\<^sup>*\<^sup>* t1 t2"
  shows "length (ht_chans (snd (hb_timeout nonce t2)) ! c) = 1 \<and> length (ht_chans (hb_close t2) ! c) = 1
    \<and> ht_pending (hb_close t2) = None \<and> (\<forall>nonce' at'. fst (hb_begin nonce' at' (hb_close t2)) = Inl HeartbeatClosed)"
proof -
  have "tracker_step t t1" using ts_begin [of t nonce at] assms(2) by simp
  with assms(1) have "tracker_step\<^sup>*\<^sup>* newHeartbeatTracker t1" by simp
  with assms(3) have ok: "tracker_ok t2" by (auto intro: tracker_ok_reachable)
  have "owns_chan c nonce t1" using assms(2) by (auto simp: hb_begin_def owns_chan_def Let_def split: if_splits)
  with assms(3) have own: "owns_chan c nonce t2" by (rule owns_chan_reachable)
  have p: "ht_pending (hb_close t2) = None" and cl: "ht_closed (hb_close t2)"
    using ok by (auto simp: hb_close_def Let_def tracker_ok_def chan_send_def split: option.split)
  have "tracker_ok (hb_close t2)" "c < length (ht_chans (hb_close t2))"
    using tracker_ok_step [OF ts_close ok] owns_chan_step [OF ts_close own] by (simp_all add: owns_chan_def)
  with p have "length (ht_chans (hb_close t2) ! c) = 1" by (simp add: tracker_ok_def)
  with timeout_answers [OF ok own] p cl show ?thesis by (simp add: hb_begin_def)
qed

theorem heartbeat_wait_ends_witness:
  "\<exists>t1. hb_begin ''n'' 0 newHeartbeatTracker = (Inr 0, t1) \<and> length (ht_chans (snd (hb_timeout ''n'' t1)) ! 0) = 1"
proof -
  obtain t1 where b: "hb_begin ''n'' 0 newHeartbeatTracker = (Inr 0, t1)"
    by (simp add: hb_begin_def newHeartbeatTracker_def)
  from heartbeat_wait_ends [OF _ b] b show ?thesis by simp
qed

end
