(* ===== verification/Client_Runtime.thy ===== *)
theory Client_Runtime
  imports Streams Heartbeat Config_Types Go_Strings
begin

text \<open>
  The client runtime: internal/tunnel/client.go, client_state.go, client_io.go, client_receive.go and
  \<open>commitActivation\<close> of client_connect.go. One runtime serves one SSH connection; it owns the buffer of
  unacknowledged standard input, the receive offset of standard output, and at most one active
  connection. The condition variable is the field \<open>rt_stdin\<close>, the state of the goroutine that reads
  standard input; \<open>done\<close> is the closed state of the channel of that name.
\<close>

section \<open>State\<close>

text \<open>A \<open>clientConn\<close>; its WebSocket number stands for the pointer. The mutable parts (the heartbeat
  tracker, \<open>closeOnce\<close>) are kept by number in the world.\<close>

record client_conn =
  cc_ws :: nat
  cc_path :: path_config
  cc_epoch :: u64

text \<open>Where the goroutine of \<open>stdinLoop\<close> is; the asleep states are in \<open>cond.Wait\<close>.\<close>

datatype stdin_state =
    StdinActive
  | StdinActiveAsleep
  | StdinBuffer client_conn
  | StdinBufferAsleep client_conn
  | StdinReading client_conn
  | StdinFin
  | StdinFinAsleep
  | StdinStopped

record client_runtime =
  rt_active :: "client_conn option"
  rt_sessionID :: string
  rt_epoch :: u64
  rt_lastKnownGood :: "path_config option"
  rt_c2sNext :: u64
  rt_c2sAck :: u64
  rt_c2sBuf :: bytes
  rt_c2sBufFrom :: u64
  rt_c2sFin :: bool
  rt_c2sFinAt :: u64
  rt_s2cRx :: u64
  rt_lastSwitch :: "instant option"
  rt_done :: bool
  rt_doneErr :: "gerror option"
  rt_finished :: bool
  rt_reconnectSignal :: bool
  rt_stdin :: stdin_state

record client_world =
  cl_cfg :: config
  cl_now :: instant
  cl_rt :: client_runtime
  cl_ws :: "nat \<Rightarrow> ws"
  cl_hb :: "nat \<Rightarrow> heartbeat_tracker"
  cl_closed :: "nat \<Rightarrow> bool"
  cl_stdin :: bytes
  cl_stdout :: sink
  cl_half_close :: bool
  cl_saved :: "string list"

abbreviation upd_rt :: "(client_runtime \<Rightarrow> client_runtime) \<Rightarrow> client_world \<Rightarrow> client_world" where
  "upd_rt f w \<equiv> w\<lparr>cl_rt := f (cl_rt w)\<rparr>"

text \<open>\<open>newClientRuntimeWithLogger\<close>, given what \<open>LoadLastKnownGoodPath\<close> returned.\<close>

definition newClientRuntime :: "path_config option result \<Rightarrow> client_runtime" where
  "newClientRuntime loaded = \<lparr>rt_active = None, rt_sessionID = [], rt_epoch = 0,
     rt_lastKnownGood = (case loaded of Inl e \<Rightarrow> None | Inr p \<Rightarrow> p),
     rt_c2sNext = 0, rt_c2sAck = 0, rt_c2sBuf = [], rt_c2sBufFrom = 0, rt_c2sFin = False, rt_c2sFinAt = 0,
     rt_s2cRx = 0, rt_lastSwitch = None, rt_done = False, rt_doneErr = None, rt_finished = False,
     rt_reconnectSignal = False, rt_stdin = StdinActive\<rparr>"

section \<open>Connections\<close>

definition client_fill :: "u64 \<Rightarrow> frame_header \<Rightarrow> frame_header" where
  "client_fill e h = h\<lparr>h_epoch := (if h_epoch h = 0 \<and> h_type h \<noteq> ''ping'' \<and> h_type h \<noteq> ''pong'' \<and> h_type h \<noteq> ''error''
     then e else h_epoch h)\<rparr>"

definition client_send :: "client_conn \<Rightarrow> frame_header \<Rightarrow> bytes \<Rightarrow> client_world \<Rightarrow> gerror option \<times> client_world" where
  "client_send conn h p w =
     (case ws_send (client_fill (cc_epoch conn) h) p (cl_ws w (cc_ws conn)) of
        (e, s) \<Rightarrow> (e, w\<lparr>cl_ws := (cl_ws w)(cc_ws conn := s)\<rparr>))"

definition conn_close :: "client_conn \<Rightarrow> client_world \<Rightarrow> client_world" where
  "conn_close conn w =
     (let i = cc_ws conn in
      if cl_closed w i then w
      else w\<lparr>cl_closed := (cl_closed w)(i := True), cl_hb := (cl_hb w)(i := hb_close (cl_hb w i)),
             cl_ws := (cl_ws w)(i := ws_close (cl_ws w i))\<rparr>)"

section \<open>The shared state\<close>

text \<open>\<open>cond.Broadcast\<close>: a sleeping goroutine goes back to its test.\<close>

fun wake :: "stdin_state \<Rightarrow> stdin_state" where
  "wake StdinActiveAsleep = StdinActive"
| "wake (StdinBufferAsleep c) = StdinBuffer c"
| "wake StdinFinAsleep = StdinFin"
| "wake s = s"

definition rt_broadcast :: "client_runtime \<Rightarrow> client_runtime" where
  "rt_broadcast rt = rt\<lparr>rt_stdin := wake (rt_stdin rt)\<rparr>"

definition append_c2s :: "bytes \<Rightarrow> client_runtime \<Rightarrow> client_runtime" where
  "append_c2s payload rt = rt\<lparr>rt_c2sNext := rt_c2sNext rt + of_nat (length payload), rt_c2sBuf := rt_c2sBuf rt @ payload\<rparr>"

definition appendClientBytes :: "bytes \<Rightarrow> client_world \<Rightarrow> (u64 \<times> string) \<times> client_world" where
  "appendClientBytes payload w =
     (let offset = rt_c2sNext (cl_rt w); w1 = upd_rt (append_c2s payload) w in ((offset, rt_sessionID (cl_rt w1)), w1))"

definition markClientFin :: "client_world \<Rightarrow> client_world" where
  "markClientFin w = upd_rt (\<lambda>rt. rt\<lparr>rt_c2sFin := True, rt_c2sFinAt := rt_c2sNext rt\<rparr>) w"

definition advanceC2SAckLocked :: "u64 \<Rightarrow> client_runtime \<Rightarrow> client_runtime result" where
  "advanceC2SAckLocked offset rt =
     (if offset < rt_c2sAck rt then Inr rt
      else if rt_c2sNext rt < offset then Inl (Errorf ''client_to_server ack is ahead of sender'')
      else let dropped = offset - rt_c2sBufFrom rt in
        if of_nat (length (rt_c2sBuf rt)) < dropped then Inl (Errorf ''client_to_server ack outside buffer'')
        else Inr (rt\<lparr>rt_c2sBuf := drop (unat dropped) (rt_c2sBuf rt), rt_c2sBufFrom := offset, rt_c2sAck := offset\<rparr>))"

definition dropActive :: "client_conn \<Rightarrow> client_world \<Rightarrow> client_world" where
  "dropActive conn w =
     conn_close conn
       (if rt_active (cl_rt w) = Some conn then
          w\<lparr>cl_rt := (rt_broadcast ((cl_rt w)\<lparr>rt_active := None\<rparr>))\<lparr>rt_reconnectSignal := True\<rparr>\<rparr>
        else w)"

text \<open>\<open>finish\<close> in two parts: the locked one, and what follows it.\<close>

definition finish_mark :: "gerror option \<Rightarrow> client_world \<Rightarrow> client_world" where
  "finish_mark err w = upd_rt (\<lambda>rt. rt_broadcast (rt\<lparr>rt_active := None, rt_doneErr := err, rt_finished := True\<rparr>)) w"

definition finish_close :: "client_conn option \<Rightarrow> client_world \<Rightarrow> client_world" where
  "finish_close active w =
     upd_rt (\<lambda>rt. rt\<lparr>rt_done := True\<rparr>) (case active of None \<Rightarrow> w | Some c \<Rightarrow> conn_close c w)"

definition finish :: "gerror option \<Rightarrow> client_world \<Rightarrow> client_world" where
  "finish err w = (if rt_finished (cl_rt w) then w else finish_close (rt_active (cl_rt w)) (finish_mark err w))"

text \<open>The answer of \<open>waitActive\<close> and \<open>waitBuffer\<close> when \<open>done\<close> is closed.\<close>

definition done_error :: "client_runtime \<Rightarrow> gerror" where
  "done_error rt = (case rt_doneErr rt of Some e \<Rightarrow> e | None \<Rightarrow> EOF)"

text \<open>One look of the waiting loops: go on, give up with an error, or sleep. \<open>ctx\<close> is \<open>ctx.Err()\<close>.\<close>

datatype 'a wait_result = Go 'a | GiveUp gerror | Sleep

definition waitActive :: "gerror option \<Rightarrow> client_runtime \<Rightarrow> client_conn wait_result" where
  "waitActive ctx rt = (case rt_active rt of
     Some c \<Rightarrow> Go c
   | None \<Rightarrow> if rt_done rt then GiveUp (done_error rt) else case ctx of Some e \<Rightarrow> GiveUp e | None \<Rightarrow> Sleep)"

definition waitBuffer :: "gerror option \<Rightarrow> config \<Rightarrow> client_runtime \<Rightarrow> unit wait_result" where
  "waitBuffer ctx cfg rt =
     (if int (length (rt_c2sBuf rt)) < rc_buffer (cfg_resume cfg) then Go ()
      else if rt_done rt then GiveUp (done_error rt) else case ctx of Some e \<Rightarrow> GiveUp e | None \<Rightarrow> Sleep)"

section \<open>Standard input\<close>

definition c2s_data_header :: "string \<Rightarrow> u64 \<Rightarrow> frame_header" where
  "c2s_data_header sid off =
     zero_header\<lparr>h_type := ''data'', h_session_id := sid, h_direction := dirClientToServer, h_offset := off\<rparr>"

definition c2s_fin_header :: "string \<Rightarrow> u64 \<Rightarrow> frame_header" where
  "c2s_fin_header sid off =
     zero_header\<lparr>h_type := ''fin'', h_session_id := sid, h_direction := dirClientToServer, h_offset := off\<rparr>"

definition s2c_ack_header :: "string \<Rightarrow> u64 \<Rightarrow> frame_header" where
  "s2c_ack_header sid rx =
     zero_header\<lparr>h_type := ''ack'', h_session_id := sid, h_direction := dirServerToClient, h_received_offset := rx\<rparr>"

abbreviation set_stdin :: "stdin_state \<Rightarrow> client_world \<Rightarrow> client_world" where
  "set_stdin s w \<equiv> upd_rt (\<lambda>rt. rt\<lparr>rt_stdin := s\<rparr>) w"

text \<open>The two waits at the head of the loop of \<open>stdinLoop\<close>.\<close>

definition stdin_wait :: "gerror option \<Rightarrow> client_world \<Rightarrow> client_world" where
  "stdin_wait ctx w = (case rt_stdin (cl_rt w) of
     StdinActive \<Rightarrow> (case waitActive ctx (cl_rt w) of
         Go c \<Rightarrow> set_stdin (StdinBuffer c) w
       | GiveUp e \<Rightarrow> finish (Some e) (set_stdin StdinStopped w)
       | Sleep \<Rightarrow> set_stdin StdinActiveAsleep w)
   | StdinBuffer c \<Rightarrow> (case waitBuffer ctx (cl_cfg w) (cl_rt w) of
         Go _ \<Rightarrow> set_stdin (StdinReading c) w
       | GiveUp e \<Rightarrow> finish (Some e) (set_stdin StdinStopped w)
       | Sleep \<Rightarrow> set_stdin (StdinBufferAsleep c) w)
   | _ \<Rightarrow> w)"

definition stdin_data :: "client_conn \<Rightarrow> bytes \<Rightarrow> client_world \<Rightarrow> client_world" where
  "stdin_data conn bs w =
     (if bs = [] then w
      else case appendClientBytes bs (w\<lparr>cl_stdin := cl_stdin w @ bs\<rparr>) of ((offset, sid), w1) \<Rightarrow>
        (case client_send conn (c2s_data_header sid offset) bs w1 of
           (Some e, w2) \<Rightarrow> dropActive conn w2
         | (None, w2) \<Rightarrow> w2))"

text \<open>The rest of the round, after \<open>stdin.Read\<close> returned \<open>bs\<close> and perhaps an error.\<close>

definition stdin_read :: "bytes \<Rightarrow> gerror option \<Rightarrow> client_world \<Rightarrow> client_world" where
  "stdin_read bs err w = (case rt_stdin (cl_rt w) of
     StdinReading conn \<Rightarrow>
       (let w1 = stdin_data conn bs (set_stdin StdinActive w) in
        case err of
          None \<Rightarrow> w1
        | Some e \<Rightarrow> if errors_is e EOF then set_stdin StdinFin (markClientFin w1)
                    else finish (Some e) (set_stdin StdinStopped w1))
   | _ \<Rightarrow> w)"

text \<open>One round of the loop of \<open>sendClientFin\<close>, whose context never ends.\<close>

definition sendClientFin :: "client_world \<Rightarrow> client_world" where
  "sendClientFin w = (case rt_stdin (cl_rt w) of
     StdinFin \<Rightarrow> (case waitActive None (cl_rt w) of
         GiveUp e \<Rightarrow> set_stdin StdinStopped w
       | Sleep \<Rightarrow> set_stdin StdinFinAsleep w
       | Go conn \<Rightarrow>
           (case client_send conn (c2s_fin_header (rt_sessionID (cl_rt w)) (rt_c2sFinAt (cl_rt w))) [] w of
              (Some e, w1) \<Rightarrow> dropActive conn w1
            | (None, w1) \<Rightarrow> set_stdin StdinStopped w1))
   | _ \<Rightarrow> w)"

section \<open>Replay\<close>

definition replayClientBytes :: "client_conn \<Rightarrow> client_world \<Rightarrow> gerror option \<times> client_world" where
  "replayClientBytes conn w =
     (let rt = cl_rt w; sid = rt_sessionID rt in
      case chunk_loop (\<lambda>off p. client_send conn (c2s_data_header sid off) p) (rt_c2sBufFrom rt) (rt_c2sBuf rt) w of
        (Some e, w1) \<Rightarrow> (Some e, dropActive conn w1)
      | (None, w1) \<Rightarrow>
          if rt_c2sFin rt then
            (case client_send conn (c2s_fin_header sid (rt_c2sFinAt rt)) [] w1 of
               (Some e, w2) \<Rightarrow> (Some e, dropActive conn w2)
             | (None, w2) \<Rightarrow> (None, w2))
          else (None, w1))"

section \<open>Frames from the server\<close>

definition handleServerData :: "client_conn \<Rightarrow> frame_header \<Rightarrow> bytes \<Rightarrow> client_world \<Rightarrow> gerror option \<times> client_world" where
  "handleServerData conn f payload w =
     (if h_direction f \<noteq> dirServerToClient then (Some (Errorf ''bad data direction''), w)
      else let rx = rt_s2cRx (cl_rt w); sid = rt_sessionID (cl_rt w) in
        if h_offset f < rx then
          (if h_offset f + of_nat (length payload) \<le> rx then client_send conn (s2c_ack_header sid rx) [] w
           else (Some (Errorf ''partial duplicate server data''), w))
        else if rx < h_offset f then (Some (Errorf ''server data offset gap''), w)
        else case writeAll sink_write (cl_stdout w) payload of
          (n, err, sink) \<Rightarrow>
            let w1 = upd_rt (\<lambda>rt. rt\<lparr>rt_s2cRx := rt_s2cRx rt + of_nat n\<rparr>) (w\<lparr>cl_stdout := sink\<rparr>)
            in (err, snd (client_send conn (s2c_ack_header sid (rt_s2cRx (cl_rt w1))) [] w1)))"

text \<open>\<open>closeWrite(rt.stdout)\<close>: standard output has \<open>CloseWrite\<close> only when it is a socket.\<close>

definition close_stdout :: "client_world \<Rightarrow> client_world" where
  "close_stdout w = (if cl_half_close w then w\<lparr>cl_stdout := (cl_stdout w)\<lparr>sk_closed := True\<rparr>\<rparr> else w)"

definition handleServerFin :: "client_conn \<Rightarrow> frame_header \<Rightarrow> client_world \<Rightarrow> gerror option \<times> client_world" where
  "handleServerFin conn f w =
     (if h_direction f \<noteq> dirServerToClient then (Some (Errorf ''bad fin direction''), w)
      else let rx = rt_s2cRx (cl_rt w) in
        if h_offset f \<noteq> rx then (Some (Errorf ''server fin offset gap''), w)
        else (None, snd (client_send conn (s2c_ack_header (rt_sessionID (cl_rt w)) rx) [] (close_stdout w))))"

definition frame_current :: "client_conn \<Rightarrow> frame_header \<Rightarrow> client_runtime \<Rightarrow> bool" where
  "frame_current conn f rt \<longleftrightarrow> rt_active rt = Some conn \<and> h_epoch f = rt_epoch rt
     \<and> (h_session_id f = [] \<or> h_session_id f = rt_sessionID rt)"

definition client_error_header :: "string \<Rightarrow> frame_header" where
  "client_error_header message = zero_header\<lparr>h_type := ''error'', h_code := ''protocol_error'', h_message := message\<rparr>"

definition client_pong_header :: "frame_header \<Rightarrow> frame_header" where
  "client_pong_header f = zero_header\<lparr>h_type := ''pong'', h_nonce := h_nonce f, h_sent_at := h_sent_at f\<rparr>"

definition coded_error :: "frame_header \<Rightarrow> gerror" where
  "coded_error f = Errorf (h_code f @ '': '' @ h_message f)"

text \<open>One round of \<open>receiveLoop\<close> on a frame; the result says whether it loops again.\<close>

definition receive_frame :: "client_conn \<Rightarrow> frame_header \<Rightarrow> bytes \<Rightarrow> client_world \<Rightarrow> bool \<times> client_world" where
  "receive_frame conn f payload w =
     (if \<not> frame_current conn f (cl_rt w) \<and> h_type f \<noteq> ''ping'' \<and> h_type f \<noteq> ''pong'' then (True, w)
      else if h_type f = ''data'' then
        (case handleServerData conn f payload w of
           (Some e, w') \<Rightarrow> (False, finish (Some e) (snd (client_send conn (client_error_header (error_text e)) [] w')))
         | (None, w') \<Rightarrow> (True, w'))
      else if h_type f = ''ack'' then
        (if h_direction f \<noteq> dirClientToServer then (False, finish (Some (Errorf ''bad ack direction'')) w)
         else case advanceC2SAckLocked (h_received_offset f) (cl_rt w) of
           Inl e \<Rightarrow> (False, finish (Some e) (upd_rt rt_broadcast w))
         | Inr rt \<Rightarrow> (True, w\<lparr>cl_rt := rt_broadcast rt\<rparr>))
      else if h_type f = ''fin'' then
        (case handleServerFin conn f w of
           (Some e, w') \<Rightarrow> (False, finish (Some e) w')
         | (None, w') \<Rightarrow> (True, w'))
      else if h_type f = ''close'' then
        (False, finish (if h_code f = ''normal'' \<or> h_code f = ''target_closed'' then None else Some (coded_error f)) w)
      else if h_type f = ''error'' then (False, finish (Some (coded_error f)) w)
      else if h_type f = ''ping'' then (True, snd (client_send conn (client_pong_header f) [] w))
      else if h_type f = ''pong'' then
        (True, w\<lparr>cl_hb := (cl_hb w)(cc_ws conn := snd (resolvePong (h_nonce f) (cl_now w) (cl_hb w (cc_ws conn))))\<rparr>)
      else (False, finish (Some (Errorf (''unknown frame type '' @ go_quote (h_type f)))) w))"

text \<open>The round in which \<open>readFrame\<close> fails.\<close>

definition receive_error :: "client_conn \<Rightarrow> client_world \<Rightarrow> client_world" where
  "receive_error conn w = dropActive conn w"

section \<open>Activation\<close>

definition helloOffsets :: "client_runtime \<Rightarrow> string \<times> u64 \<times> u64" where
  "helloOffsets rt = (rt_sessionID rt, rt_c2sAck rt, rt_s2cRx rt)"

record activation_commit =
  ac_conn :: client_conn
  ac_accept :: frame_header
  ac_path :: path_config
  ac_resume :: bool

definition commit_state :: "activation_commit \<Rightarrow> instant \<Rightarrow> client_runtime \<Rightarrow> client_runtime" where
  "commit_state commit now rt = rt_broadcast (rt\<lparr>rt_active := Some (ac_conn commit),
     rt_sessionID := h_session_id (ac_accept commit), rt_epoch := h_epoch (ac_accept commit),
     rt_lastSwitch := Some now, rt_lastKnownGood := Some (ac_path commit)\<rparr>)"

text \<open>
  \<open>commitActivation\<close> up to the point where it starts \<open>receiveLoop\<close> and replays; \<open>Some\<close> is an early
  return with its error.
\<close>

definition commit_publish :: "activation_commit \<Rightarrow> client_world \<Rightarrow> gerror option \<times> client_world" where
  "commit_publish commit w =
     (let rt = cl_rt w; accept = ac_accept commit; conn = ac_conn commit in
      if rt_finished rt then (Some ClientRuntimeClosed, conn_close conn w)
      else if ac_resume commit \<and> h_session_id accept \<noteq> rt_sessionID rt then
        (Some (Errorf ''server accepted different session''), conn_close conn w)
      else if rt_c2sNext rt < h_c2s_rx accept then
        (Some (Errorf ''server ack is ahead of client''), conn_close conn w)
      else case advanceC2SAckLocked (h_c2s_rx accept) rt of
        Inl e \<Rightarrow> (Some e, conn_close conn w)
      | Inr rt1 \<Rightarrow>
          let w1 = w\<lparr>cl_rt := commit_state commit (cl_now w) rt1, cl_saved := cl_saved w @ [pc_name (ac_path commit)]\<rparr>
          in (None, case rt_active rt of None \<Rightarrow> w1 | Some old \<Rightarrow> conn_close old w1))"

definition commitActivation :: "activation_commit \<Rightarrow> client_world \<Rightarrow> gerror option \<times> client_world" where
  "commitActivation commit w = (case commit_publish commit w of
     (Some e, w1) \<Rightarrow> (Some e, w1)
   | (None, w1) \<Rightarrow> replayClientBytes (ac_conn commit) w1)"

end
