(* ===== verification/Client_Inv.thy ===== *)
theory Client_Inv
  imports Client_Runtime
begin

text \<open>
  Invariants of the client runtime: its two streams agree with standard input and output, its life
  cycle flags agree, its buffer is bounded, and every frame it ever sent is truthful. Each operation
  keeps them; the step relation lifts that to every reachable state. The runtime is the second
  instance of the stream interfaces.
\<close>

section \<open>Interpretations of the stream interfaces\<close>

interpretation c2s: ack_sender rt_c2sNext rt_c2sAck rt_c2sBufFrom rt_c2sBuf advanceC2SAckLocked append_c2s
  by unfold_locales (auto simp: advanceC2SAckLocked_def append_c2s_def Let_def)

abbreviation stdout_written :: "client_world \<Rightarrow> bytes" where
  "stdout_written w \<equiv> sk_written (cl_stdout w)"

lemma client_fill_simps [simp]:
  "h_type (client_fill e h) = h_type h" "h_direction (client_fill e h) = h_direction h"
  "h_offset (client_fill e h) = h_offset h" "h_received_offset (client_fill e h) = h_received_offset h"
  "h_c2s_rx (client_fill e h) = h_c2s_rx h" "h_s2c_rx (client_fill e h) = h_s2c_rx h"
  "h_session_id (client_fill e h) = h_session_id h"
  by (simp_all add: client_fill_def)

lemma client_send_frame [simp]:
  "cl_cfg (snd (client_send conn h p w)) = cl_cfg w" "cl_now (snd (client_send conn h p w)) = cl_now w"
  "cl_rt (snd (client_send conn h p w)) = cl_rt w" "cl_hb (snd (client_send conn h p w)) = cl_hb w"
  "cl_closed (snd (client_send conn h p w)) = cl_closed w" "cl_stdin (snd (client_send conn h p w)) = cl_stdin w"
  "cl_stdout (snd (client_send conn h p w)) = cl_stdout w" "cl_saved (snd (client_send conn h p w)) = cl_saved w"
  by (simp_all add: client_send_def split: prod.split)

lemma client_send_eq:
  assumes "client_send conn h p w = (e, w')"
  shows "cl_cfg w' = cl_cfg w" "cl_rt w' = cl_rt w" "cl_stdin w' = cl_stdin w" "cl_stdout w' = cl_stdout w"
    "cl_closed w' = cl_closed w" "cl_now w' = cl_now w"
  using client_send_frame [of conn h p w] assms by simp_all

lemma client_send_out:
  "ws_out (cl_ws (snd (client_send conn h p w)) i) = ws_out (cl_ws w i) @
     (if i = cc_ws conn \<and> fst (client_send conn h p w) = None then [(client_fill (cc_epoch conn) h, p)] else [])"
proof -
  let ?h = "client_fill (cc_epoch conn) h"
  obtain e s where s: "ws_send ?h p (cl_ws w (cc_ws conn)) = (e, s)" by fastforce
  with ws_send_out [of ?h p "cl_ws w (cc_ws conn)"] show ?thesis by (simp add: client_send_def)
qed

definition client_receive :: "client_conn \<Rightarrow> frame_header \<Rightarrow> u64 \<Rightarrow> bytes \<Rightarrow> client_world \<Rightarrow> client_world" where
  "client_receive conn f off p w =
     snd (handleServerData conn (f\<lparr>h_direction := dirServerToClient, h_offset := off\<rparr>) p w)"

interpretation s2c_rx: ordered_receiver "\<lambda>w. rt_s2cRx (cl_rt w)" stdout_written "client_receive conn f" for conn f
proof
  fix off p and w :: client_world
  assume "off \<noteq> rt_s2cRx (cl_rt w)"
  then show "rt_s2cRx (cl_rt (client_receive conn f off p w)) = rt_s2cRx (cl_rt w)
      \<and> stdout_written (client_receive conn f off p w) = stdout_written w"
    by (auto simp: client_receive_def handleServerData_def Let_def)
next
  fix off p and w :: client_world
  assume off: "off = rt_s2cRx (cl_rt w)"
  obtain n err sk where wr: "writeAll sink_write (cl_stdout w) p = (n, err, sk)"
    by (cases "writeAll sink_write (cl_stdout w) p")
  from sink_writer.writeAll_log [OF wr] off wr
  show "\<exists>n \<le> length p. rt_s2cRx (cl_rt (client_receive conn f off p w)) = rt_s2cRx (cl_rt w) + of_nat n
      \<and> stdout_written (client_receive conn f off p w) = stdout_written w @ take n p"
    by (intro exI [of _ n]) (auto simp: client_receive_def handleServerData_def Let_def)
qed

section \<open>The invariants\<close>

definition client_streams :: "client_world \<Rightarrow> bool" where
  "client_streams w \<longleftrightarrow>
     sender_ok (rt_c2sNext (cl_rt w)) (rt_c2sAck (cl_rt w)) (rt_c2sBufFrom (cl_rt w)) (rt_c2sBuf (cl_rt w)) (cl_stdin w)
     \<and> unat (rt_s2cRx (cl_rt w)) = length (stdout_written w)
     \<and> (rt_c2sFin (cl_rt w) \<longrightarrow> rt_c2sFinAt (cl_rt w) = rt_c2sNext (cl_rt w))"

definition client_life :: "client_runtime \<Rightarrow> bool" where
  "client_life rt \<longleftrightarrow> rt_done rt = rt_finished rt
     \<and> (if rt_finished rt then rt_active rt = None else rt_doneErr rt = None)"

text \<open>What the reading goroutine relies on, for a buffer limit, the bytes buffered and the end of input.\<close>

fun stdin_phase_ok :: "int \<Rightarrow> nat \<Rightarrow> bool \<Rightarrow> stdin_state \<Rightarrow> bool" where
  "stdin_phase_ok limit n fin (StdinReading c) = (\<not> fin \<and> int n < limit)"
| "stdin_phase_ok limit n fin StdinFin = fin"
| "stdin_phase_ok limit n fin StdinFinAsleep = fin"
| "stdin_phase_ok limit n fin StdinStopped = True"
| "stdin_phase_ok limit n fin _ = (\<not> fin)"

definition client_stdin_ok :: "config \<Rightarrow> client_runtime \<Rightarrow> bool" where
  "client_stdin_ok cfg rt \<longleftrightarrow> 0 < rc_buffer (cfg_resume cfg)
     \<and> int (length (rt_c2sBuf rt)) < rc_buffer (cfg_resume cfg) + int dataChunkBytes
     \<and> stdin_phase_ok (rc_buffer (cfg_resume cfg)) (length (rt_c2sBuf rt)) (rt_c2sFin rt) (rt_stdin rt)"

lemma stdin_phase_wake [simp]: "stdin_phase_ok limit n fin s \<Longrightarrow> stdin_phase_ok limit n fin (wake s)"
  by (cases s) auto

lemma stdin_phase_smaller: "stdin_phase_ok limit n fin s \<Longrightarrow> m \<le> n \<Longrightarrow> stdin_phase_ok limit m fin s"
  by (cases s) auto

text \<open>What a frame of the client says, against standard input and output and the end of input.\<close>

definition client_frame_ok :: "bytes \<Rightarrow> bytes \<Rightarrow> bool \<Rightarrow> u64 \<Rightarrow> frame \<Rightarrow> bool" where
  "client_frame_ok src out fin ack fr \<longleftrightarrow> (case fr of (h, p) \<Rightarrow>
     (h_type h = ''data'' \<longrightarrow> h_direction h = dirClientToServer \<and> slice_at (unat (h_offset h)) p src)
     \<and> (h_type h = ''ack'' \<longrightarrow> h_direction h = dirServerToClient \<and> unat (h_received_offset h) \<le> length out)
     \<and> (h_type h = ''hello'' \<longrightarrow> h_c2s_rx h \<le> ack \<and> unat (h_s2c_rx h) \<le> length out)
     \<and> (h_type h = ''fin'' \<longrightarrow> h_direction h = dirClientToServer \<and> unat (h_offset h) = length src \<and> fin))"

definition client_frames :: "client_world \<Rightarrow> bool" where
  "client_frames w \<longleftrightarrow> (\<forall>i. \<forall>fr \<in> set (ws_out (cl_ws w i)).
     client_frame_ok (cl_stdin w) (stdout_written w) (rt_c2sFin (cl_rt w)) (rt_c2sAck (cl_rt w)) fr)"

definition client_inv :: "client_world \<Rightarrow> bool" where
  "client_inv w \<longleftrightarrow> client_streams w \<and> client_life (cl_rt w) \<and> client_stdin_ok (cl_cfg w) (cl_rt w) \<and> client_frames w"

section \<open>Operations that leave the data alone\<close>

definition data_fields :: "client_runtime \<Rightarrow> u64 \<times> u64 \<times> bytes \<times> u64 \<times> bool \<times> u64 \<times> u64" where
  "data_fields rt = (rt_c2sNext rt, rt_c2sAck rt, rt_c2sBuf rt, rt_c2sBufFrom rt, rt_c2sFin rt, rt_c2sFinAt rt, rt_s2cRx rt)"

lemma data_fields_eq:
  "data_fields rt = data_fields rt' \<longleftrightarrow> rt_c2sNext rt = rt_c2sNext rt' \<and> rt_c2sAck rt = rt_c2sAck rt' \<and> rt_c2sBuf rt = rt_c2sBuf rt'
     \<and> rt_c2sBufFrom rt = rt_c2sBufFrom rt' \<and> rt_c2sFin rt = rt_c2sFin rt' \<and> rt_c2sFinAt rt = rt_c2sFinAt rt'
     \<and> rt_s2cRx rt = rt_s2cRx rt'"
  by (auto simp: data_fields_def)

definition same_data :: "client_world \<Rightarrow> client_world \<Rightarrow> bool" where
  "same_data w w' \<longleftrightarrow> data_fields (cl_rt w') = data_fields (cl_rt w) \<and> cl_stdin w' = cl_stdin w
     \<and> stdout_written w' = stdout_written w \<and> cl_cfg w' = cl_cfg w \<and> (\<forall>i. ws_out (cl_ws w' i) = ws_out (cl_ws w i))"

lemma same_data_refl [simp]: "same_data w w"
  by (simp add: same_data_def)

lemma same_data_trans: "same_data u v \<Longrightarrow> same_data v w \<Longrightarrow> same_data u w"
  by (simp add: same_data_def)

lemma same_data_inv:
  assumes "client_inv w" and "same_data w w'" and "client_life (cl_rt w')" and "client_stdin_ok (cl_cfg w') (cl_rt w')"
  shows "client_inv w'"
  using assms by (simp add: client_inv_def same_data_def client_streams_def client_frames_def data_fields_eq)

lemma rt_broadcast_simps [simp]:
  "data_fields (rt_broadcast rt) = data_fields rt" "rt_active (rt_broadcast rt) = rt_active rt"
  "rt_sessionID (rt_broadcast rt) = rt_sessionID rt" "rt_epoch (rt_broadcast rt) = rt_epoch rt"
  "rt_done (rt_broadcast rt) = rt_done rt" "rt_doneErr (rt_broadcast rt) = rt_doneErr rt"
  "rt_finished (rt_broadcast rt) = rt_finished rt" "rt_c2sBuf (rt_broadcast rt) = rt_c2sBuf rt"
  "rt_c2sFin (rt_broadcast rt) = rt_c2sFin rt" "rt_c2sNext (rt_broadcast rt) = rt_c2sNext rt"
  "rt_c2sAck (rt_broadcast rt) = rt_c2sAck rt" "rt_c2sBufFrom (rt_broadcast rt) = rt_c2sBufFrom rt"
  "rt_s2cRx (rt_broadcast rt) = rt_s2cRx rt" "rt_c2sFinAt (rt_broadcast rt) = rt_c2sFinAt rt"
  "rt_lastKnownGood (rt_broadcast rt) = rt_lastKnownGood rt" "rt_stdin (rt_broadcast rt) = wake (rt_stdin rt)"
  by (simp_all add: rt_broadcast_def data_fields_def)

lemma conn_close_frame [simp]:
  "cl_cfg (conn_close conn w) = cl_cfg w" "cl_now (conn_close conn w) = cl_now w" "cl_rt (conn_close conn w) = cl_rt w"
  "cl_stdin (conn_close conn w) = cl_stdin w" "cl_stdout (conn_close conn w) = cl_stdout w"
  "ws_out (cl_ws (conn_close conn w) i) = ws_out (cl_ws w i)" "cl_saved (conn_close conn w) = cl_saved w"
  "cl_closed (conn_close conn w) (cc_ws conn)"
  by (simp_all add: conn_close_def Let_def)

lemma conn_close_inv [simp]: "client_inv (conn_close conn w) = client_inv w"
  by (simp add: client_inv_def client_streams_def client_frames_def)

lemma dropActive_rt:
  "cl_rt (dropActive conn w) = (if rt_active (cl_rt w) = Some conn
     then (rt_broadcast ((cl_rt w)\<lparr>rt_active := None\<rparr>))\<lparr>rt_reconnectSignal := True\<rparr> else cl_rt w)"
  "cl_stdin (dropActive conn w) = cl_stdin w" "cl_stdout (dropActive conn w) = cl_stdout w"
  "cl_cfg (dropActive conn w) = cl_cfg w" "ws_out (cl_ws (dropActive conn w) i) = ws_out (cl_ws w i)"
  by (simp_all add: dropActive_def)

lemma dropActive_inv:
  assumes "client_inv w"
  shows "client_inv (dropActive conn w)"
proof (rule same_data_inv [OF assms])
  show "same_data w (dropActive conn w)"
    by (simp add: same_data_def dropActive_rt) (simp add: data_fields_def)
  show "client_life (cl_rt (dropActive conn w))"
    using assms by (simp add: dropActive_rt client_inv_def client_life_def)
  show "client_stdin_ok (cl_cfg (dropActive conn w)) (cl_rt (dropActive conn w))"
    using assms by (simp add: dropActive_rt client_inv_def client_stdin_ok_def)
qed

lemma finish_rt:
  "cl_rt (finish err w) = (if rt_finished (cl_rt w) then cl_rt w else
     (rt_broadcast ((cl_rt w)\<lparr>rt_active := None, rt_doneErr := err, rt_finished := True\<rparr>))\<lparr>rt_done := True\<rparr>)"
  "cl_stdin (finish err w) = cl_stdin w" "cl_stdout (finish err w) = cl_stdout w" "cl_cfg (finish err w) = cl_cfg w"
  "ws_out (cl_ws (finish err w) i) = ws_out (cl_ws w i)"
  by (simp_all add: finish_def finish_close_def finish_mark_def split: option.split)

lemma finish_inv:
  assumes "client_inv w"
  shows "client_inv (finish err w)"
proof (rule same_data_inv [OF assms])
  show "same_data w (finish err w)"
    by (simp add: same_data_def finish_rt) (simp add: data_fields_def)
  show "client_life (cl_rt (finish err w))"
    using assms by (simp add: finish_rt client_inv_def client_life_def)
  show "client_stdin_ok (cl_cfg (finish err w)) (cl_rt (finish err w))"
    using assms by (simp add: finish_rt client_inv_def client_stdin_ok_def)
qed

lemma client_send_inv:
  assumes "client_inv w" and "client_frame_ok (cl_stdin w) (stdout_written w) (rt_c2sFin (cl_rt w)) (rt_c2sAck (cl_rt w)) (h, p)"
  shows "client_inv (snd (client_send conn h p w))"
proof -
  have "client_frame_ok (cl_stdin w) (stdout_written w) (rt_c2sFin (cl_rt w)) (rt_c2sAck (cl_rt w)) (client_fill (cc_epoch conn) h, p)"
    using assms(2) by (simp add: client_frame_ok_def)
  with assms(1) show ?thesis
    by (auto simp: client_inv_def client_streams_def client_frames_def client_send_out)
qed

lemma client_send_inv_eq:
  assumes "client_send conn h p w = (e, w')" and "client_inv w"
    and "client_frame_ok (cl_stdin w) (stdout_written w) (rt_c2sFin (cl_rt w)) (rt_c2sAck (cl_rt w)) (h, p)"
  shows "client_inv w'"
  using client_send_inv [OF assms(2,3), of conn] assms(1) by simp


text \<open>The frames the code builds.\<close>

lemma client_headers [simp]:
  "client_frame_ok src out fin ack (c2s_data_header sid off, p) = slice_at (unat off) p src"
  "client_frame_ok src out fin ack (c2s_fin_header sid off, []) = (unat off = length src \<and> fin)"
  "client_frame_ok src out fin ack (s2c_ack_header sid rx, []) = (unat rx \<le> length out)"
  "client_frame_ok src out fin ack (client_error_header m, [])" "client_frame_ok src out fin ack (client_pong_header f, [])"
  by (simp_all add: client_frame_ok_def c2s_data_header_def c2s_fin_header_def s2c_ack_header_def
      client_error_header_def client_pong_header_def)

section \<open>Operations on the data\<close>

lemma client_frame_grows:
  assumes "client_frame_ok src out fin ack fr" and "prefix src src'" and "prefix out out'" and "fin \<Longrightarrow> fin' \<and> src' = src"
    and "ack \<le> ack'"
  shows "client_frame_ok src' out' fin' ack' fr"
  using assms by (auto simp: client_frame_ok_def dest: slice_at_prefix prefix_length_le split: prod.splits)

text \<open>An update of the streams on the same connections.\<close>

lemma client_inv_update:
  assumes inv: "client_inv w" and "cl_ws w' = cl_ws w" and "prefix (cl_stdin w) (cl_stdin w')"
    and "prefix (stdout_written w) (stdout_written w')"
    and "rt_c2sFin (cl_rt w) \<Longrightarrow> rt_c2sFin (cl_rt w') \<and> cl_stdin w' = cl_stdin w"
    and "rt_c2sAck (cl_rt w) \<le> rt_c2sAck (cl_rt w')" and "client_streams w'" and "client_life (cl_rt w')" and "client_stdin_ok (cl_cfg w') (cl_rt w')"
  shows "client_inv w'"
proof -
  have "client_frames w'"
    using assms unfolding client_inv_def client_frames_def by (metis client_frame_grows)
  with assms show ?thesis by (simp add: client_inv_def)
qed

lemma inv_sender: "client_inv w \<Longrightarrow>
   sender_ok (rt_c2sNext (cl_rt w)) (rt_c2sAck (cl_rt w)) (rt_c2sBufFrom (cl_rt w)) (rt_c2sBuf (cl_rt w)) (cl_stdin w)"
  by (simp add: client_inv_def client_streams_def)

lemma inv_rx: "client_inv w \<Longrightarrow> unat (rt_s2cRx (cl_rt w)) = length (stdout_written w)"
  by (simp add: client_inv_def client_streams_def)

lemma append_c2s_simps [simp]:
  "rt_active (append_c2s p rt) = rt_active rt" "rt_done (append_c2s p rt) = rt_done rt"
  "rt_finished (append_c2s p rt) = rt_finished rt" "rt_doneErr (append_c2s p rt) = rt_doneErr rt"
  "rt_stdin (append_c2s p rt) = rt_stdin rt" "rt_c2sFin (append_c2s p rt) = rt_c2sFin rt"
  "rt_s2cRx (append_c2s p rt) = rt_s2cRx rt" "rt_c2sBuf (append_c2s p rt) = rt_c2sBuf rt @ p"
  "rt_sessionID (append_c2s p rt) = rt_sessionID rt" "rt_c2sAck (append_c2s p rt) = rt_c2sAck rt"
  by (simp_all add: append_c2s_def)

lemma stdin_data_inv:
  assumes inv: "client_inv w" and st: "rt_stdin (cl_rt w) = StdinActive"
    and room: "int (length (rt_c2sBuf (cl_rt w))) < rc_buffer (cfg_resume (cl_cfg w))" and len: "length bs \<le> dataChunkBytes"
    and fit: "length (cl_stdin w) + length bs < stream_limit"
  shows "client_inv (stdin_data conn bs w)"
proof (cases "bs = []")
  case False
  let ?w1 = "(w\<lparr>cl_stdin := cl_stdin w @ bs\<rparr>)\<lparr>cl_rt := append_c2s bs (cl_rt w)\<rparr>"
  let ?h = "c2s_data_header (rt_sessionID (cl_rt w)) (rt_c2sNext (cl_rt w))"
  have nofin: "\<not> rt_c2sFin (cl_rt w)" using inv st by (simp add: client_inv_def client_stdin_ok_def)
  have "client_inv ?w1"
    by (rule client_inv_update [OF inv])
       (use inv nofin st room len c2s.append_sender_ok [OF inv_sender [OF inv] fit] in
         \<open>auto simp: client_inv_def client_streams_def client_life_def client_stdin_ok_def\<close>)
  moreover have "client_frame_ok (cl_stdin ?w1) (stdout_written ?w1) (rt_c2sFin (cl_rt ?w1)) (rt_c2sAck (cl_rt ?w1)) (?h, bs)"
    using inv_sender [OF inv] by (simp add: sender_ok_def slice_at_end)
  moreover obtain e w2 where s: "client_send conn ?h bs ?w1 = (e, w2)" by fastforce
  ultimately have "client_inv w2" using client_send_inv_eq [OF s] by blast
  with False s show ?thesis
    by (simp add: stdin_data_def appendClientBytes_def Let_def dropActive_inv split: option.split)
qed (use inv in \<open>simp add: stdin_data_def\<close>)

lemma stdin_data_rt:
  "rt_stdin (cl_rt (stdin_data conn bs w)) = rt_stdin (cl_rt w) \<or> rt_stdin (cl_rt (stdin_data conn bs w)) = wake (rt_stdin (cl_rt w))"
  "rt_c2sFin (cl_rt (stdin_data conn bs w)) = rt_c2sFin (cl_rt w)"
proof -
  obtain e w2 where s: "client_send conn (c2s_data_header (rt_sessionID (cl_rt w)) (rt_c2sNext (cl_rt w))) bs
      ((w\<lparr>cl_stdin := cl_stdin w @ bs\<rparr>)\<lparr>cl_rt := append_c2s bs (cl_rt w)\<rparr>) = (e, w2)" by fastforce
  then show "rt_stdin (cl_rt (stdin_data conn bs w)) = rt_stdin (cl_rt w)
      \<or> rt_stdin (cl_rt (stdin_data conn bs w)) = wake (rt_stdin (cl_rt w))"
    "rt_c2sFin (cl_rt (stdin_data conn bs w)) = rt_c2sFin (cl_rt w)"
    using client_send_eq(2) [OF s]
    by (auto simp: stdin_data_def appendClientBytes_def Let_def dropActive_rt split: option.split)
qed

lemma set_stdin_inv:
  assumes "client_inv w" and "stdin_phase_ok (rc_buffer (cfg_resume (cl_cfg w))) (length (rt_c2sBuf (cl_rt w))) (rt_c2sFin (cl_rt w)) s"
  shows "client_inv (set_stdin s w)"
  by (rule same_data_inv [OF assms(1)])
     (use assms in \<open>simp_all add: same_data_def data_fields_def client_inv_def client_life_def client_stdin_ok_def\<close>)

lemma inv_phase: "client_inv w \<Longrightarrow>
   stdin_phase_ok (rc_buffer (cfg_resume (cl_cfg w))) (length (rt_c2sBuf (cl_rt w))) (rt_c2sFin (cl_rt w)) (rt_stdin (cl_rt w))"
  by (simp add: client_inv_def client_stdin_ok_def)

lemma stdin_wait_inv:
  assumes inv: "client_inv w"
  shows "client_inv (stdin_wait ctx w)"
proof (cases "rt_stdin (cl_rt w)")
  case StdinActive
  with inv_phase [OF inv] have "\<not> rt_c2sFin (cl_rt w)" by simp
  then show ?thesis
    using StdinActive inv by (cases "waitActive ctx (cl_rt w)") (simp_all add: stdin_wait_def finish_inv set_stdin_inv)
next
  case (StdinBuffer c)
  with inv_phase [OF inv] have nf: "\<not> rt_c2sFin (cl_rt w)" by simp
  show ?thesis
  proof (cases "waitBuffer ctx (cl_cfg w) (cl_rt w)")
    case (Go u)
    then have "int (length (rt_c2sBuf (cl_rt w))) < rc_buffer (cfg_resume (cl_cfg w))"
      by (auto simp: waitBuffer_def split: if_splits option.splits)
    with Go StdinBuffer nf inv show ?thesis by (simp add: stdin_wait_def set_stdin_inv)
  qed (use StdinBuffer nf inv in \<open>simp_all add: stdin_wait_def finish_inv set_stdin_inv\<close>)
qed (use inv in \<open>simp_all add: stdin_wait_def\<close>)

lemma markClientFin_inv:
  assumes inv: "client_inv w"
  shows "client_inv (set_stdin StdinFin (markClientFin w))"
  by (rule client_inv_update [OF inv])
     (use inv in \<open>auto simp: markClientFin_def client_inv_def client_streams_def client_life_def client_stdin_ok_def\<close>)

lemma stdin_read_inv:
  assumes inv: "client_inv w" and len: "length bs \<le> dataChunkBytes" and fit: "length (cl_stdin w) + length bs < stream_limit"
  shows "client_inv (stdin_read bs err w)"
proof (cases "rt_stdin (cl_rt w)")
  case (StdinReading conn)
  let ?w0 = "set_stdin StdinActive w"
  from inv_phase [OF inv] StdinReading have nf: "\<not> rt_c2sFin (cl_rt w)"
    and room: "int (length (rt_c2sBuf (cl_rt w))) < rc_buffer (cfg_resume (cl_cfg w))" by simp_all
  have i0: "client_inv ?w0" using nf inv by (simp add: set_stdin_inv)
  have i1: "client_inv (stdin_data conn bs ?w0)"
    by (rule stdin_data_inv [OF i0]) (use room len fit in simp_all)
  then have "client_inv (set_stdin StdinStopped (stdin_data conn bs ?w0))" by (simp add: set_stdin_inv)
  with StdinReading i1 show ?thesis
    by (simp add: stdin_read_def Let_def markClientFin_inv finish_inv split: option.split)
qed (use inv in \<open>simp_all add: stdin_read_def\<close>)

lemma sendClientFin_inv:
  assumes inv: "client_inv w"
  shows "client_inv (sendClientFin w)"
proof (cases "rt_stdin (cl_rt w)")
  case StdinFin
  with inv_phase [OF inv] have fin: "rt_c2sFin (cl_rt w)" by simp
  let ?h = "c2s_fin_header (rt_sessionID (cl_rt w)) (rt_c2sFinAt (cl_rt w))"
  have ok: "client_frame_ok (cl_stdin w) (stdout_written w) (rt_c2sFin (cl_rt w)) (rt_c2sAck (cl_rt w)) (?h, [])"
    using inv fin by (simp add: client_inv_def client_streams_def sender_ok_def)
  have sent: "client_inv w1" if "client_send conn ?h [] w = (e, w1)" for conn e w1
    by (rule client_send_inv_eq [OF that inv ok])
  show ?thesis
  proof (cases "waitActive None (cl_rt w)")
    case (Go conn)
    obtain e w1 where s: "client_send conn ?h [] w = (e, w1)" by fastforce
    with sent have "client_inv w1" by blast
    with Go s StdinFin show ?thesis
      by (simp add: sendClientFin_def dropActive_inv set_stdin_inv split: option.split)
  qed (use StdinFin fin inv in \<open>simp_all add: sendClientFin_def set_stdin_inv\<close>)
qed (use inv in \<open>simp_all add: sendClientFin_def\<close>)

lemma replay_chunks_inv:
  assumes inv: "client_inv w"
    and r: "chunk_loop (\<lambda>off p. client_send conn (c2s_data_header sid off) p) (rt_c2sBufFrom (cl_rt w)) (rt_c2sBuf (cl_rt w)) w = (e, w')"
  shows "client_inv w'" "cl_rt w' = cl_rt w" "cl_stdin w' = cl_stdin w" "cl_stdout w' = cl_stdout w"
proof -
  let ?P = "\<lambda>v. client_inv v \<and> cl_rt v = cl_rt w \<and> cl_stdin v = cl_stdin w \<and> cl_stdout v = cl_stdout w"
  have "?P (snd (send_all (\<lambda>off p. client_send conn (c2s_data_header sid off) p)
      (chunks (rt_c2sBufFrom (cl_rt w)) (rt_c2sBuf (cl_rt w))) w))"
    by (rule send_all_invariant)
       (use inv sender_ok_chunks(1) [OF inv_sender [OF inv]] in \<open>auto intro!: client_send_inv\<close>)
  then show "client_inv w'" "cl_rt w' = cl_rt w" "cl_stdin w' = cl_stdin w" "cl_stdout w' = cl_stdout w"
    using r by (simp_all add: chunk_loop_send_all)
qed

lemma replayClientBytes_inv:
  assumes inv: "client_inv w"
  shows "client_inv (snd (replayClientBytes conn w))"
proof -
  let ?sid = "rt_sessionID (cl_rt w)" and ?fin = "c2s_fin_header (rt_sessionID (cl_rt w)) (rt_c2sFinAt (cl_rt w))"
  obtain e w1 where r: "chunk_loop (\<lambda>off p. client_send conn (c2s_data_header ?sid off) p)
      (rt_c2sBufFrom (cl_rt w)) (rt_c2sBuf (cl_rt w)) w = (e, w1)" by fastforce
  note k = replay_chunks_inv [OF inv r]
  obtain e2 w2 where s: "client_send conn ?fin [] w1 = (e2, w2)" by fastforce
  have "client_inv w2" if "rt_c2sFin (cl_rt w)"
    by (rule client_send_inv_eq [OF s k(1)])
       (use that k inv in \<open>simp add: client_inv_def client_streams_def sender_ok_def\<close>)
  with k(1) r s show ?thesis
    by (simp add: replayClientBytes_def Let_def dropActive_inv split: option.split)
qed

section \<open>Frames from the server\<close>

lemma handleServerData_inv:
  assumes inv: "client_inv w" and fit: "length (stdout_written w) + length p < stream_limit"
  shows "client_inv (snd (handleServerData conn f p w))"
proof -
  obtain n err sk where wr: "writeAll sink_write (cl_stdout w) p = (n, err, sk)"
    by (cases "writeAll sink_write (cl_stdout w) p")
  from sink_writer.writeAll_log [OF wr] have n: "n \<le> length p" and sk: "sk_written sk = stdout_written w @ take n p" by auto
  let ?w1 = "upd_rt (\<lambda>rt. rt\<lparr>rt_s2cRx := rt_s2cRx rt + of_nat n\<rparr>) (w\<lparr>cl_stdout := sk\<rparr>)"
  have rx: "unat (rt_s2cRx (cl_rt w) + of_nat n) = length (stdout_written w) + n"
    using inv_rx [OF inv] fit n by (subst u64_add_nat) auto
  have i1: "client_inv ?w1"
    by (rule client_inv_update [OF inv])
       (use inv rx n sk in \<open>auto simp: client_inv_def client_streams_def client_life_def client_stdin_ok_def\<close>)
  show ?thesis
    using inv inv_rx [OF inv] wr i1 inv_rx [OF i1]
    by (auto simp: handleServerData_def Let_def client_send_inv)
qed

lemma close_stdout_inv: "client_inv w \<Longrightarrow> client_inv (close_stdout w)"
  by (simp add: close_stdout_def client_inv_def client_streams_def client_frames_def)

lemma handleServerFin_inv:
  assumes inv: "client_inv w"
  shows "client_inv (snd (handleServerFin conn f w))"
  using inv close_stdout_inv [OF inv] inv_rx [OF inv]
  by (auto simp: handleServerFin_def Let_def close_stdout_def intro!: client_send_inv)

lemma advance_rt:
  assumes "advanceC2SAckLocked off rt = Inr rt'"
  shows "rt_c2sFin rt' = rt_c2sFin rt" "rt_c2sFinAt rt' = rt_c2sFinAt rt" "rt_s2cRx rt' = rt_s2cRx rt"
    "rt_active rt' = rt_active rt" "rt_done rt' = rt_done rt" "rt_doneErr rt' = rt_doneErr rt"
    "rt_finished rt' = rt_finished rt" "rt_stdin rt' = rt_stdin rt" "rt_sessionID rt' = rt_sessionID rt"
    "rt_epoch rt' = rt_epoch rt" "rt_c2sNext rt' = rt_c2sNext rt" "length (rt_c2sBuf rt') \<le> length (rt_c2sBuf rt)"
    "rt_lastKnownGood rt' = rt_lastKnownGood rt"
  using assms by (auto simp: advanceC2SAckLocked_def Let_def split: if_splits)

lemma advanceC2S_inv:
  assumes inv: "client_inv w" and adv: "advanceC2SAckLocked off (cl_rt w) = Inr rt"
  shows "client_inv (w\<lparr>cl_rt := rt\<rparr>)"
proof (rule client_inv_update [OF inv])
  show "rt_c2sAck (cl_rt w) \<le> rt_c2sAck (cl_rt (w\<lparr>cl_rt := rt\<rparr>))"
    using c2s.advance_refines(2) [OF inv_sender [OF inv] adv] by (simp add: word_le_nat_alt)
  show "client_streams (w\<lparr>cl_rt := rt\<rparr>)"
    using inv c2s.advance_refines(1) [OF inv_sender [OF inv] adv] advance_rt [OF adv]
    by (simp add: client_inv_def client_streams_def)
  show "client_stdin_ok (cl_cfg (w\<lparr>cl_rt := rt\<rparr>)) (cl_rt (w\<lparr>cl_rt := rt\<rparr>))"
    using inv advance_rt [OF adv] stdin_phase_smaller [OF inv_phase [OF inv] advance_rt(12) [OF adv]]
    by (simp add: client_inv_def client_stdin_ok_def)
qed (use inv advance_rt [OF adv] in \<open>simp_all add: client_inv_def client_life_def\<close>)

lemma rt_broadcast_inv:
  assumes "client_inv w"
  shows "client_inv (upd_rt rt_broadcast w)"
  by (rule same_data_inv [OF assms])
     (use assms in \<open>simp_all add: same_data_def client_inv_def client_life_def client_stdin_ok_def\<close>)

lemma receive_frame_inv:
  assumes inv: "client_inv w" and fit: "length (stdout_written w) + length p < stream_limit"
  shows "client_inv (snd (receive_frame conn f p w))"
proof -
  have a: "client_inv (w\<lparr>cl_rt := rt_broadcast rt\<rparr>)" if "advanceC2SAckLocked off (cl_rt w) = Inr rt" for off rt
    using rt_broadcast_inv [OF advanceC2S_inv [OF inv that]] by simp
  have h: "client_inv (w\<lparr>cl_hb := hb\<rparr>)" for hb
    using inv by (simp add: client_inv_def client_streams_def client_frames_def)
  obtain e1 w1 where d: "handleServerData conn f p w = (e1, w1)" by fastforce
  obtain e2 w2 where n: "handleServerFin conn f w = (e2, w2)" by fastforce
  have i: "client_inv w1" "client_inv w2"
    using handleServerData_inv [OF inv fit, of conn f] handleServerFin_inv [OF inv, of conn f] d n by simp_all
  show ?thesis
    using inv rt_broadcast_inv [OF inv] a h i
    by (simp add: receive_frame_def d n finish_inv client_send_inv split: option.split sum.split)
qed

section \<open>Activation\<close>

lemma commit_state_simps [simp]:
  "data_fields (commit_state c now rt) = data_fields rt" "rt_active (commit_state c now rt) = Some (ac_conn c)"
  "rt_sessionID (commit_state c now rt) = h_session_id (ac_accept c)" "rt_epoch (commit_state c now rt) = h_epoch (ac_accept c)"
  "rt_done (commit_state c now rt) = rt_done rt" "rt_finished (commit_state c now rt) = rt_finished rt"
  "rt_doneErr (commit_state c now rt) = rt_doneErr rt" "rt_stdin (commit_state c now rt) = wake (rt_stdin rt)"
  "rt_c2sBuf (commit_state c now rt) = rt_c2sBuf rt" "rt_c2sFin (commit_state c now rt) = rt_c2sFin rt"
  "rt_c2sBufFrom (commit_state c now rt) = rt_c2sBufFrom rt" "rt_c2sFinAt (commit_state c now rt) = rt_c2sFinAt rt"
  "rt_c2sNext (commit_state c now rt) = rt_c2sNext rt" "rt_c2sAck (commit_state c now rt) = rt_c2sAck rt"
  "rt_s2cRx (commit_state c now rt) = rt_s2cRx rt"
  by (simp_all add: commit_state_def) (simp_all add: data_fields_def)

lemma commit_state_inv:
  assumes inv: "client_inv w" and nf: "\<not> rt_finished (cl_rt w)"
  shows "client_inv (w\<lparr>cl_rt := commit_state c now (cl_rt w), cl_saved := saved\<rparr>)"
  by (rule same_data_inv [OF inv])
     (use inv nf in \<open>simp_all add: same_data_def client_inv_def client_life_def client_stdin_ok_def\<close>)

lemma commit_publish_inv:
  assumes inv: "client_inv w"
  shows "client_inv (snd (commit_publish c w))"
proof (cases "advanceC2SAckLocked (h_c2s_rx (ac_accept c)) (cl_rt w)")
  case (Inl e)
  then show ?thesis using inv by (simp add: commit_publish_def Let_def)
next
  case (Inr rt)
  have i: "client_inv (w\<lparr>cl_rt := commit_state c (cl_now w) rt, cl_saved := saved\<rparr>)" if "\<not> rt_finished (cl_rt w)" for saved
    using commit_state_inv [OF advanceC2S_inv [OF inv Inr], where c = c and now = "cl_now w" and saved = saved]
      that advance_rt(7) [OF Inr] by simp
  with inv Inr show ?thesis
    by (simp add: commit_publish_def Let_def split: option.split)
qed

lemma commitActivation_inv:
  assumes inv: "client_inv w"
  shows "client_inv (snd (commitActivation c w))"
proof -
  obtain e w1 where p: "commit_publish c w = (e, w1)" by fastforce
  with commit_publish_inv [OF inv, of c] have "client_inv w1" by simp
  with p show ?thesis by (simp add: commitActivation_def replayClientBytes_inv split: option.split)
qed

end
