(* ===== verification/Client_Session.thy ===== *)
theory Client_Session
  imports Client_Inv
begin

text \<open>
  The hello exchange of internal/tunnel/client_session.go (\<open>startSession\<close>), the error helpers of dial.go
  and timing.go it uses, and the runs of a client runtime: every operation that other goroutines or the
  server can trigger, as one step relation.
\<close>

section \<open>Phase errors\<close>

definition phaseError :: "string \<Rightarrow> gerror \<Rightarrow> gerror" where
  "phaseError phase err = DialErr phase err"

text \<open>\<open>ctx\<close> is the value of \<open>ctx.Err()\<close>.\<close>

definition contextError :: "gerror option \<Rightarrow> gerror \<Rightarrow> gerror" where
  "contextError ctx fallback = (case ctx of Some e \<Rightarrow> e | None \<Rightarrow> fallback)"

definition helloPhase :: string where
  "helloPhase = ''moltssh_hello''"

section \<open>The hello exchange\<close>

record session_request =
  sq_path :: path_config
  sq_name :: string
  sq_resume :: bool
  sq_session_id :: string
  sq_c2s_rx :: u64
  sq_s2c_rx :: u64

definition hello_header :: "session_request \<Rightarrow> frame_header" where
  "hello_header r = zero_header\<lparr>h_type := ''hello'', h_version := 1, h_name := sq_name r, h_resume := sq_resume r,
     h_session_id := sq_session_id r, h_c2s_rx := sq_c2s_rx r, h_s2c_rx := sq_s2c_rx r\<rparr>"

text \<open>\<open>writeFrame\<close> on a WebSocket that has no \<open>clientConn\<close> yet.\<close>

definition raw_send :: "nat \<Rightarrow> frame_header \<Rightarrow> bytes \<Rightarrow> client_world \<Rightarrow> gerror option \<times> client_world" where
  "raw_send i h p w = (case ws_send h p (cl_ws w i) of (e, s) \<Rightarrow> (e, w\<lparr>cl_ws := (cl_ws w)(i := s)\<rparr>))"

definition raw_close :: "nat \<Rightarrow> client_world \<Rightarrow> client_world" where
  "raw_close i w = w\<lparr>cl_ws := (cl_ws w)(i := ws_close (cl_ws w i))\<rparr>"

text \<open>
  One read of the waiting loop with what the code looks at afterwards: the context, whether
  \<open>stopContextClose\<close> was in time, and the result of clearing the deadline.
\<close>

record hello_input =
  hi_read :: "frame result"
  hi_ctx :: "gerror option"
  hi_stopped :: bool
  hi_clear :: "gerror option"

text \<open>The loop; \<open>None\<close> while it still waits for a frame.\<close>

fun hello_loop :: "nat \<Rightarrow> path_config \<Rightarrow> hello_input list \<Rightarrow> client_world \<Rightarrow> (client_conn \<times> frame_header) result option \<times> client_world" where
  "hello_loop i path [] w = (None, w)"
| "hello_loop i path (x # xs) w = (case hi_read x of
     Inl e \<Rightarrow> (Some (Inl (phaseError helloPhase (contextError (hi_ctx x) e))), w)
   | Inr (f, p) \<Rightarrow>
       if h_type f = ''accept'' then
         (case hi_ctx x of
            Some e \<Rightarrow> (Some (Inl (phaseError helloPhase e)), w)
          | None \<Rightarrow>
              if \<not> hi_stopped x then (Some (Inl (phaseError helloPhase Canceled)), w)
              else case hi_clear x of
                Some e \<Rightarrow> (Some (Inl (phaseError helloPhase (Wrapf ''clear connection deadline: '' e))), w)
              | None \<Rightarrow> (Some (Inr (\<lparr>cc_ws = i, cc_path = path, cc_epoch = h_epoch f\<rparr>, f)), w))
       else if h_type f = ''ping'' then
         (case raw_send i (client_pong_header f) [] w of
            (Some e, w1) \<Rightarrow> (Some (Inl (phaseError helloPhase (contextError (hi_ctx x) e))), w1)
          | (None, w1) \<Rightarrow> hello_loop i path xs w1)
       else if h_type f = ''error'' then (Some (Inl (phaseError helloPhase (coded_error f))), w)
       else (Some (Inl (phaseError helloPhase (Errorf (''unexpected frame '' @ go_quote (h_type f) @ '' before accept'')))), w))"

text \<open>\<open>ctx\<close> is the context before the hello, \<open>ctx'\<close> after a failed send of it.\<close>

definition startSession :: "nat \<Rightarrow> session_request \<Rightarrow> gerror option \<Rightarrow> gerror option \<Rightarrow> hello_input list \<Rightarrow> client_world \<Rightarrow>
    (client_conn \<times> frame_header) result option \<times> client_world" where
  "startSession i request ctx ctx' inputs w =
     (case (case ctx of
        Some e \<Rightarrow> (Some (Inl (phaseError helloPhase e)), w)
      | None \<Rightarrow> (case raw_send i (hello_header request) [] w of
          (Some e, w1) \<Rightarrow> (Some (Inl (phaseError helloPhase (contextError ctx' e))), w1)
        | (None, w1) \<Rightarrow> hello_loop i (sq_path request) inputs w1)) of
      (Some (Inl e), w2) \<Rightarrow> (Some (Inl e), raw_close i w2)
    | (r, w2) \<Rightarrow> (r, w2))"

definition make_request :: "config \<Rightarrow> path_config \<Rightarrow> bool \<Rightarrow> client_runtime \<Rightarrow> session_request" where
  "make_request cfg path resume rt = (case helloOffsets rt of (sid, c2sAck, s2cRx) \<Rightarrow>
     \<lparr>sq_path = path, sq_name = cfg_name cfg, sq_resume = resume, sq_session_id = sid, sq_c2s_rx = c2sAck, sq_s2c_rx = s2cRx\<rparr>)"

text \<open>
  \<open>activateDirect\<close> reads the offsets before it dials, and the old connection goes on meanwhile: a
  request may be older than the state in which its hello is sent. The offsets only grow.
\<close>

definition request_taken :: "session_request \<Rightarrow> client_runtime \<Rightarrow> bool" where
  "request_taken r rt \<longleftrightarrow> sq_c2s_rx r \<le> rt_c2sAck rt \<and> sq_s2c_rx r \<le> rt_s2cRx rt"

lemma request_taken_now [simp]: "request_taken (make_request cfg path resume rt) rt"
  by (simp add: request_taken_def make_request_def helloOffsets_def)

text \<open>The ping of \<open>activeHeartbeat\<close> and of \<open>probePathCandidate\<close>.\<close>

definition ping_header :: "string \<Rightarrow> instant \<Rightarrow> frame_header" where
  "ping_header nonce sent = zero_header\<lparr>h_type := ''ping'', h_nonce := nonce, h_sent_at := sent\<rparr>"

section \<open>It keeps the invariants\<close>

text \<open>An update of what the invariant reads only through the frames sent.\<close>

lemma client_inv_ws:
  assumes "client_inv w" and "\<And>i. ws_out (ws i) = ws_out (cl_ws w i)"
  shows "client_inv (w\<lparr>cl_ws := ws\<rparr>)"
  using assms by (simp add: client_inv_def client_streams_def client_frames_def)

lemma client_inv_env:
  assumes "client_inv w"
  shows "client_inv (w\<lparr>cl_now := t\<rparr>)" "client_inv (w\<lparr>cl_hb := hb\<rparr>)"
    "client_inv (w\<lparr>cl_stdout := (cl_stdout w)\<lparr>sk_budget := b\<rparr>\<rparr>)"
  using assms by (simp_all add: client_inv_def client_streams_def client_frames_def)

lemma raw_close_inv: "client_inv w \<Longrightarrow> client_inv (raw_close i w)"
  unfolding raw_close_def by (rule client_inv_ws) simp_all

lemma raw_send_inv:
  assumes "client_inv w" and "client_frame_ok (cl_stdin w) (stdout_written w) (rt_c2sFin (cl_rt w)) (rt_c2sAck (cl_rt w)) (h, p)"
  shows "client_inv (snd (raw_send i h p w))"
proof -
  obtain e s where s: "ws_send h p (cl_ws w i) = (e, s)" by fastforce
  with assms ws_send_out [of h p "cl_ws w i"] show ?thesis
    by (auto simp: raw_send_def client_inv_def client_streams_def client_frames_def)
qed

lemma raw_send_frame [simp]:
  "cl_rt (snd (raw_send i h p w)) = cl_rt w" "cl_stdin (snd (raw_send i h p w)) = cl_stdin w"
  "cl_stdout (snd (raw_send i h p w)) = cl_stdout w" "cl_cfg (snd (raw_send i h p w)) = cl_cfg w"
  by (simp_all add: raw_send_def split: prod.split)

lemma ping_ok [simp]: "client_frame_ok src out fin ack (ping_header nonce sent, [])"
  by (simp add: client_frame_ok_def ping_header_def)

lemma hello_ok:
  assumes "client_inv w" and "request_taken r (cl_rt w)"
  shows "client_frame_ok (cl_stdin w) (stdout_written w) fin (rt_c2sAck (cl_rt w)) (hello_header r, [])"
  using inv_rx [OF assms(1)] assms(2)
  by (simp add: client_frame_ok_def hello_header_def request_taken_def word_le_nat_alt)

lemma hello_loop_inv: "client_inv w \<Longrightarrow> client_inv (snd (hello_loop i path inputs w))"
proof (induction i path inputs w rule: hello_loop.induct)
  case (2 i path x xs w)
  show ?case
  proof (cases "hi_read x")
    case (Inr fr)
    obtain f p where fr: "fr = (f, p)" by (cases fr)
    obtain e w1 where s: "raw_send i (client_pong_header f) [] w = (e, w1)" by fastforce
    have "client_inv w1" using raw_send_inv [OF "2.prems", of "client_pong_header f" "[]" i] s by simp
    then show ?thesis
      using 2 Inr fr s by (auto split: option.split)
  qed (use 2 in simp)
qed simp

lemma startSession_inv:
  assumes inv: "client_inv w" and taken: "request_taken r (cl_rt w)"
  shows "client_inv (snd (startSession i r ctx ctx' inputs w))"
proof -
  obtain e w1 where s: "raw_send i (hello_header r) [] w = (e, w1)" by fastforce
  have i1: "client_inv w1" using raw_send_inv [OF inv hello_ok [OF inv taken], of i] s by simp
  obtain x w2 where l: "hello_loop i (sq_path r) inputs w1 = (x, w2)" by fastforce
  have i2: "client_inv w2" using hello_loop_inv [OF i1, of i "sq_path r" inputs] l by simp
  show ?thesis
    using inv i1 i2 s l by (simp add: startSession_def raw_close_inv split: option.split sum.split)
qed

lemma signal_inv:
  assumes "client_inv w"
  shows "client_inv (upd_rt (\<lambda>rt. rt\<lparr>rt_reconnectSignal := b\<rparr>) w)"
  by (rule same_data_inv [OF assms])
     (use assms in \<open>simp_all add: same_data_def data_fields_def client_inv_def client_life_def client_stdin_ok_def\<close>)

section \<open>Runs of a client\<close>

text \<open>
  What can happen: a frame or a read error on any connection, the hello exchange and the commit of an
  activation with whatever the server accepted, pings of the heartbeat and of probes, probe
  connections that are closed, the goroutine of standard input, a connection dropped by the heartbeat, the reconnect signal,
  the end of the proxy, the clock and the environment. Streams stay below \<open>2 ^ 64\<close>.
\<close>

inductive client_step :: "client_world \<Rightarrow> client_world \<Rightarrow> bool" where
  cs_frame: "length (stdout_written w) + length p < stream_limit \<Longrightarrow> client_step w (snd (receive_frame conn f p w))"
| cs_error: "client_step w (receive_error conn w)"
| cs_hello: "request_taken r (cl_rt w) \<Longrightarrow> client_step w (snd (startSession i r ctx ctx' inputs w))"
| cs_ping: "client_step w (snd (client_send conn (ping_header nonce sent) [] w))"
| cs_probe: "client_step w (snd (raw_send i (ping_header nonce sent) [] w))"
| cs_close: "client_step w (raw_close i w)"
| cs_commit: "client_step w (snd (commitActivation c w))"
| cs_wait: "client_step w (stdin_wait ctx w)"
| cs_read: "length bs \<le> dataChunkBytes \<Longrightarrow> length (cl_stdin w) + length bs < stream_limit \<Longrightarrow>
    client_step w (stdin_read bs err w)"
| cs_fin: "client_step w (sendClientFin w)"
| cs_drop: "client_step w (dropActive conn w)"
| cs_finish: "client_step w (finish err w)"
| cs_signal: "client_step w (upd_rt (\<lambda>rt. rt\<lparr>rt_reconnectSignal := b\<rparr>) w)"
| cs_clock: "client_step w (w\<lparr>cl_now := t\<rparr>)"
| cs_heartbeat: "client_step w (w\<lparr>cl_hb := hb\<rparr>)"
| cs_socket: "client_step w (w\<lparr>cl_ws := (cl_ws w)(i := (cl_ws w i)\<lparr>ws_budget := b\<rparr>)\<rparr>)"
| cs_stdout: "client_step w (w\<lparr>cl_stdout := (cl_stdout w)\<lparr>sk_budget := b\<rparr>\<rparr>)"

lemma client_step_inv:
  assumes "client_step w w'" and inv: "client_inv w"
  shows "client_inv w'"
  using assms(1)
proof cases
  case (cs_socket i b)
  then show ?thesis using inv by (auto intro: client_inv_ws)
qed (use inv in \<open>simp_all add: receive_frame_inv receive_error_def dropActive_inv startSession_inv commitActivation_inv
      client_send_inv raw_send_inv raw_close_inv
      stdin_wait_inv stdin_read_inv sendClientFin_inv finish_inv client_inv_env signal_inv\<close>)

interpretation client: step_system client_step client_inv
  by unfold_locales (rule client_step_inv)

lemmas client_reachable_inv = client.run_inv

end
