(* ===== verification/Client_Props.thy ===== *)
theory Client_Props
  imports Client_Session
begin

text \<open>
  What the client runtime does: exact offsets and truthful frames in every reachable state, what a
  successful activation resends, the frames it ignores, and the finality of \<open>finish\<close>.
\<close>

section \<open>Reachable runtimes\<close>

definition fresh_client :: "config \<Rightarrow> path_config option \<Rightarrow> bool \<Rightarrow> client_world" where
  "fresh_client cfg lkg half = \<lparr>cl_cfg = cfg, cl_now = 0, cl_rt = newClientRuntime (Inr lkg),
     cl_ws = (\<lambda>_. \<lparr>ws_out = [], ws_budget = None, ws_closed = False\<rparr>), cl_hb = (\<lambda>_. newHeartbeatTracker),
     cl_closed = (\<lambda>_. False), cl_stdin = [], cl_stdout = \<lparr>sk_written = [], sk_budget = None, sk_closed = False\<rparr>,
     cl_half_close = half, cl_saved = []\<rparr>"

lemma fresh_client_inv: "0 < rc_buffer (cfg_resume cfg) \<Longrightarrow> client_inv (fresh_client cfg lkg half)"
  by (simp add: client_inv_def fresh_client_def newClientRuntime_def client_streams_def sender_ok_def client_life_def
      client_stdin_ok_def client_frames_def dataChunkBytes_def)

lemmas client_fresh_inv = client_reachable_inv [OF _ fresh_client_inv]

text \<open>
  In every reachable state of the client runtime the buffer holds exactly the bytes read from
  standard input that the server has not acknowledged, \<open>c2sNext\<close> counts the bytes read, \<open>s2cRx\<close> counts the
  bytes written to standard output, and the end of input, once seen, is at the final offset.
\<close>

theorem client_offsets_exact:
  assumes "0 < rc_buffer (cfg_resume cfg)" and "client_step\<^sup>*\<^sup>* (fresh_client cfg lkg half) w"
  shows "unat (rt_c2sNext (cl_rt w)) = length (cl_stdin w)
    \<and> rt_c2sBufFrom (cl_rt w) = rt_c2sAck (cl_rt w)
    \<and> unat (rt_c2sAck (cl_rt w)) \<le> length (cl_stdin w)
    \<and> rt_c2sBuf (cl_rt w) = drop (unat (rt_c2sAck (cl_rt w))) (cl_stdin w)
    \<and> unat (rt_s2cRx (cl_rt w)) = length (stdout_written w)
    \<and> (rt_c2sFin (cl_rt w) \<longrightarrow> unat (rt_c2sFinAt (cl_rt w)) = length (cl_stdin w))"
  using client_fresh_inv [OF assms(2,1)] by (auto simp: client_inv_def client_streams_def sender_ok_def)

text \<open>
  The client's buffer of unacknowledged input stays below \<open>buffer_bytes\<close> plus one read of 32 KiB.
\<close>

theorem client_buffer_bounded:
  assumes "0 < rc_buffer (cfg_resume cfg)" and "client_step\<^sup>*\<^sup>* (fresh_client cfg lkg half) w"
  shows "int (length (rt_c2sBuf (cl_rt w))) < rc_buffer (cfg_resume (cl_cfg w)) + int dataChunkBytes"
  using client_fresh_inv [OF assms(2,1)] by (simp add: client_inv_def client_stdin_ok_def)

text \<open>
  Every frame the client ever put on any connection is truthful: data is a slice of standard input
  at its offset, an acknowledgement never claims more than was written to standard output, a hello
  claims at most what the server acknowledged and what was received, and a fin carries the final length of standard input.
\<close>

theorem client_frames_truthful:
  assumes "0 < rc_buffer (cfg_resume cfg)" and "client_step\<^sup>*\<^sup>* (fresh_client cfg lkg half) w"
    and "(h, p) \<in> set (ws_out (cl_ws w k))"
  shows "(h_type h = ''data'' \<longrightarrow> slice_at (unat (h_offset h)) p (cl_stdin w))
    \<and> (h_type h = ''ack'' \<longrightarrow> unat (h_received_offset h) \<le> length (stdout_written w))
    \<and> (h_type h = ''hello'' \<longrightarrow> h_c2s_rx h \<le> rt_c2sAck (cl_rt w) \<and> unat (h_s2c_rx h) \<le> length (stdout_written w))
    \<and> (h_type h = ''fin'' \<longrightarrow> unat (h_offset h) = length (cl_stdin w) \<and> rt_c2sFin (cl_rt w))"
  using client_fresh_inv [OF assms(2,1)] assms(3)
  by (fastforce simp: client_inv_def client_frames_def client_frame_ok_def)

section \<open>Frames that are not current\<close>

text \<open>
  A frame that does not come from the active connection at the current epoch and session changes
  neither the runtime nor standard output; it is not even answered unless it is a ping or a pong.
\<close>

theorem stale_server_frame_inert:
  assumes "\<not> frame_current conn f (cl_rt w)"
  shows "cl_rt (snd (receive_frame conn f p w)) = cl_rt w \<and> cl_stdout (snd (receive_frame conn f p w)) = cl_stdout w
    \<and> cl_stdin (snd (receive_frame conn f p w)) = cl_stdin w
    \<and> (h_type f \<noteq> ''ping'' \<and> h_type f \<noteq> ''pong'' \<longrightarrow> receive_frame conn f p w = (True, w))"
  using assms by (simp add: receive_frame_def)

section \<open>What an activation resends\<close>

definition c2s_chunks :: "string \<Rightarrow> u64 \<Rightarrow> (u64 \<times> bytes) list \<Rightarrow> frame list" where
  "c2s_chunks sid e cs = map (\<lambda>(off, c). (client_fill e (c2s_data_header sid off), c)) cs"

lemma contiguous_c2s: "contiguous off (c2s_chunks sid e (chunks off data))"
proof (induction off data rule: chunks.induct)
  case (1 off data)
  then show ?case
    by (subst chunks.simps) (auto simp: Let_def c2s_chunks_def c2s_data_header_def min_def)
qed

lemma concat_c2s [simp]: "concat (map snd (c2s_chunks sid e (chunks off data))) = data"
proof -
  have "map snd (c2s_chunks sid e cs) = map snd cs" for cs
    by (induction cs) (auto simp: c2s_chunks_def)
  then show ?thesis by (simp add: chunks_concat)
qed

lemma client_send_all_frames:
  assumes "send_all (\<lambda>off p. client_send conn (c2s_data_header sid off) p) cs w = (None, w')"
  shows "ws_out (cl_ws w' (cc_ws conn)) = ws_out (cl_ws w (cc_ws conn)) @ c2s_chunks sid (cc_epoch conn) cs"
  using assms
proof (induction cs arbitrary: w)
  case (Cons oc cs)
  obtain off c where oc: "oc = (off, c)" by (cases oc)
  obtain e w1 where s: "client_send conn (c2s_data_header sid off) c w = (e, w1)" by fastforce
  with Cons.prems oc have e: "e = None"
    and r: "send_all (\<lambda>off p. client_send conn (c2s_data_header sid off) p) cs w1 = (None, w')" by (cases e; simp)+
  have "ws_out (cl_ws w1 (cc_ws conn)) = ws_out (cl_ws w (cc_ws conn))
      @ [(client_fill (cc_epoch conn) (c2s_data_header sid off), c)]"
    using client_send_out [of conn "c2s_data_header sid off" c w "cc_ws conn"] s e by simp
  with Cons.IH [OF r] oc show ?case by (simp add: c2s_chunks_def)
qed (simp add: c2s_chunks_def)

lemma replay_success:
  assumes inv: "client_inv w" and r: "replayClientBytes conn w = (None, w')"
  shows "cl_rt w' = cl_rt w \<and> cl_stdin w' = cl_stdin w \<and> cl_stdout w' = cl_stdout w \<and> ws_out (cl_ws w' (cc_ws conn)) = ws_out (cl_ws w (cc_ws conn))
     @ c2s_chunks (rt_sessionID (cl_rt w)) (cc_epoch conn) (chunks (rt_c2sBufFrom (cl_rt w)) (rt_c2sBuf (cl_rt w)))
     @ (if rt_c2sFin (cl_rt w) then [(client_fill (cc_epoch conn) (c2s_fin_header (rt_sessionID (cl_rt w)) (rt_c2sFinAt (cl_rt w))), [])] else [])"
proof -
  let ?sid = "rt_sessionID (cl_rt w)" and ?fin = "c2s_fin_header (rt_sessionID (cl_rt w)) (rt_c2sFinAt (cl_rt w))"
  obtain e w1 where l: "chunk_loop (\<lambda>off p. client_send conn (c2s_data_header ?sid off) p)
      (rt_c2sBufFrom (cl_rt w)) (rt_c2sBuf (cl_rt w)) w = (e, w1)" by fastforce
  obtain e2 w2 where s: "client_send conn ?fin [] w1 = (e2, w2)" by fastforce
  have e: "e = None" using r l by (cases e) (auto simp: replayClientBytes_def Let_def)
  note k = replay_chunks_inv [OF inv l]
  have o1: "ws_out (cl_ws w1 (cc_ws conn)) = ws_out (cl_ws w (cc_ws conn))
      @ c2s_chunks ?sid (cc_epoch conn) (chunks (rt_c2sBufFrom (cl_rt w)) (rt_c2sBuf (cl_rt w)))"
    using l e client_send_all_frames unfolding chunk_loop_send_all by blast
  show ?thesis
  proof (cases "rt_c2sFin (cl_rt w)")
    case True
    with r l e s have "e2 = None" "w' = w2" by (cases e2; simp add: replayClientBytes_def Let_def)+
    with True o1 k client_send_out [of conn ?fin "[]" w1 "cc_ws conn"] s client_send_eq(2,3,4) [OF s] show ?thesis by simp
  next
    case False
    with r l e have "w' = w1" by (simp add: replayClientBytes_def Let_def)
    with False o1 k show ?thesis by simp
  qed
qed

lemma commit_publish_success:
  assumes "commit_publish c w = (None, w1)"
  obtains rt where "\<not> rt_finished (cl_rt w)" and "ac_resume c \<Longrightarrow> h_session_id (ac_accept c) = rt_sessionID (cl_rt w)"
    and "advanceC2SAckLocked (h_c2s_rx (ac_accept c)) (cl_rt w) = Inr rt"
    and "cl_rt w1 = commit_state c (cl_now w) rt" and "cl_stdin w1 = cl_stdin w" and "cl_stdout w1 = cl_stdout w"
    and "\<And>i. ws_out (cl_ws w1 i) = ws_out (cl_ws w i)"
    and "\<And>old. rt_active (cl_rt w) = Some old \<Longrightarrow> cl_closed w1 (cc_ws old)"
proof -
  have f: "\<not> rt_finished (cl_rt w)" "ac_resume c \<Longrightarrow> h_session_id (ac_accept c) = rt_sessionID (cl_rt w)"
    "\<not> rt_c2sNext (cl_rt w) < h_c2s_rx (ac_accept c)"
    using assms by (auto simp: commit_publish_def Let_def split: if_splits)
  obtain rt where a: "advanceC2SAckLocked (h_c2s_rx (ac_accept c)) (cl_rt w) = Inr rt"
    using assms f by (cases "advanceC2SAckLocked (h_c2s_rx (ac_accept c)) (cl_rt w)")
      (auto simp: commit_publish_def Let_def split: if_splits)
  have "w1 = (case rt_active (cl_rt w) of
      None \<Rightarrow> w\<lparr>cl_rt := commit_state c (cl_now w) rt, cl_saved := cl_saved w @ [pc_name (ac_path c)]\<rparr>
    | Some old \<Rightarrow> conn_close old (w\<lparr>cl_rt := commit_state c (cl_now w) rt, cl_saved := cl_saved w @ [pc_name (ac_path c)]\<rparr>))"
    using assms f a by (auto simp: commit_publish_def Let_def split: if_splits)
  with that f a show ?thesis by (auto split: option.splits)
qed

text \<open>The runtime after a successful activation, and the frames it sent, one by one.\<close>

lemma activation_sends:
  assumes inv: "client_inv w" and c: "commitActivation c w = (None, w')"
  obtains rt fins where "advanceC2SAckLocked (h_c2s_rx (ac_accept c)) (cl_rt w) = Inr rt"
    and "cl_rt w' = commit_state c (cl_now w) rt" and "cl_stdin w' = cl_stdin w" and "cl_stdout w' = cl_stdout w"
    and "ws_out (cl_ws w' (cc_ws (ac_conn c))) = ws_out (cl_ws w (cc_ws (ac_conn c)))
      @ c2s_chunks (h_session_id (ac_accept c)) (cc_epoch (ac_conn c))
          (chunks (max (rt_c2sAck (cl_rt w)) (h_c2s_rx (ac_accept c)))
            (drop (unat (max (rt_c2sAck (cl_rt w)) (h_c2s_rx (ac_accept c)))) (cl_stdin w)))
      @ fins"
    and "fins = [] \<longleftrightarrow> \<not> rt_c2sFin (cl_rt w)"
    and "\<forall>h p. (h, p) \<in> set fins \<longrightarrow> h_type h = ''fin'' \<and> unat (h_offset h) = length (cl_stdin w)"
proof -
  obtain e w1 where p: "commit_publish c w = (e, w1)" by fastforce
  with c have e: "e = None" and r: "replayClientBytes (ac_conn c) w1 = (None, w')"
    by (cases e; simp add: commitActivation_def)+
  obtain rt where a: "advanceC2SAckLocked (h_c2s_rx (ac_accept c)) (cl_rt w) = Inr rt"
    and w1: "cl_rt w1 = commit_state c (cl_now w) rt" "cl_stdin w1 = cl_stdin w" "cl_stdout w1 = cl_stdout w"
      "\<And>i. ws_out (cl_ws w1 i) = ws_out (cl_ws w i)"
    using commit_publish_success [OF p [unfolded e]] by metis
  have i1: "client_inv w1" using commit_publish_inv [OF inv, of c] p by simp
  note s = replay_success [OF i1 r]
  let ?off = "max (rt_c2sAck (cl_rt w)) (h_c2s_rx (ac_accept c))"
  note ref = c2s.advance_refines [OF inv_sender [OF inv] a]
  have off: "rt_c2sAck rt = ?off" "rt_c2sBufFrom rt = ?off"
    using ref(1,2) by (auto simp: sender_ok_def max_def word_le_nat_alt unsigned_word_eqI split: if_splits)
  have buf: "rt_c2sBuf rt = drop (unat ?off) (cl_stdin w)" using ref(1) off by (simp add: sender_ok_def)
  let ?fins = "if rt_c2sFin (cl_rt w) then [(client_fill (cc_epoch (ac_conn c))
    (c2s_fin_header (h_session_id (ac_accept c)) (rt_c2sFinAt rt)), [])] else []"
  have id: "rt_sessionID (cl_rt w1) = h_session_id (ac_accept c)" using w1(1) by (simp add: commit_state_def rt_broadcast_def)
  show thesis
  proof (rule that [OF a, of ?fins])
    show "cl_rt w' = commit_state c (cl_now w) rt" "cl_stdin w' = cl_stdin w" "cl_stdout w' = cl_stdout w"
      using s w1 by simp_all
    show "ws_out (cl_ws w' (cc_ws (ac_conn c))) = ws_out (cl_ws w (cc_ws (ac_conn c)))
      @ c2s_chunks (h_session_id (ac_accept c)) (cc_epoch (ac_conn c)) (chunks ?off (drop (unat ?off) (cl_stdin w))) @ ?fins"
      using s w1 id off buf advance_rt [OF a] by simp
    show "?fins = [] \<longleftrightarrow> \<not> rt_c2sFin (cl_rt w)" by simp
    show "\<forall>h p. (h, p) \<in> set ?fins \<longrightarrow> h_type h = ''fin'' \<and> unat (h_offset h) = length (cl_stdin w)"
      using inv advance_rt [OF a] by (auto simp: c2s_fin_header_def client_inv_def client_streams_def sender_ok_def)
  qed
qed


section \<open>The end\<close>

definition same_end :: "client_world \<Rightarrow> client_world \<Rightarrow> bool" where
  "same_end w w' \<longleftrightarrow> rt_finished (cl_rt w') = rt_finished (cl_rt w) \<and> rt_doneErr (cl_rt w') = rt_doneErr (cl_rt w)
     \<and> cl_stdout w' = cl_stdout w"

lemma same_end_dropActive: "same_end w (dropActive conn w)"
  by (simp add: same_end_def dropActive_rt)

lemma same_end_trans: "same_end u v \<Longrightarrow> same_end v w \<Longrightarrow> same_end u w"
  by (simp add: same_end_def)

lemma same_end_send: "client_send conn h p w = (e, w') \<Longrightarrow> same_end w w'"
  using client_send_eq(2,4) [of conn h p w e w'] by (simp add: same_end_def)

lemma same_end_stdin_data: "same_end w (stdin_data conn bs w)"
proof -
  let ?v = "(w\<lparr>cl_stdin := cl_stdin w @ bs\<rparr>)\<lparr>cl_rt := append_c2s bs (cl_rt w)\<rparr>"
  obtain e w2 where s: "client_send conn (c2s_data_header (rt_sessionID (cl_rt w)) (rt_c2sNext (cl_rt w))) bs ?v = (e, w2)"
    by fastforce
  have "same_end w ?v" by (simp add: same_end_def)
  with same_end_send [OF s] have "same_end w w2" by (rule same_end_trans [rotated])
  with s same_end_trans [OF _ same_end_dropActive] show ?thesis
    by (auto simp: stdin_data_def appendClientBytes_def Let_def same_end_def split: option.split)
qed

lemma same_end_set_stdin: "same_end w (set_stdin s w)"
  by (simp add: same_end_def)

lemma finish_finished: "rt_finished (cl_rt w) \<Longrightarrow> finish err w = w"
  by (simp add: finish_def)

lemma same_end_raw_send: "raw_send i h p w = (e, w') \<Longrightarrow> same_end w w'"
  using raw_send_frame(1,3) [of i h p w] by (simp add: same_end_def)

lemma same_end_hello_loop: "same_end w (snd (hello_loop i path inputs w))"
proof (induction i path inputs w rule: hello_loop.induct)
  case (2 i path x xs w)
  show ?case
  proof (cases "hi_read x")
    case (Inr fr)
    obtain f p where fr: "fr = (f, p)" by (cases fr)
    obtain e w1 where s: "raw_send i (client_pong_header f) [] w = (e, w1)" by fastforce
    from same_end_raw_send [OF s] have s1: "same_end w w1" .
    show ?thesis
    proof (cases "h_type f = ''ping'' \<and> e = None")
      case True
      with 2 Inr fr s s1 have "same_end w1 (snd (hello_loop i path xs w1))" by auto
      with True Inr fr s s1 show ?thesis by (auto intro: same_end_trans)
    next
      case False
      with Inr fr s s1 show ?thesis by (auto simp: same_end_def split: option.split)
    qed
  qed (simp add: same_end_def)
qed (simp add: same_end_def)

lemma same_end_startSession: "same_end w (snd (startSession i r ctx ctx' inputs w))"
proof -
  have c: "same_end w v \<Longrightarrow> same_end w (raw_close i v)" for v by (simp add: raw_close_def same_end_def)
  obtain e w1 where s: "raw_send i (hello_header r) [] w = (e, w1)" by fastforce
  obtain x w2 where l: "hello_loop i (sq_path r) inputs w1 = (x, w2)" by fastforce
  have "same_end w w1" "same_end w w2"
    using same_end_raw_send [OF s] same_end_hello_loop [of w1 i "sq_path r" inputs] l by (auto intro: same_end_trans)
  moreover have "same_end w w" by (simp add: same_end_def)
  ultimately show ?thesis using c s l by (simp add: startSession_def split: option.split sum.split)
qed

text \<open>A step of a finished client.\<close>

lemma finished_step:
  assumes "client_step w w'" and inv: "client_inv w" and f: "rt_finished (cl_rt w)"
  shows "rt_finished (cl_rt w') \<and> rt_doneErr (cl_rt w') = rt_doneErr (cl_rt w) \<and> stdout_written w' = stdout_written w"
proof -
  have a: "rt_active (cl_rt w) = None" using inv f by (simp add: client_inv_def client_life_def)
  have e: "same_end w v \<Longrightarrow> finish err v = v" for err v using f by (simp add: same_end_def finish_finished)
  have d: "same_end w v \<Longrightarrow> rt_finished (cl_rt v) \<and> rt_doneErr (cl_rt v) = rt_doneErr (cl_rt w)
      \<and> stdout_written v = stdout_written w" for v using f by (simp add: same_end_def)
  show ?thesis
    using assms(1)
  proof cases
    case (cs_frame p conn f')
    have "\<not> frame_current conn f' (cl_rt w)" using a by (simp add: frame_current_def)
    with cs_frame f show ?thesis by (simp add: receive_frame_def)
  next
    case (cs_commit c)
    have "commit_publish c w = (Some ClientRuntimeClosed, conn_close (ac_conn c) w)"
      using f by (simp add: commit_publish_def Let_def)
    with cs_commit f show ?thesis by (simp add: commitActivation_def)
  next
    case (cs_wait ctx)
    have "same_end w (stdin_wait ctx w)"
      using a e [OF same_end_set_stdin]
      by (cases "rt_stdin (cl_rt w)")
         (simp_all add: stdin_wait_def same_end_def split: wait_result.split)
    with cs_wait d show ?thesis by blast
  next
    case (cs_read bs err)
    have "same_end w (stdin_read bs err w)"
    proof (cases "rt_stdin (cl_rt w)")
      case (StdinReading conn)
      let ?v = "stdin_data conn bs (set_stdin StdinActive w)"
      have v: "same_end w ?v" using same_end_stdin_data same_end_set_stdin by (rule same_end_trans [rotated])
      then have "same_end w (set_stdin s ?v)" for s using same_end_set_stdin by (rule same_end_trans)
      with v e have "same_end w (finish err' (set_stdin StdinStopped ?v))" for err' by simp
      moreover have "same_end w (set_stdin StdinFin (markClientFin ?v))"
        using v by (simp add: same_end_def markClientFin_def)
      ultimately show ?thesis using StdinReading v by (simp add: stdin_read_def Let_def split: option.split)
    qed (simp_all add: stdin_read_def same_end_def)
    with cs_read d show ?thesis by blast
  next
    case cs_fin
    with a f show ?thesis
      by (cases "rt_stdin (cl_rt w)") (simp_all add: sendClientFin_def waitActive_def)
  next
    case (cs_hello r i ctx ctx' inputs)
    then show ?thesis using d [OF same_end_startSession] by blast
  next
    case (cs_ping conn nonce sent)
    obtain e v where "client_send conn (ping_header nonce sent) [] w = (e, v)" by fastforce
    with cs_ping d same_end_send show ?thesis by fastforce
  next
    case (cs_probe i nonce sent)
    obtain e v where "raw_send i (ping_header nonce sent) [] w = (e, v)" by fastforce
    with cs_probe d same_end_raw_send show ?thesis by fastforce
  qed (use f a in \<open>simp_all add: raw_close_def receive_error_def dropActive_rt finish_rt\<close>)
qed

lemma finished_reachable:
  assumes "client_step\<^sup>*\<^sup>* w w'" and "client_inv w" and "rt_finished (cl_rt w)"
  shows "rt_finished (cl_rt w') \<and> rt_doneErr (cl_rt w') = rt_doneErr (cl_rt w) \<and> stdout_written w' = stdout_written w"
  by (rule client.run_keeps [OF assms(1,2)]) (use assms(3) in \<open>auto dest: finished_step\<close>)

text \<open>
  The end of the proxy is decided once: after \<open>finish\<close> the error that \<open>wait\<close> returns never changes,
  no connection becomes active, nothing more is written to standard output, and no activation succeeds.
\<close>

theorem finish_is_final:
  assumes inv: "client_inv w" and first: "\<not> rt_finished (cl_rt w)" and reach: "client_step\<^sup>*\<^sup>* (finish err w) w'"
  shows "rt_done (cl_rt w') \<and> rt_doneErr (cl_rt w') = err \<and> rt_active (cl_rt w') = None
    \<and> stdout_written w' = stdout_written w \<and> fst (commitActivation c w') = Some ClientRuntimeClosed"
proof -
  have i: "client_inv (finish err w)" by (rule finish_inv [OF inv])
  have f: "rt_finished (cl_rt (finish err w))" "rt_doneErr (cl_rt (finish err w)) = err"
    using first by (simp_all add: finish_rt)
  from finished_reachable [OF reach i f(1)] f(2) have "rt_finished (cl_rt w')" "rt_doneErr (cl_rt w') = err"
    "stdout_written w' = stdout_written w" by (simp_all add: finish_rt)
  with client_reachable_inv [OF reach i] show ?thesis
    by (simp add: client_inv_def client_life_def commitActivation_def commit_publish_def Let_def)
qed


section \<open>A concrete run\<close>

definition demo_path :: path_config where
  "demo_path = \<lparr>pc_name = ''a'', pc_transport = ''ws'', pc_endpoint = ''ws://a'', pc_priority = 0, pc_enabled = True\<rparr>"

definition demo_client_cfg :: config where
  "demo_client_cfg = \<lparr>cfg_schema = 1, cfg_name = ''c'', cfg_server = \<lparr>sv_listen = [], sv_http_path = [], sv_connect = []\<rparr>,
     cfg_resume = \<lparr>rc_timeout = 60000000000, rc_buffer = 4\<rparr>,
     cfg_probe = \<lparr>pr_interval = 3000000000, pr_timeout = 2000000000, pr_switch_cooldown = 10000000000, pr_active_failures = 2,
        pr_candidate_successes = 3, pr_better_min_delta = 30000000, pr_better_ratio = Fin (1 / 4)\<rparr>,
     cfg_paths = [demo_path], cfg_identity = []\<rparr>"

definition demo_client :: client_world where
  "demo_client = fresh_client demo_client_cfg None False"

definition demo_conn :: "nat \<Rightarrow> u64 \<Rightarrow> client_conn" where
  "demo_conn i e = \<lparr>cc_ws = i, cc_path = demo_path, cc_epoch = e\<rparr>"

definition demo_commit :: "nat \<Rightarrow> u64 \<Rightarrow> u64 \<Rightarrow> activation_commit" where
  "demo_commit i e rx = \<lparr>ac_conn = demo_conn i e,
     ac_accept = zero_header\<lparr>h_type := ''accept'', h_session_id := ''s'', h_epoch := e, h_c2s_rx := rx\<rparr>,
     ac_path = demo_path, ac_resume = (e \<noteq> 1)\<rparr>"

definition demo_connected :: client_world where
  "demo_connected = snd (commitActivation (demo_commit 0 1 0) demo_client)"

definition demo_sent :: client_world where
  "demo_sent = stdin_read [1, 2, 3] None (stdin_wait None (stdin_wait None demo_connected))"

lemma demo_cfg_positive: "0 < rc_buffer (cfg_resume demo_client_cfg)"
  by (simp add: demo_client_cfg_def)

lemma demo_connected_reachable: "client_step\<^sup>*\<^sup>* (fresh_client demo_client_cfg None False) demo_connected"
  unfolding demo_connected_def demo_client_def by (rule r_into_rtranclp, rule cs_commit)

lemma demo_connected_inv: "client_inv demo_connected"
  by (rule client_fresh_inv [OF demo_connected_reachable demo_cfg_positive])

lemma demo_connected_eq:
  "demo_connected = demo_client\<lparr>cl_rt := commit_state (demo_commit 0 1 0) 0 (cl_rt demo_client), cl_saved := [''a'']\<rparr>"
  by (simp add: demo_connected_def commitActivation_def commit_publish_def demo_client_def fresh_client_def newClientRuntime_def
      demo_commit_def demo_conn_def demo_path_def advanceC2SAckLocked_def commit_state_def rt_broadcast_def replayClientBytes_def
      chunk_loop.simps Let_def)

lemma demo_reading:
  "stdin_wait None (stdin_wait None demo_connected) = set_stdin (StdinReading (demo_conn 0 1)) demo_connected"
  by (simp add: demo_connected_eq stdin_wait_def waitActive_def waitBuffer_def demo_client_def fresh_client_def
      newClientRuntime_def commit_state_def rt_broadcast_def demo_commit_def demo_client_cfg_def)

lemma demo_connected_state:
  "cl_stdin demo_connected = []" "rt_active (cl_rt demo_connected) = Some (demo_conn 0 1)"
  "rt_sessionID (cl_rt demo_connected) = ''s''" "rt_epoch (cl_rt demo_connected) = 1" "\<not> rt_finished (cl_rt demo_connected)"
  "rt_c2sNext (cl_rt demo_connected) = 0" "rt_c2sFin (cl_rt demo_connected) = False"
  "stdout_written demo_connected = []" "cl_cfg demo_connected = demo_client_cfg" "rt_c2sBuf (cl_rt demo_connected) = []"
  "ws_out (cl_ws demo_connected i) = []" "ws_closed (cl_ws demo_connected i) = False" "ws_budget (cl_ws demo_connected i) = None"
  "rt_c2sAck (cl_rt demo_connected) = 0" "rt_c2sBufFrom (cl_rt demo_connected) = 0"
  by (simp_all add: demo_connected_eq demo_client_def fresh_client_def newClientRuntime_def demo_commit_def)

definition client_short_id :: "string \<Rightarrow> bool" where
  "client_short_id sid \<longleftrightarrow> utf8_valid sid \<and> length sid \<le> 9000"

lemma c2s_data_written:
  "client_short_id sid \<Longrightarrow> length p \<le> maxPayloadBytes \<Longrightarrow> \<exists>msg. writeFrame (client_fill e (c2s_data_header sid off)) p = Inr msg"
  by (rule writeFrame_small)
     (auto simp: client_fill_def c2s_data_header_def wf_header_def header_text_def utf8_valid_ascii client_short_id_def
       dirClientToServer_def)

lemma client_send_healthy:
  assumes "\<not> ws_closed (cl_ws w (cc_ws conn))" and "ws_budget (cl_ws w (cc_ws conn)) = None"
    and "\<exists>msg. writeFrame (client_fill (cc_epoch conn) h) p = Inr msg"
  shows "client_send conn h p w = (None, w\<lparr>cl_ws := (cl_ws w)(cc_ws conn :=
    (cl_ws w (cc_ws conn))\<lparr>ws_out := ws_out (cl_ws w (cc_ws conn)) @ [(client_fill (cc_epoch conn) h, p)]\<rparr>)\<rparr>)"
  using assms by (cases "cl_ws w (cc_ws conn)") (auto simp: client_send_def ws_send_def)

lemma demo_sent_eq:
  "demo_sent = demo_connected\<lparr>cl_rt := append_c2s [1, 2, 3] ((cl_rt demo_connected)\<lparr>rt_stdin := StdinActive\<rparr>),
     cl_stdin := [1, 2, 3], cl_ws := (cl_ws demo_connected)(0 := (cl_ws demo_connected 0)\<lparr>ws_out :=
       [(client_fill 1 (c2s_data_header ''s'' 0), [1, 2, 3])]\<rparr>)\<rparr>"
proof -
  let ?v = "((set_stdin StdinActive (set_stdin (StdinReading (demo_conn 0 1)) demo_connected))\<lparr>cl_stdin := [1, 2, 3]\<rparr>)
    \<lparr>cl_rt := append_c2s [1, 2, 3] ((cl_rt demo_connected)\<lparr>rt_stdin := StdinActive\<rparr>)\<rparr>"
  have "\<exists>msg. writeFrame (client_fill (cc_epoch (demo_conn 0 1)) (c2s_data_header ''s'' 0)) [1, 2, 3] = Inr msg"
    by (rule c2s_data_written) (simp_all add: client_short_id_def utf8_valid_ascii maxPayloadBytes_def)
  from client_send_healthy [of ?v, OF _ _ this]
  have "client_send (demo_conn 0 1) (c2s_data_header ''s'' 0) [1, 2, 3] ?v = (None, ?v\<lparr>cl_ws := (cl_ws demo_connected)(0 :=
    (cl_ws demo_connected 0)\<lparr>ws_out := [(client_fill 1 (c2s_data_header ''s'' 0), [1, 2, 3])]\<rparr>)\<rparr>)"
    by (simp add: demo_connected_state demo_conn_def)
  then show ?thesis
    unfolding demo_sent_def demo_reading
    by (simp add: stdin_read_def stdin_data_def appendClientBytes_def Let_def demo_connected_state)
qed

lemma demo_sent_reachable: "client_step\<^sup>*\<^sup>* (fresh_client demo_client_cfg None False) demo_sent"
proof -
  let ?w = "stdin_wait None (stdin_wait None demo_connected)"
  have "client_step ?w demo_sent"
    unfolding demo_sent_def by (rule cs_read) (simp_all add: demo_reading demo_connected_state dataChunkBytes_def)
  moreover have "client_step\<^sup>*\<^sup>* (fresh_client demo_client_cfg None False) ?w"
    using demo_connected_reachable cs_wait by (meson rtranclp.rtrancl_into_rtrancl)
  ultimately show ?thesis by (rule rtranclp.rtrancl_into_rtrancl [rotated])
qed

lemma demo_sent_inv: "client_inv demo_sent"
  by (rule client_fresh_inv [OF demo_sent_reachable demo_cfg_positive])

theorem client_offsets_exact_witness:
  "unat (rt_c2sNext (cl_rt demo_sent)) = 3 \<and> rt_c2sBuf (cl_rt demo_sent) = drop (unat (rt_c2sAck (cl_rt demo_sent))) [1, 2, 3]"
  using client_offsets_exact [OF demo_cfg_positive demo_sent_reachable] by (simp add: demo_sent_eq)

theorem client_buffer_bounded_witness:
  "int (length (rt_c2sBuf (cl_rt demo_sent))) < rc_buffer (cfg_resume (cl_cfg demo_sent)) + int dataChunkBytes"
  by (rule client_buffer_bounded [OF demo_cfg_positive demo_sent_reachable])

theorem client_frames_truthful_witness: "slice_at 0 [1, 2, 3] (cl_stdin demo_sent)"
proof -
  have "(client_fill 1 (c2s_data_header ''s'' 0), [1, 2, 3]) \<in> set (ws_out (cl_ws demo_sent 0))"
    by (simp add: demo_sent_eq)
  from client_frames_truthful [OF demo_cfg_positive demo_sent_reachable this] show ?thesis
    by (simp add: c2s_data_header_def)
qed

theorem stale_server_frame_inert_witness:
  "receive_frame (demo_conn 1 2) (zero_header\<lparr>h_type := ''close''\<rparr>) [] demo_sent = (True, demo_sent)"
proof -
  have "\<not> frame_current (demo_conn 1 2) (zero_header\<lparr>h_type := ''close''\<rparr>) (cl_rt demo_sent)"
    by (simp add: frame_current_def demo_sent_eq demo_connected_state demo_conn_def append_c2s_def)
  from stale_server_frame_inert [OF this] show ?thesis by simp
qed

theorem finish_is_final_witness: "rt_doneErr (cl_rt (dropActive (demo_conn 0 1) (finish (Some EOF) demo_sent))) = Some EOF"
proof -
  have "\<not> rt_finished (cl_rt demo_sent)" by (simp add: demo_sent_eq demo_connected_state)
  from finish_is_final [OF demo_sent_inv this r_into_rtranclp [of client_step, OF cs_drop]] show ?thesis by blast
qed

lemma demo_resume_commits: "fst (commitActivation (demo_commit 1 2 1) demo_sent) = None"
proof -
  let ?c = "demo_commit 1 2 1"
  have adv: "advanceC2SAckLocked 1 (cl_rt demo_sent)
      = Inr ((cl_rt demo_sent)\<lparr>rt_c2sBuf := [2, 3], rt_c2sBufFrom := 1, rt_c2sAck := 1\<rparr>)"
    by (simp add: advanceC2SAckLocked_def demo_sent_eq demo_connected_state append_c2s_def)
  let ?rt = "commit_state ?c (cl_now demo_sent) ((cl_rt demo_sent)\<lparr>rt_c2sBuf := [2, 3], rt_c2sBufFrom := 1, rt_c2sAck := 1\<rparr>)"
  obtain w1 where p: "commit_publish ?c demo_sent = (None, w1)" and rt: "cl_rt w1 = ?rt"
    and ws: "ws_closed (cl_ws w1 1) = False" "ws_budget (cl_ws w1 1) = None"
    using adv by (simp add: commit_publish_def Let_def demo_commit_def demo_sent_eq demo_connected_state append_c2s_def
        demo_conn_def conn_close_def split: option.split)
  have "\<exists>msg. writeFrame (client_fill (cc_epoch (demo_conn 1 2)) (c2s_data_header ''s'' 1)) [2, 3] = Inr msg"
    by (rule c2s_data_written) (simp_all add: client_short_id_def utf8_valid_ascii maxPayloadBytes_def)
  from client_send_healthy [of w1, OF _ _ this] ws
  obtain w2 where "client_send (demo_conn 1 2) (c2s_data_header ''s'' 1) [2, 3] w1 = (None, w2)"
    by (simp add: demo_conn_def del: One_nat_def)
  then have "fst (replayClientBytes (demo_conn 1 2) w1) = None"
    using rt by (simp add: replayClientBytes_def Let_def chunk_loop.simps demo_commit_def maxPayloadBytes_def demo_sent_eq
        demo_connected_state append_c2s_def commit_state_def)
  with p show ?thesis by (simp add: commitActivation_def demo_commit_def)
qed


end
