(* ===== verification/Tunnel.thy ===== *)
theory Tunnel
  imports Server_Races Client_Props
begin

text \<open>
  Client and server together, over a network that delivers a frame only if the other side sent it on
  that connection, but may lose, delay, repeat and reorder frames. The end-to-end promise of the tunnel
  follows: what the target receives is a prefix of standard input, and what reaches standard output is
  a prefix of what the target sent.
\<close>

section \<open>What the operations do to the streams\<close>

definition server_data :: "sworld \<Rightarrow> bytes \<times> bytes \<times> u64" where
  "server_data w = (target_written w, target_source w, ss_s2cAck (sw_sess w))"

definition client_data :: "client_world \<Rightarrow> bytes \<times> bytes \<times> u64" where
  "client_data w = (cl_stdin w, stdout_written w, rt_c2sAck (cl_rt w))"

lemma same_streams_data: "same_streams (sw_sess w) (sw_sess w') \<Longrightarrow> server_data w' = server_data w"
  by (simp add: same_streams_def server_data_def)

lemma server_data_send [simp]: "server_data (snd (server_send conn h p w)) = server_data w"
  by (simp add: server_data_def)

lemma server_data_close [simp]: "server_data (closeTerminal code m w) = server_data w"
  by (rule same_streams_data [OF same_streams_closeTerminal])

lemma server_data_disconnect [simp]: "server_data (disconnect conn w) = server_data w"
  by (rule same_streams_data [OF same_streams_disconnect])

lemma server_data_reject [simp]: "server_data (snd (reject conn m w)) = server_data w"
  by (simp add: reject_def)

lemma server_data_upd [simp]:
  "server_data (w\<lparr>sw_ws := x\<rparr>) = server_data w" "server_data (w\<lparr>sw_now := t\<rparr>) = server_data w"
  "server_data (w\<lparr>sw_registered := b\<rparr>) = server_data w"
  "server_data (w\<lparr>sw_sess := cond_broadcast s\<rparr>) = server_data (w\<lparr>sw_sess := s\<rparr>)"
  "server_data (w\<lparr>sw_sess := sw_sess w\<rparr>) = server_data w"
  by (simp_all add: server_data_def)

lemma server_data_advance:
  assumes "server_inv w" and "advanceS2CAckLocked off (sw_sess w) = Inr s"
  shows "server_data (w\<lparr>sw_sess := s\<rparr>) = (target_written w, target_source w, max (ss_s2cAck (sw_sess w)) off)"
  using advance_frame(2) [OF assms(2)] s2c.advance_refines(2) [OF inv_sender_ok [OF assms(1)] assms(2)]
  by (auto simp: server_data_def max_def word_le_nat_alt intro: unsigned_word_eqI)

lemma server_data_fin: "server_data (snd (handleClientFin conn f w)) = server_data w"
  by (auto simp: handleClientFin_def Let_def server_data_def)

lemma server_data_handle:
  "server_data (snd (handleClientData conn f p w)) =
     (target_written (snd (handleClientData conn f p w)), target_source w, ss_s2cAck (sw_sess w))"
proof -
  obtain n err sk where wr: "writeAll sink_write (tg_sink (ss_target (sw_sess w))) p = (n, err, sk)"
    by (cases "writeAll sink_write (tg_sink (ss_target (sw_sess w))) p")
  have "server_data v = (target_written v, target_source w, ss_s2cAck (sw_sess w)) \<Longrightarrow>
      server_data (closeTerminal c m v) = (target_written (closeTerminal c m v), target_source w, ss_s2cAck (sw_sess w))" for v c m
    using server_data_close [of c m v] by (simp add: server_data_def)
  then show ?thesis
    using wr by (auto simp: handleClientData_def Let_def server_data_def split: option.split)
qed

lemma server_data_frame:
  assumes inv: "server_inv w"
  shows "server_data (snd (run_frame conn f p w)) = server_data w
    \<or> (h_type f = ''data'' \<and> h_direction f = dirClientToServer \<and> server_data (snd (run_frame conn f p w))
        = (target_written (server_receive conn f (h_offset f) p w), target_source w, ss_s2cAck (sw_sess w)))
    \<or> (h_type f = ''ack'' \<and> h_direction f = dirServerToClient \<and> server_data (snd (run_frame conn f p w))
        = (target_written w, target_source w, max (ss_s2cAck (sw_sess w)) (h_received_offset f)))"
proof -
  obtain e1 w1 where d: "handleClientData conn f p w = (e1, w1)" by fastforce
  obtain e2 w2 where n: "handleClientFin conn f w = (e2, w2)" by fastforce
  have n2: "server_data w2 = server_data w" using server_data_fin [of conn f w] n by simp
  have d1: "server_data w1 = server_data w \<or> (h_direction f = dirClientToServer \<and> server_data w1
        = (target_written (server_receive conn f (h_offset f) p w), target_source w, ss_s2cAck (sw_sess w)))"
  proof (cases "h_direction f = dirClientToServer")
    case True
    then have "server_receive conn f (h_offset f) p w = w1"
      using d by (cases f) (simp add: server_receive_def)
    with True d server_data_handle [of conn f p w] show ?thesis by simp
  next
    case False
    with d show ?thesis by (auto simp: handleClientData_def)
  qed
  show ?thesis
  proof (cases "advanceS2CAckLocked (h_received_offset f) (sw_sess w)")
    case (Inl e)
    with d1 n2 show ?thesis by (auto simp: run_frame_def d n split: option.split)
  next
    case (Inr s)
    with d1 n2 server_data_advance [OF inv Inr] show ?thesis
      by (auto simp: run_frame_def d n split: option.split)
  qed
qed

lemma server_data_read_error [simp]: "server_data (run_read_error conn e w) = server_data w"
  by (simp add: run_read_error_def)

lemma server_data_timer [simp]: "server_data (disconnectTTL_fires w) = server_data w"
  by (auto simp: disconnectTTL_fires_def server_data_def sess_closeTerminal Let_def split: option.split)

lemma server_data_check [simp]: "server_data (reader_check w) = server_data w"
  by (auto simp: reader_check_def server_data_def)

lemma server_data_chunks: "server_data (snd (sendDataChunks conn d off data w)) = server_data w"
  by (simp add: server_data_def)

lemma server_data_replay: "server_data (snd (resume_replay conn s w)) = server_data w"
proof -
  obtain e1 w1 where s1: "server_send conn (accept_header (ss_id s) (ss_epoch s) (ss_c2sRx s) (ss_s2cAck s)) [] w = (e1, w1)"
    by fastforce
  obtain e2 w2 where s2: "sendDataChunks conn dirServerToClient (ss_s2cBufFrom s) (ss_s2cBuf s) w1 = (e2, w2)" by fastforce
  have "server_data w1 = server_data w"
    using s1 server_data_send [of conn "accept_header (ss_id s) (ss_epoch s) (ss_c2sRx s) (ss_s2cAck s)" "[]" w] by simp
  moreover have "server_data w2 = server_data w1"
    using s2 server_data_chunks [of conn dirServerToClient "ss_s2cBufFrom s" "ss_s2cBuf s" w1] by simp
  ultimately show ?thesis using s1 s2 by (auto simp: resume_replay_def split: option.split)
qed

lemma server_data_resume:
  assumes inv: "server_inv w"
  shows "server_data (snd (resume i f w)) = server_data w
    \<or> server_data (snd (resume i f w)) = (target_written w, target_source w, max (ss_s2cAck (sw_sess w)) (h_s2c_rx f))"
proof (cases "advanceS2CAckLocked (h_s2c_rx f) (sw_sess w)")
  case (Inl e)
  then show ?thesis by (auto simp: resume_def Let_def)
next
  case (Inr s1)
  let ?w1 = "w\<lparr>sw_sess := resume_commit i s1\<rparr>"
  let ?w2 = "case ss_active (sw_sess w) of None \<Rightarrow> ?w1 | Some old \<Rightarrow> server_ws_close (sc_ws old) ?w1"
  have "server_data ?w1 = server_data (w\<lparr>sw_sess := s1\<rparr>)" by (simp add: server_data_def)
  then have w2: "server_data ?w2 = (target_written w, target_source w, max (ss_s2cAck (sw_sess w)) (h_s2c_rx f))"
    using server_data_advance [OF inv Inr] by (simp add: server_ws_close_def split: option.split)
  let ?conn = "\<lparr>sc_ws = i, sc_epoch = ss_epoch (resume_commit i s1)\<rparr>"
  obtain e w3 where r: "resume_replay ?conn (resume_commit i s1) ?w2 = (e, w3)" by fastforce
  with server_data_replay [of ?conn "resume_commit i s1" ?w2] w2
  have "server_data w3 = (target_written w, target_source w, max (ss_s2cAck (sw_sess w)) (h_s2c_rx f))" by simp
  with Inr r show ?thesis
    by (simp add: resume_def Let_def del: resume_commit_frame split: option.split)
qed

lemma server_data_read:
  "server_data (reader_read bs failed w) = (target_written w, target_source w @ bs, ss_s2cAck (sw_sess w))"
proof -
  let ?w = "upd_sess (\<lambda>s. s\<lparr>ss_reader := ReaderCheck\<rparr>) w"
  have d: "server_data (reader_data bs v) = (target_written v, target_source v @ bs, ss_s2cAck (sw_sess v))" for v
  proof (cases "bs = []")
    case False
    let ?v = "upd_sess (\<lambda>s. append_s2c bs (note_read bs s)) v"
    have v: "server_data ?v = (target_written v, target_source v @ bs, ss_s2cAck (sw_sess v))"
      by (simp add: server_data_def append_s2c_def note_read_def)
    have "server_data w2 = server_data ?v" if "server_send conn h p ?v = (e, w2)" for conn h p e w2
      using server_data_send [of conn h p ?v] that by simp
    with v False show ?thesis
      by (auto simp: reader_data_def Let_def split: option.split prod.split)
  qed (simp add: reader_data_def server_data_def)
  have e: "server_data (reader_end v) = server_data v" for v
  proof -
    have "server_data (upd_sess (\<lambda>s. s\<lparr>ss_s2cFin := True, ss_reader := ReaderStopped\<rparr>) v) = server_data v"
      by (simp add: server_data_def)
    then show ?thesis by (simp add: reader_end_def Let_def split: option.split)
  qed
  show ?thesis
    using d [of ?w] e by (simp add: reader_read_def Let_def)
qed


text \<open>The client.\<close>

lemma client_data_upd [simp]:
  "client_data (w\<lparr>cl_ws := x\<rparr>) = client_data w" "client_data (w\<lparr>cl_hb := hb\<rparr>) = client_data w"
  "client_data (w\<lparr>cl_now := n\<rparr>) = client_data w" "client_data (w\<lparr>cl_saved := sv\<rparr>) = client_data w"
  "client_data (w\<lparr>cl_stdout := (cl_stdout w)\<lparr>sk_budget := b\<rparr>\<rparr>) = client_data w"
  "client_data (set_stdin st w) = client_data w" "client_data (w\<lparr>cl_rt := rt_broadcast r\<rparr>) = client_data (w\<lparr>cl_rt := r\<rparr>)"
  "client_data (w\<lparr>cl_rt := cl_rt w\<rparr>) = client_data w"
  by (simp_all add: client_data_def)

lemma client_data_send [simp]: "client_data (snd (client_send conn h p w)) = client_data w"
  by (simp add: client_data_def)

lemma client_data_send_eq: "client_send conn h p w = (e, w') \<Longrightarrow> client_data w' = client_data w"
  using client_data_send [of conn h p w] by simp

lemma client_data_close [simp]: "client_data (conn_close conn w) = client_data w"
  by (simp add: client_data_def)

lemma client_data_drop [simp]: "client_data (dropActive conn w) = client_data w"
  by (simp add: client_data_def dropActive_rt)

lemma client_data_finish [simp]: "client_data (finish err w) = client_data w"
  by (simp add: client_data_def finish_rt)

lemma client_data_advance:
  assumes "client_inv w" and "advanceC2SAckLocked off (cl_rt w) = Inr rt"
  shows "client_data (w\<lparr>cl_rt := rt\<rparr>) = (cl_stdin w, stdout_written w, max (rt_c2sAck (cl_rt w)) off)"
  using c2s.advance_refines(2) [OF inv_sender [OF assms(1)] assms(2)]
  by (auto simp: client_data_def max_def word_le_nat_alt intro: unsigned_word_eqI)

lemma client_data_fin: "client_data (snd (handleServerFin conn f w)) = client_data w"
  by (auto simp: handleServerFin_def Let_def client_data_def close_stdout_def)

lemma client_data_handle:
  "client_data (snd (handleServerData conn f p w)) = client_data w
   \<or> h_direction f = dirServerToClient \<and> client_data (snd (handleServerData conn f p w))
       = (cl_stdin w, stdout_written (client_receive conn f (h_offset f) p w), rt_c2sAck (cl_rt w))"
proof (cases "h_direction f = dirServerToClient")
  case True
  then have r: "client_receive conn f (h_offset f) p w = snd (handleServerData conn f p w)"
    by (cases f) (simp add: client_receive_def)
  have "client_data (snd (handleServerData conn f p w))
      = (cl_stdin w, stdout_written (snd (handleServerData conn f p w)), rt_c2sAck (cl_rt w))"
    by (auto simp: handleServerData_def Let_def client_data_def split: prod.split)
  with True r show ?thesis by simp
next
  case False
  then show ?thesis by (simp add: handleServerData_def)
qed

lemma client_data_frame:
  assumes inv: "client_inv w"
  shows "client_data (snd (receive_frame conn f p w)) = client_data w
    \<or> (h_type f = ''data'' \<and> h_direction f = dirServerToClient \<and> client_data (snd (receive_frame conn f p w))
        = (cl_stdin w, stdout_written (client_receive conn f (h_offset f) p w), rt_c2sAck (cl_rt w)))
    \<or> (h_type f = ''ack'' \<and> h_direction f = dirClientToServer \<and> client_data (snd (receive_frame conn f p w))
        = (cl_stdin w, stdout_written w, max (rt_c2sAck (cl_rt w)) (h_received_offset f)))"
proof -
  obtain e1 w1 where d: "handleServerData conn f p w = (e1, w1)" by fastforce
  obtain e2 w2 where n: "handleServerFin conn f w = (e2, w2)" by fastforce
  have n2: "client_data w2 = client_data w" using client_data_fin [of conn f w] n by simp
  have d1: "client_data w1 = client_data w \<or> (h_direction f = dirServerToClient \<and> client_data w1
        = (cl_stdin w, stdout_written (client_receive conn f (h_offset f) p w), rt_c2sAck (cl_rt w)))"
    using client_data_handle [of conn f p w] d by simp
  show ?thesis
  proof (cases "advanceC2SAckLocked (h_received_offset f) (cl_rt w)")
    case (Inl e)
    with d1 n2 show ?thesis by (auto simp: receive_frame_def d n split: option.split)
  next
    case (Inr rt)
    with d1 n2 client_data_advance [OF inv Inr] show ?thesis
      by (auto simp: receive_frame_def d n split: option.split)
  qed
qed

lemma client_data_raw_send [simp]: "client_data (snd (raw_send i h p w)) = client_data w"
  by (simp add: raw_send_def split: prod.split)

lemma client_data_hello_loop: "client_data (snd (hello_loop i path inputs w)) = client_data w"
proof (induction i path inputs w rule: hello_loop.induct)
  case (2 i path x xs w)
  show ?case
  proof (cases "hi_read x")
    case (Inr fr)
    obtain f p where fr: "fr = (f, p)" by (cases fr)
    obtain e w1 where s: "raw_send i (client_pong_header f) [] w = (e, w1)" by fastforce
    then have "client_data w1 = client_data w" using client_data_raw_send [of i "client_pong_header f" "[]" w] by simp
    with 2 Inr fr s show ?thesis by (auto split: option.split)
  qed simp
qed simp

lemma client_data_hello [simp]: "client_data (snd (startSession i r ctx ctx' inputs w)) = client_data w"
proof -
  obtain e w1 where s: "raw_send i (hello_header r) [] w = (e, w1)" by fastforce
  obtain x w2 where l: "hello_loop i (sq_path r) inputs w1 = (x, w2)" by fastforce
  have "client_data w1 = client_data w" "client_data w2 = client_data w1"
    using client_data_raw_send [of i "hello_header r" "[]" w] s client_data_hello_loop [of i "sq_path r" inputs w1] l by simp_all
  with s l show ?thesis by (simp add: startSession_def raw_close_def split: option.split sum.split)
qed

lemma client_data_wait [simp]: "client_data (stdin_wait ctx w) = client_data w"
  by (auto simp: stdin_wait_def split: stdin_state.split wait_result.split)

lemma client_data_send_fin [simp]: "client_data (sendClientFin w) = client_data w"
proof (cases "rt_stdin (cl_rt w)")
  case StdinFin
  show ?thesis
  proof (cases "waitActive None (cl_rt w)")
    case (Go conn)
    obtain e w1 where s: "client_send conn (c2s_fin_header (rt_sessionID (cl_rt w)) (rt_c2sFinAt (cl_rt w))) [] w = (e, w1)"
      by fastforce
    with client_data_send_eq [OF s] Go StdinFin show ?thesis by (simp add: sendClientFin_def split: option.split)
  qed (use StdinFin in \<open>simp_all add: sendClientFin_def\<close>)
qed (simp_all add: sendClientFin_def)

lemma client_data_stdin:
  "client_data (stdin_data conn bs w) = (cl_stdin w @ bs, stdout_written w, rt_c2sAck (cl_rt w))"
proof (cases "bs = []")
  case False
  let ?v = "(w\<lparr>cl_stdin := cl_stdin w @ bs\<rparr>)\<lparr>cl_rt := append_c2s bs (cl_rt w)\<rparr>"
  obtain e w2 where s: "client_send conn (c2s_data_header (rt_sessionID (cl_rt w)) (rt_c2sNext (cl_rt w))) bs ?v = (e, w2)"
    by fastforce
  have "client_data w2 = (cl_stdin w @ bs, stdout_written w, rt_c2sAck (cl_rt w))"
    using client_data_send_eq [OF s] by (simp add: client_data_def)
  with s False show ?thesis
    by (simp add: stdin_data_def appendClientBytes_def Let_def split: option.split)
qed (simp add: stdin_data_def client_data_def)

lemma client_data_read:
  "client_data (stdin_read bs err w) = client_data w
   \<or> client_data (stdin_read bs err w) = (cl_stdin w @ bs, stdout_written w, rt_c2sAck (cl_rt w))"
proof (cases "rt_stdin (cl_rt w)")
  case (StdinReading conn)
  have "client_data (set_stdin StdinFin (markClientFin v)) = client_data v" for v
    by (simp add: client_data_def markClientFin_def)
  with StdinReading client_data_stdin [of conn bs "set_stdin StdinActive w"] show ?thesis
    by (simp add: stdin_read_def Let_def split: option.split)
qed (simp_all add: stdin_read_def)

lemma client_data_replay: "client_data (snd (replayClientBytes conn w)) = client_data w"
proof -
  let ?sid = "rt_sessionID (cl_rt w)" and ?fin = "c2s_fin_header (rt_sessionID (cl_rt w)) (rt_c2sFinAt (cl_rt w))"
  obtain e w1 where r: "chunk_loop (\<lambda>off p. client_send conn (c2s_data_header ?sid off) p)
      (rt_c2sBufFrom (cl_rt w)) (rt_c2sBuf (cl_rt w)) w = (e, w1)" by fastforce
  have "client_data (snd (send_all (\<lambda>off p. client_send conn (c2s_data_header ?sid off) p) cs w)) = client_data w" for cs
    by (rule send_all_invariant) simp_all
  with r have "client_data w1 = client_data w" by (metis chunk_loop_send_all snd_conv)
  moreover obtain e2 w2 where s: "client_send conn ?fin [] w1 = (e2, w2)" by fastforce
  moreover have "client_data w2 = client_data w1" by (rule client_data_send_eq [OF s])
  ultimately show ?thesis using r by (simp add: replayClientBytes_def Let_def split: option.split)
qed

lemma client_data_commit:
  assumes inv: "client_inv w"
  shows "client_data (snd (commitActivation c w)) = client_data w
    \<or> client_data (snd (commitActivation c w))
        = (cl_stdin w, stdout_written w, max (rt_c2sAck (cl_rt w)) (h_c2s_rx (ac_accept c)))"
proof -
  have p: "client_data (snd (commit_publish c w)) = client_data w \<or> client_data (snd (commit_publish c w))
        = (cl_stdin w, stdout_written w, max (rt_c2sAck (cl_rt w)) (h_c2s_rx (ac_accept c)))"
  proof (cases "advanceC2SAckLocked (h_c2s_rx (ac_accept c)) (cl_rt w)")
    case (Inl e)
    then show ?thesis by (simp add: commit_publish_def Let_def)
  next
    case (Inr rt)
    have "client_data (w\<lparr>cl_rt := commit_state c (cl_now w) rt, cl_saved := sv\<rparr>) = client_data (w\<lparr>cl_rt := rt\<rparr>)" for sv
      by (simp add: client_data_def)
    with Inr client_data_advance [OF inv Inr] show ?thesis by (simp add: commit_publish_def Let_def split: option.split)
  qed
  obtain e w1 where "commit_publish c w = (e, w1)" by fastforce
  with p client_data_replay [of "ac_conn c" w1] show ?thesis by (auto simp: commitActivation_def split: option.split)
qed

text \<open>The offsets that a request carries only grow, so a request taken once stays one that may be sent.\<close>

lemma client_receive_grows: "length (stdout_written w) \<le> length (stdout_written (client_receive conn f off p w))"
proof (cases "off = rt_s2cRx (cl_rt w)")
  case True
  from s2c_rx.receive_here [OF this, of p conn f] show ?thesis by auto
next
  case False
  from s2c_rx.receive_elsewhere [OF this, of conn f p] show ?thesis by simp
qed

lemma client_step_grows:
  assumes "client_step w w'" and inv: "client_inv w"
  shows "rt_c2sAck (cl_rt w) \<le> rt_c2sAck (cl_rt w') \<and> length (stdout_written w) \<le> length (stdout_written w')"
proof -
  have m: "rt_c2sAck (cl_rt w) \<le> max (rt_c2sAck (cl_rt w)) a" for a by simp
  have same: "client_data v = client_data w \<Longrightarrow> rt_c2sAck (cl_rt v) = rt_c2sAck (cl_rt w) \<and> stdout_written v = stdout_written w" for v
    by (simp add: client_data_def)
  show ?thesis
    using assms(1)
  proof cases
    case (cs_frame p conn f)
    from client_data_frame [OF inv, of conn f p] client_receive_grows [of w conn f "h_offset f" p] m
    show ?thesis unfolding cs_frame by (auto simp: client_data_def)
  next
    case (cs_commit c)
    from client_data_commit [OF inv, of c] m show ?thesis unfolding cs_commit by (auto simp: client_data_def)
  next
    case (cs_read bs err)
    from client_data_read [of bs err w] show ?thesis unfolding cs_read by (auto simp: client_data_def)
  next
    case (cs_error conn)
    from same [of "receive_error conn w"] show ?thesis unfolding cs_error by (simp add: receive_error_def)
  next
    case (cs_close i)
    from same [of "raw_close i w"] show ?thesis unfolding cs_close by (simp add: raw_close_def)
  qed (use same [of w'] in simp_all)
qed

lemma request_taken_step:
  assumes "client_step w w'" and inv: "client_inv w" and "request_taken r (cl_rt w)"
  shows "request_taken r (cl_rt w')"
  using client_step_grows [OF assms(1,2)] inv_rx [OF inv] inv_rx [OF client_step_inv [OF assms(1,2)]] assms(3)
  by (auto simp: request_taken_def word_le_nat_alt)

section \<open>The composed system\<close>

text \<open>
  The network delivers a frame that was put on the connection by the other side and that the wire
  format carries: \<open>readFrame\<close> returns it from the message \<open>writeFrame\<close> built.
\<close>

definition delivered :: "frame list \<Rightarrow> frame_header \<Rightarrow> bytes \<Rightarrow> bool" where
  "delivered out h p \<longleftrightarrow> (h, p) \<in> set out \<and> (\<exists>msg. writeFrame h p = Inr msg \<and> readFrame msg = Inr (h, p))"

type_synonym tunnel = "client_world \<times> sworld"

abbreviation small :: "bytes \<Rightarrow> bool" where
  "small bs \<equiv> length bs < 2 ^ 63"

inductive tunnel_step :: "tunnel \<Rightarrow> tunnel \<Rightarrow> bool" where
  t_server_frame: "delivered (ws_out (cl_ws c (sc_ws conn))) h p \<Longrightarrow> tunnel_step (c, s) (c, snd (run_frame conn h p s))"
| t_server_resume: "delivered (ws_out (cl_ws c i)) h p \<Longrightarrow> h_type h = ''hello'' \<Longrightarrow> tunnel_step (c, s) (c, snd (resume i h s))"
| t_server_error: "tunnel_step (c, s) (c, run_read_error conn e s)"
| t_server_check: "ss_reader (sw_sess s) = ReaderCheck \<Longrightarrow> tunnel_step (c, s) (c, reader_check s)"
| t_server_read: "ss_reader (sw_sess s) = ReaderReading \<Longrightarrow> length bs \<le> dataChunkBytes \<Longrightarrow> small (target_source s @ bs) \<Longrightarrow>
    tunnel_step (c, s) (c, reader_read bs failed s)"
| t_server_timer: "tunnel_step (c, s) (c, disconnectTTL_fires s)"
| t_server_clock: "sw_now s \<le> t \<Longrightarrow> tunnel_step (c, s) (c, s\<lparr>sw_now := t\<rparr>)"
| t_server_socket: "tunnel_step (c, s) (c, s\<lparr>sw_ws := (sw_ws s)(i := (sw_ws s i)\<lparr>ws_budget := b\<rparr>)\<rparr>)"
| t_server_target: "tunnel_step (c, s) (c, upd_sess (\<lambda>s. s\<lparr>ss_target := (ss_target s)\<lparr>tg_sink := (tg_sink (ss_target s))\<lparr>sk_budget := b\<rparr>\<rparr>\<rparr>) s)"
| t_client_frame: "delivered (ws_out (sw_ws s (cc_ws conn))) h p \<Longrightarrow> tunnel_step (c, s) (snd (receive_frame conn h p c), s)"
| t_client_commit: "delivered (ws_out (sw_ws s i)) h p \<Longrightarrow> h_type h = ''accept'' \<Longrightarrow> ac_accept a = h \<Longrightarrow> cc_ws (ac_conn a) = i \<Longrightarrow>
    tunnel_step (c, s) (snd (commitActivation a c), s)"
| t_client_hello: "request_taken r (cl_rt c) \<Longrightarrow> tunnel_step (c, s) (snd (startSession i r ctx ctx' inputs c), s)"
| t_client_ping: "tunnel_step (c, s) (snd (client_send conn (ping_header nonce sent) [] c), s)"
| t_client_probe: "tunnel_step (c, s) (snd (raw_send i (ping_header nonce sent) [] c), s)"
| t_client_close: "tunnel_step (c, s) (raw_close i c, s)"
| t_client_error: "tunnel_step (c, s) (receive_error conn c, s)"
| t_client_wait: "tunnel_step (c, s) (stdin_wait ctx c, s)"
| t_client_read: "length bs \<le> dataChunkBytes \<Longrightarrow> small (cl_stdin c @ bs) \<Longrightarrow> tunnel_step (c, s) (stdin_read bs err c, s)"
| t_client_fin: "tunnel_step (c, s) (sendClientFin c, s)"
| t_client_drop: "tunnel_step (c, s) (dropActive conn c, s)"
| t_client_finish: "tunnel_step (c, s) (finish err c, s)"
| t_client_signal: "tunnel_step (c, s) (upd_rt (\<lambda>rt. rt\<lparr>rt_reconnectSignal := b\<rparr>) c, s)"
| t_client_env: "tunnel_step (c, s) (c\<lparr>cl_now := t\<rparr>, s)"
| t_client_heartbeat: "tunnel_step (c, s) (c\<lparr>cl_hb := hb\<rparr>, s)"
| t_client_socket: "tunnel_step (c, s) (c\<lparr>cl_ws := (cl_ws c)(i := (cl_ws c i)\<lparr>ws_budget := b\<rparr>)\<rparr>, s)"
| t_client_stdout: "tunnel_step (c, s) (c\<lparr>cl_stdout := (cl_stdout c)\<lparr>sk_budget := b\<rparr>\<rparr>, s)"

definition tunnel_data_ok :: "bytes \<times> bytes \<times> u64 \<Rightarrow> bytes \<times> bytes \<times> u64 \<Rightarrow> bool" where
  "tunnel_data_ok cd sd \<longleftrightarrow> (case cd of (stdin, out, c2sAck) \<Rightarrow> case sd of (written, source, s2cAck) \<Rightarrow>
     prefix written stdin \<and> prefix out source \<and> unat c2sAck \<le> length written \<and> unat s2cAck \<le> length out
     \<and> small stdin \<and> small source)"

definition tunnel_inv :: "tunnel \<Rightarrow> bool" where
  "tunnel_inv t \<longleftrightarrow> client_inv (fst t) \<and> server_inv (snd t) \<and> tunnel_data_ok (client_data (fst t)) (server_data (snd t))"


lemma tunnel_invI:
  assumes "client_inv c" and "server_inv s" and "tunnel_data_ok (client_data c) (server_data s)"
  shows "tunnel_inv (c, s)"
  using assms by (simp add: tunnel_inv_def)

lemma tunnel_invD:
  assumes "tunnel_inv (c, s)"
  shows "client_inv c" "server_inv s" "prefix (target_written s) (cl_stdin c)" "prefix (stdout_written c) (target_source s)"
    "unat (rt_c2sAck (cl_rt c)) \<le> length (target_written s)" "unat (ss_s2cAck (sw_sess s)) \<le> length (stdout_written c)"
    "small (cl_stdin c)" "small (target_source s)"
  using assms by (simp_all add: tunnel_inv_def tunnel_data_ok_def client_data_def server_data_def)

lemma delivered_from_client:
  assumes "client_inv c" and "delivered (ws_out (cl_ws c i)) h p"
  shows "client_frame_ok (cl_stdin c) (stdout_written c) (rt_c2sFin (cl_rt c)) (rt_c2sAck (cl_rt c)) (h, p)"
    "h_type h \<noteq> ''data'' \<Longrightarrow> p = []"
  using assms readFrame_Inr(2) by (auto simp: client_inv_def client_frames_def delivered_def)

lemma delivered_from_server:
  assumes "server_inv s" and "delivered (ws_out (sw_ws s i)) h p"
  shows "server_frame_ok (sw_sess s) (h, p)" "h_type h \<noteq> ''data'' \<Longrightarrow> p = []"
  using assms readFrame_Inr(2) by (auto simp: server_inv_def frames_ok_in_def delivered_def)

lemma small_fit: "small xs \<Longrightarrow> length ys \<le> length xs \<Longrightarrow> length zs \<le> length xs \<Longrightarrow> length ys + length zs < stream_limit"
  by simp

lemma slice_length: "slice_at off p src \<Longrightarrow> length p \<le> length src"
  by (auto simp: slice_at_def)

text \<open>A step of the tunnel is a step of one of its ends.\<close>

inductive_cases tunnel_stepE: "tunnel_step (c, s) t"

lemma tunnel_step_end:
  assumes step: "tunnel_step (c, s) (c', s')" and inv: "tunnel_inv (c, s)"
  shows "(client_step c c' \<and> s' = s) \<or> (c' = c \<and> session_step s s')"
proof -
  note d = tunnel_invD [OF inv]
  have "length p \<le> length (cl_stdin c)" if "delivered (ws_out (cl_ws c i)) h p" for i h p
    using delivered_from_client [OF d(1) that] slice_length
    by (cases "h_type h = ''data''") (auto simp: client_frame_ok_def)
  then have c2s: "length (target_written s) + length p < stream_limit" if "delivered (ws_out (cl_ws c i)) h p" for i h p
    using small_fit [OF d(7) prefix_length_le [OF d(3)]] that by blast
  have "length p \<le> length (target_source s)" if "delivered (ws_out (sw_ws s i)) h p" for i h p
    using delivered_from_server [OF d(2) that] slice_length
    by (cases "h_type h = ''data''") (auto simp: server_frame_ok_def)
  then have s2c: "length (stdout_written c) + length p < stream_limit" if "delivered (ws_out (sw_ws s i)) h p" for i h p
    using small_fit [OF d(8) prefix_length_le [OF d(4)]] that by blast
  from step show ?thesis
    by (rule tunnel_stepE) (auto intro: client_step.intros session_step.intros c2s s2c)
qed

text \<open>The steps that move the data.\<close>

lemma server_frame_data:
  assumes inv: "tunnel_inv (c, s)" and del: "delivered (ws_out (cl_ws c (sc_ws conn))) h p"
  shows "tunnel_data_ok (client_data c) (server_data (snd (run_frame conn h p s)))"
proof -
  note d = tunnel_invD [OF inv] and f = delivered_from_client [OF tunnel_invD(1) [OF inv] del]
  let ?t = "target_written (server_receive conn h (h_offset h) p s)"
  have ext: "prefix (target_written s) ?t" by (rule c2s_rx.receive_extends)
  have "prefix ?t (cl_stdin c)" if "h_type h = ''data''"
    using that f(1) d(2,3) by (intro c2s_rx.receive_prefix) (auto simp: client_frame_ok_def rx_le_written)
  moreover have "unat (max (ss_s2cAck (sw_sess s)) (h_received_offset h)) \<le> length (stdout_written c)" if "h_type h = ''ack''"
    using that f(1) d(6) by (simp add: client_frame_ok_def max_def)
  ultimately show ?thesis
    using server_data_frame [OF d(2), of conn h p] d prefix_length_le [OF ext]
    by (auto simp: tunnel_data_ok_def client_data_def server_data_def)
qed

lemma server_resume_data:
  assumes inv: "tunnel_inv (c, s)" and del: "delivered (ws_out (cl_ws c i)) h p" and hello: "h_type h = ''hello''"
  shows "tunnel_data_ok (client_data c) (server_data (snd (resume i h s)))"
proof -
  note d = tunnel_invD [OF inv] and f = delivered_from_client [OF tunnel_invD(1) [OF inv] del]
  have "unat (max (ss_s2cAck (sw_sess s)) (h_s2c_rx h)) \<le> length (stdout_written c)"
    using hello f(1) d(6) by (simp add: max_def client_frame_ok_def)
  then show ?thesis
    using server_data_resume [OF d(2), of i h] d by (auto simp: tunnel_data_ok_def client_data_def server_data_def)
qed

lemma client_frame_data:
  assumes inv: "tunnel_inv (c, s)" and del: "delivered (ws_out (sw_ws s (cc_ws conn))) h p"
  shows "tunnel_data_ok (client_data (snd (receive_frame conn h p c))) (server_data s)"
proof -
  note d = tunnel_invD [OF inv] and f = delivered_from_server [OF tunnel_invD(2) [OF inv] del]
  let ?t = "stdout_written (client_receive conn h (h_offset h) p c)"
  have ext: "prefix (stdout_written c) ?t" by (rule s2c_rx.receive_extends)
  have "prefix ?t (target_source s)" if "h_type h = ''data''"
    using that f(1) d(1,4) by (intro s2c_rx.receive_prefix) (auto simp: server_frame_ok_def inv_rx)
  moreover have "unat (max (rt_c2sAck (cl_rt c)) (h_received_offset h)) \<le> length (target_written s)" if "h_type h = ''ack''"
    using that f(1) d(5) by (simp add: max_def server_frame_ok_def)
  ultimately show ?thesis
    using client_data_frame [OF d(1), of conn h p] d prefix_length_le [OF ext]
    by (auto simp: tunnel_data_ok_def client_data_def server_data_def)
qed

lemma client_commit_data:
  assumes inv: "tunnel_inv (c, s)" and del: "delivered (ws_out (sw_ws s i)) (ac_accept a) p"
    and acc: "h_type (ac_accept a) = ''accept''"
  shows "tunnel_data_ok (client_data (snd (commitActivation a c))) (server_data s)"
proof -
  note d = tunnel_invD [OF inv] and f = delivered_from_server [OF tunnel_invD(2) [OF inv] del]
  have "unat (max (rt_c2sAck (cl_rt c)) (h_c2s_rx (ac_accept a))) \<le> length (target_written s)"
    using acc f(1) d(5) by (simp add: max_def server_frame_ok_def)
  then show ?thesis
    using client_data_commit [OF d(1), of a] d by (auto simp: tunnel_data_ok_def client_data_def server_data_def)
qed

lemma tunnel_step_data:
  assumes "tunnel_step (c, s) (c', s')" and inv: "tunnel_inv (c, s)"
  shows "tunnel_data_ok (client_data c') (server_data s')"
proof -
  note d = inv [unfolded tunnel_inv_def fst_conv snd_conv]
  from assms(1) show ?thesis
  proof cases
    case (t_server_frame conn h p)
    then show ?thesis by (simp add: server_frame_data [OF inv])
  next
    case (t_server_resume i h p)
    then show ?thesis by (simp add: server_resume_data [OF inv])
  next
    case (t_server_read bs failed)
    then show ?thesis using d server_data_read [of bs failed s] by (auto simp: tunnel_data_ok_def server_data_def)
  next
    case (t_server_target b)
    then show ?thesis using d by (simp add: server_data_def)
  next
    case (t_client_frame conn h p)
    then show ?thesis by (simp add: client_frame_data [OF inv])
  next
    case (t_client_commit i h p a)
    then show ?thesis using client_commit_data [OF inv] by simp
  next
    case (t_client_read bs err)
    then show ?thesis using d client_data_read [of bs err c] by (auto simp: tunnel_data_ok_def client_data_def)
  next
    case (t_client_close i)
    then show ?thesis using d by (simp add: raw_close_def client_data_def)
  next
    case (t_client_signal b)
    then show ?thesis using d by (simp add: client_data_def)
  qed (use d in \<open>simp_all add: receive_error_def\<close>)
qed

lemma tunnel_step_inv:
  assumes "tunnel_step t t'" and "tunnel_inv t"
  shows "tunnel_inv t'"
proof -
  obtain c s c' s' where t: "t = (c, s)" "t' = (c', s')" by fastforce
  note step = assms [unfolded t]
  have "client_inv c'" "server_inv s'"
    using tunnel_step_end [OF step] tunnel_invD(1,2) [OF step(2)] by (auto intro: client_step_inv session_step_inv)
  with tunnel_step_data [OF step] show ?thesis unfolding t by (rule_tac tunnel_invI)
qed

text \<open>So the tunnel is made of a client and a session, and what their runs keep it keeps.\<close>

interpretation tunnel: step_system tunnel_step tunnel_inv
  by unfold_locales (rule tunnel_step_inv)

interpretation client_end: component_system tunnel_step tunnel_inv client_step client_inv fst
proof
  fix t t' assume "tunnel_inv t" "tunnel_step t t'"
  then show "fst t' = fst t \<or> client_step (fst t) (fst t')"
    using tunnel_step_end [of "fst t" "snd t" "fst t'" "snd t'"] by auto
qed (simp add: tunnel_inv_def)

interpretation server_end: component_system tunnel_step tunnel_inv session_step server_inv snd
proof
  fix t t' assume "tunnel_inv t" "tunnel_step t t'"
  then show "snd t' = snd t \<or> session_step (snd t) (snd t')"
    using tunnel_step_end [of "fst t" "snd t" "fst t'" "snd t'"] by auto
qed (simp add: tunnel_inv_def)

lemmas tunnel_reachable_inv = tunnel.run_inv

end
