(* ===== verification/Tunnel_Props.thy ===== *)
theory Tunnel_Props
  imports Tunnel
begin

text \<open>
  The end-to-end properties of the tunnel, and the behaviours of the two ends together that its locks
  leave open: live data that overtakes the accept frame or the replay, and error frames that the other
  side never looks at.
\<close>

section \<open>The tunnel from its first accept\<close>

text \<open>A client that has not connected yet and the session its first hello opened, accept frame sent.\<close>

definition start_server :: "resume_config \<Rightarrow> instant \<Rightarrow> string \<Rightarrow> sworld" where
  "start_server cfg now sid =
     snd (server_send \<lparr>sc_ws = 0, sc_epoch = 1\<rparr> (accept_header sid 1 0 0) [] (fresh_world cfg now sid 0))"

definition start_tunnel :: "config \<Rightarrow> path_config option \<Rightarrow> bool \<Rightarrow> resume_config \<Rightarrow> instant \<Rightarrow> string \<Rightarrow> tunnel" where
  "start_tunnel ccfg lkg half scfg now sid = (fresh_client ccfg lkg half, start_server scfg now sid)"

lemma start_tunnel_inv:
  assumes "0 < rc_buffer (cfg_resume ccfg)" and "0 < rc_buffer scfg"
  shows "tunnel_inv (start_tunnel ccfg lkg half scfg now sid)"
proof -
  have "server_inv (start_server scfg now sid)"
    unfolding start_server_def by (intro server_send_inv fresh_inv assms(2)) simp
  moreover have "server_data (start_server scfg now sid) = ([], [], 0)"
    by (simp add: start_server_def) (simp add: server_data_def fresh_world_def open_session_def newServerSession_def)
  moreover have "client_data (fresh_client ccfg lkg half) = ([], [], 0)"
    by (simp add: client_data_def fresh_client_def newClientRuntime_def)
  ultimately show ?thesis
    using fresh_client_inv [OF assms(1)] by (simp add: tunnel_inv_def start_tunnel_def tunnel_data_ok_def)
qed

lemmas tunnel_inv_reachable = tunnel_reachable_inv [OF _ start_tunnel_inv]



text \<open>Which frame makes the server half-close the target, and the client close standard output.\<close>

lemma c2sFin_close [simp]:
  "ss_c2sFin (sw_sess (closeTerminal code m w)) = ss_c2sFin (sw_sess w)"
  "ss_c2sFin (sw_sess (disconnect conn w)) = ss_c2sFin (sw_sess w)"
  by (simp_all add: closeTerminal_def disconnect_def Let_def split: option.split)

lemma c2sFin_reject [simp]: "ss_c2sFin (sw_sess (snd (reject conn m w))) = ss_c2sFin (sw_sess w)"
  by (simp add: reject_def)

lemma c2sFin_data: "handleClientData conn f p w = (e, w') \<Longrightarrow> ss_c2sFin (sw_sess w') = ss_c2sFin (sw_sess w)"
  by (auto simp: handleClientData_def Let_def split: if_splits prod.splits option.splits dest: server_send_eq)

lemma c2sFin_fin:
  "handleClientFin conn f w = (e, w') \<Longrightarrow> ss_c2sFin (sw_sess w') \<Longrightarrow> ss_c2sFin (sw_sess w) \<or> h_offset f = ss_c2sRx (sw_sess w)"
  by (auto simp: handleClientFin_def Let_def split: if_splits dest: server_send_eq)

lemma c2sFin_ack: "advanceS2CAckLocked off s = Inr s' \<Longrightarrow> ss_c2sFin s' = ss_c2sFin s"
  by (auto simp: advanceS2CAckLocked_def Let_def split: if_splits)

lemma run_frame_half_closes:
  assumes "ss_c2sFin (sw_sess (snd (run_frame conn f p w)))" and "\<not> ss_c2sFin (sw_sess w)"
  shows "h_type f = ''fin'' \<and> h_offset f = ss_c2sRx (sw_sess w)"
proof (rule ccontr)
  assume n: "\<not> ?thesis"
  obtain e w1 where d: "handleClientData conn f p w = (e, w1)" by fastforce
  obtain e' w2 where g: "handleClientFin conn f w = (e', w2)" by fastforce
  have data: "\<not> ss_c2sFin (sw_sess w1)" using c2sFin_data [OF d] assms(2) by simp
  have fin: "h_type f = ''fin'' \<Longrightarrow> \<not> ss_c2sFin (sw_sess w2)" using c2sFin_fin [OF g] assms(2) n by blast
  have ack: "\<not> ss_c2sFin s" if "advanceS2CAckLocked (h_received_offset f) (sw_sess w) = Inr s" for s
    using c2sFin_ack [OF that] assms(2) by simp
  consider "h_type f = ''ping''" | "\<not> isActive conn f w" | "h_type f = ''data''" | "h_type f = ''fin''" | "h_type f = ''ack''"
    | "h_type f \<notin> {''data'', ''fin'', ''ack''}" by blast
  then have "\<not> ss_c2sFin (sw_sess (snd (run_frame conn f p w)))"
  proof cases
    case 1
    with assms(2) show ?thesis by (simp add: run_frame_def)
  next
    case 2
    with assms(2) show ?thesis by (simp add: run_frame_inactive)
  next
    case 3
    with data assms(2) show ?thesis by (cases e) (simp_all add: run_frame_def d)
  next
    case 4
    with fin assms(2) show ?thesis by (cases e') (simp_all add: run_frame_def g)
  next
    case 5
    with ack assms(2) show ?thesis by (simp add: run_frame_def split: sum.split)
  next
    case 6
    with assms(2) show ?thesis by (simp add: run_frame_def)
  qed
  with assms(1) show False by contradiction
qed

lemma stdout_keeps [simp]:
  "cl_stdout (snd (client_send conn h p w)) = cl_stdout w" "cl_stdout (finish err w) = cl_stdout w"
  by (simp_all add: client_send_def finish_def finish_close_def finish_mark_def conn_close_def Let_def split: prod.split option.split)

lemma sink_write_closed: "sink_write sk p = (n, e, sk') \<Longrightarrow> sk_closed sk' = sk_closed sk"
  by (auto simp: sink_write_def split: if_splits option.splits)

lemma sink_closed_kept: "writeAll sink_write sk p = (n, e, sk') \<Longrightarrow> sk_closed sk' = sk_closed sk"
proof (induction p arbitrary: sk n e sk' rule: length_induct)
  case (1 p)
  obtain k err sk1 where wr: "sink_write sk p = (k, err, sk1)" using prod_cases3 by blast
  note c = sink_write_closed [OF wr]
  show ?case
  proof (cases "p = [] \<or> err \<noteq> None \<or> k = 0")
    case True
    with "1.prems" wr c show ?thesis by (subst (asm) writeAll.simps) (auto split: if_splits)
  next
    case False
    obtain m err' sk2 where r: "writeAll sink_write sk1 (drop k p) = (m, err', sk2)" using prod_cases3 by blast
    from False "1.prems" wr r have "sk' = sk2" by (subst (asm) writeAll.simps) simp
    moreover have "length (drop k p) < length p" using False by simp
    ultimately show ?thesis using "1.IH" r c by metis
  qed
qed

lemma client_send_stdout: "client_send conn h p w = (e, w') \<Longrightarrow> cl_stdout w' = cl_stdout w"
  by (metis stdout_keeps(1) snd_conv)

lemma stdout_data: "handleServerData conn f p w = (e, w') \<Longrightarrow> sk_closed (cl_stdout w') = sk_closed (cl_stdout w)"
  by (auto simp: handleServerData_def Let_def split: if_splits prod.splits dest: sink_closed_kept client_send_stdout)

lemma stdout_fin:
  "handleServerFin conn f w = (e, w') \<Longrightarrow> sk_closed (cl_stdout w') \<Longrightarrow> sk_closed (cl_stdout w) \<or> h_offset f = rt_s2cRx (cl_rt w)"
  by (auto simp: handleServerFin_def Let_def split: if_splits)

lemma receive_frame_closes_stdout:
  assumes "sk_closed (cl_stdout (snd (receive_frame conn f p w)))" and "\<not> sk_closed (cl_stdout w)"
  shows "h_type f = ''fin'' \<and> h_offset f = rt_s2cRx (cl_rt w)"
proof (cases "h_type f = ''fin''")
  case True
  with assms show ?thesis using stdout_fin [of conn f w]
    by (auto simp: receive_frame_def split: if_splits prod.splits option.splits)
next
  case False
  obtain e w1 where d: "handleServerData conn f p w = (e, w1)" by fastforce
  from False assms stdout_data [OF d] d show ?thesis
    by (auto simp: receive_frame_def split: if_splits option.splits sum.splits)
qed

text \<open>
  A half-close never overtakes data: when a delivered frame makes the server half-close the target, the
  target has been given all of standard input; when one makes the client close standard output, that has been given all
  that the target sent. This holds however the network delays, repeats and reorders the frames.
\<close>

theorem tunnel_fin_after_all_data:
  assumes "0 < rc_buffer (cfg_resume ccfg)" and "0 < rc_buffer scfg"
    and "tunnel_step\<^sup>*\<^sup>* (start_tunnel ccfg lkg half scfg now sid) (c, s)"
  shows "(\<forall>conn h p. delivered (ws_out (cl_ws c (sc_ws conn))) h p \<longrightarrow> \<not> ss_c2sFin (sw_sess s) \<longrightarrow>
        ss_c2sFin (sw_sess (snd (run_frame conn h p s))) \<longrightarrow> target_written s = cl_stdin c)
    \<and> (\<forall>conn h p. delivered (ws_out (sw_ws s (cc_ws conn))) h p \<longrightarrow> \<not> sk_closed (cl_stdout c) \<longrightarrow>
        sk_closed (cl_stdout (snd (receive_frame conn h p c))) \<longrightarrow> stdout_written c = target_source s)"
proof -
  note d = tunnel_invD [OF tunnel_inv_reachable [OF assms(3,1,2)]]
  have eq: "prefix xs ys \<Longrightarrow> length xs = length ys \<Longrightarrow> xs = ys" for xs ys :: bytes by (auto simp: prefix_def)
  show ?thesis
  proof (intro conjI allI impI)
    fix conn h p assume del: "delivered (ws_out (cl_ws c (sc_ws conn))) h p"
      and "\<not> ss_c2sFin (sw_sess s)" "ss_c2sFin (sw_sess (snd (run_frame conn h p s)))"
    then have "h_type h = ''fin''" "h_offset h = ss_c2sRx (sw_sess s)" using run_frame_half_closes by blast+
    with delivered_from_client(1) [OF d(1) del] rx_le_written [OF d(2)] show "target_written s = cl_stdin c"
      by (intro eq [OF d(3)]) (simp add: client_frame_ok_def)
  next
    fix conn h p assume del: "delivered (ws_out (sw_ws s (cc_ws conn))) h p"
      and "\<not> sk_closed (cl_stdout c)" "sk_closed (cl_stdout (snd (receive_frame conn h p c)))"
    then have "h_type h = ''fin''" "h_offset h = rt_s2cRx (cl_rt c)" using receive_frame_closes_stdout by blast+
    with delivered_from_server(1) [OF d(2) del] inv_rx [OF d(1)] show "stdout_written c = target_source s"
      by (intro eq [OF d(4)]) (simp add: server_frame_ok_def)
  qed
qed

section \<open>A concrete run of both ends\<close>

definition demo_start :: sworld where
  "demo_start = start_server demo_cfg 0 ''s''"

definition demo_frame_header :: frame_header where
  "demo_frame_header = client_fill 1 (c2s_data_header ''s'' 0)"

definition demo_received :: sworld where
  "demo_received = snd (run_frame \<lparr>sc_ws = 0, sc_epoch = 1\<rparr> demo_frame_header [1, 2, 3] demo_start)"

lemma demo_accept_delivered: "delivered (ws_out (sw_ws demo_start 0)) (accept_header ''s'' 1 0 0) []"
proof -
  have w: "\<exists>msg. writeFrame (fill_header ''s'' 1 (accept_header ''s'' 1 0 0)) [] = Inr msg"
    by (rule accept_written) (simp_all add: short_id_def utf8_valid_ascii)
  have f: "fill_header ''s'' 1 (accept_header ''s'' 1 0 0) = accept_header ''s'' 1 0 0"
    by (simp add: fill_header_def accept_header_def)
  from w obtain msg where m: "writeFrame (accept_header ''s'' 1 0 0) [] = Inr msg" unfolding f ..
  have "wf_header (accept_header ''s'' 1 0 0)" by (simp add: wf_header_def accept_header_def utf8_valid_ascii)
  from readFrame_writeFrame [OF this m] m
  have "\<exists>msg. writeFrame (accept_header ''s'' 1 0 0) [] = Inr msg \<and> readFrame msg = Inr (accept_header ''s'' 1 0 0, [])" by blast
  moreover have "(accept_header ''s'' 1 0 0, []) \<in> set (ws_out (sw_ws demo_start 0))"
    using m f by (simp add: demo_start_def start_server_def server_send_out fresh_world_def open_session_def newServerSession_def)
      (simp add: server_send_def ws_send_def)
  ultimately show ?thesis by (simp add: delivered_def)
qed

lemma demo_data_delivered: "delivered (ws_out (cl_ws demo_sent 0)) demo_frame_header [1, 2, 3]"
proof -
  have "\<exists>msg. writeFrame demo_frame_header [1, 2, 3] = Inr msg"
    unfolding demo_frame_header_def by (rule c2s_data_written) (simp_all add: client_short_id_def utf8_valid_ascii maxPayloadBytes_def)
  then obtain msg where m: "writeFrame demo_frame_header [1, 2, 3] = Inr msg" ..
  have "wf_header demo_frame_header"
    by (simp add: demo_frame_header_def client_fill_def c2s_data_header_def wf_header_def utf8_valid_ascii dirClientToServer_def)
  from readFrame_writeFrame [OF this m] m show ?thesis
    by (auto simp: delivered_def demo_sent_eq demo_frame_header_def)
qed

lemma demo_tunnel_reachable:
  "tunnel_step\<^sup>*\<^sup>* (start_tunnel demo_client_cfg None False demo_cfg 0 ''s'') (demo_sent, demo_received)"
  "tunnel_step\<^sup>*\<^sup>* (start_tunnel demo_client_cfg None False demo_cfg 0 ''s'') (demo_sent, demo_start)"
  "tunnel_step\<^sup>*\<^sup>* (start_tunnel demo_client_cfg None False demo_cfg 0 ''s'') (stdin_wait None (stdin_wait None demo_connected), demo_start)"
proof -
  let ?c0 = "fresh_client demo_client_cfg None False"
  have acc: "ac_accept (demo_commit 0 1 0) = accept_header ''s'' 1 0 0" by (simp add: demo_commit_def accept_header_def)
  have "tunnel_step (?c0, demo_start) (snd (commitActivation (demo_commit 0 1 0) ?c0), demo_start)"
    by (rule t_client_commit [OF demo_accept_delivered _ acc]) (simp_all add: demo_commit_def demo_conn_def)
  then have 1: "tunnel_step\<^sup>*\<^sup>* (?c0, demo_start) (demo_connected, demo_start)"
    by (simp add: demo_connected_def demo_client_def)
  let ?w = "stdin_wait None (stdin_wait None demo_connected)"
  have 2: "tunnel_step\<^sup>*\<^sup>* (demo_connected, demo_start) (?w, demo_start)"
    using t_client_wait by (meson rtranclp.rtrancl_into_rtrancl r_into_rtranclp)
  have 3: "tunnel_step (?w, demo_start) (demo_sent, demo_start)"
    unfolding demo_sent_def by (rule t_client_read) (simp_all add: demo_reading demo_connected_state dataChunkBytes_def)
  have "delivered (ws_out (cl_ws demo_sent (sc_ws \<lparr>sc_ws = 0, sc_epoch = 1\<rparr>))) demo_frame_header [1, 2, 3]"
    using demo_data_delivered by simp
  then have 4: "tunnel_step (demo_sent, demo_start) (demo_sent, demo_received)"
    unfolding demo_received_def by (rule t_server_frame)
  from 1 2 3 4 show "tunnel_step\<^sup>*\<^sup>* (start_tunnel demo_client_cfg None False demo_cfg 0 ''s'') (demo_sent, demo_received)"
    "tunnel_step\<^sup>*\<^sup>* (start_tunnel demo_client_cfg None False demo_cfg 0 ''s'') (demo_sent, demo_start)"
    "tunnel_step\<^sup>*\<^sup>* (start_tunnel demo_client_cfg None False demo_cfg 0 ''s'') (stdin_wait None (stdin_wait None demo_connected), demo_start)"
    unfolding start_tunnel_def demo_start_def [symmetric] by (meson rtranclp_trans rtranclp.rtrancl_into_rtrancl)+
qed

lemma demo_limits: "0 < rc_buffer (cfg_resume demo_client_cfg)" "0 < rc_buffer demo_cfg"
  by (simp_all add: demo_client_cfg_def demo_cfg_def)



text \<open>The same client when its input ends at once: it sends a fin at offset 0.\<close>

definition demo_ended :: client_world where
  "demo_ended = sendClientFin (stdin_read [] (Some EOF) (stdin_wait None (stdin_wait None demo_connected)))"

definition demo_fin :: frame_header where
  "demo_fin = client_fill 1 (c2s_fin_header ''s'' 0)"

lemma demo_ended_state:
  "ws_out (cl_ws demo_ended 0) = [(demo_fin, [])]" "cl_stdin demo_ended = []"
  "delivered (ws_out (cl_ws demo_ended 0)) demo_fin []"
proof -
  have wf: "wf_header demo_fin"
    by (simp add: demo_fin_def client_fill_def c2s_fin_header_def wf_header_def utf8_valid_ascii dirClientToServer_def)
  have "\<exists>msg. writeFrame demo_fin [] = Inr msg"
    by (rule writeFrame_small [OF wf])
       (simp_all add: demo_fin_def client_fill_def c2s_fin_header_def header_text_def dirClientToServer_def)
  then obtain msg where m: "writeFrame demo_fin [] = Inr msg" ..
  let ?v = "set_stdin StdinFin (markClientFin (set_stdin StdinActive (set_stdin (StdinReading (demo_conn 0 1)) demo_connected)))"
  have v: "stdin_read [] (Some EOF) (stdin_wait None (stdin_wait None demo_connected)) = ?v"
    unfolding demo_reading by (simp add: stdin_read_def stdin_data_def markClientFin_def Let_def)
  have rt: "rt_active (cl_rt ?v) = Some (demo_conn 0 1)" "rt_sessionID (cl_rt ?v) = ''s''" "rt_c2sFinAt (cl_rt ?v) = 0"
    "rt_stdin (cl_rt ?v) = StdinFin" "cl_ws ?v = cl_ws demo_connected" "cl_stdin ?v = []"
    by (simp_all add: markClientFin_def demo_connected_state)
  have "client_send (demo_conn 0 1) (c2s_fin_header ''s'' 0) [] ?v = (None, ?v\<lparr>cl_ws := (cl_ws demo_connected)(0 :=
      (cl_ws demo_connected 0)\<lparr>ws_out := [(demo_fin, [])]\<rparr>)\<rparr>)"
    using client_send_healthy [of ?v "demo_conn 0 1" "c2s_fin_header ''s'' 0" "[]"] m rt
    by (simp add: demo_conn_def demo_connected_state demo_fin_def)
  then have d: "demo_ended = set_stdin StdinStopped (?v\<lparr>cl_ws := (cl_ws demo_connected)(0 :=
      (cl_ws demo_connected 0)\<lparr>ws_out := [(demo_fin, [])]\<rparr>)\<rparr>)"
    unfolding demo_ended_def v using rt by (simp add: sendClientFin_def waitActive_def)
  show o1: "ws_out (cl_ws demo_ended 0) = [(demo_fin, [])]"
    unfolding d by simp
  show "cl_stdin demo_ended = []"
    unfolding d by (simp add: markClientFin_def demo_connected_state)
  show "delivered (ws_out (cl_ws demo_ended 0)) demo_fin []"
    unfolding o1 delivered_def using m readFrame_writeFrame [OF wf m] by simp
qed

theorem tunnel_fin_after_all_data_witness:
  "ss_c2sFin (sw_sess (snd (run_frame \<lparr>sc_ws = 0, sc_epoch = 1\<rparr> demo_fin [] demo_start))) \<and> target_written demo_start = cl_stdin demo_ended"
proof -
  have "tunnel_step\<^sup>*\<^sup>* (start_tunnel demo_client_cfg None False demo_cfg 0 ''s'') (demo_ended, demo_start)"
  proof -
    let ?w = "stdin_wait None (stdin_wait None demo_connected)"
    have "tunnel_step (?w, demo_start) (stdin_read [] (Some EOF) ?w, demo_start)"
      by (rule t_client_read) (simp_all add: demo_reading demo_connected_state)
    with demo_tunnel_reachable(3) t_client_fin show ?thesis
      unfolding demo_ended_def by (meson rtranclp.rtrancl_into_rtrancl)
  qed
  note r = tunnel_fin_after_all_data [OF demo_limits this]
  have f: "\<not> ss_c2sFin (sw_sess demo_start)"
    by (simp add: demo_start_def start_server_def fresh_world_def open_session_def newServerSession_def)
  have g: "ss_c2sFin (sw_sess (snd (run_frame \<lparr>sc_ws = 0, sc_epoch = 1\<rparr> demo_fin [] demo_start)))"
  proof -
    have h: "h_type demo_fin = ''fin''" "h_direction demo_fin = dirClientToServer" "h_offset demo_fin = 0"
        "h_session_id demo_fin = ''s''" "h_epoch demo_fin = 1"
      by (simp_all add: demo_fin_def c2s_fin_header_def client_fill_def)
    have s: "ss_id (sw_sess demo_start) = ''s''" "ss_epoch (sw_sess demo_start) = 1" "ss_c2sRx (sw_sess demo_start) = 0"
        "ss_active (sw_sess demo_start) = Some \<lparr>sc_ws = 0, sc_epoch = 1\<rparr>" "\<not> ss_closed (sw_sess demo_start)"
      by (simp_all add: demo_start_def start_server_def fresh_world_def open_session_def newServerSession_def)
    have "isActive \<lparr>sc_ws = 0, sc_epoch = 1\<rparr> demo_fin demo_start" by (simp add: isActive_def Let_def h s)
    then show ?thesis by (auto simp: run_frame_def h handleClientFin_def Let_def s f split: prod.split option.split dest: server_send_eq)
  qed
  have "delivered (ws_out (cl_ws demo_ended (sc_ws \<lparr>sc_ws = 0, sc_epoch = 1\<rparr>))) demo_fin []" using demo_ended_state(3) by simp
  with r f g show ?thesis by blast
qed

section \<open>Error frames that the other side ignores\<close>

text \<open>
  \<open>serverConn.send\<close> leaves the session and epoch of an error frame empty, and the client's receive
  loop requires the current epoch of every frame but pings and pongs: once a session is active, an error
  frame of the server is skipped. Likewise the server skips the error frame by which a client announces a
  protocol error.
\<close>

theorem session_error_frames_ignored:
  "(rt_epoch (cl_rt c) \<noteq> 0 \<longrightarrow>
      receive_frame cconn (fill_header sid e (error_header m)) [] c = (True, c))
   \<and> (ss_id (sw_sess s) \<noteq> [] \<longrightarrow>
      run_frame sconn (client_fill e' (client_error_header m)) [] s = (True, s))"
  by (simp add: receive_frame_def frame_current_def run_frame_def isActive_def fill_header_def path_level_def client_fill_def
      error_header_def client_error_header_def Let_def)

theorem session_error_frames_ignored_witness:
  "receive_frame (demo_conn 0 1) (fill_header ''s'' 1 (error_header ''x'')) [] demo_sent = (True, demo_sent)"
  using session_error_frames_ignored [of demo_sent "demo_conn 0 1" "''s''" 1 "''x''"]
  by (simp add: demo_sent_eq demo_connected_state append_c2s_def)

section \<open>Live data that overtakes a resume\<close>

text \<open>
  \<open>resume\<close> up to its unlock, with the snapshot that the rest of it sends: from here on the new connection
  is the active one, and \<open>readTarget\<close> can send on it.
\<close>

definition resume_begin :: "nat \<Rightarrow> frame_header \<Rightarrow> sworld \<Rightarrow> (server_conn \<times> server_session) result \<times> sworld" where
  "resume_begin i f w =
     (let s = sw_sess w in
      if ss_closed s then (Inl (Errorf ''session is closed''), w)
      else if (\<exists>t. ss_disconnected s = Some t \<and> rc_timeout (sw_cfg w) < sw_now w - t) then
        (Inl (Errorf ''resume timeout''), closeTerminal ''resume_timeout'' ''resume timeout'' w)
      else if ss_c2sRx s < h_c2s_rx f then (Inl (Errorf ''client_to_server_rx is ahead of server''), w)
      else case advanceS2CAckLocked (h_s2c_rx f) s of
        Inl e \<Rightarrow> (Inl e, w)
      | Inr s1 \<Rightarrow>
          let s2 = resume_commit i s1; w1 = w\<lparr>sw_sess := s2\<rparr>
          in (Inr (\<lparr>sc_ws = i, sc_epoch = ss_epoch s2\<rparr>, s2),
              case ss_active s of None \<Rightarrow> w1 | Some old \<Rightarrow> server_ws_close (sc_ws old) w1))"

lemma resume_two_parts:
  "resume i f w = (case resume_begin i f w of
     (Inl e, w1) \<Rightarrow> (Inl e, w1)
   | (Inr (conn, s), w1) \<Rightarrow> (case resume_replay conn s w1 of (Some e, w2) \<Rightarrow> (Inl e, w2) | (None, w2) \<Rightarrow> (Inr conn, w2)))"
proof (cases "advanceS2CAckLocked (h_s2c_rx f) (sw_sess w)")
  case (Inl e)
  then show ?thesis by (auto simp: resume_def resume_begin_def Let_def)
next
  case (Inr s1)
  let ?w1 = "case ss_active (sw_sess w) of None \<Rightarrow> w\<lparr>sw_sess := resume_commit i s1\<rparr>
     | Some old \<Rightarrow> server_ws_close (sc_ws old) (w\<lparr>sw_sess := resume_commit i s1\<rparr>)"
  obtain e w2 where "resume_replay \<lparr>sc_ws = i, sc_epoch = ss_epoch s1 + 1\<rparr> (resume_commit i s1) ?w1 = (e, w2)" by fastforce
  with Inr show ?thesis by (cases e) (auto simp: resume_def resume_begin_def Let_def)
qed

lemma resume_begin_success:
  assumes "resume_begin i f w = (Inr (conn, s), w1)"
  obtains s1 where "advanceS2CAckLocked (h_s2c_rx f) (sw_sess w) = Inr s1" and "s = resume_commit i s1"
    and "conn = \<lparr>sc_ws = i, sc_epoch = ss_epoch s\<rparr>" and "sw_sess w1 = s"
    and "ws_out (sw_ws w1 i) = ws_out (sw_ws w i)"
proof (cases "advanceS2CAckLocked (h_s2c_rx f) (sw_sess w)")
  case (Inl e)
  with assms show ?thesis by (auto simp: resume_begin_def Let_def split: if_splits)
next
  case (Inr s1)
  with assms that show ?thesis by (auto simp: resume_begin_def Let_def split: if_splits option.splits)
qed

text \<open>
  C40. If the target's next bytes arrive between the commit of a resume and its accept frame, their data
  frame is the first frame on the new connection, and the client, which waits for the accept, gives the
  connection up. If they arrive after the accept and before the replay of unacknowledged bytes, the client
  sees a gap and ends the whole proxy session.
\<close>

theorem live_data_overtakes_resume:
  assumes inv: "server_inv w" and b: "resume_begin i f w = (Inr (conn, s), w1)" and bs: "bs \<noteq> []"
    and sent: "ws_out (sw_ws (reader_data bs w1) i) \<noteq> ws_out (sw_ws w1 i)"
  shows "\<exists>h. ws_out (sw_ws (reader_data bs w1) i) = ws_out (sw_ws w1 i) @ [(h, bs)]
    \<and> h_type h = ''data'' \<and> unat (h_offset h) = length (target_source w)
    \<and> hello_loop i path [\<lparr>hi_read = Inr (h, bs), hi_ctx = None, hi_stopped = True, hi_clear = None\<rparr>] c
        = (Some (Inl (phaseError helloPhase (Errorf (''unexpected frame '' @ go_quote ''data'' @ '' before accept'')))), c)
    \<and> (frame_current cc h (cl_rt c) \<and> unat (rt_s2cRx (cl_rt c)) < length (target_source w)
        \<and> \<not> rt_finished (cl_rt c) \<longrightarrow>
        rt_doneErr (cl_rt (snd (receive_frame cc h bs c))) = Some (Errorf ''server data offset gap''))"
proof -
  obtain s1 where a: "advanceS2CAckLocked (h_s2c_rx f) (sw_sess w) = Inr s1" and s: "s = resume_commit i s1"
    and conn: "conn = \<lparr>sc_ws = i, sc_epoch = ss_epoch s\<rparr>" and w1: "sw_sess w1 = s"
    by (rule resume_begin_success [OF b])
  let ?hd = "zero_header\<lparr>h_type := ''data'', h_direction := dirServerToClient, h_offset := ss_s2cNext s\<rparr>"
  let ?h = "fill_header (ss_id s) (sc_epoch conn) ?hd"
  let ?v = "upd_sess (\<lambda>s. append_s2c bs (note_read bs s)) w1"
  have act: "ss_active (sw_sess ?v) = Some conn" and id: "ss_id (sw_sess ?v) = ss_id s"
    using w1 s conn by (simp_all add: append_s2c_def note_read_def)
  obtain e w2 where snd: "server_send conn ?hd bs ?v = (e, w2)" by fastforce
  have out: "ws_out (sw_ws w2 i) = ws_out (sw_ws w1 i) @ (if e = None then [(?h, bs)] else [])"
    using server_send_out [of conn ?hd bs ?v i] snd id conn by simp
  have "ws_out (sw_ws (reader_data bs w1) i) = ws_out (sw_ws w2 i)"
    using snd act bs w1 by (simp add: reader_data_def Let_def sess_disconnect split: option.split)
  with out sent have o: "ws_out (sw_ws (reader_data bs w1) i) = ws_out (sw_ws w1 i) @ [(?h, bs)]" by (simp split: if_splits)
  have off: "unat (ss_s2cNext s) = length (target_source w)"
    using s s2c.advance_refines(4) [OF inv_sender_ok [OF inv] a] inv_sender_ok [OF inv] by (simp add: sender_ok_def)
  have gap: "rt_doneErr (cl_rt (snd (receive_frame cc ?h bs c))) = Some (Errorf ''server data offset gap'')"
    if "frame_current cc ?h (cl_rt c) \<and> unat (rt_s2cRx (cl_rt c)) < length (target_source w) \<and> \<not> rt_finished (cl_rt c)"
  proof -
    have "rt_s2cRx (cl_rt c) < ss_s2cNext s" using that off by (simp add: word_less_nat_alt)
    then have "handleServerData cc ?h bs c = (Some (Errorf ''server data offset gap''), c)"
      by (auto simp: handleServerData_def Let_def)
    with that show ?thesis by (simp add: receive_frame_def finish_rt)
  qed
  show ?thesis
    by (rule exI [of _ ?h]) (use o off gap in simp)
qed

theorem live_data_overtakes_resume_witness:
  "\<exists>w1 h. snd (resume_begin 1 demo_hello demo_read) = w1
     \<and> ws_out (sw_ws (reader_data [6] w1) 1) = ws_out (sw_ws w1 1) @ [(h, [6])] \<and> h_type h = ''data'' \<and> unat (h_offset h) = 5"
proof -
  obtain s1 where a: "advanceS2CAckLocked (h_s2c_rx demo_hello) (sw_sess demo_read) = Inr s1"
    by (rule s2c.advance_accepts [OF inv_sender_ok [OF demo_read_inv], of "h_s2c_rx demo_hello"])
       (simp_all add: demo_hello_def demo_read_state)
  let ?s = "resume_commit 1 s1" and ?conn = "\<lparr>sc_ws = 1, sc_epoch = ss_epoch (resume_commit 1 s1)\<rparr>"
  obtain w1 where b: "resume_begin 1 demo_hello demo_read = (Inr (?conn, ?s), w1)"
    and ws: "sw_ws w1 1 = sw_ws demo_read 1" and w1: "sw_sess w1 = ?s"
    using a by (simp add: resume_begin_def Let_def demo_read_state demo_hello_def server_ws_close_def del: One_nat_def resume_commit_frame)
  let ?v = "upd_sess (\<lambda>s. append_s2c [6] (note_read [6] s)) w1"
  let ?hd = "zero_header\<lparr>h_type := ''data'', h_direction := dirServerToClient, h_offset := ss_s2cNext s1\<rparr>"
  have id: "ss_id (sw_sess ?v) = ''s''" using w1 advance_frame(7) [OF a] by (simp add: append_s2c_def note_read_def demo_read_state)
  have "\<exists>msg. writeFrame (fill_header (ss_id (sw_sess ?v)) (sc_epoch ?conn) ?hd) [6] = Inr msg"
    unfolding id by (rule data_written) (simp_all add: short_id_def utf8_valid_ascii maxPayloadBytes_def)
  then have ok: "fst (server_send ?conn ?hd [6] ?v) = None"
    using server_send_healthy(1) [of ?v ?conn ?hd "[6]"] ws demo_read_state(5) by simp
  obtain w2 where snd: "server_send ?conn ?hd [6] ?v = (None, w2)" using ok by (cases "server_send ?conn ?hd [6] ?v") simp
  have "ws_out (sw_ws w2 1) \<noteq> ws_out (sw_ws w1 1)" using server_send_out [of ?conn ?hd "[6]" ?v 1] snd by simp
  moreover have "ss_active (sw_sess ?v) = Some ?conn" "ss_s2cNext (sw_sess w1) = ss_s2cNext s1"
    using w1 by (simp_all add: append_s2c_def note_read_def)
  ultimately have "ws_out (sw_ws (reader_data [6] w1) 1) \<noteq> ws_out (sw_ws w1 1)"
    using snd by (simp add: reader_data_def Let_def)
  note live_data_overtakes_resume [OF demo_read_inv b _ this]
  moreover have "length (target_source demo_read) = 5" by (simp add: demo_read_state)
  ultimately show ?thesis using b by fastforce
qed

section \<open>Input read on behalf of an old connection\<close>

lemma stale_stdin_data:
  assumes act: "rt_active (cl_rt w) = Some new" and ne: "cc_ws old \<noteq> cc_ws new" and cl: "ws_closed (cl_ws w (cc_ws old))"
    and bs: "bs \<noteq> []"
  shows "cl_rt (stdin_data old bs w) = append_c2s bs (cl_rt w)" "cl_ws (stdin_data old bs w) (cc_ws new) = cl_ws w (cc_ws new)"
proof -
  let ?v = "(w\<lparr>cl_stdin := cl_stdin w @ bs\<rparr>)\<lparr>cl_rt := append_c2s bs (cl_rt w)\<rparr>"
  let ?hd = "c2s_data_header (rt_sessionID (cl_rt w)) (rt_c2sNext (cl_rt w))"
  obtain e v where ws: "ws_send (client_fill (cc_epoch old) ?hd) bs (cl_ws w (cc_ws old)) = (Some e, v)" and v: "v = cl_ws w (cc_ws old)"
    using cl by (cases rule: ws_send_cases [of "client_fill (cc_epoch old) ?hd" bs "cl_ws w (cc_ws old)"]) auto
  then have snd: "client_send old ?hd bs ?v = (Some e, ?v)" by (simp add: client_send_def)
  have "Some new \<noteq> Some old" using ne by auto
  then have "dropActive old ?v = conn_close old ?v" using act by (simp add: dropActive_def)
  with snd bs have d: "stdin_data old bs w = conn_close old ?v"
    by (simp add: stdin_data_def appendClientBytes_def Let_def)
  show "cl_rt (stdin_data old bs w) = append_c2s bs (cl_rt w)" "cl_ws (stdin_data old bs w) (cc_ws new) = cl_ws w (cc_ws new)"
    unfolding d using ne by (simp_all add: conn_close_def Let_def)
qed

text \<open>
  C39. \<open>stdinLoop\<close> picks its connection before it blocks in the read. Input that arrives after a switch to
  another connection is sent on the old, closed one only: it stays in the buffer, no frame for it goes
  out on the active connection and no reconnect is requested. The next input is then sent at an offset
  beyond it, which the server refuses as a gap.
\<close>

theorem stale_read_strands_input:
  assumes inv: "client_inv w" and st: "rt_stdin (cl_rt w) = StdinReading old" and act: "rt_active (cl_rt w) = Some new"
    and ne: "cc_ws old \<noteq> cc_ws new" and cl: "ws_closed (cl_ws w (cc_ws old))" and bs: "bs \<noteq> []"
    and fit: "length (cl_stdin w) + length bs < stream_limit"
  shows "cl_ws (stdin_read bs None w) (cc_ws new) = cl_ws w (cc_ws new)
    \<and> rt_active (cl_rt (stdin_read bs None w)) = Some new
    \<and> rt_c2sBuf (cl_rt (stdin_read bs None w)) = rt_c2sBuf (cl_rt w) @ bs
    \<and> rt_reconnectSignal (cl_rt (stdin_read bs None w)) = rt_reconnectSignal (cl_rt w)
    \<and> (ss_c2sRx (sw_sess s) = rt_c2sNext (cl_rt w) \<longrightarrow>
        handleClientData sconn (c2s_data_header sid (rt_c2sNext (cl_rt (stdin_read bs None w)))) rest s
          = (Some (Errorf ''client data offset gap''), s))"
proof -
  let ?w0 = "set_stdin StdinActive w"
  have r: "stdin_read bs None w = stdin_data old bs ?w0" using st by (simp add: stdin_read_def Let_def)
  have rt: "cl_rt (stdin_read bs None w) = append_c2s bs ((cl_rt w)\<lparr>rt_stdin := StdinActive\<rparr>)"
    and ws: "cl_ws (stdin_read bs None w) (cc_ws new) = cl_ws w (cc_ws new)"
    unfolding r using stale_stdin_data [of ?w0 new old bs] act ne cl bs by simp_all
  have nxt: "unat (rt_c2sNext (cl_rt w) + of_nat (length bs)) = unat (rt_c2sNext (cl_rt w)) + length bs"
    using inv_sender [OF inv] fit by (intro u64_add_nat) (simp add: sender_ok_def)
  then have "rt_c2sNext (cl_rt w) < rt_c2sNext (cl_rt w) + of_nat (length bs)"
    using bs by (simp add: word_less_nat_alt)
  then have "handleClientData sconn (c2s_data_header sid (rt_c2sNext (cl_rt w) + of_nat (length bs))) rest s
      = (Some (Errorf ''client data offset gap''), s)" if "ss_c2sRx (sw_sess s) = rt_c2sNext (cl_rt w)"
    using that by (auto simp: handleClientData_def Let_def c2s_data_header_def)
  with rt ws act show ?thesis by (simp add: append_c2s_def)
qed

definition demo_switched :: client_world where
  "demo_switched = snd (commitActivation (demo_commit 1 2 0) (set_stdin (StdinReading (demo_conn 0 1)) demo_connected))"

lemma demo_switched_eq:
  "demo_switched = conn_close (demo_conn 0 1) (demo_connected\<lparr>cl_rt := commit_state (demo_commit 1 2 0) 0
     ((cl_rt demo_connected)\<lparr>rt_stdin := StdinReading (demo_conn 0 1)\<rparr>), cl_saved := [''a'', ''a'']\<rparr>)"
proof -
  have adv: "advanceC2SAckLocked 0 ((cl_rt demo_connected)\<lparr>rt_stdin := s\<rparr>) = Inr ((cl_rt demo_connected)\<lparr>rt_stdin := s\<rparr>)" for s
    by (simp add: advanceC2SAckLocked_def demo_connected_eq demo_client_def fresh_client_def newClientRuntime_def commit_state_def
        rt_broadcast_def)
  have now: "cl_now demo_connected = 0" "cl_saved demo_connected = [''a'']"
    by (simp_all add: demo_connected_eq demo_client_def fresh_client_def)
  show ?thesis
    unfolding demo_switched_def commitActivation_def commit_publish_def Let_def
    by (simp add: demo_connected_state adv now demo_commit_def demo_conn_def demo_path_def replayClientBytes_def Let_def chunk_loop.simps)
qed

theorem stale_read_strands_input_witness:
  "cl_ws (stdin_read [9] None demo_switched) 1 = cl_ws demo_switched 1
   \<and> rt_c2sBuf (cl_rt (stdin_read [9] None demo_switched)) = [9] \<and> rt_active (cl_rt (stdin_read [9] None demo_switched)) = Some (demo_conn 1 2)"
proof -
  have i: "client_inv demo_switched"
    unfolding demo_switched_def
    by (intro commitActivation_inv set_stdin_inv demo_connected_inv) (simp add: demo_connected_state demo_client_cfg_def)
  have st: "rt_stdin (cl_rt demo_switched) = StdinReading (demo_conn 0 1)" "rt_active (cl_rt demo_switched) = Some (demo_conn 1 2)"
    "ws_closed (cl_ws demo_switched 0)" "cl_stdin demo_switched = []" "rt_c2sBuf (cl_rt demo_switched) = []"
    by (simp_all add: demo_switched_eq demo_connected_state demo_commit_def conn_close_def demo_conn_def Let_def)
      (simp add: demo_connected_eq demo_client_def fresh_client_def)
  have k: "cc_ws (demo_conn 0 1) = 0" "cc_ws (demo_conn 1 2) = 1" by (simp_all add: demo_conn_def)
  from stale_read_strands_input [OF i st(1,2), of "[9]"] show ?thesis
    unfolding k by (simp add: st k)
qed

end
