(* ===== verification/Recovery.thy ===== *)
theory Recovery
  imports Tunnel_Props
begin

text \<open>
  The tunnel can always recover: from any reachable state in which neither side has ended, one new connection
  is enough to bring every byte that was ever read on one side to the other. This composes the resume of the
  server, the activation of the client, and the handling of the data frames that both resend.
\<close>

section \<open>Reading a resent stream\<close>

text \<open>
  A reader that takes the frame at its offset, whatever else it does, takes a stream that was cut into chunks.
  \<open>wire\<close> says which chunks are there to be read, \<open>ready\<close> what the reader needs and keeps.
\<close>

locale stream_reader =
  fixes step :: "'s \<Rightarrow> 's \<Rightarrow> bool" and ready :: "'s \<Rightarrow> bool" and wire :: "u64 \<Rightarrow> bytes \<Rightarrow> bool"
    and rx_of :: "'s \<Rightarrow> u64" and out_of :: "'s \<Rightarrow> bytes"
  assumes reads: "ready s \<Longrightarrow> wire (rx_of s) p \<Longrightarrow>
    \<exists>s'. step s s' \<and> ready s' \<and> rx_of s' = rx_of s + of_nat (length p) \<and> out_of s' = out_of s @ p"
begin

lemma reads_all:
  assumes "ready s" and "off = rx_of s" and "\<And>a p. (a, p) \<in> set (chunks off data) \<Longrightarrow> wire a p"
  shows "\<exists>s'. step\<^sup>*\<^sup>* s s' \<and> ready s' \<and> out_of s' = out_of s @ data"
  using assms
proof (induction off data arbitrary: s rule: chunks.induct)
  case (1 off data)
  show ?case
  proof (cases "data = []")
    case True
    with 1 show ?thesis by auto
  next
    case False
    let ?n = "min (length data) maxPayloadBytes"
    have c: "chunks off data = (off, take ?n data) # chunks (off + of_nat ?n) (drop ?n data)"
      using False by (subst chunks.simps) (simp add: Let_def)
    with 1 have "wire (rx_of s) (take ?n data)" by simp
    from reads [OF 1(2) this] obtain s1 where s1: "step s s1" "ready s1" "rx_of s1 = off + of_nat ?n"
      "out_of s1 = out_of s @ take ?n data" using 1(3) by (auto simp: min_def)
    have "\<And>a p. (a, p) \<in> set (chunks (off + of_nat ?n) (drop ?n data)) \<Longrightarrow> wire a p" using 1(4) c by simp
    from "1.IH" [OF False refl s1(2) s1(3) [symmetric] this] obtain s2 where
      "step\<^sup>*\<^sup>* s1 s2" "ready s2" "out_of s2 = out_of s1 @ drop ?n data" by auto
    with s1 show ?thesis by (intro exI [of _ s2]) (auto intro: converse_rtranclp_into_rtranclp)
  qed
qed

end

section \<open>Frames on the wire\<close>

definition stream_header :: "string \<Rightarrow> string \<Rightarrow> u64 \<Rightarrow> u64 \<Rightarrow> frame_header" where
  "stream_header d sid e off =
     zero_header\<lparr>h_type := ''data'', h_session_id := sid, h_direction := d, h_epoch := e, h_offset := off\<rparr>"

lemma chunk_frames_stream: "chunk_frames sid e d cs = map (\<lambda>(off, p). (stream_header d sid e off, p)) cs"
  by (auto simp: chunk_frames_def stream_header_def fill_header_def path_level_def data_header_def)

lemma c2s_chunks_stream: "c2s_chunks sid e cs = map (\<lambda>(off, p). (stream_header dirClientToServer sid e off, p)) cs"
  by (auto simp: c2s_chunks_def stream_header_def client_fill_def c2s_data_header_def)

lemma delivered_small:
  assumes "(h, p) \<in> set out" and "wf_header h" and "header_text h \<le> 10000" and "h_type h \<noteq> []"
    and "h_type h \<noteq> ''data'' \<Longrightarrow> p = []" and "length p \<le> maxPayloadBytes"
  shows "delivered out h p"
  using writeFrame_small [OF assms(2-6)] readFrame_writeFrame [OF assms(2)] assms(1) by (auto simp: delivered_def)

lemma delivered_stream:
  assumes "(stream_header d sid e off, p) \<in> set out" and "short_id sid" and "length p \<le> maxPayloadBytes"
    and "d \<in> {dirClientToServer, dirServerToClient}"
  shows "delivered out (stream_header d sid e off) p"
  using assms
  by (intro delivered_small)
     (auto simp: stream_header_def wf_header_def header_text_def short_id_def utf8_valid_ascii
       dirClientToServer_def dirServerToClient_def)

lemma delivered_more: "delivered out h p \<Longrightarrow> set out \<subseteq> set out' \<Longrightarrow> delivered out' h p"
  by (auto simp: delivered_def)

definition open_sink :: "sink \<Rightarrow> bool" where
  "open_sink sk \<longleftrightarrow> \<not> sk_closed sk \<and> sk_budget sk = None"

lemma writeAll_open: "open_sink sk \<Longrightarrow> writeAll sink_write sk p = (length p, None, sk\<lparr>sk_written := sk_written sk @ p\<rparr>)"
  by (cases "p = []") (simp_all add: writeAll.simps open_sink_def sink_write_def)

section \<open>The server reads\<close>

text \<open>\<open>out\<close> are frames that the session has sent on the connection, \<open>src\<close> is what the target sent.\<close>

definition server_ready :: "client_world \<Rightarrow> server_conn \<Rightarrow> string \<Rightarrow> bytes \<Rightarrow> frame set \<Rightarrow> tunnel \<Rightarrow> bool" where
  "server_ready c conn sid src out t \<longleftrightarrow> fst t = c \<and> (let w = snd t; s = sw_sess w in
     \<not> ss_closed s \<and> ss_active s = Some conn \<and> ss_epoch s = sc_epoch conn \<and> ss_id s = sid
     \<and> open_sink (tg_sink (ss_target s)) \<and> target_source w = src \<and> out \<subseteq> set (ws_out (sw_ws w (sc_ws conn))))"

lemma run_frame_data_ready:
  fixes p :: bytes
  assumes r: "server_ready c conn sid src out (c, w)" and off: "off = ss_c2sRx (sw_sess w)"
  defines "w' \<equiv> snd (run_frame conn (stream_header dirClientToServer sid (sc_epoch conn) off) p w)"
  shows "server_ready c conn sid src out (c, w')" "ss_c2sRx (sw_sess w') = off + of_nat (length p)"
    "target_written w' = target_written w @ p"
proof -
  let ?f = "stream_header dirClientToServer sid (sc_epoch conn) off"
  let ?w1 = "upd_sess (\<lambda>s. s\<lparr>ss_target := (ss_target s)\<lparr>tg_sink := (tg_sink (ss_target s))\<lparr>sk_written := target_written w @ p\<rparr>\<rparr>,
      ss_c2sRx := ss_c2sRx s + of_nat (length p)\<rparr>) w"
  let ?h = "ack_header dirClientToServer (ss_c2sRx (sw_sess ?w1))"
  have "isActive conn ?f w" using r by (simp add: server_ready_def isActive_def stream_header_def Let_def)
  moreover have "handleClientData conn ?f p w = (None, snd (server_send conn ?h [] ?w1))"
    using r off by (simp add: server_ready_def Let_def handleClientData_def stream_header_def writeAll_open)
  ultimately have w': "w' = snd (server_send conn ?h [] ?w1)"
    unfolding w'_def by (simp add: run_frame_def stream_header_def)
  show "server_ready c conn sid src out (c, w')"
    using r server_send_out [of conn ?h "[]" ?w1 "sc_ws conn"] unfolding w'
    by (auto simp: server_ready_def Let_def open_sink_def)
  show "ss_c2sRx (sw_sess w') = off + of_nat (length p)" "target_written w' = target_written w @ p"
    using off unfolding w' by simp_all
qed

interpretation server_reader: stream_reader tunnel_step "server_ready c conn sid src out"
  "\<lambda>off p. delivered (ws_out (cl_ws c (sc_ws conn))) (stream_header dirClientToServer sid (sc_epoch conn) off) p"
  "\<lambda>t. ss_c2sRx (sw_sess (snd t))" "\<lambda>t. target_written (snd t)" for c conn sid src out
proof
  fix t p
  assume r: "server_ready c conn sid src out t"
    and d: "delivered (ws_out (cl_ws c (sc_ws conn))) (stream_header dirClientToServer sid (sc_epoch conn) (ss_c2sRx (sw_sess (snd t)))) p"
  then obtain w where t: "t = (c, w)" by (cases t) (simp add: server_ready_def)
  from t_server_frame [OF d [unfolded t snd_conv]] run_frame_data_ready [OF r [unfolded t] refl]
  show "\<exists>t'. tunnel_step t t' \<and> server_ready c conn sid src out t'
      \<and> ss_c2sRx (sw_sess (snd t')) = ss_c2sRx (sw_sess (snd t)) + of_nat (length p)
      \<and> target_written (snd t') = target_written (snd t) @ p"
    unfolding t by (metis snd_conv)
qed

section \<open>The client reads\<close>

definition client_ready :: "sworld \<Rightarrow> client_conn \<Rightarrow> string \<Rightarrow> bytes \<Rightarrow> tunnel \<Rightarrow> bool" where
  "client_ready s conn sid inp t \<longleftrightarrow> snd t = s \<and> (let w = fst t; rt = cl_rt w in
     rt_active rt = Some conn \<and> rt_epoch rt = cc_epoch conn \<and> rt_sessionID rt = sid
     \<and> open_sink (cl_stdout w) \<and> cl_stdin w = inp)"

lemma receive_frame_data_ready:
  fixes p :: bytes
  assumes r: "client_ready s conn sid inp (w, s)" and off: "off = rt_s2cRx (cl_rt w)"
  defines "w' \<equiv> snd (receive_frame conn (stream_header dirServerToClient sid (cc_epoch conn) off) p w)"
  shows "client_ready s conn sid inp (w', s)" "rt_s2cRx (cl_rt w') = off + of_nat (length p)"
    "stdout_written w' = stdout_written w @ p"
proof -
  let ?f = "stream_header dirServerToClient sid (cc_epoch conn) off"
  let ?w1 = "upd_rt (\<lambda>rt. rt\<lparr>rt_s2cRx := rt_s2cRx rt + of_nat (length p)\<rparr>)
    (w\<lparr>cl_stdout := (cl_stdout w)\<lparr>sk_written := stdout_written w @ p\<rparr>\<rparr>)"
  let ?h = "s2c_ack_header sid (rt_s2cRx (cl_rt ?w1))"
  have "frame_current conn ?f (cl_rt w)" using r by (simp add: client_ready_def frame_current_def stream_header_def Let_def)
  moreover have "handleServerData conn ?f p w = (None, snd (client_send conn ?h [] ?w1))"
    using r off by (simp add: client_ready_def Let_def handleServerData_def stream_header_def writeAll_open)
  ultimately have w': "w' = snd (client_send conn ?h [] ?w1)"
    unfolding w'_def by (simp add: receive_frame_def stream_header_def)
  show "client_ready s conn sid inp (w', s)"
    using r unfolding w' by (simp add: client_ready_def Let_def open_sink_def)
  show "rt_s2cRx (cl_rt w') = off + of_nat (length p)" "stdout_written w' = stdout_written w @ p"
    using off unfolding w' by simp_all
qed

interpretation client_reader: stream_reader tunnel_step "client_ready s conn sid inp"
  "\<lambda>off p. delivered (ws_out (sw_ws s (cc_ws conn))) (stream_header dirServerToClient sid (cc_epoch conn) off) p"
  "\<lambda>t. rt_s2cRx (cl_rt (fst t))" "\<lambda>t. stdout_written (fst t)" for s conn sid inp
proof
  fix t p
  assume r: "client_ready s conn sid inp t"
    and d: "delivered (ws_out (sw_ws s (cc_ws conn))) (stream_header dirServerToClient sid (cc_epoch conn) (rt_s2cRx (cl_rt (fst t)))) p"
  then obtain w where t: "t = (w, s)" by (cases t) (simp add: client_ready_def)
  from t_client_frame [OF d [unfolded t fst_conv]] receive_frame_data_ready [OF r [unfolded t] refl]
  show "\<exists>t'. tunnel_step t t' \<and> client_ready s conn sid inp t'
      \<and> rt_s2cRx (cl_rt (fst t')) = rt_s2cRx (cl_rt (fst t)) + of_nat (length p)
      \<and> stdout_written (fst t') = stdout_written (fst t) @ p"
    unfolding t by (metis fst_conv)
qed

section \<open>The hello and the activation\<close>

lemma hello_sent:
  assumes ws: "healthy (cl_ws c i)" and id: "short_id (rt_sessionID (cl_rt c))"
    and name: "utf8_valid (cfg_name (cl_cfg c))" "length (cfg_name (cl_cfg c)) \<le> 900"
  obtains ws where "tunnel_step (c, s) (c\<lparr>cl_ws := (cl_ws c)(i := ws)\<rparr>, s)" and "healthy ws"
    and "delivered (ws_out ws) (hello_header (make_request (cl_cfg c) path True (cl_rt c))) []"
proof -
  let ?r = "make_request (cl_cfg c) path True (cl_rt c)" and ?ws = "cl_ws c i"
  let ?h = "hello_header ?r"
  have h: "wf_header ?h" "header_text ?h \<le> 10000" "h_type ?h = ''hello''"
    using id name
    by (simp_all add: hello_header_def make_request_def helloOffsets_def wf_header_def header_text_def short_id_def utf8_valid_ascii)
  then obtain msg where "writeFrame ?h [] = Inr msg" using writeFrame_small [of ?h "[]"] by auto
  with ws have "ws_send ?h [] ?ws = (None, ?ws\<lparr>ws_out := ws_out ?ws @ [(?h, [])]\<rparr>)"
    by (cases ?ws) (simp add: ws_send_def healthy_def)
  then have "snd (startSession i ?r None None [] c) = c\<lparr>cl_ws := (cl_ws c)(i := ?ws\<lparr>ws_out := ws_out ?ws @ [(?h, [])]\<rparr>)\<rparr>"
    by (simp add: startSession_def raw_send_def)
  with t_client_hello [OF request_taken_now, of c s i "cl_cfg c" path True None None "[]"] show thesis
    using ws h by (intro that [of "?ws\<lparr>ws_out := ws_out ?ws @ [(?h, [])]\<rparr>"]) (simp_all add: healthy_def delivered_small)
qed

lemma client_stays_healthy:
  assumes "healthy (cl_ws w (cc_ws conn))" and "\<exists>msg. writeFrame (client_fill (cc_epoch conn) h) p = Inr msg"
  shows "fst (client_send conn h p w) = None" "healthy (cl_ws (snd (client_send conn h p w)) (cc_ws conn))"
  using assms by (auto simp: healthy_def client_send_def ws_send_def)

lemma c2s_header_written:
  assumes "short_id sid" and "length p \<le> maxPayloadBytes"
  shows "\<exists>msg. writeFrame (client_fill e (c2s_data_header sid off)) p = Inr msg"
    "\<exists>msg. writeFrame (client_fill e (c2s_fin_header sid off)) [] = Inr msg"
  using assms
  by (auto intro!: writeFrame_small simp: client_fill_def c2s_data_header_def c2s_fin_header_def wf_header_def header_text_def
      short_id_def utf8_valid_ascii dirClientToServer_def)

lemma client_send_all_healthy:
  assumes "healthy (cl_ws w (cc_ws conn))" and "short_id sid" and "\<And>off p. (off, p) \<in> set cs \<Longrightarrow> length p \<le> maxPayloadBytes"
  obtains w' where "send_all (\<lambda>off p. client_send conn (c2s_data_header sid off) p) cs w = (None, w')"
    and "healthy (cl_ws w' (cc_ws conn))"
  using assms
proof (induction cs arbitrary: w thesis)
  case (Cons oc cs)
  obtain off p where oc: "oc = (off, p)" by (cases oc)
  obtain e w1 where s: "client_send conn (c2s_data_header sid off) p w = (e, w1)" by fastforce
  have "length p \<le> maxPayloadBytes" by (rule Cons.prems(4) [of off]) (simp add: oc)
  from client_stays_healthy [OF Cons.prems(2) c2s_header_written(1) [OF Cons.prems(3) this], of off] s
  have e: "e = None" "healthy (cl_ws w1 (cc_ws conn))" by simp_all
  have "length p \<le> maxPayloadBytes" if "(off, p) \<in> set cs" for off p by (rule Cons.prems(4) [of off]) (simp add: that)
  with Cons.IH [OF _ e(2) Cons.prems(3)] obtain w' where
    "send_all (\<lambda>off p. client_send conn (c2s_data_header sid off) p) cs w1 = (None, w')" "healthy (cl_ws w' (cc_ws conn))" by blast
  with s e(1) oc show ?case by (intro Cons.prems(1)) simp_all
qed simp

lemma replay_healthy:
  assumes inv: "client_inv w" and ws: "healthy (cl_ws w (cc_ws conn))" and id: "short_id (rt_sessionID (cl_rt w))"
  shows "\<exists>w'. replayClientBytes conn w = (None, w')"
proof -
  obtain w1 where l: "chunk_loop (\<lambda>off p. client_send conn (c2s_data_header (rt_sessionID (cl_rt w)) off) p)
      (rt_c2sBufFrom (cl_rt w)) (rt_c2sBuf (cl_rt w)) w = (None, w1)" and h: "healthy (cl_ws w1 (cc_ws conn))"
    unfolding chunk_loop_send_all
    by (rule client_send_all_healthy [OF ws id, of "chunks (rt_c2sBufFrom (cl_rt w)) (rt_c2sBuf (cl_rt w))"])
       (use chunks_size in auto)
  let ?fin = "c2s_fin_header (rt_sessionID (cl_rt w)) (rt_c2sFinAt (cl_rt w))"
  obtain e w2 where s: "client_send conn ?fin [] w1 = (e, w2)" by fastforce
  with client_stays_healthy(1) [OF h c2s_header_written(2) [OF id, of "[]"]] have "e = None" by (metis fst_conv list.size(3) zero_le)
  with l s show ?thesis by (simp add: replayClientBytes_def Let_def)
qed

lemma commit_state_session: "rt_sessionID (commit_state a now rt) = h_session_id (ac_accept a)"
  by (simp add: commit_state_def rt_broadcast_def)

lemma commit_accepted:
  assumes inv: "client_inv w" and "\<not> rt_finished (cl_rt w)" and "h_session_id (ac_accept a) = rt_sessionID (cl_rt w)"
    and rx: "unat (h_c2s_rx (ac_accept a)) \<le> length (cl_stdin w)"
    and ws: "healthy (cl_ws w (cc_ws (ac_conn a)))" "\<And>old. rt_active (cl_rt w) = Some old \<Longrightarrow> cc_ws old \<noteq> cc_ws (ac_conn a)"
    and id: "short_id (rt_sessionID (cl_rt w))"
  shows "\<exists>w'. commitActivation a w = (None, w')"
proof -
  obtain rt where adv: "advanceC2SAckLocked (h_c2s_rx (ac_accept a)) (cl_rt w) = Inr rt"
    by (rule c2s.advance_accepts [OF inv_sender [OF inv] rx])
  have "\<not> rt_c2sNext (cl_rt w) < h_c2s_rx (ac_accept a)"
    using inv_sender [OF inv] rx by (simp add: sender_ok_def word_less_nat_alt)
  with adv assms(2,3) obtain w1 where p: "commit_publish a w = (None, w1)" by (simp add: commit_publish_def Let_def)
  have rt1: "rt_sessionID (cl_rt w1) = rt_sessionID (cl_rt w)"
    using commit_publish_success [OF p] assms(3) by (metis (no_types, lifting) commit_state_session)
  have "healthy (cl_ws w1 (cc_ws (ac_conn a)))"
    using p adv ws assms(2,3) by (auto simp: commit_publish_def Let_def conn_close_def split: if_splits option.splits)
  moreover have "client_inv w1" using commit_publish_inv [OF inv, of a] p by simp
  ultimately obtain w' where "replayClientBytes (ac_conn a) w1 = (None, w')"
    using replay_healthy [of w1 "ac_conn a"] rt1 id by auto
  with p show ?thesis by (simp add: commitActivation_def)
qed

section \<open>One connection is enough\<close>

text \<open>
  What a recovery on the WebSocket \<open>i\<close> needs: neither side has ended and the session is the client's, its timeout
  has not passed, the WebSocket is fresh and works, and the two outputs take what they are given.
\<close>

definition recoverable :: "nat \<Rightarrow> tunnel \<Rightarrow> bool" where
  "recoverable i t \<longleftrightarrow> (case t of (c, s) \<Rightarrow>
     \<not> rt_finished (cl_rt c) \<and> \<not> ss_closed (sw_sess s)
     \<and> rt_sessionID (cl_rt c) = ss_id (sw_sess s) \<and> short_id (ss_id (sw_sess s))
     \<and> utf8_valid (cfg_name (cl_cfg c)) \<and> length (cfg_name (cl_cfg c)) \<le> 900
     \<and> (\<forall>t. ss_disconnected (sw_sess s) = Some t \<longrightarrow> sw_now s - t \<le> rc_timeout (sw_cfg s))
     \<and> healthy (cl_ws c i) \<and> healthy (sw_ws s i)
     \<and> (\<forall>old. rt_active (cl_rt c) = Some old \<longrightarrow> cc_ws old \<noteq> i) \<and> (\<forall>old. ss_active (sw_sess s) = Some old \<longrightarrow> sc_ws old \<noteq> i)
     \<and> open_sink (tg_sink (ss_target (sw_sess s))) \<and> open_sink (cl_stdout c))"

text \<open>The two handshakes: a hello, the resume it causes, and the commit of the activation.\<close>

lemma reconnects:
  fixes path :: path_config
  assumes inv: "tunnel_inv (c, s)" and r: "recoverable i (c, s)"
  defines "sid \<equiv> ss_id (sw_sess s)" and "e \<equiv> ss_epoch (sw_sess s) + 1"
  obtains c' s' where "tunnel_step\<^sup>*\<^sup>* (c, s) (c', s')"
    and "client_ready s' \<lparr>cc_ws = i, cc_path = path, cc_epoch = e\<rparr> sid (cl_stdin c) (c', s')"
    and "server_ready c' \<lparr>sc_ws = i, sc_epoch = e\<rparr> sid (target_source s) (set (ws_out (sw_ws s' i))) (c', s')"
    and "ss_c2sRx (sw_sess s') = ss_c2sRx (sw_sess s)" and "target_written s' = target_written s"
    and "rt_s2cRx (cl_rt c') = rt_s2cRx (cl_rt c)" and "stdout_written c' = stdout_written c"
    and "\<And>a p. (a, p) \<in> set (chunks (ss_c2sRx (sw_sess s)) (drop (unat (ss_c2sRx (sw_sess s))) (cl_stdin c))) \<Longrightarrow>
      (stream_header dirClientToServer sid e a, p) \<in> set (ws_out (cl_ws c' i))"
    and "\<And>a p. (a, p) \<in> set (chunks (rt_s2cRx (cl_rt c)) (drop (unat (rt_s2cRx (cl_rt c))) (target_source s))) \<Longrightarrow>
      (stream_header dirServerToClient sid e a, p) \<in> set (ws_out (sw_ws s' i))"
proof -
  note d = tunnel_invD [OF inv] and rc = r [unfolded recoverable_def prod.case]
  note rx = rx_le_written [OF d(2)] inv_rx [OF d(1)]
  let ?r = "make_request (cl_cfg c) path True (cl_rt c)"
  let ?h = "hello_header ?r"
  have h: "h_type ?h = ''hello''" "h_c2s_rx ?h = rt_c2sAck (cl_rt c)" "h_s2c_rx ?h = rt_s2cRx (cl_rt c)"
    by (simp_all add: hello_header_def make_request_def helloOffsets_def)
  obtain ws where t1: "tunnel_step (c, s) (c\<lparr>cl_ws := (cl_ws c)(i := ws)\<rparr>, s)" and ws: "healthy ws"
    and del: "delivered (ws_out ws) ?h []"
    by (rule hello_sent [of c i s path]) (use rc in simp_all)
  let ?c1 = "c\<lparr>cl_ws := (cl_ws c)(i := ws)\<rparr>"
  have i1: "tunnel_inv (?c1, s)" by (rule tunnel.step_inv [OF t1 inv])
  have up: "\<not> ss_c2sRx (sw_sess s) < h_c2s_rx ?h" "unat (h_s2c_rx ?h) \<le> length (target_source s)"
    using d rx h by (simp_all add: word_less_nat_alt prefix_length_le)
  have "\<exists>conn. fst (resume i ?h s) = Inr conn"
    by (rule resume_accepts [OF inv_sender_ok [OF d(2)]]) (use rc up in auto)
  then obtain conn s2 where res: "resume i ?h s = (Inr conn, s2)" by (metis prod.collapse)
  from resume_sess [OF res] obtain s1 where adv: "advanceS2CAckLocked (h_s2c_rx ?h) (sw_sess s) = Inr s1"
    and s2: "sw_sess s2 = resume_commit i s1" and conn: "conn = \<lparr>sc_ws = i, sc_epoch = e\<rparr>" unfolding e_def by blast
  have t2: "tunnel_step (?c1, s) (?c1, s2)"
    using t_server_resume [of ?c1 i ?h "[]" s] del h res by simp
  have i2: "tunnel_inv (?c1, s2)" by (rule tunnel.step_inv [OF t2 i1])
  have off: "max (ss_s2cAck (sw_sess s)) (h_s2c_rx ?h) = rt_s2cRx (cl_rt c)"
    using d(6) rx(2) h by (simp add: max_def word_le_nat_alt)
  let ?acc = "accept_header sid e (ss_c2sRx (sw_sess s)) (rt_s2cRx (cl_rt c))"
  obtain fins where out2: "ws_out (sw_ws s2 i) = ws_out (sw_ws s i) @ [(?acc, [])]
      @ chunk_frames sid e dirServerToClient (chunks (rt_s2cRx (cl_rt c)) (drop (unat (rt_s2cRx (cl_rt c))) (target_source s))) @ fins"
    by (rule resume_sends [OF d(2) res, unfolded off conn]) (rule that, simp add: sid_def)
  have acc: "delivered (ws_out (sw_ws s2 i)) ?acc []"
    using rc out2 by (intro delivered_small)
      (auto simp: accept_header_def wf_header_def header_text_def short_id_def utf8_valid_ascii sid_def)
  let ?a = "\<lparr>ac_conn = \<lparr>cc_ws = i, cc_path = path, cc_epoch = e\<rparr>, ac_accept = ?acc, ac_path = path, ac_resume = True\<rparr>"
  have a: "h_type ?acc = ''accept''" "h_session_id ?acc = sid" "h_epoch ?acc = e" "h_c2s_rx ?acc = ss_c2sRx (sw_sess s)"
    by (simp_all add: accept_header_def)
  have "\<exists>c2. commitActivation ?a ?c1 = (None, c2)"
    by (rule commit_accepted [OF tunnel_invD(1) [OF i2]]) (use rc a ws rx d(3) in \<open>auto simp: sid_def prefix_length_le\<close>)
  then obtain c2 where com: "commitActivation ?a ?c1 = (None, c2)" ..
  have t3: "tunnel_step (?c1, s2) (c2, s2)"
    using t_client_commit [of s2 i ?acc "[]" ?a ?c1] acc a com by simp
  have off2: "max (rt_c2sAck (cl_rt c)) (ss_c2sRx (sw_sess s)) = ss_c2sRx (sw_sess s)"
    using d(5) rx(1) by (simp add: max_def word_le_nat_alt)
  obtain rt fins2 where rt: "cl_rt c2 = commit_state ?a (cl_now c) rt" and c2: "cl_stdin c2 = cl_stdin c" "cl_stdout c2 = cl_stdout c"
    and adv2: "advanceC2SAckLocked (ss_c2sRx (sw_sess s)) (cl_rt c) = Inr rt"
    and out3: "ws_out (cl_ws c2 i) = ws_out ws
      @ c2s_chunks sid e (chunks (ss_c2sRx (sw_sess s)) (drop (unat (ss_c2sRx (sw_sess s))) (cl_stdin c))) @ fins2"
    by (rule activation_sends [OF tunnel_invD(1) [OF i2] com]) (rule that, use a off2 in simp_all)
  have run: "tunnel_step\<^sup>*\<^sup>* (c, s) (c2, s2)" using t1 t2 t3 by (meson converse_rtranclp_into_rtranclp r_into_rtranclp)
  show thesis
  proof (rule that [OF run])
    show "client_ready s2 \<lparr>cc_ws = i, cc_path = path, cc_epoch = e\<rparr> sid (cl_stdin c) (c2, s2)"
      using rt c2 a rc by (simp add: client_ready_def commit_state_def rt_broadcast_def)
    show "server_ready c2 \<lparr>sc_ws = i, sc_epoch = e\<rparr> sid (target_source s) (set (ws_out (sw_ws s2 i))) (c2, s2)"
      using s2 advance_frame [OF adv] rc by (simp add: server_ready_def resume_commit_def same_control_def sid_def e_def)
    show "ss_c2sRx (sw_sess s2) = ss_c2sRx (sw_sess s)" "target_written s2 = target_written s"
      using s2 advance_frame [OF adv] by (simp_all add: resume_commit_def)
    show "rt_s2cRx (cl_rt c2) = rt_s2cRx (cl_rt c)" "stdout_written c2 = stdout_written c"
      using rt c2 advance_rt [OF adv2] by (simp_all add: commit_state_def rt_broadcast_def)
  qed (auto simp: out2 out3 chunk_frames_stream c2s_chunks_stream intro: rev_image_eqI)
qed

lemma recovery:
  assumes inv: "tunnel_inv (c, s)" and r: "recoverable i (c, s)"
  shows "\<exists>c' s' e. tunnel_step\<^sup>*\<^sup>* (c, s) (c', s') \<and> cl_stdin c' = cl_stdin c \<and> target_source s' = target_source s
    \<and> target_written s' = cl_stdin c \<and> stdout_written c' = target_source s
    \<and> rt_active (cl_rt c') = Some \<lparr>cc_ws = i, cc_path = path, cc_epoch = e\<rparr>
    \<and> ss_active (sw_sess s') = Some \<lparr>sc_ws = i, sc_epoch = e\<rparr>"
proof -
  let ?sid = "ss_id (sw_sess s)" and ?e = "ss_epoch (sw_sess s) + 1"
  let ?sc = "\<lparr>sc_ws = i, sc_epoch = ?e\<rparr>" and ?cc = "\<lparr>cc_ws = i, cc_path = path, cc_epoch = ?e\<rparr>"
  note d = tunnel_invD [OF inv] and id = r [unfolded recoverable_def prod.case]
  have rest: "xs @ drop (length xs) ys = ys" if "prefix xs ys" for xs ys :: bytes using that by (auto elim: prefixE)
  obtain c1 s1 where run: "tunnel_step\<^sup>*\<^sup>* (c, s) (c1, s1)" and cr: "client_ready s1 ?cc ?sid (cl_stdin c) (c1, s1)"
    and sr: "server_ready c1 ?sc ?sid (target_source s) (set (ws_out (sw_ws s1 i))) (c1, s1)"
    and sn: "ss_c2sRx (sw_sess s1) = ss_c2sRx (sw_sess s)" "target_written s1 = target_written s"
    and cn: "rt_s2cRx (cl_rt c1) = rt_s2cRx (cl_rt c)" "stdout_written c1 = stdout_written c"
    and cout: "\<And>a p. (a, p) \<in> set (chunks (ss_c2sRx (sw_sess s)) (drop (unat (ss_c2sRx (sw_sess s))) (cl_stdin c))) \<Longrightarrow>
      (stream_header dirClientToServer ?sid ?e a, p) \<in> set (ws_out (cl_ws c1 i))"
    and sout: "\<And>a p. (a, p) \<in> set (chunks (rt_s2cRx (cl_rt c)) (drop (unat (rt_s2cRx (cl_rt c))) (target_source s))) \<Longrightarrow>
      (stream_header dirServerToClient ?sid ?e a, p) \<in> set (ws_out (sw_ws s1 i))"
    by (rule reconnects [OF inv r, where path = path]) (rule that)
  have "delivered (ws_out (cl_ws c1 i)) (stream_header dirClientToServer ?sid ?e a) p"
    if "(a, p) \<in> set (chunks (ss_c2sRx (sw_sess s)) (drop (unat (ss_c2sRx (sw_sess s))) (cl_stdin c)))" for a p
    using cout [OF that] chunks_size [OF that] id by (intro delivered_stream) auto
  with server_reader.reads_all [OF sr refl, of "drop (unat (ss_c2sRx (sw_sess s))) (cl_stdin c)"] sn(1)
  obtain t where t: "tunnel_step\<^sup>*\<^sup>* (c1, s1) t" "server_ready c1 ?sc ?sid (target_source s) (set (ws_out (sw_ws s1 i))) t"
    "target_written (snd t) = target_written s @ drop (unat (ss_c2sRx (sw_sess s))) (cl_stdin c)" using sn(2) by auto
  obtain s2 where s2: "t = (c1, s2)" using t(2) by (cases t) (simp add: server_ready_def)
  have w: "target_written s2 = cl_stdin c" using t(3) s2 rest [OF d(3)] rx_le_written [OF d(2)] by simp
  have keep: "target_source s2 = target_source s" "set (ws_out (sw_ws s1 i)) \<subseteq> set (ws_out (sw_ws s2 i))"
    using t(2) s2 by (simp_all add: server_ready_def Let_def)
  have cr2: "client_ready s2 ?cc ?sid (cl_stdin c) (c1, s2)" using cr by (simp add: client_ready_def)
  have "delivered (ws_out (sw_ws s2 i)) (stream_header dirServerToClient ?sid ?e a) p"
    if "(a, p) \<in> set (chunks (rt_s2cRx (cl_rt c)) (drop (unat (rt_s2cRx (cl_rt c))) (target_source s)))" for a p
    using sout [OF that] chunks_size [OF that] id keep(2) by (intro delivered_stream) auto
  with client_reader.reads_all [OF cr2 refl, of "drop (unat (rt_s2cRx (cl_rt c))) (target_source s)"] cn(1)
  obtain t' where t': "tunnel_step\<^sup>*\<^sup>* (c1, s2) t'" "client_ready s2 ?cc ?sid (cl_stdin c) t'"
    "stdout_written (fst t') = stdout_written c @ drop (unat (rt_s2cRx (cl_rt c))) (target_source s)" using cn(2) by auto
  obtain c2 where c2: "t' = (c2, s2)" using t'(2) by (cases t') (simp add: client_ready_def)
  have o: "stdout_written c2 = target_source s" using t'(3) c2 rest [OF d(4)] inv_rx [OF d(1)] by simp
  have "tunnel_step\<^sup>*\<^sup>* (c, s) (c2, s2)" using run t(1) t'(1) s2 c2 by (meson rtranclp_trans)
  moreover have "cl_stdin c2 = cl_stdin c" "rt_active (cl_rt c2) = Some ?cc" "ss_active (sw_sess s2) = Some ?sc"
    using t(2) s2 t'(2) c2 by (simp_all add: client_ready_def server_ready_def Let_def)
  ultimately show ?thesis using w o keep(1) by blast
qed



end
