(* ===== verification/Goroutines.thy ===== *)
theory Goroutines
  imports Step_Systems "HOL-Library.Sublist"
begin

text \<open>
  Concurrent code at the grain of its locks. A goroutine is the list of the stretches it still has to do; a stretch
  (one locked section, send, write or close) may put further stretches in front of the rest, or drop the rest. A pool is
  a world with its goroutines, of which number 0 owns some of the stretches. The locales say what each stretch
  has to keep so that every interleaving keeps the invariant of the pool, and what makes the delivery of a stream exact.
\<close>

section \<open>One goroutine on its own\<close>

text \<open>A stretch gives the new stretches, whether the rest of the plan stays, and the world.\<close>

inductive run_act :: "('a \<Rightarrow> 'w \<Rightarrow> 'a list \<times> bool \<times> 'w) \<Rightarrow> 'a list \<times> 'w \<Rightarrow> 'a list \<times> 'w \<Rightarrow> bool" for exec where
  run_actI: "exec a w = (new, keep, w') \<Longrightarrow> run_act exec (a # todo, w) (new @ (if keep then todo else []), w')"

inductive_simps run_act_Cons: "run_act exec (a # todo, w) t"
inductive_cases run_act_NilE: "run_act exec ([], w) t"

lemma runs_on: "exec a w = (new, True, w1) \<Longrightarrow> (run_act exec)\<^sup>*\<^sup>* (new @ todo, w1) t \<Longrightarrow> (run_act exec)\<^sup>*\<^sup>* (a # todo, w) t"
  using run_actI [of exec a w new True w1 todo] by (auto intro: converse_rtranclp_into_rtranclp)

lemma runs_stop: "exec a w = (new, False, w1) \<Longrightarrow> (run_act exec)\<^sup>*\<^sup>* (new, w1) t \<Longrightarrow> (run_act exec)\<^sup>*\<^sup>* (a # todo, w) t"
  using run_actI [of exec a w new False w1 todo] by (auto intro: converse_rtranclp_into_rtranclp)

lemma runs_last: "exec a w = ([], True, w') \<Longrightarrow> (run_act exec)\<^sup>*\<^sup>* ([a], w) ([], w')"
  by (rule runs_on) auto

lemma runs_via: "exec a w = (todo, True, w1) \<Longrightarrow> (run_act exec)\<^sup>*\<^sup>* (todo, w1) t \<Longrightarrow> (run_act exec)\<^sup>*\<^sup>* ([a], w) t"
  by (rule runs_on) simp_all

text \<open>It has one way to go, so its run has one end.\<close>

lemma run_act_unique:
  assumes "run_act exec s t" and "run_act exec s t'"
  shows "t' = t"
  using assms(1)
proof cases
  case (run_actI a w new keep w' todo)
  with assms(2) have "run_act exec (a # todo, w) t'" by simp
  then show ?thesis
  proof cases
    case (run_actI new2 keep2 w2)
    then show ?thesis using \<open>exec a w = (new, keep, w')\<close> \<open>t = _\<close> by simp
  qed
qed

lemma runs_to_unique:
  assumes "(run_act exec)\<^sup>*\<^sup>* s ([], w1)" and "(run_act exec)\<^sup>*\<^sup>* s ([], w2)"
  shows "w1 = w2"
  using assms
proof (induction rule: converse_rtranclp_induct)
  case base
  then show ?case by (auto elim: converse_rtranclpE run_act_NilE)
next
  case (step s t)
  from step.prems show ?case
  proof (cases rule: converse_rtranclpE)
    case base
    with step.hyps(1) show ?thesis by (auto elim: run_act_NilE)
  next
    case (step t')
    with run_act_unique [OF \<open>run_act exec s t\<close>] \<open>_ \<Longrightarrow> w1 = w2\<close> show ?thesis by blast
  qed
qed

lemma runs_iff:
  assumes "(run_act exec)\<^sup>*\<^sup>* s ([], v)"
  shows "(run_act exec)\<^sup>*\<^sup>* s ([], w') \<longleftrightarrow> w' = v"
proof
  assume "(run_act exec)\<^sup>*\<^sup>* s ([], w')"
  then show "w' = v" using assms by (rule runs_to_unique)
qed (simp only: assms)

section \<open>A pool\<close>

record ('a, 'w) pool =
  pl_world :: 'w
  pl_todo :: "'a list list"

definition put :: "nat \<Rightarrow> 'a list \<Rightarrow> 'w \<Rightarrow> ('a, 'w) pool \<Rightarrow> ('a, 'w) pool" where
  "put g todo w l = l\<lparr>pl_world := w, pl_todo := (pl_todo l)[g := todo]\<rparr>"

definition idle :: "nat \<Rightarrow> ('a, 'w) pool \<Rightarrow> bool" where
  "idle g l \<longleftrightarrow> g < length (pl_todo l) \<and> pl_todo l ! g = []"

abbreviation acts :: "('a, 'w) pool \<Rightarrow> 'a list" where
  "acts l \<equiv> concat (pl_todo l)"

abbreviation weights :: "('a \<Rightarrow> nat) \<Rightarrow> 'a list \<Rightarrow> nat" where
  "weights weight as \<equiv> sum_list (map weight as)"

lemma put_world [simp]: "pl_world (put g todo w l) = w"
  by (simp add: put_def)

lemma weights_tl: "weights weight as = 0 \<Longrightarrow> weights weight (tl as) = 0"
  by (cases as) simp_all

text \<open>The stretches of the pool when goroutine \<open>g\<close> moves.\<close>

lemma acts_put:
  assumes "g < length (pl_todo l)"
  obtains before after where "acts l = before @ (pl_todo l ! g) @ after" "\<And>todo w. acts (put g todo w l) = before @ todo @ after"
proof
  show "acts l = concat (take g (pl_todo l)) @ (pl_todo l ! g) @ concat (drop (Suc g) (pl_todo l))"
    using assms by (subst id_take_nth_drop [of g "pl_todo l"]) simp_all
  show "acts (put g todo w l) = concat (take g (pl_todo l)) @ todo @ concat (drop (Suc g) (pl_todo l))" for todo w
    using assms by (simp add: put_def upd_conv_take_nth_drop)
qed

lemma acts_put_new: "idle g l \<Longrightarrow> a \<in> set todo \<Longrightarrow> a \<in> set (acts (put g todo w l))"
  using acts_put [of g l] unfolding idle_def by (metis Un_iff set_append)

lemma acts_head: "g < length (pl_todo l) \<Longrightarrow> pl_todo l ! g = a # todo \<Longrightarrow> a \<in> set (acts l)"
  using acts_put [of g l] by (metis Un_iff list.set_intros(1) set_append)

lemma acts_run:
  assumes "g < length (pl_todo l)" and "pl_todo l ! g = a # todo"
    and "b \<in> set (acts (put g (new @ (if keep then todo else [])) w' l))"
  shows "b \<in> set new \<or> b \<in> set (acts l)"
proof -
  obtain before after where "acts l = before @ (a # todo) @ after"
      "acts (put g (new @ (if keep then todo else [])) w' l) = before @ (new @ (if keep then todo else [])) @ after"
    using acts_put [OF assms(1)] assms(2) by metis
  with assms(3) show ?thesis by (auto split: if_splits)
qed

lemma acts_start:
  assumes "idle g l" and "b \<in> set (acts (put g todo w' l))"
  shows "b \<in> set todo \<or> b \<in> set (acts l)"
proof -
  obtain before after where "acts l = before @ (pl_todo l ! g) @ after" "acts (put g todo w' l) = before @ todo @ after"
    using acts_put [of g l] assms(1) unfolding idle_def by metis
  with assms(2) show ?thesis by auto
qed

lemma weights_put:
  assumes "g < length (pl_todo l)"
  shows "weights weight (acts (put g todo w l)) + weights weight (pl_todo l ! g) = weights weight (acts l) + weights weight todo"
    "weights weight (pl_todo l ! g) \<le> weights weight (acts l)"
proof -
  obtain before after where "acts l = before @ (pl_todo l ! g) @ after" "acts (put g todo w l) = before @ todo @ after"
    using acts_put [OF assms] by metis
  then show "weights weight (acts (put g todo w l)) + weights weight (pl_todo l ! g) = weights weight (acts l) + weights weight todo"
    "weights weight (pl_todo l ! g) \<le> weights weight (acts l)" by simp_all
qed

section \<open>What every interleaving keeps\<close>

text \<open>
  A plan is good when only its head has weight, each stretch may rely on what it relies on, and the stretches that
  belong to goroutine 0 are in its plan, at most one of them, and ready.
\<close>

definition todo_ok :: "('a \<Rightarrow> nat) \<Rightarrow> ('w \<Rightarrow> 'a \<Rightarrow> bool) \<Rightarrow> ('a \<Rightarrow> bool) \<Rightarrow> ('w \<Rightarrow> 'a \<Rightarrow> bool) \<Rightarrow> 'w \<Rightarrow> bool \<Rightarrow> 'a list \<Rightarrow> bool" where
  "todo_ok weight act_ok own ready w first todo \<longleftrightarrow> weights weight (tl todo) = 0
     \<and> (\<forall>a \<in> set todo. act_ok w a \<and> (own a \<longrightarrow> first \<and> ready w a)) \<and> length (filter own todo) \<le> 1"

definition pool_inv :: "('a \<Rightarrow> nat) \<Rightarrow> (nat \<Rightarrow> 'w \<Rightarrow> bool) \<Rightarrow> ('w \<Rightarrow> 'a \<Rightarrow> bool) \<Rightarrow> ('a \<Rightarrow> bool) \<Rightarrow> ('w \<Rightarrow> 'a \<Rightarrow> bool) \<Rightarrow> ('a, 'w) pool \<Rightarrow> bool" where
  "pool_inv weight world_ok act_ok own ready l \<longleftrightarrow> world_ok (weights weight (acts l)) (pl_world l)
     \<and> (\<forall>g < length (pl_todo l). todo_ok weight act_ok own ready (pl_world l) (g = 0) (pl_todo l ! g))"

text \<open>What a stretch has to keep.\<close>

definition stretch_ok :: "('a \<Rightarrow> nat) \<Rightarrow> (nat \<Rightarrow> 'w \<Rightarrow> bool) \<Rightarrow> ('w \<Rightarrow> 'a \<Rightarrow> bool) \<Rightarrow> ('a \<Rightarrow> bool) \<Rightarrow> ('w \<Rightarrow> 'a \<Rightarrow> bool)
    \<Rightarrow> ('w \<Rightarrow> 'w \<Rightarrow> bool) \<Rightarrow> ('w \<Rightarrow> 'w \<Rightarrow> bool) \<Rightarrow> nat \<Rightarrow> 'a \<Rightarrow> 'w \<Rightarrow> 'a list \<Rightarrow> 'w \<Rightarrow> bool" where
  "stretch_ok weight world_ok act_ok own ready later keeps k a w new w' \<longleftrightarrow>
     world_ok (weights weight new + k) w' \<and> later w w' \<and> (\<forall>b \<in> set new. act_ok w' b) \<and> weights weight (tl new) = 0
     \<and> (\<forall>b \<in> set new. own b \<longrightarrow> own a \<and> ready w' b) \<and> length (filter own new) \<le> 1 \<and> (\<not> own a \<longrightarrow> keeps w w')"

locale goroutine_pool =
  fixes exec :: "'a \<Rightarrow> 'w \<Rightarrow> 'a list \<times> bool \<times> 'w" and weight :: "'a \<Rightarrow> nat" and world_ok :: "nat \<Rightarrow> 'w \<Rightarrow> bool"
    and act_ok :: "'w \<Rightarrow> 'a \<Rightarrow> bool" and own :: "'a \<Rightarrow> bool" and ready :: "'w \<Rightarrow> 'a \<Rightarrow> bool"
    and later :: "'w \<Rightarrow> 'w \<Rightarrow> bool" and keeps :: "'w \<Rightarrow> 'w \<Rightarrow> bool" and fits :: "'w \<Rightarrow> bool"
  assumes act_later: "act_ok w a \<Longrightarrow> later w w' \<Longrightarrow> act_ok w' a"
    and ready_keeps: "ready w a \<Longrightarrow> own a \<Longrightarrow> keeps w w' \<Longrightarrow> ready w' a"
    and exec_keeps: "world_ok (weight a + k) w \<Longrightarrow> act_ok w a \<Longrightarrow> own a \<longrightarrow> ready w a \<Longrightarrow> exec a w = (new, keep, w') \<Longrightarrow> fits w' \<Longrightarrow>
      stretch_ok weight world_ok act_ok own ready later keeps k a w new w'"
begin

lemma todo_later:
  assumes "todo_ok weight act_ok own ready w first todo" and "later w w'" and "first \<longrightarrow> keeps w w'"
  shows "todo_ok weight act_ok own ready w' first todo"
  using assms by (auto simp: todo_ok_def dest: act_later ready_keeps)

lemma inv_put:
  assumes inv: "pool_inv weight world_ok act_ok own ready l" and g: "g < length (pl_todo l)"
    and w: "world_ok k w'" "k + weights weight (pl_todo l ! g) = weights weight (acts l) + weights weight todo"
    and todo: "todo_ok weight act_ok own ready w' (g = 0) todo" and later: "later (pl_world l) w'"
    and own: "g \<noteq> 0 \<longrightarrow> keeps (pl_world l) w'"
  shows "pool_inv weight world_ok act_ok own ready (put g todo w' l)"
proof -
  have "weights weight (acts (put g todo w' l)) = k" using weights_put(1) [OF g, of weight todo w'] w(2) by linarith
  moreover have "todo_ok weight act_ok own ready w' (h = 0) ((pl_todo l)[g := todo] ! h)" if "h < length (pl_todo l)" for h
    using todo inv that own todo_later [OF _ later, of "h = 0" "pl_todo l ! h"]
    by (cases "h = g") (auto simp: pool_inv_def)
  ultimately show ?thesis using w(1) by (simp add: pool_inv_def) (simp add: put_def)
qed

text \<open>An idle goroutine takes something up; the world moves on its own; a goroutine does its next stretch.\<close>

lemma inv_start:
  assumes inv: "pool_inv weight world_ok act_ok own ready l" and g: "idle g l" and w: "world_ok (weights weight (acts l)) w'"
    and todo: "todo_ok weight act_ok own ready w' (g = 0) todo" "weights weight todo = 0"
    and later: "later (pl_world l) w'" "g \<noteq> 0 \<longrightarrow> keeps (pl_world l) w'"
  shows "pool_inv weight world_ok act_ok own ready (put g todo w' l)"
  using g todo later w by (intro inv_put [OF inv, of g "weights weight (acts l)"]) (simp_all add: idle_def)

lemma inv_world:
  assumes inv: "pool_inv weight world_ok act_ok own ready l" and w: "world_ok (weights weight (acts l)) w'"
    and "later (pl_world l) w'" and "keeps (pl_world l) w'"
  shows "pool_inv weight world_ok act_ok own ready (l\<lparr>pl_world := w'\<rparr>)"
  using assms todo_later by (auto simp: pool_inv_def)

lemma run_stretch:
  assumes inv: "pool_inv weight world_ok act_ok own ready l" and g: "g < length (pl_todo l)" and todo: "pl_todo l ! g = a # todo"
    and e: "exec a (pl_world l) = (new, keep, w')" and fit: "fits w'"
  shows "stretch_ok weight world_ok act_ok own ready later keeps (weights weight (acts l) - weight a) a (pl_world l) new w'"
proof (rule exec_keeps [OF _ _ _ e fit])
  have t: "todo_ok weight act_ok own ready (pl_world l) (g = 0) (a # todo)" using inv g todo by (auto simp: pool_inv_def)
  have "weight a \<le> weights weight (acts l)" using weights_put(2) [OF g, of weight] todo by simp
  then show "world_ok (weight a + (weights weight (acts l) - weight a)) (pl_world l)" using inv by (simp add: pool_inv_def)
  show "act_ok (pl_world l) a" "own a \<longrightarrow> ready (pl_world l) a" using t by (auto simp: todo_ok_def)
qed

lemma later_run:
  assumes "pool_inv weight world_ok act_ok own ready l" and "g < length (pl_todo l)" and "pl_todo l ! g = a # todo"
    and "exec a (pl_world l) = (new, keep, w')" and "fits w'"
  shows "later (pl_world l) w'"
  using run_stretch [OF assms] by (simp only: stretch_ok_def)

lemma inv_run:
  assumes inv: "pool_inv weight world_ok act_ok own ready l" and g: "g < length (pl_todo l)" and todo: "pl_todo l ! g = a # todo"
    and e: "exec a (pl_world l) = (new, keep, w')" and fit: "fits w'"
  shows "pool_inv weight world_ok act_ok own ready (put g (new @ (if keep then todo else [])) w' l)"
proof -
  let ?w = "pl_world l" and ?k = "weights weight (acts l) - weight a" and ?rest = "if keep then todo else []"
  have t: "todo_ok weight act_ok own ready ?w (g = 0) (a # todo)" and w: "world_ok (weights weight (acts l)) ?w"
    using inv g todo by (auto simp: pool_inv_def)
  have p: "weights weight todo = 0" using t by (simp add: todo_ok_def)
  have le: "weight a \<le> weights weight (acts l)" using weights_put(2) [OF g, of weight] todo by simp
  from run_stretch [OF inv g todo e fit] have x: "world_ok (weights weight new + ?k) w'" "later ?w w'" "\<forall>b \<in> set new. act_ok w' b" "weights weight (tl new) = 0"
      "\<forall>b \<in> set new. own b \<longrightarrow> own a \<and> ready w' b" "length (filter own new) \<le> 1" "\<not> own a \<longrightarrow> keeps ?w w'"
    unfolding stretch_ok_def by - (elim conjE, assumption)+
  have pr: "weights weight ?rest = 0" "weights weight (tl ?rest) = 0" by (simp_all add: p weights_tl del: sum_list_eq_0_iff)
  have o: "own a \<Longrightarrow> g = 0 \<and> filter own todo = []" using t by (auto simp: todo_ok_def)
  have "todo_ok weight act_ok own ready w' (g = 0) (new @ ?rest)"
  proof (cases "own a")
    case True
    have "act_ok w' b \<and> \<not> own b" if "b \<in> set todo" for b
      using that t o [OF True] x(2) by (auto simp: todo_ok_def filter_empty_conv dest: act_later)
    with x pr o [OF True] show ?thesis
      by (cases new) (auto simp: todo_ok_def filter_empty_conv simp del: sum_list_eq_0_iff)
  next
    case False
    then have n: "filter own new = []" using x(5) by (auto simp: filter_empty_conv)
    have "todo_ok weight act_ok own ready ?w (g = 0) todo"
      using t pr(2) p False by (cases todo) (auto simp: todo_ok_def simp del: sum_list_eq_0_iff)
    then have "todo_ok weight act_ok own ready w' (g = 0) todo" using x(2,7) False by (rule_tac todo_later) auto
    with x pr n False show ?thesis
      by (cases new) (auto simp: todo_ok_def simp del: sum_list_eq_0_iff)
  qed
  with x p pr o le todo show ?thesis
    by (intro inv_put [OF inv g x(1)]) (auto simp del: sum_list_eq_0_iff)
qed

end

section \<open>Delivery without overlap\<close>

text \<open>
  One goroutine delivers at a time: it is the only one between its decision to write and its count. Then the bytes in a
  planned delivery are the next ones of the stream (\<open>genuine\<close>, given the receive offset), and what was
  written is a prefix of it.
\<close>

definition deliveries :: "('a \<Rightarrow> bool) \<Rightarrow> ('a, 'w) pool \<Rightarrow> nat" where
  "deliveries delivers l = length (filter delivers (acts l))"

definition delivered_ok :: "('w \<Rightarrow> bytes) \<Rightarrow> ('w \<Rightarrow> u64) \<Rightarrow> (bytes \<Rightarrow> u64 \<Rightarrow> 'a \<Rightarrow> bool) \<Rightarrow> bytes \<Rightarrow> ('a, 'w) pool \<Rightarrow> bool" where
  "delivered_ok written rx genuine src l \<longleftrightarrow> prefix (written (pl_world l)) src
     \<and> (\<forall>a \<in> set (acts l). genuine src (rx (pl_world l)) a)"

locale exclusive_delivery = goroutine_pool exec weight world_ok act_ok own ready later keeps fits
  for exec :: "'a \<Rightarrow> 'w \<Rightarrow> 'a list \<times> bool \<times> 'w" and weight and world_ok and act_ok and own and ready and later and keeps and fits +
  fixes delivers :: "'a \<Rightarrow> bool" and writes :: "'a \<Rightarrow> bool" and written :: "'w \<Rightarrow> bytes" and rx :: "'w \<Rightarrow> u64"
    and genuine :: "bytes \<Rightarrow> u64 \<Rightarrow> 'a \<Rightarrow> bool"
  assumes settled: "world_ok 0 w \<Longrightarrow> unat (rx w) = length (written w)"
    and weight_delivers: "\<not> delivers a \<Longrightarrow> weight a = 0"
    and writes_delivers: "writes a \<Longrightarrow> delivers a \<and> weight a = 0"
    and genuine_rx: "\<not> delivers a \<Longrightarrow> genuine src r a \<Longrightarrow> genuine src r' a"
    and exec_quiet: "exec a w = (new, keep, w') \<Longrightarrow> \<not> delivers a \<Longrightarrow> genuine src (rx w) a \<Longrightarrow>
      rx w' = rx w \<and> written w' = written w \<and> (\<forall>b \<in> set new. genuine src (rx w) b)"
    and exec_delivers: "exec a w = (new, keep, w') \<Longrightarrow> delivers a \<Longrightarrow> genuine src (rx w) a \<Longrightarrow> prefix (written w) src \<Longrightarrow>
      (writes a \<Longrightarrow> unat (rx w) = length (written w)) \<Longrightarrow> prefix (written w') src \<and> (\<forall>b \<in> set new. genuine src (rx w') b)"
begin

lemma sole_write: "length (filter delivers as) \<le> 1 \<Longrightarrow> a \<in> set as \<Longrightarrow> writes a \<Longrightarrow> weights weight as = 0"
proof (induction as)
  case (Cons b as)
  have quiet: "filter delivers as = [] \<Longrightarrow> weights weight as = 0" by (simp add: filter_empty_conv weight_delivers)
  show ?case
  proof (cases "delivers b")
    case True
    with Cons.prems(1) have "filter delivers as = []" by simp
    moreover from this Cons.prems have "b = a" using writes_delivers [of a] by (auto simp: filter_empty_conv)
    ultimately show ?thesis using quiet writes_delivers [of a] Cons.prems(3) by simp
  next
    case False
    with Cons writes_delivers [of a] have "weights weight as = 0" by auto
    with False show ?thesis by (simp add: weight_delivers)
  qed
qed simp

lemma delivered_start:
  assumes ok: "delivered_ok written rx genuine src l" and g: "idle g l" and same: "rx w' = rx (pl_world l)" "written w' = written (pl_world l)"
    and todo: "\<forall>a \<in> set todo. genuine src (rx w') a"
  shows "delivered_ok written rx genuine src (put g todo w' l)"
proof -
  obtain before after where "acts l = before @ (pl_todo l ! g) @ after" "acts (put g todo w' l) = before @ todo @ after"
    using acts_put [of g l] g unfolding idle_def by metis
  with ok same todo show ?thesis by (auto simp: delivered_ok_def)
qed

lemma delivered_world:
  "delivered_ok written rx genuine src l \<Longrightarrow> rx w' = rx (pl_world l) \<Longrightarrow> written w' = written (pl_world l) \<Longrightarrow>
   delivered_ok written rx genuine src (l\<lparr>pl_world := w'\<rparr>)"
  by (simp add: delivered_ok_def)

lemma delivered_run:
  assumes inv: "pool_inv weight world_ok act_ok own ready l" and one: "deliveries delivers l \<le> 1"
    and ok: "delivered_ok written rx genuine src l"
    and g: "g < length (pl_todo l)" and todo: "pl_todo l ! g = a # todo" and e: "exec a (pl_world l) = (new, keep, w')"
  shows "delivered_ok written rx genuine src (put g (new @ (if keep then todo else [])) w' l)"
proof -
  let ?w = "pl_world l" and ?rest = "if keep then todo else []"
  obtain before after where ba: "acts l = before @ (pl_todo l ! g) @ after"
      "acts (put g (new @ ?rest) w' l) = before @ (new @ ?rest) @ after"
    using acts_put [OF g] by metis
  have new: "set (acts (put g (new @ ?rest) w' l)) \<subseteq> set new \<union> set (before @ todo @ after)" unfolding ba(2) by auto
  have old: "a \<in> set (acts l)" "set (before @ todo @ after) \<subseteq> set (acts l)" unfolding ba(1) todo by auto
  have pre: "prefix (written ?w) src" and gen: "\<And>b. b \<in> set (acts l) \<Longrightarrow> genuine src (rx ?w) b"
    using ok by (auto simp: delivered_ok_def)
  have "prefix (written w') src \<and> (\<forall>b \<in> set new \<union> set (before @ todo @ after). genuine src (rx w') b)"
  proof (cases "delivers a")
    case False
    from exec_quiet [OF e False gen [OF old(1)]] have q: "rx w' = rx ?w" "written w' = written ?w"
      "\<forall>b \<in> set new. genuine src (rx ?w) b" by auto
    have "genuine src (rx ?w) b" if "b \<in> set (before @ todo @ after)" for b
      using gen that old(2) by blast
    with q pre show ?thesis by auto
  next
    case True
    have one': "length (filter delivers (acts l)) \<le> 1" using one by (simp add: deliveries_def)
    then have quiet: "\<not> delivers b" if "b \<in> set (before @ todo @ after)" for b
      using that True by (auto simp: ba(1) todo filter_empty_conv)
    have "unat (rx ?w) = length (written ?w)" if "writes a"
    proof (rule settled)
      show "world_ok 0 ?w" using inv sole_write [OF one' old(1) that] by (simp add: pool_inv_def del: sum_list_eq_0_iff)
    qed
    from exec_delivers [OF e True gen [OF old(1)] pre this] have d: "prefix (written w') src" "\<forall>b \<in> set new. genuine src (rx w') b"
      by auto
    have "genuine src (rx w') b" if "b \<in> set (before @ todo @ after)" for b
      using genuine_rx [OF quiet [OF that] gen] that old(2) by blast
    with d show ?thesis by blast
  qed
  with new show ?thesis unfolding delivered_ok_def put_world by blast
qed

end

end
