(* ===== verification/Server_Locks.thy ===== *)
theory Server_Locks
  imports Server_Races Goroutines
begin

text \<open>
  A server session at the grain of its locks. Server_Session runs each handler without interruption; here
  every goroutine (the reader, the handler of each WebSocket, the callbacks of timers) is a list of the things
  it still has to do, one per locked section, send, write or close, and any goroutine may take the next
  step. The handlers of Server_Session are the uninterrupted runs. What survives any interleaving is shown, and
  what survives as long as no two data handlers overlap.
\<close>

section \<open>The stretches between two locks\<close>

text \<open>What a goroutine does when a send fails: nothing; answer an error frame and give up; give the connection up
  and stop; give the connection up and go on; or end the session.\<close>

datatype on_error = Ignore | Reject | DropStop | DropOn | GiveUp

datatype act =
    Frame server_conn frame_header bytes
  | ReadFailed server_conn gerror
  | CheckData server_conn frame_header bytes
  | WriteTarget server_conn bytes
  | CountWritten server_conn nat "gerror option"
  | AdvanceAck server_conn u64
  | CheckFin server_conn frame_header
  | CloseWriteTarget
  | Resume nat frame_header
  | AppendRead bytes bool
  | EndRead
  | Send server_conn frame_header bytes on_error
  | Drop server_conn
  | Close string string
  | CloseWs nat
  | CloseTarget
  | Unregister

definition reject_acts :: "server_conn \<Rightarrow> string \<Rightarrow> act list" where
  "reject_acts conn m = [Send conn (error_header m) [] Ignore, Drop conn]"

definition data_acts :: "server_conn \<Rightarrow> server_session \<Rightarrow> act list" where
  "data_acts conn s = map (\<lambda>(off, p). Send conn (data_header dirServerToClient off) p DropStop) (chunks (ss_s2cBufFrom s) (ss_s2cBuf s))"

definition replay_acts :: "server_conn \<Rightarrow> server_session \<Rightarrow> act list" where
  "replay_acts conn s = Send conn (accept_header (ss_id s) (ss_epoch s) (ss_c2sRx s) (ss_s2cAck s)) [] DropStop
     # data_acts conn s @ (if ss_s2cFin s then [Send conn (fin_header dirServerToClient (ss_s2cNext s)) [] Ignore] else [])"

text \<open>The switch of \<open>run\<close>, a failed \<open>readFrame\<close>, and the locked part of \<open>resume\<close>.\<close>

definition frame_acts :: "server_conn \<Rightarrow> frame_header \<Rightarrow> bytes \<Rightarrow> sworld \<Rightarrow> act list" where [simp]:
  "frame_acts conn f p w =
     (if h_type f = ''ping'' then [Send conn (pong_header f) [] Ignore]
      else if \<not> isActive conn f w then []
      else if h_type f = ''data'' then [CheckData conn f p]
      else if h_type f = ''ack'' then
        (if h_direction f \<noteq> dirServerToClient then reject_acts conn ''bad ack direction''
         else [AdvanceAck conn (h_received_offset f)])
      else if h_type f = ''fin'' then [CheckFin conn f]
      else if h_type f = ''close'' then [Close ''normal'' ''client closed'']
      else if h_type f = ''error'' then [Drop conn]
      else reject_acts conn ''unknown frame type'')"

definition read_failed_acts :: "server_conn \<Rightarrow> gerror \<Rightarrow> act list" where [simp]:
  "read_failed_acts conn e = (if is_frame_error e then [Send conn (error_header (error_text e)) [] Ignore] else []) @ [Drop conn]"

definition resume_acts :: "nat \<Rightarrow> frame_header \<Rightarrow> sworld \<Rightarrow> act list \<times> sworld" where [simp]:
  "resume_acts i f w =
     (let s = sw_sess w in
      if ss_closed s then ([], w)
      else if (\<exists>t. ss_disconnected s = Some t \<and> rc_timeout (sw_cfg w) < sw_now w - t) then
        ([Close ''resume_timeout'' ''resume timeout''], w)
      else if ss_c2sRx s < h_c2s_rx f then ([], w)
      else case advanceS2CAckLocked (h_s2c_rx f) s of
        Inl e \<Rightarrow> ([], w)
      | Inr s1 \<Rightarrow> let s2 = resume_commit i s1 in
          ((case ss_active s of None \<Rightarrow> [] | Some old \<Rightarrow> [CloseWs (sc_ws old)])
             @ replay_acts \<lparr>sc_ws = i, sc_epoch = ss_epoch s2\<rparr> s2, w\<lparr>sw_sess := s2\<rparr>))"

text \<open>
  One stretch: what the goroutine has to do next, whether it still does what it had planned, and the world.
  \<open>CheckData\<close>, \<open>WriteTarget\<close> and \<open>CountWritten\<close> are
  \<open>handleClientData\<close>; \<open>Close\<close> is the locked part of \<open>closeTerminal\<close>; \<open>AppendRead\<close> and
  \<open>EndRead\<close> are the locked parts of \<open>readTarget\<close> after a read.
\<close>

fun exec :: "act \<Rightarrow> sworld \<Rightarrow> act list \<times> bool \<times> sworld" where
  "exec (Frame conn f p) w = (frame_acts conn f p w, True, w)"
| "exec (ReadFailed conn e) w = (read_failed_acts conn e, True, w)"
| "exec (CheckData conn f p) w =
     (if h_direction f \<noteq> dirClientToServer then (reject_acts conn ''bad data direction'', True, w)
      else let rx = ss_c2sRx (sw_sess w) in
        if h_offset f < rx then
          (if h_offset f + of_nat (length p) \<le> rx then ([Send conn (ack_header dirClientToServer rx) [] Reject], True, w)
           else (reject_acts conn ''partial duplicate client data'', True, w))
        else if rx < h_offset f then (reject_acts conn ''client data offset gap'', True, w)
        else ([WriteTarget conn p], True, w))"
| "exec (WriteTarget conn p) w =
     (case client_data_write p w of (n, err, w') \<Rightarrow> ([CountWritten conn n err], True, w'))"
| "exec (CountWritten conn n err) w =
     (let w' = upd_sess (\<lambda>s. s\<lparr>ss_c2sRx := ss_c2sRx s + of_nat n\<rparr>) w in
      (Send conn (ack_header dirClientToServer (ss_c2sRx (sw_sess w'))) [] Ignore
        # (case err of None \<Rightarrow> [] | Some e \<Rightarrow> [Close ''target_closed'' (error_text e)]), True, w'))"
| "exec (AdvanceAck conn off) w =
     (case advanceS2CAckLocked off (sw_sess w) of
        Inl e \<Rightarrow> (reject_acts conn (error_text e), True, upd_sess cond_broadcast w)
      | Inr s \<Rightarrow> ([], True, w\<lparr>sw_sess := cond_broadcast s\<rparr>))"
| "exec (CheckFin conn f) w =
     (if h_direction f \<noteq> dirClientToServer then (reject_acts conn ''bad fin direction'', True, w)
      else let s = sw_sess w; ack = Send conn (ack_header dirClientToServer (ss_c2sRx s)) [] Reject in
        if h_offset f < ss_c2sRx s \<or> (h_offset f = ss_c2sRx s \<and> ss_c2sFin s) then ([ack], True, w)
        else if h_offset f \<noteq> ss_c2sRx s then (reject_acts conn ''client fin offset gap'', True, w)
        else ([CloseWriteTarget, ack], True, upd_sess (\<lambda>s. s\<lparr>ss_c2sFin := True\<rparr>) w))"
| "exec CloseWriteTarget w = ([], True, upd_sess (\<lambda>s. s\<lparr>ss_target := target_close_write (ss_target s)\<rparr>) w)"
| "exec (Resume i f) w = (case resume_acts i f w of (new, w') \<Rightarrow> (new, True, w'))"
| "exec (AppendRead bs failed) w =
     (let fin = (if failed then [EndRead] else []); w0 = upd_sess (\<lambda>s. s\<lparr>ss_reader := ReaderCheck\<rparr>) w in
      if bs = [] then (fin, True, w0)
      else let w' = upd_sess (\<lambda>s. append_s2c bs (note_read bs s)) w0 in
        ((case ss_active (sw_sess w') of None \<Rightarrow> []
          | Some conn \<Rightarrow> [Send conn (data_header dirServerToClient (ss_s2cNext (sw_sess w))) bs DropOn]) @ fin, True, w'))"
| "exec EndRead w =
     (let w' = upd_sess (\<lambda>s. s\<lparr>ss_s2cFin := True, ss_reader := ReaderStopped\<rparr>) w in
      ((case ss_active (sw_sess w') of None \<Rightarrow> []
        | Some conn \<Rightarrow> [Send conn (fin_header dirServerToClient (ss_s2cNext (sw_sess w'))) [] Ignore])
       @ [Close ''target_closed'' ''target closed''], True, w'))"
| "exec (Send conn h p oe) w =
     (case server_send conn h p w of
        (None, w') \<Rightarrow> ([], True, w')
      | (Some e, w') \<Rightarrow> (case oe of
            Ignore \<Rightarrow> ([], True, w')
          | Reject \<Rightarrow> (reject_acts conn (error_text e), True, w')
          | DropStop \<Rightarrow> ([Drop conn], False, w')
          | DropOn \<Rightarrow> ([Drop conn], True, w')
          | GiveUp \<Rightarrow> ([Close ''protocol_error'' (error_text e)], False, w')))"
| "exec (Drop conn) w = ([], True, disconnect conn w)"
| "exec (Close code m) w =
     (let s = sw_sess w in
      if ss_closed s then ([], True, w)
      else ((case ss_active s of None \<Rightarrow> [] | Some conn \<Rightarrow> [Send conn (close_header code m) [] Ignore, CloseWs (sc_ws conn)])
              @ [CloseTarget, Unregister], True,
            w\<lparr>sw_sess := cond_broadcast (s\<lparr>ss_closed := True, ss_active := None, ss_disconnectTTL := None\<rparr>)\<rparr>))"
| "exec (CloseWs i) w = ([], True, server_ws_close i w)"
| "exec CloseTarget w = ([], True, upd_sess (\<lambda>s. s\<lparr>ss_target := target_close (ss_target s)\<rparr>) w)"
| "exec Unregister w = ([], True, w\<lparr>sw_registered := False\<rparr>)"

section \<open>The handlers are the uninterrupted runs\<close>

abbreviation runs_to :: "act list \<Rightarrow> sworld \<Rightarrow> sworld \<Rightarrow> bool" where
  "runs_to todo w w' \<equiv> (run_act exec)\<^sup>*\<^sup>* (todo, w) ([], w')"

lemma runs_drop [simp]: "runs_to [Drop conn] w (disconnect conn w)"
  by (rule runs_last) simp

lemma runs_ignored: "(run_act exec)\<^sup>*\<^sup>* (todo, snd (server_send conn h p w)) t \<Longrightarrow> (run_act exec)\<^sup>*\<^sup>* (Send conn h p Ignore # todo, w) t"
  by (rule runs_on [of exec _ _ "[]" "snd (server_send conn h p w)"]) (auto split: prod.split option.split)

lemma runs_reject: "runs_to (reject_acts conn m) w (snd (reject conn m w))"
  unfolding reject_acts_def reject_def by (intro runs_ignored runs_last) simp

lemma runs_close: "runs_to [Close code m] w (closeTerminal code m w)"
proof (cases "ss_closed (sw_sess w)")
  case True
  then show ?thesis by (intro runs_last) (simp add: closeTerminal_def Let_def)
next
  case False
  let ?w1 = "w\<lparr>sw_sess := cond_broadcast ((sw_sess w)\<lparr>ss_closed := True, ss_active := None, ss_disconnectTTL := None\<rparr>)\<rparr>"
  have tail: "runs_to [CloseTarget, Unregister] v ((upd_sess (\<lambda>s. s\<lparr>ss_target := target_close (ss_target s)\<rparr>) v)\<lparr>sw_registered := False\<rparr>)" for v
    by (rule runs_on [where exec = exec, OF exec.simps(16)]) (auto intro: runs_last)
  show ?thesis
  proof (cases "ss_active (sw_sess w)")
    case None
    with False tail [of ?w1] show ?thesis
      by (intro runs_on [of exec "Close code m" w "[CloseTarget, Unregister]" ?w1]) (simp_all add: closeTerminal_def Let_def)
  next
    case (Some conn)
    let ?w2 = "snd (server_send conn (close_header code m) [] ?w1)"
    have "runs_to [CloseWs (sc_ws conn), CloseTarget, Unregister] ?w2 (closeTerminal code m w)"
      using False Some tail [of "server_ws_close (sc_ws conn) ?w2"]
      by (intro runs_on [where exec = exec, OF exec.simps(15)]) (simp_all add: closeTerminal_def Let_def)
    with False Some show ?thesis
      by (intro runs_on [of exec "Close code m" w "[Send conn (close_header code m) [] Ignore, CloseWs (sc_ws conn), CloseTarget, Unregister]" ?w1])
         (simp_all add: Let_def runs_ignored)
  qed
qed

lemma runs_answer:
  "runs_to [Send conn h p Reject] w (case server_send conn h p w of (Some e, w') \<Rightarrow> snd (reject conn (error_text e) w') | (None, w') \<Rightarrow> w')"
proof -
  obtain e w' where s: "server_send conn h p w = (e, w')" by fastforce
  show ?thesis
  proof (cases e)
    case (Some x)
    with s runs_reject show ?thesis by (intro runs_on [of exec _ _ "reject_acts conn (error_text x)" w']) simp_all
  qed (use s in \<open>simp add: runs_last\<close>)
qed

lemma runs_data:
  "runs_to [CheckData conn f p] w (case handleClientData conn f p w of
     (Some e, w') \<Rightarrow> snd (reject conn (error_text e) w') | (None, w') \<Rightarrow> w')"
proof (cases "client_data_check conn f p w")
  case None
  then have c: "h_direction f = dirClientToServer" "h_offset f = ss_c2sRx (sw_sess w)" by (simp_all add: client_data_check_passes)
  obtain n err w1 where wr: "client_data_write p w = (n, err, w1)" using prod_cases3 by blast
  let ?w2 = "upd_sess (\<lambda>s. s\<lparr>ss_c2sRx := ss_c2sRx s + of_nat n\<rparr>) w1"
  let ?closing = "case err of None \<Rightarrow> [] | Some e \<Rightarrow> [Close ''target_closed'' (error_text e)]"
  have "runs_to (Send conn (ack_header dirClientToServer (ss_c2sRx (sw_sess ?w2))) [] Ignore # ?closing) ?w2 (snd (client_data_count conn n err w1))"
    by (cases err) (auto simp: client_data_count_def Let_def intro: runs_ignored runs_close)
  then have "runs_to [CountWritten conn n err] w1 (snd (client_data_count conn n err w1))"
    by (intro runs_on [where exec = exec, OF exec.simps(5) [unfolded Let_def]]) simp
  then have "runs_to [WriteTarget conn p] w (snd (client_data_count conn n err w1))"
    using wr by (intro runs_on [of exec _ _ "[CountWritten conn n err]" w1]) simp_all
  then have "runs_to [CheckData conn f p] w (snd (client_data_count conn n err w1))"
    using c by (intro runs_on [of exec _ _ "[WriteTarget conn p]" w]) (simp_all add: Let_def)
  moreover have "handleClientData conn f p w = (None, snd (client_data_count conn n err w1))"
    using None wr by (simp add: handleClientData_stretches client_data_count_def Let_def split: option.split)
  ultimately show ?thesis by simp
next
  case (Some r)
  then have h: "handleClientData conn f p w = r" by (simp add: handleClientData_stretches)
  show ?thesis
  proof (cases "h_direction f = dirClientToServer \<and> h_offset f < ss_c2sRx (sw_sess w)
      \<and> h_offset f + of_nat (length p) \<le> ss_c2sRx (sw_sess w)")
    case True
    then have "r = server_send conn (ack_header dirClientToServer (ss_c2sRx (sw_sess w))) [] w"
      using Some by (simp add: client_data_check_def Let_def)
    with True h runs_answer show ?thesis by (intro runs_on [of exec "CheckData conn f p"]) (simp_all add: Let_def)
  next
    case False
    then obtain e where "r = (Some e, w)" and "exec (CheckData conn f p) w = (reject_acts conn (error_text e), True, w)"
      using Some by (auto simp: client_data_check_def Let_def split: if_splits)
    with h show ?thesis
      by (intro runs_on [of exec _ _ "reject_acts conn (error_text e)" w]) (simp_all add: runs_reject del: exec.simps)
  qed
qed

lemma runs_fin:
  "runs_to [CheckFin conn f] w (case handleClientFin conn f w of
     (Some e, w') \<Rightarrow> snd (reject conn (error_text e) w') | (None, w') \<Rightarrow> w')"
proof -
  let ?ack = "ack_header dirClientToServer (ss_c2sRx (sw_sess w))"
  let ?w1 = "upd_sess (\<lambda>s. s\<lparr>ss_c2sFin := True\<rparr>) w"
  let ?w2 = "upd_sess (\<lambda>s. s\<lparr>ss_c2sFin := True, ss_target := target_close_write (ss_target s)\<rparr>) w"
  have "exec CloseWriteTarget ?w1 = ([], True, ?w2)" by simp
  then have close: "runs_to [CloseWriteTarget, Send conn ?ack [] Reject] ?w1
      (case server_send conn ?ack [] ?w2 of (Some e, w') \<Rightarrow> snd (reject conn (error_text e) w') | (None, w') \<Rightarrow> w')"
    by (rule runs_on) (simp add: runs_answer)
  consider "h_direction f \<noteq> dirClientToServer"
    | "h_direction f = dirClientToServer" "h_offset f < ss_c2sRx (sw_sess w) \<or> (h_offset f = ss_c2sRx (sw_sess w) \<and> ss_c2sFin (sw_sess w))"
    | "h_direction f = dirClientToServer" "ss_c2sRx (sw_sess w) < h_offset f"
    | "h_direction f = dirClientToServer" "h_offset f = ss_c2sRx (sw_sess w)" "\<not> ss_c2sFin (sw_sess w)"
    using less_linear by blast
  then show ?thesis
  proof cases
    case 1
    then show ?thesis by (intro runs_on [of exec _ _ "reject_acts conn ''bad fin direction''" w]) (simp_all add: handleClientFin_def runs_reject)
  next
    case 2
    then show ?thesis
      by (intro runs_on [of exec _ _ "[Send conn ?ack [] Reject]" w]) (simp_all add: handleClientFin_def Let_def runs_answer)
  next
    case 3
    then show ?thesis
      by (intro runs_on [of exec _ _ "reject_acts conn ''client fin offset gap''" w]) (auto simp: handleClientFin_def Let_def runs_reject)
  next
    case 4
    with close show ?thesis
      by (intro runs_on [of exec _ _ "[CloseWriteTarget, Send conn ?ack [] Reject]" ?w1]) (simp_all add: handleClientFin_def Let_def)
  qed
qed

lemma runs_advance:
  "runs_to [AdvanceAck conn off] w (case advanceS2CAckLocked off (sw_sess w) of
     Inl e \<Rightarrow> snd (reject conn (error_text e) (upd_sess cond_broadcast w)) | Inr s \<Rightarrow> w\<lparr>sw_sess := cond_broadcast s\<rparr>)"
proof (cases "advanceS2CAckLocked off (sw_sess w)")
  case (Inl e)
  then show ?thesis
    by (intro runs_on [of exec _ _ "reject_acts conn (error_text e)" "upd_sess cond_broadcast w"]) (simp_all add: runs_reject)
qed (simp add: runs_last)

lemma runs_frame: "runs_to [Frame conn f p] w (snd (run_frame conn f p w))"
proof -
  consider "h_type f = ''ping''" | "h_type f \<noteq> ''ping''" "\<not> isActive conn f w" | "isActive conn f w" "h_type f = ''data''"
    | "isActive conn f w" "h_type f = ''ack''" "h_direction f = dirServerToClient"
    | "isActive conn f w" "h_type f = ''ack''" "h_direction f \<noteq> dirServerToClient"
    | "isActive conn f w" "h_type f = ''fin''" | "isActive conn f w" "h_type f = ''close''"
    | "isActive conn f w" "h_type f = ''error''"
    | "isActive conn f w" "h_type f \<notin> {''ping'', ''data'', ''ack'', ''fin'', ''close'', ''error''}" by blast
  then show ?thesis
  proof cases
    case 1
    then show ?thesis
      by - (rule runs_via [of exec _ _ "[Send conn (pong_header f) [] Ignore]" w]; simp add: run_frame_def runs_ignored)
  next
    case 2
    then show ?thesis by (intro runs_last) (simp add: run_frame_def)
  next
    case 3
    then have "snd (run_frame conn f p w) = (case handleClientData conn f p w of
        (Some e, w') \<Rightarrow> snd (reject conn (error_text e) w') | (None, w') \<Rightarrow> w')"
      by (simp add: run_frame_def split: prod.split option.split)
    with 3 runs_data [of conn f p w] show ?thesis by - (rule runs_via [of exec _ _ "[CheckData conn f p]" w]; simp)
  next
    case 4
    then have "snd (run_frame conn f p w) = (case advanceS2CAckLocked (h_received_offset f) (sw_sess w) of
        Inl e \<Rightarrow> snd (reject conn (error_text e) (upd_sess cond_broadcast w)) | Inr s \<Rightarrow> w\<lparr>sw_sess := cond_broadcast s\<rparr>)"
      by (simp add: run_frame_def split: sum.split)
    with 4 runs_advance [of conn "h_received_offset f" w] show ?thesis
      by - (rule runs_via [of exec _ _ "[AdvanceAck conn (h_received_offset f)]" w]; simp)
  next
    case 5
    then show ?thesis
      by - (rule runs_via [of exec _ _ "reject_acts conn ''bad ack direction''" w]; simp add: run_frame_def runs_reject)
  next
    case 6
    then have "snd (run_frame conn f p w) = (case handleClientFin conn f w of
        (Some e, w') \<Rightarrow> snd (reject conn (error_text e) w') | (None, w') \<Rightarrow> w')"
      by (simp add: run_frame_def split: prod.split option.split)
    with 6 runs_fin [of conn f w] show ?thesis by - (rule runs_via [of exec _ _ "[CheckFin conn f]" w]; simp)
  next
    case 7
    then show ?thesis
      by - (rule runs_via [of exec _ _ "[Close ''normal'' ''client closed'']" w]; simp add: run_frame_def runs_close)
  next
    case 8
    then show ?thesis by - (rule runs_via [of exec _ _ "[Drop conn]" w]; simp add: run_frame_def)
  next
    case 9
    then show ?thesis
      by - (rule runs_via [of exec _ _ "reject_acts conn ''unknown frame type''" w]; simp add: run_frame_def runs_reject)
  qed
qed

lemma runs_read_error: "runs_to [ReadFailed conn e] w (run_read_error conn e w)"
  by (cases "is_frame_error e") (auto intro!: runs_on [of exec "ReadFailed conn e"] runs_ignored simp: run_read_error_def)

text \<open>The resend: chunks until one fails.\<close>

lemma runs_chunks:
  assumes "send_all (\<lambda>off p. server_send conn (data_header dirServerToClient off) p) cs w = (e, w1)"
  shows "(run_act exec)\<^sup>*\<^sup>* (map (\<lambda>(off, p). Send conn (data_header dirServerToClient off) p DropStop) cs @ rest, w)
    (case e of None \<Rightarrow> (rest, w1) | Some x \<Rightarrow> ([], disconnect conn w1))"
  using assms
proof (induction cs arbitrary: w)
  case (Cons oc cs)
  obtain off p where oc: "oc = (off, p)" by (cases oc)
  let ?s = "Send conn (data_header dirServerToClient off) p DropStop"
  obtain e2 w2 where s: "server_send conn (data_header dirServerToClient off) p w = (e2, w2)" by fastforce
  show ?case
  proof (cases e2)
    case None
    with Cons s oc show ?thesis by (auto intro!: runs_on [of exec ?s w "[]" w2])
  next
    case (Some x)
    with Cons.prems s oc show ?thesis
      by (auto intro!: runs_stop [of exec ?s w "[Drop conn]" w2])
  qed
qed simp

lemma runs_replay: "runs_to (replay_acts conn s) w (snd (resume_replay conn s w))"
proof -
  let ?acc = "accept_header (ss_id s) (ss_epoch s) (ss_c2sRx s) (ss_s2cAck s)"
  let ?fin = "if ss_s2cFin s then [Send conn (fin_header dirServerToClient (ss_s2cNext s)) [] Ignore] else []"
  obtain e w1 where a: "server_send conn ?acc [] w = (e, w1)" by fastforce
  show ?thesis
  proof (cases e)
    case None
    obtain e2 w2 where l: "send_all (\<lambda>off p. server_send conn (data_header dirServerToClient off) p)
        (chunks (ss_s2cBufFrom s) (ss_s2cBuf s)) w1 = (e2, w2)" by fastforce
    then have d: "sendDataChunks conn dirServerToClient (ss_s2cBufFrom s) (ss_s2cBuf s) w1 = (e2, w2)"
      by (simp add: sendDataChunks_def chunk_loop_send_all data_header_def)
    have f: "runs_to ?fin w2 (if ss_s2cFin s then snd (server_send conn (fin_header dirServerToClient (ss_s2cNext s)) [] w2) else w2)"
      by (simp add: runs_ignored)
    have "(run_act exec)\<^sup>*\<^sup>* (data_acts conn s @ ?fin, w1) (case e2 of None \<Rightarrow> (?fin, w2) | Some x \<Rightarrow> ([], disconnect conn w2))"
      unfolding data_acts_def by (rule runs_chunks [OF l])
    then have "runs_to (data_acts conn s @ ?fin) w1
        (case e2 of None \<Rightarrow> (if ss_s2cFin s then snd (server_send conn (fin_header dirServerToClient (ss_s2cNext s)) [] w2) else w2)
          | Some x \<Rightarrow> disconnect conn w2)"
    proof (cases e2)
      case None
      assume r: "(run_act exec)\<^sup>*\<^sup>* (data_acts conn s @ ?fin, w1) (case e2 of None \<Rightarrow> (?fin, w2) | Some x \<Rightarrow> ([], disconnect conn w2))"
      show ?thesis using rtranclp_trans [OF r [unfolded None option.case] f] unfolding None option.case .
    qed simp
    moreover have "snd (resume_replay conn s w) =
        (case e2 of None \<Rightarrow> (if ss_s2cFin s then snd (server_send conn (fin_header dirServerToClient (ss_s2cNext s)) [] w2) else w2)
          | Some x \<Rightarrow> disconnect conn w2)"
      using a d None by (simp add: resume_replay_def split: option.split)
    ultimately have "runs_to (data_acts conn s @ ?fin) w1 (snd (resume_replay conn s w))" by simp
    then have "runs_to ([] @ data_acts conn s @ ?fin) w1 (snd (resume_replay conn s w))" by (simp only: append_Nil)
    moreover have "exec (Send conn ?acc [] DropStop) w = ([], True, w1)" using a None by simp
    ultimately show ?thesis unfolding replay_acts_def by (rule runs_on [rotated])
  next
    case (Some x)
    then have "snd (resume_replay conn s w) = disconnect conn w1" using a by (simp add: resume_replay_def)
    moreover have "exec (Send conn ?acc [] DropStop) w = ([Drop conn], False, w1)" using a Some by simp
    ultimately show ?thesis unfolding replay_acts_def by (simp only: runs_stop [OF _ runs_drop])
  qed
qed

lemma runs_resume: "runs_to [Resume i f] w (snd (resume i f w))"
proof -
  let ?s = "sw_sess w"
  consider "ss_closed ?s" | "\<not> ss_closed ?s" "\<exists>t. ss_disconnected ?s = Some t \<and> rc_timeout (sw_cfg w) < sw_now w - t"
    | "\<not> ss_closed ?s" "\<not> (\<exists>t. ss_disconnected ?s = Some t \<and> rc_timeout (sw_cfg w) < sw_now w - t)" by blast
  then show ?thesis
  proof cases
    case 1
    then show ?thesis by (intro runs_last) (simp add: resume_def Let_def)
  next
    case 2
    then show ?thesis
      by (intro runs_on [of exec _ _ "[Close ''resume_timeout'' ''resume timeout'']" w]) (simp_all add: resume_def Let_def runs_close)
  next
    case 3
    then have t: "(\<exists>t. ss_disconnected ?s = Some t \<and> rc_timeout (sw_cfg w) < sw_now w - t) = False" by blast
    show ?thesis
    proof (cases "\<exists>s1. \<not> ss_c2sRx ?s < h_c2s_rx f \<and> advanceS2CAckLocked (h_s2c_rx f) ?s = Inr s1")
      case True
      then obtain s1 where s1: "\<not> ss_c2sRx ?s < h_c2s_rx f" "advanceS2CAckLocked (h_s2c_rx f) ?s = Inr s1" by blast
      let ?s2 = "resume_commit i s1" and ?w1 = "w\<lparr>sw_sess := resume_commit i s1\<rparr>"
      let ?conn = "\<lparr>sc_ws = i, sc_epoch = ss_epoch ?s2\<rparr>"
      let ?w2 = "case ss_active ?s of None \<Rightarrow> ?w1 | Some old \<Rightarrow> server_ws_close (sc_ws old) ?w1"
      let ?old = "case ss_active ?s of None \<Rightarrow> [] | Some old \<Rightarrow> [CloseWs (sc_ws old)]"
      have "snd (resume i f w) = snd (resume_replay ?conn ?s2 ?w2)"
        using 3(1) s1 by (simp add: resume_def Let_def t del: resume_commit_frame split: prod.split option.split)
      moreover have "runs_to (?old @ replay_acts ?conn ?s2) ?w1 (snd (resume_replay ?conn ?s2 ?w2))"
        using runs_replay [of ?conn ?s2 ?w2]
        by (cases "ss_active ?s") (auto intro!: runs_on [of exec "CloseWs _" ?w1 "[]"] simp del: resume_commit_frame)
      ultimately show ?thesis
        using 3(1) s1 by - (rule runs_via [of exec _ _ "?old @ replay_acts ?conn ?s2" ?w1]; simp add: Let_def t del: resume_commit_frame)
    next
      case False
      with 3(1) show ?thesis
        by (cases "advanceS2CAckLocked (h_s2c_rx f) ?s"; intro runs_last) (auto simp: resume_def Let_def t)
    qed
  qed
qed

lemma runs_end: "runs_to [EndRead] w (reader_end w)"
proof -
  let ?w1 = "upd_sess (\<lambda>s. s\<lparr>ss_s2cFin := True, ss_reader := ReaderStopped\<rparr>) w"
  show ?thesis
  proof (cases "ss_active (sw_sess w)")
    case None
    then show ?thesis
      by (intro runs_on [of exec _ _ "[Close ''target_closed'' ''target closed'']" ?w1]) (simp_all add: reader_end_def Let_def runs_close)
  next
    case (Some conn)
    let ?send = "Send conn (fin_header dirServerToClient (ss_s2cNext (sw_sess ?w1))) [] Ignore"
    from Some show ?thesis
      by (intro runs_on [of exec _ _ "[?send, Close ''target_closed'' ''target closed'']" ?w1])
         (simp_all add: reader_end_def Let_def runs_ignored runs_close)
  qed
qed

lemma runs_read: "runs_to [AppendRead bs failed] w (reader_read bs failed w)"
proof -
  let ?w0 = "upd_sess (\<lambda>s. s\<lparr>ss_reader := ReaderCheck\<rparr>) w" and ?fin = "if failed then [EndRead] else []"
  have fin: "runs_to ?fin v (if failed then reader_end v else v)" for v by (simp add: runs_end)
  show ?thesis
  proof (cases "bs = []")
    case True
    then show ?thesis
      by (intro runs_on [of exec _ _ ?fin ?w0]) (simp_all add: reader_read_def reader_data_def Let_def runs_end)
  next
    case False
    let ?w1 = "upd_sess (\<lambda>s. append_s2c bs (note_read bs s)) ?w0"
    have act: "ss_active (sw_sess ?w1) = ss_active (sw_sess w)" by (simp add: append_s2c_def note_read_def)
    show ?thesis
    proof (cases "ss_active (sw_sess w)")
      case None
      with False act show ?thesis
        by (intro runs_on [of exec _ _ ?fin ?w1]) (simp_all add: reader_read_def reader_data_def Let_def runs_end)
    next
      case (Some conn)
      let ?h = "data_header dirServerToClient (ss_s2cNext (sw_sess w))"
      obtain e w2 where s: "server_send conn ?h bs ?w1 = (e, w2)" by fastforce
      let ?w3 = "case e of None \<Rightarrow> w2 | Some x \<Rightarrow> disconnect conn w2"
      have "(run_act exec)\<^sup>*\<^sup>* (Send conn ?h bs DropOn # rest, ?w1) (rest, ?w3)" for rest
      proof (cases e)
        case None
        with s show ?thesis by (intro runs_on [of exec _ _ "[]" w2]) simp_all
      next
        case (Some x)
        have "(run_act exec)\<^sup>*\<^sup>* (Drop conn # rest, w2) (rest, disconnect conn w2)" by (rule runs_on [of exec _ _ "[]"]) auto
        with s Some show ?thesis by (intro runs_on [of exec _ _ "[Drop conn]" w2]) simp_all
      qed
      then have "runs_to (Send conn ?h bs DropOn # ?fin) ?w1 (if failed then reader_end ?w3 else ?w3)"
        using fin [of ?w3] by (rule rtranclp_trans)
      moreover have "reader_read bs failed w = (if failed then reader_end ?w3 else ?w3)"
        using False Some act s by (simp add: reader_read_def reader_data_def Let_def data_header_def split: option.split)
      ultimately show ?thesis
        using False Some act by (intro runs_on [of exec _ _ "Send conn ?h bs DropOn # ?fin" ?w1]) (simp_all add: Let_def)
    qed
  qed
qed


section \<open>What every stretch keeps\<close>

text \<open>Bytes that were written to the target and not counted yet.\<close>

fun pending :: "act \<Rightarrow> nat" where
  "pending (CountWritten conn n err) = n"
| "pending _ = 0"

abbreviation pend :: "act list \<Rightarrow> nat" where
  "pend \<equiv> weights pending"

definition life_ok :: "server_session \<Rightarrow> bool \<Rightarrow> bool" where
  "life_ok s registered \<longleftrightarrow> (ss_closed s \<longrightarrow> ss_active s = None \<and> ss_disconnectTTL s = None)
     \<and> (\<forall>c. ss_active s = Some c \<longrightarrow> sc_epoch c = ss_epoch s \<and> ss_disconnected s = None \<and> ss_disconnectTTL s = None)
     \<and> (\<not> ss_closed s \<and> ss_active s = None \<longrightarrow> ss_disconnected s \<noteq> None)
     \<and> (\<not> registered \<or> tg_closed (ss_target s) \<longrightarrow> ss_closed s)"

text \<open>The invariant of the world, with \<open>k\<close> bytes written and not counted.\<close>

definition world_ok :: "nat \<Rightarrow> sworld \<Rightarrow> bool" where
  "world_ok k w \<longleftrightarrow> (let s = sw_sess w in
     sender_ok (ss_s2cNext s) (ss_s2cAck s) (ss_s2cBufFrom s) (ss_s2cBuf s) (target_source w)
     \<and> unat (ss_c2sRx s) + k = length (target_written w) \<and> length (target_written w) < stream_limit
     \<and> server_buffer (sw_cfg w) s \<and> life_ok s (sw_registered w) \<and> frames_ok_in s w)"

text \<open>What a goroutine relies on when it plans an act; it stays true.\<close>

fun act_ok :: "server_session \<Rightarrow> act \<Rightarrow> bool" where
  "act_ok s (Send conn h p oe) = server_frame_ok s (h, p)"
| "act_ok s CloseTarget = ss_closed s"
| "act_ok s Unregister = ss_closed s"
| "act_ok s _ = True"

fun reader_act :: "act \<Rightarrow> bool" where
  "reader_act (AppendRead bs failed) = True"
| "reader_act EndRead = True"
| "reader_act _ = False"

fun reader_ready :: "server_session \<Rightarrow> act \<Rightarrow> bool" where
  "reader_ready s (AppendRead bs failed) = (ss_reader s = ReaderReading \<and> length bs \<le> dataChunkBytes)"
| "reader_ready s EndRead = (ss_reader s = ReaderCheck)"
| "reader_ready s _ = True"

definition later :: "server_session \<Rightarrow> server_session \<Rightarrow> bool" where
  "later s s' \<longleftrightarrow> session_grows s s' \<and> (ss_closed s \<longrightarrow> ss_closed s')"

lemma later_refl [simp]: "later s s"
  by (simp add: later_def)

lemma act_ok_later: "act_ok s a \<Longrightarrow> later s s' \<Longrightarrow> act_ok s' a"
  by (cases "(s, a)" rule: act_ok.cases) (auto simp: later_def intro: frame_ok_grows)

lemma world_ok_update:
  assumes "world_ok k w" and "session_grows (sw_sess w) s'"
    and "sender_ok (ss_s2cNext s') (ss_s2cAck s') (ss_s2cBufFrom s') (ss_s2cBuf s') (tg_read (ss_target s'))"
    and "unat (ss_c2sRx s') + k' = length (sk_written (tg_sink (ss_target s')))" "length (sk_written (tg_sink (ss_target s'))) < stream_limit"
    and "server_buffer (sw_cfg w) s'" and "life_ok s' (sw_registered w)"
  shows "world_ok k' (w\<lparr>sw_sess := s'\<rparr>)"
  using assms by (auto simp: world_ok_def Let_def elim: frames_ok_grows)

text \<open>An update of the control fields and the reader only.\<close>

definition same_data_fields :: "server_session \<Rightarrow> server_session \<Rightarrow> bool" where
  "same_data_fields s s' \<longleftrightarrow> ss_s2cNext s' = ss_s2cNext s \<and> ss_s2cAck s' = ss_s2cAck s \<and> ss_s2cBufFrom s' = ss_s2cBufFrom s
     \<and> ss_s2cBuf s' = ss_s2cBuf s \<and> ss_c2sRx s' = ss_c2sRx s \<and> tg_read (ss_target s') = tg_read (ss_target s)
     \<and> sk_written (tg_sink (ss_target s')) = sk_written (tg_sink (ss_target s))"

lemma world_ok_control:
  assumes "world_ok k w" and "same_data_fields (sw_sess w) s'" and "life_ok s' (sw_registered w)"
    and "server_buffer (sw_cfg w) s'" and "ss_reader (sw_sess w) = ReaderStopped \<longrightarrow> ss_reader s' = ReaderStopped"
  shows "world_ok k (w\<lparr>sw_sess := s'\<rparr>)"
  using assms by (intro world_ok_update [OF assms(1)]) (auto simp: same_data_fields_def session_grows_def world_ok_def Let_def)

lemma world_ok_send:
  assumes "world_ok k w" and "server_frame_ok (sw_sess w) (h, p)"
  shows "world_ok k (snd (server_send conn h p w))"
  using assms by (simp add: world_ok_def Let_def frames_ok_send)

definition reader_keeps :: "server_session \<Rightarrow> server_session \<Rightarrow> bool" where
  "reader_keeps s s' \<longleftrightarrow> ss_reader s' = ss_reader s \<or> (ss_reader s = ReaderWaiting \<and> ss_reader s' = ReaderCheck)"

lemma reader_keeps_refl [simp]: "reader_keeps s s"
  by (simp add: reader_keeps_def)

definition exec_ok :: "nat \<Rightarrow> act \<Rightarrow> sworld \<Rightarrow> act list \<times> bool \<times> sworld \<Rightarrow> bool" where
  "exec_ok k a w r \<longleftrightarrow> (case r of (new, keep, w') \<Rightarrow>
     stretch_ok pending world_ok (\<lambda>w. act_ok (sw_sess w)) reader_act (\<lambda>w. reader_ready (sw_sess w))
       (\<lambda>w w'. later (sw_sess w) (sw_sess w')) (\<lambda>w w'. reader_keeps (sw_sess w) (sw_sess w')) k a w new w')"

lemma reject_acts_ok [simp]:
  "pend (reject_acts conn m) = 0" "pend (tl (reject_acts conn m)) = 0"
  "b \<in> set (reject_acts conn m) \<Longrightarrow> act_ok s b \<and> \<not> reader_act b \<and> pending b = 0"
  by (auto simp: reject_acts_def)

lemma exec_ok_same:
  assumes "world_ok k w" and "\<forall>b \<in> set new. act_ok (sw_sess w) b \<and> \<not> reader_act b \<and> pending b = 0" and "\<not> reader_act a"
  shows "exec_ok k a w (new, keep, w)"
proof -
  have p: "pend new = 0" "pend (tl new) = 0" using assms(2) by (cases new; simp)+
  show ?thesis using assms by (simp add: exec_ok_def stretch_ok_def reader_keeps_def p del: sum_list_eq_0_iff)
qed

lemma exec_ok_plain:
  assumes "world_ok k w'" and "later (sw_sess w) (sw_sess w')"
    and "\<forall>b \<in> set new. act_ok (sw_sess w') b \<and> \<not> reader_act b \<and> pending b = 0" and "\<not> reader_act a"
    and "ss_reader (sw_sess w') = ss_reader (sw_sess w) \<or> (ss_reader (sw_sess w) = ReaderWaiting \<and> ss_reader (sw_sess w') = ReaderCheck)"
  shows "exec_ok k a w (new, keep, w')"
proof -
  have p: "pend new = 0" "pend (tl new) = 0" using assms(3) by (cases new; simp)+
  show ?thesis using assms by (simp add: exec_ok_def stretch_ok_def reader_keeps_def p del: sum_list_eq_0_iff)
qed

lemma world_ok_acked: "world_ok k w \<Longrightarrow> unat (ss_c2sRx (sw_sess w)) \<le> length (target_written w)"
  by (simp add: world_ok_def Let_def)

lemma exec_frame_ok: "world_ok k w \<Longrightarrow> exec_ok k (Frame conn f p) w (exec (Frame conn f p) w)"
  by (auto intro!: exec_ok_same)

lemma exec_check_ok: "world_ok k w \<Longrightarrow> exec_ok k (CheckData conn f p) w (exec (CheckData conn f p) w)"
  using world_ok_acked [of k w] by (auto simp: Let_def reject_acts_def intro!: exec_ok_same)

lemma exec_fin_ok:
  assumes ok: "world_ok k w"
  shows "exec_ok k (CheckFin conn f) w (exec (CheckFin conn f) w)"
proof -
  have "world_ok k (upd_sess (\<lambda>s. s\<lparr>ss_c2sFin := True\<rparr>) w)"
    using ok by (intro world_ok_control [OF ok]) (auto simp: same_data_fields_def world_ok_def Let_def life_ok_def server_buffer_def)
  with ok world_ok_acked [OF ok] show ?thesis
    by (auto simp: Let_def reject_acts_def later_def session_grows_def intro!: exec_ok_same exec_ok_plain)
qed

lemma exec_write_ok:
  assumes ok: "world_ok k w" and fit: "length (target_written (snd (snd (exec (WriteTarget conn p) w)))) < stream_limit"
  shows "exec_ok k (WriteTarget conn p) w (exec (WriteTarget conn p) w)"
proof -
  obtain n err sk where wr: "writeAll sink_write (tg_sink (ss_target (sw_sess w))) p = (n, err, sk)" using prod_cases3 by blast
  from sink_writer.writeAll_log [OF wr] have sk: "sk_written sk = target_written w @ take n p" "n \<le> length p" by auto
  let ?s = "(sw_sess w)\<lparr>ss_target := (ss_target (sw_sess w))\<lparr>tg_sink := sk\<rparr>\<rparr>"
  have e: "exec (WriteTarget conn p) w = ([CountWritten conn n err], True, w\<lparr>sw_sess := ?s\<rparr>)"
    by (simp add: client_data_write_def wr)
  have "world_ok (n + k) (w\<lparr>sw_sess := ?s\<rparr>)"
    using ok fit sk unfolding e
    by (intro world_ok_update [OF ok]) (auto simp: session_grows_def world_ok_def Let_def life_ok_def server_buffer_def)
  with sk show ?thesis unfolding e by (simp add: exec_ok_def stretch_ok_def reader_keeps_def later_def session_grows_def)
qed

lemma exec_count_ok:
  assumes ok: "world_ok (n + k) w"
  shows "exec_ok k (CountWritten conn n err) w (exec (CountWritten conn n err) w)"
proof -
  let ?s = "(sw_sess w)\<lparr>ss_c2sRx := ss_c2sRx (sw_sess w) + of_nat n\<rparr>"
  have rx: "unat (ss_c2sRx (sw_sess w) + of_nat n) = unat (ss_c2sRx (sw_sess w)) + n"
    using ok by (intro u64_add_nat) (simp add: world_ok_def Let_def)
  then have "world_ok k (w\<lparr>sw_sess := ?s\<rparr>)"
    using ok by (intro world_ok_update [OF ok]) (auto simp: session_grows_def world_ok_def Let_def life_ok_def server_buffer_def)
  with world_ok_acked [OF this] show ?thesis
    by (auto simp: Let_def later_def session_grows_def intro!: exec_ok_plain split: option.split)
qed

lemma buffer_broadcast [simp]: "server_buffer cfg (cond_broadcast s) = server_buffer cfg s"
  by (auto simp: server_buffer_def cond_broadcast_def)

lemma life_broadcast [simp]: "life_ok (cond_broadcast s) r = life_ok s r"
  by (simp add: life_ok_def cond_broadcast_def)

lemma world_ok_broadcast: "world_ok k (w\<lparr>sw_sess := s\<rparr>) \<Longrightarrow> world_ok k (w\<lparr>sw_sess := cond_broadcast s\<rparr>)"
  using world_ok_control [of k "w\<lparr>sw_sess := s\<rparr>" "cond_broadcast s"]
  by (auto simp: same_data_fields_def world_ok_def Let_def cond_broadcast_reader)

lemma later_broadcast: "later s (cond_broadcast s') = later s s'"
  by (auto simp: later_def session_grows_def cond_broadcast_reader)

lemma advance_world_ok:
  assumes ok: "world_ok k w" and adv: "advanceS2CAckLocked off (sw_sess w) = Inr s"
  shows "world_ok k (w\<lparr>sw_sess := s\<rparr>)" "later (sw_sess w) s" "ss_reader s = ss_reader (sw_sess w)"
proof -
  have "sender_ok (ss_s2cNext (sw_sess w)) (ss_s2cAck (sw_sess w)) (ss_s2cBufFrom (sw_sess w)) (ss_s2cBuf (sw_sess w)) (target_source w)"
    using ok by (simp add: world_ok_def Let_def)
  from s2c.advance_refines(1) [OF this adv] ok advance_frame [OF adv] show "world_ok k (w\<lparr>sw_sess := s\<rparr>)"
    by (intro world_ok_update [OF ok])
       (auto simp: session_grows_def world_ok_def Let_def life_ok_def server_buffer_def same_control_def)
  show "later (sw_sess w) s" "ss_reader s = ss_reader (sw_sess w)"
    using advance_frame [OF adv] by (auto simp: later_def session_grows_def same_control_def)
qed

lemma exec_advance_ok:
  assumes ok: "world_ok k w"
  shows "exec_ok k (AdvanceAck conn off) w (exec (AdvanceAck conn off) w)"
proof (cases "advanceS2CAckLocked off (sw_sess w)")
  case (Inl e)
  with world_ok_broadcast [of k "sw_sess w" w] ok show ?thesis
    by (auto intro!: exec_ok_plain simp: later_broadcast cond_broadcast_reader split: if_splits)
next
  case (Inr s)
  with world_ok_broadcast [OF advance_world_ok(1) [OF ok Inr]] advance_world_ok(2,3) [OF ok Inr] show ?thesis
    by (auto intro!: exec_ok_plain simp: later_broadcast cond_broadcast_reader split: if_splits)
qed

lemma exec_close_write_ok:
  assumes ok: "world_ok k w"
  shows "exec_ok k CloseWriteTarget w (exec CloseWriteTarget w)" "exec_ok k (CloseWs i) w (exec (CloseWs i) w)"
proof -
  have "world_ok k (upd_sess (\<lambda>s. s\<lparr>ss_target := target_close_write (ss_target s)\<rparr>) w)"
    using ok by (intro world_ok_control [OF ok])
      (auto simp: same_data_fields_def world_ok_def Let_def life_ok_def server_buffer_def target_close_write_def)
  then show "exec_ok k CloseWriteTarget w (exec CloseWriteTarget w)"
    by (auto intro!: exec_ok_plain simp: later_def session_grows_def target_close_write_def)
  show "exec_ok k (CloseWs i) w (exec (CloseWs i) w)"
    using ok by (auto intro!: exec_ok_plain simp: world_ok_def Let_def)
qed

lemma exec_close_target_ok:
  assumes ok: "world_ok k w" and c: "ss_closed (sw_sess w)"
  shows "exec_ok k CloseTarget w (exec CloseTarget w)" "exec_ok k Unregister w (exec Unregister w)"
proof -
  have "world_ok k (upd_sess (\<lambda>s. s\<lparr>ss_target := target_close (ss_target s)\<rparr>) w)"
    using ok c by (intro world_ok_control [OF ok])
      (auto simp: same_data_fields_def world_ok_def Let_def life_ok_def server_buffer_def)
  then show "exec_ok k CloseTarget w (exec CloseTarget w)"
    by (auto intro!: exec_ok_plain simp: later_def session_grows_def)
  show "exec_ok k Unregister w (exec Unregister w)"
    using ok c by (auto intro!: exec_ok_plain simp: world_ok_def Let_def life_ok_def)
qed

lemma exec_close_ok:
  assumes ok: "world_ok k w"
  shows "exec_ok k (Close code m) w (exec (Close code m) w)"
proof (cases "ss_closed (sw_sess w)")
  case False
  let ?s = "(sw_sess w)\<lparr>ss_closed := True, ss_active := None, ss_disconnectTTL := None\<rparr>"
  have "world_ok k (w\<lparr>sw_sess := ?s\<rparr>)"
    using ok by (intro world_ok_control [OF ok]) (auto simp: same_data_fields_def world_ok_def Let_def life_ok_def server_buffer_def)
  from world_ok_broadcast [OF this] False show ?thesis
    by (auto intro!: exec_ok_plain simp: later_broadcast later_def session_grows_def cond_broadcast_reader Let_def
        split: if_splits option.splits)
qed (use ok in \<open>auto intro!: exec_ok_same\<close>)

lemma exec_drop_ok:
  assumes ok: "world_ok k w"
  shows "exec_ok k (Drop conn) w (exec (Drop conn) w)"
proof (cases "ss_closed (sw_sess w) \<or> ss_active (sw_sess w) \<noteq> Some conn")
  case False
  let ?s = "(sw_sess w)\<lparr>ss_active := None, ss_disconnected := Some (sw_now w),
       ss_disconnectTTL := Some (sw_now w + rc_timeout (sw_cfg w))\<rparr>"
  have "world_ok k (w\<lparr>sw_sess := ?s\<rparr>)"
    using ok False by (intro world_ok_control [OF ok]) (auto simp: same_data_fields_def world_ok_def Let_def life_ok_def server_buffer_def)
  from world_ok_broadcast [OF this] False show ?thesis
    by (auto intro!: exec_ok_plain simp: later_broadcast later_def session_grows_def cond_broadcast_reader disconnect_def Let_def
        split: if_splits)
qed (use ok in \<open>auto intro!: exec_ok_same simp: disconnect_def Let_def\<close>)

lemma exec_send_ok:
  assumes ok: "world_ok k w" and h: "server_frame_ok (sw_sess w) (h, p)"
  shows "exec_ok k (Send conn h p oe) w (exec (Send conn h p oe) w)"
proof -
  obtain e w' where s: "server_send conn h p w = (e, w')" by fastforce
  have "world_ok k w'" "sw_sess w' = sw_sess w"
    using world_ok_send [OF ok h, of conn] server_send_eq [OF s] s by simp_all
  with s show ?thesis
    by (cases e; cases oe) (auto intro!: exec_ok_plain)
qed

lemma exec_read_failed_ok: "world_ok k w \<Longrightarrow> exec_ok k (ReadFailed conn e) w (exec (ReadFailed conn e) w)"
  by (auto intro!: exec_ok_same)

lemma replay_acts_ok:
  assumes ok: "world_ok k w" and b: "b \<in> set (replay_acts conn (sw_sess w))"
  shows "act_ok (sw_sess w) b \<and> \<not> reader_act b \<and> pending b = 0"
proof -
  have so: "sender_ok (ss_s2cNext (sw_sess w)) (ss_s2cAck (sw_sess w)) (ss_s2cBufFrom (sw_sess w)) (ss_s2cBuf (sw_sess w)) (target_source w)"
    and fin: "ss_s2cFin (sw_sess w) \<Longrightarrow> ss_reader (sw_sess w) = ReaderStopped"
    using ok by (simp_all add: world_ok_def Let_def server_buffer_def)
  from b consider "b = Send conn (accept_header (ss_id (sw_sess w)) (ss_epoch (sw_sess w)) (ss_c2sRx (sw_sess w)) (ss_s2cAck (sw_sess w))) [] DropStop"
    | off p where "(off, p) \<in> set (chunks (ss_s2cBufFrom (sw_sess w)) (ss_s2cBuf (sw_sess w)))"
        "b = Send conn (data_header dirServerToClient off) p DropStop"
    | "ss_s2cFin (sw_sess w)" "b = Send conn (fin_header dirServerToClient (ss_s2cNext (sw_sess w))) [] Ignore"
    by (auto simp: replay_acts_def data_acts_def split: if_splits)
  then show ?thesis
  proof cases
    case 1
    with world_ok_acked [OF ok] show ?thesis by simp
  next
    case 2
    with sender_ok_chunks(1) [OF so] show ?thesis by (simp add: data_header_def)
  next
    case 3
    with so fin show ?thesis by (simp add: sender_ok_def)
  qed
qed

lemma exec_resume_ok:
  assumes ok: "world_ok k w"
  shows "exec_ok k (Resume i f) w (exec (Resume i f) w)"
proof -
  let ?s = "sw_sess w"
  consider "ss_closed ?s \<or> ss_c2sRx ?s < h_c2s_rx f \<or> (\<exists>e. advanceS2CAckLocked (h_s2c_rx f) ?s = Inl e)"
      "\<not> ss_closed ?s \<longrightarrow> \<not> (\<exists>t. ss_disconnected ?s = Some t \<and> rc_timeout (sw_cfg w) < sw_now w - t)"
    | "\<not> ss_closed ?s" "\<exists>t. ss_disconnected ?s = Some t \<and> rc_timeout (sw_cfg w) < sw_now w - t"
    | s1 where "\<not> ss_closed ?s" "(\<exists>t. ss_disconnected ?s = Some t \<and> rc_timeout (sw_cfg w) < sw_now w - t) = False"
        "\<not> ss_c2sRx ?s < h_c2s_rx f" "advanceS2CAckLocked (h_s2c_rx f) ?s = Inr s1"
    by (cases "advanceS2CAckLocked (h_s2c_rx f) ?s") auto
  then show ?thesis
  proof cases
    case 1
    then have "exec (Resume i f) w = ([], True, w)" by (auto simp: Let_def)
    with ok show ?thesis by (simp only:) (rule exec_ok_same; simp)
  next
    case 2
    then have "exec (Resume i f) w = ([Close ''resume_timeout'' ''resume timeout''], True, w)" by (simp add: Let_def)
    with ok show ?thesis by (simp only:) (rule exec_ok_same; simp)
  next
    case (3 s1)
    let ?s2 = "resume_commit i s1" and ?old = "case ss_active ?s of None \<Rightarrow> [] | Some old \<Rightarrow> [CloseWs (sc_ws old)]"
    let ?w1 = "w\<lparr>sw_sess := ?s2\<rparr>" and ?conn = "\<lparr>sc_ws = i, sc_epoch = ss_epoch (resume_commit i s1)\<rparr>"
    note a = advance_world_ok [OF ok 3(4)]
    have "world_ok k ((w\<lparr>sw_sess := s1\<rparr>)\<lparr>sw_sess := ?s2\<rparr>)"
      using a(1) 3(1) advance_frame(1) [OF 3(4)]
      by (intro world_ok_control [OF a(1)])
         (auto simp: same_data_fields_def world_ok_def Let_def life_ok_def server_buffer_def same_control_def resume_commit_def)
    then have w1: "world_ok k ?w1" by simp
    have new: "\<forall>b \<in> set (?old @ replay_acts ?conn ?s2). act_ok ?s2 b \<and> \<not> reader_act b \<and> pending b = 0"
      using replay_acts_ok [OF w1, of _ ?conn] by (auto split: option.splits)
    have "exec (Resume i f) w = (?old @ replay_acts ?conn ?s2, True, ?w1)" using 3(1,3,4) by (simp add: Let_def 3(2))
    moreover have "later ?s ?s2" using a(2) by (auto simp: later_def session_grows_def)
    ultimately show ?thesis using w1 new a(3) by (simp only:) (rule exec_ok_plain; simp)
  qed
qed


lemma exec_append_ok:
  assumes ok: "world_ok k w" and r: "reader_ready (sw_sess w) (AppendRead bs failed)"
    and fit: "length (target_source w) + length bs < stream_limit"
  shows "exec_ok k (AppendRead bs failed) w (exec (AppendRead bs failed) w)"
proof -
  let ?s = "sw_sess w"
  let ?s1 = "append_s2c bs (note_read bs (?s\<lparr>ss_reader := ReaderCheck\<rparr>))"
  have so: "sender_ok (ss_s2cNext ?s) (ss_s2cAck ?s) (ss_s2cBufFrom ?s) (ss_s2cBuf ?s) (target_source w)"
    using ok by (simp add: world_ok_def Let_def)
  have "sender_ok (ss_s2cNext ?s1) (ss_s2cAck ?s1) (ss_s2cBufFrom ?s1) (ss_s2cBuf ?s1) (target_source w @ bs)"
    using s2c.append_sender_ok [of "note_read bs (?s\<lparr>ss_reader := ReaderCheck\<rparr>)" "target_source w" bs] so fit
    by (simp add: note_read_def)
  then have w1: "world_ok k (w\<lparr>sw_sess := ?s1\<rparr>)"
    using ok r by (intro world_ok_update [OF ok])
      (auto simp: session_grows_def world_ok_def Let_def life_ok_def server_buffer_def append_s2c_def note_read_def)
  have w0: "world_ok k (w\<lparr>sw_sess := ?s\<lparr>ss_reader := ReaderCheck\<rparr>\<rparr>)"
    using ok r by (intro world_ok_control [OF ok])
      (auto simp: same_data_fields_def world_ok_def Let_def life_ok_def server_buffer_def)
  have "server_frame_ok ?s1 (data_header dirServerToClient (ss_s2cNext ?s), bs)"
    using so by (simp add: data_header_def append_s2c_def note_read_def sender_ok_def slice_at_end)
  moreover have "later ?s ?s1" "later ?s (?s\<lparr>ss_reader := ReaderCheck\<rparr>)"
    using r by (auto simp: later_def session_grows_def append_s2c_def note_read_def)
  ultimately show ?thesis
    using w0 w1 by (auto simp: exec_ok_def stretch_ok_def reader_keeps_def Let_def append_s2c_def note_read_def split: option.split)
qed

lemma exec_end_ok:
  assumes ok: "world_ok k w" and r: "reader_ready (sw_sess w) EndRead"
  shows "exec_ok k EndRead w (exec EndRead w)"
proof -
  let ?s1 = "(sw_sess w)\<lparr>ss_s2cFin := True, ss_reader := ReaderStopped\<rparr>"
  have "world_ok k (w\<lparr>sw_sess := ?s1\<rparr>)"
    using ok r by (intro world_ok_control [OF ok])
      (auto simp: same_data_fields_def world_ok_def Let_def life_ok_def server_buffer_def)
  moreover have "server_frame_ok ?s1 (fin_header dirServerToClient (ss_s2cNext ?s1), [])"
    using ok by (simp add: world_ok_def Let_def sender_ok_def)
  moreover have "later (sw_sess w) ?s1" using r by (auto simp: later_def session_grows_def)
  ultimately show ?thesis by (auto simp: exec_ok_def stretch_ok_def reader_keeps_def Let_def split: option.split)
qed

lemma exec_keeps:
  assumes ok: "world_ok (pending a + k) w" and a: "act_ok (sw_sess w) a" "reader_act a \<longrightarrow> reader_ready (sw_sess w) a"
    and r: "exec a w = r" and fit: "length (target_written (snd (snd r))) < stream_limit" "length (target_source (snd (snd r))) < stream_limit"
  shows "exec_ok k a w r"
proof (cases a)
  case (AppendRead bs failed)
  have "length (target_source w) + length bs < stream_limit"
    using fit(2) r AppendRead by (auto simp: Let_def append_s2c_def note_read_def split: if_splits)
  with ok a r AppendRead show ?thesis using exec_append_ok [of k w bs failed] by (auto simp del: exec.simps)
next
  case EndRead
  with ok a r show ?thesis using exec_end_ok [of k w] by (auto simp del: exec.simps)
next
  case (WriteTarget conn p)
  with ok r fit show ?thesis using exec_write_ok [of k w conn p] by (auto simp del: exec.simps)
qed (use ok a r in \<open>auto simp: exec_frame_ok exec_read_failed_ok exec_check_ok exec_count_ok exec_advance_ok exec_fin_ok
      exec_close_write_ok exec_close_target_ok exec_resume_ok exec_send_ok exec_drop_ok exec_close_ok simp del: exec.simps\<close>)


section \<open>A session and its goroutines\<close>

text \<open>
  The pool: goroutine 0 is \<open>readTarget\<close>, goroutine \<open>Suc i\<close> serves WebSocket \<open>i\<close> (\<open>accept\<close>, then \<open>run\<close>) and also
  stands for callbacks of the resume timer, which run on goroutines of their own.
\<close>

type_synonym locked_session = "(act, sworld) pool"

definition fits :: "sworld \<Rightarrow> bool" where
  "fits w \<longleftrightarrow> length (target_written w) < stream_limit \<and> length (target_source w) < stream_limit"

text \<open>
  Any goroutine does its next stretch; an idle one takes up a frame, a failed read, a resume or the timer; the
  reader looks for room or returns from \<open>Read\<close>; the clock and the environment move as in \<open>session_step\<close>.
\<close>

inductive lock_step :: "locked_session \<Rightarrow> locked_session \<Rightarrow> bool" where
  lk_run: "g < length (pl_todo l) \<Longrightarrow> pl_todo l ! g = a # todo \<Longrightarrow> exec a (pl_world l) = (new, keep, w') \<Longrightarrow> fits w' \<Longrightarrow>
    lock_step l (put g (new @ (if keep then todo else [])) w' l)"
| lk_frame: "idle (Suc (sc_ws conn)) l \<Longrightarrow> lock_step l (put (Suc (sc_ws conn)) [Frame conn f p] (pl_world l) l)"
| lk_error: "idle (Suc (sc_ws conn)) l \<Longrightarrow> lock_step l (put (Suc (sc_ws conn)) [ReadFailed conn e] (pl_world l) l)"
| lk_resume: "idle (Suc i) l \<Longrightarrow> lock_step l (put (Suc i) [Resume i f] (pl_world l) l)"
| lk_timer: "idle (Suc i) l \<Longrightarrow> ss_disconnectTTL (sw_sess (pl_world l)) = Some t \<Longrightarrow> t \<le> sw_now (pl_world l) \<Longrightarrow>
    lock_step l (put (Suc i) [Close ''resume_timeout'' ''resume timeout'']
      (upd_sess (\<lambda>s. s\<lparr>ss_disconnectTTL := None\<rparr>) (pl_world l)) l)"
| lk_check: "idle 0 l \<Longrightarrow> ss_reader (sw_sess (pl_world l)) = ReaderCheck \<Longrightarrow> lock_step l (put 0 [] (reader_check (pl_world l)) l)"
| lk_read: "idle 0 l \<Longrightarrow> ss_reader (sw_sess (pl_world l)) = ReaderReading \<Longrightarrow> length bs \<le> dataChunkBytes \<Longrightarrow>
    lock_step l (put 0 [AppendRead bs failed] (pl_world l) l)"
| lk_clock: "sw_now (pl_world l) \<le> t \<Longrightarrow> lock_step l (l\<lparr>pl_world := (pl_world l)\<lparr>sw_now := t\<rparr>\<rparr>)"
| lk_socket: "lock_step l (l\<lparr>pl_world := (pl_world l)\<lparr>sw_ws := (sw_ws (pl_world l))(i := (sw_ws (pl_world l) i)\<lparr>ws_budget := b\<rparr>)\<rparr>\<rparr>)"
| lk_target: "lock_step l (l\<lparr>pl_world := upd_sess (\<lambda>s. s\<lparr>ss_target := (ss_target s)\<lparr>tg_sink := (tg_sink (ss_target s))\<lparr>sk_budget := b\<rparr>\<rparr>\<rparr>) (pl_world l)\<rparr>)"

text \<open>\<open>accept\<close> of a new session: registered and with its reader started before the accept frame is sent.\<close>

definition accept_new :: "resume_config \<Rightarrow> instant \<Rightarrow> string \<Rightarrow> nat \<Rightarrow> nat \<Rightarrow> locked_session" where
  "accept_new cfg now sid i n = put (Suc i) [Send \<lparr>sc_ws = i, sc_epoch = 1\<rparr> (accept_header sid 1 0 0) [] GiveUp]
     (fresh_world cfg now sid i) \<lparr>pl_world = fresh_world cfg now sid i, pl_todo = replicate n []\<rparr>"

subsection \<open>The invariant of the pool\<close>

abbreviation locked_inv :: "locked_session \<Rightarrow> bool" where
  "locked_inv \<equiv> pool_inv pending world_ok (\<lambda>w. act_ok (sw_sess w)) reader_act (\<lambda>w. reader_ready (sw_sess w))"

definition uncounted :: "locked_session \<Rightarrow> nat" where
  "uncounted l = pend (acts l)"

lemma reader_ready_keeps: "reader_ready s a \<Longrightarrow> reader_act a \<Longrightarrow> reader_keeps s s' \<Longrightarrow> reader_ready s' a"
  by (cases a) (auto simp: reader_keeps_def)

interpretation session_pool: goroutine_pool exec pending world_ok "\<lambda>w. act_ok (sw_sess w)" reader_act "\<lambda>w. reader_ready (sw_sess w)"
  "\<lambda>w w'. later (sw_sess w) (sw_sess w')" "\<lambda>w w'. reader_keeps (sw_sess w) (sw_sess w')" fits
proof
  fix a k new keep and w w' :: sworld
  assume "world_ok (pending a + k) w" "act_ok (sw_sess w) a" "reader_act a \<longrightarrow> reader_ready (sw_sess w) a"
    and e: "exec a w = (new, keep, w')" and "fits w'"
  then have "exec_ok k a w (new, keep, w')" by (intro exec_keeps [OF _ _ _ e]) (simp_all add: fits_def)
  then show "stretch_ok pending world_ok (\<lambda>w. act_ok (sw_sess w)) reader_act (\<lambda>w. reader_ready (sw_sess w))
      (\<lambda>w w'. later (sw_sess w) (sw_sess w')) (\<lambda>w w'. reader_keeps (sw_sess w) (sw_sess w')) k a w new w'"
    by (simp add: exec_ok_def)
qed (auto intro: act_ok_later reader_ready_keeps)

lemma reader_check_world:
  assumes ok: "world_ok k w" and r: "ss_reader (sw_sess w) = ReaderCheck"
  shows "world_ok k (reader_check w)" "later (sw_sess w) (sw_sess (reader_check w))"
proof -
  show "world_ok k (reader_check w)"
    using r unfolding reader_check_def
    by (intro world_ok_control [OF ok]) (use ok in \<open>auto simp: same_data_fields_def world_ok_def Let_def life_ok_def server_buffer_def\<close>)
  show "later (sw_sess w) (sw_sess (reader_check w))"
    using r by (auto simp: reader_check_def later_def session_grows_def)
qed

lemma lock_step_inv:
  assumes step: "lock_step l l'" and inv: "locked_inv l"
  shows "locked_inv l'"
proof -
  let ?w = "pl_world l"
  have ok: "world_ok (pend (acts l)) ?w" using inv by (simp add: pool_inv_def)
  from step show ?thesis
  proof cases
    case (lk_run g a todo new keep w')
    then show ?thesis using session_pool.inv_run [OF inv] by metis
  next
    case (lk_frame conn f p)
    with ok show ?thesis by (auto intro!: session_pool.inv_start [OF inv] simp: todo_ok_def)
  next
    case (lk_error conn e)
    with ok show ?thesis by (auto intro!: session_pool.inv_start [OF inv] simp: todo_ok_def)
  next
    case (lk_resume i f)
    with ok show ?thesis by (auto intro!: session_pool.inv_start [OF inv] simp: todo_ok_def)
  next
    case (lk_timer i t)
    have "world_ok (pend (acts l)) (?w\<lparr>sw_sess := (sw_sess ?w)\<lparr>ss_disconnectTTL := None\<rparr>\<rparr>)"
      using ok by (intro world_ok_control [OF ok])
        (auto simp: same_data_fields_def world_ok_def Let_def life_ok_def server_buffer_def)
    with lk_timer show ?thesis
      by (auto intro!: session_pool.inv_start [OF inv] simp: todo_ok_def later_def session_grows_def reader_keeps_def)
  next
    case lk_check
    with reader_check_world [OF ok] show ?thesis
      by (auto intro!: session_pool.inv_start [OF inv] simp: todo_ok_def)
  next
    case (lk_read bs failed)
    with ok show ?thesis by (auto intro!: session_pool.inv_start [OF inv] simp: todo_ok_def)
  next
    case (lk_clock t)
    with ok show ?thesis by (auto intro!: session_pool.inv_world [OF inv] simp: world_ok_def Let_def)
  next
    case (lk_socket i b)
    with ok show ?thesis by (auto intro!: session_pool.inv_world [OF inv] simp: world_ok_def Let_def frames_ok_in_def)
  next
    case (lk_target b)
    let ?t = "(ss_target (sw_sess ?w))\<lparr>tg_sink := (tg_sink (ss_target (sw_sess ?w)))\<lparr>sk_budget := b\<rparr>\<rparr>"
    have "world_ok (pend (acts l)) (?w\<lparr>sw_sess := (sw_sess ?w)\<lparr>ss_target := ?t\<rparr>\<rparr>)"
      using ok by (intro world_ok_control [OF ok])
        (auto simp: same_data_fields_def world_ok_def Let_def life_ok_def server_buffer_def)
    with lk_target show ?thesis
      by (auto intro!: session_pool.inv_world [OF inv] simp: later_def session_grows_def reader_keeps_def)
  qed
qed

interpretation locked: step_system lock_step locked_inv
  by unfold_locales (rule lock_step_inv)

lemma accept_new_inv:
  assumes "0 < rc_buffer cfg"
  shows "locked_inv (accept_new cfg now sid i n)"
proof -
  let ?l = "\<lparr>pl_world = fresh_world cfg now sid i, pl_todo = replicate n []\<rparr>"
  let ?todo = "[Send \<lparr>sc_ws = i, sc_epoch = 1\<rparr> (accept_header sid 1 0 0) [] GiveUp]"
  have w: "world_ok 0 (pl_world ?l)"
    using fresh_inv [OF assms, of now sid i]
    by (simp add: world_ok_def Let_def server_inv_def server_streams_def life_ok_def)
       (simp add: fresh_world_def open_session_def newServerSession_def)
  have none: "acts ?l = []" by simp
  have inv: "locked_inv ?l" using w by (simp add: pool_inv_def todo_ok_def)
  show ?thesis
  proof (cases "Suc i < n")
    case True
    with w none show ?thesis unfolding accept_new_def
      by (intro session_pool.inv_start [OF inv]) (auto simp: idle_def todo_ok_def)
  next
    case False
    then have "accept_new cfg now sid i n = ?l" by (simp add: accept_new_def put_def list_update_beyond)
    with inv show ?thesis by simp
  qed
qed

lemmas interleaved_inv = locked.run_inv [OF _ accept_new_inv]


section \<open>What holds under any interleaving\<close>

text \<open>
  C4. The code of a session is correct at the grain of its locks. Whatever the order in which its goroutines take
  turns, the replay buffer holds exactly the bytes read from the target and not acknowledged, \<open>c2sRx\<close>
  and the bytes written but not counted yet make up the bytes the target received, the buffer stays bounded,
  and a session that left the table is closed and has no active connection.
\<close>

theorem any_interleaving_keeps_session:
  assumes "0 < rc_buffer cfg" and "lock_step\<^sup>*\<^sup>* (accept_new cfg now sid i n) l" and "w = pl_world l"
  shows "unat (ss_s2cNext (sw_sess w)) = length (target_source w) \<and> ss_s2cBufFrom (sw_sess w) = ss_s2cAck (sw_sess w)
    \<and> unat (ss_s2cAck (sw_sess w)) \<le> length (target_source w)
    \<and> ss_s2cBuf (sw_sess w) = drop (unat (ss_s2cAck (sw_sess w))) (target_source w)
    \<and> unat (ss_c2sRx (sw_sess w)) + uncounted l = length (target_written w)
    \<and> int (length (ss_s2cBuf (sw_sess w))) < rc_buffer (sw_cfg w) + int dataChunkBytes
    \<and> (\<not> sw_registered w \<longrightarrow> ss_closed (sw_sess w)) \<and> (ss_closed (sw_sess w) \<longrightarrow> ss_active (sw_sess w) = None)"
  using interleaved_inv [OF assms(2,1)] assms(3)
  by (auto simp: pool_inv_def uncounted_def world_ok_def Let_def sender_ok_def server_buffer_def life_ok_def)

text \<open>
  C5. Every frame that any goroutine of a session ever sent is truthful, whatever the interleaving: data is a
  slice of what was read from the target at its offset, no acknowledgement or accept claims more than the target
  received, and a fin carries the final length of the target's stream.
\<close>

theorem any_interleaving_frames_truthful:
  assumes "0 < rc_buffer cfg" and "lock_step\<^sup>*\<^sup>* (accept_new cfg now sid i n) l"
    and "(h, p) \<in> set (ws_out (sw_ws (pl_world l) k))"
  shows "(h_type h = ''data'' \<longrightarrow> slice_at (unat (h_offset h)) p (target_source (pl_world l)))
    \<and> (h_type h = ''ack'' \<longrightarrow> unat (h_received_offset h) \<le> length (target_written (pl_world l)))
    \<and> (h_type h = ''accept'' \<longrightarrow> unat (h_c2s_rx h) \<le> length (target_written (pl_world l)))
    \<and> (h_type h = ''fin'' \<longrightarrow> unat (h_offset h) = length (target_source (pl_world l)))"
  using interleaved_inv [OF assms(2,1)] assms(3)
  by (fastforce simp: pool_inv_def uncounted_def world_ok_def Let_def frames_ok_in_def server_frame_ok_def)

section \<open>Without overlapping deliveries\<close>

text \<open>
  A goroutine delivers between its decision to write and its count. The run is careful when at most one delivers at a
  time and the data frames that arrive are slices of the client's stream.
\<close>

fun delivers :: "act \<Rightarrow> bool" where
  "delivers (WriteTarget conn p) = True"
| "delivers (CountWritten conn n err) = True"
| "delivers _ = False"

definition honest :: "bytes \<Rightarrow> act \<Rightarrow> bool" where
  "honest src a \<longleftrightarrow> (\<forall>conn f p. a = Frame conn f p \<longrightarrow> h_type f = ''data'' \<longrightarrow> slice_at (unat (h_offset f)) p src)"

definition careful_step :: "bytes \<Rightarrow> locked_session \<Rightarrow> locked_session \<Rightarrow> bool" where
  "careful_step src l l' \<longleftrightarrow> lock_step l l' \<and> deliveries delivers l' \<le> 1 \<and> list_all (honest src) (acts l')"

text \<open>What the bytes of a planned act are.\<close>

fun genuine :: "bytes \<Rightarrow> u64 \<Rightarrow> act \<Rightarrow> bool" where
  "genuine src rx (CheckData conn f p) = slice_at (unat (h_offset f)) p src"
| "genuine src rx (WriteTarget conn p) = slice_at (unat rx) p src"
| "genuine src rx a = honest src a"

definition careful_inv :: "bytes \<Rightarrow> locked_session \<Rightarrow> bool" where
  "careful_inv src l \<longleftrightarrow> locked_inv l \<and> deliveries delivers l \<le> 1 \<and> delivered_ok target_written (\<lambda>w. ss_c2sRx (sw_sess w)) genuine src l"

lemma genuine_reject [simp]: "b \<in> set (reject_acts conn m) \<Longrightarrow> genuine src rx b"
  by (auto simp: reject_acts_def honest_def)

lemma genuine_replay: "b \<in> set (replay_acts conn s) \<Longrightarrow> genuine src rx b"
  by (auto simp: replay_acts_def data_acts_def honest_def split: if_splits)

lemma exec_quiet:
  assumes e: "exec a w = (new, keep, w')" and a: "\<not> delivers a" "genuine src (ss_c2sRx (sw_sess w)) a"
  shows "ss_c2sRx (sw_sess w') = ss_c2sRx (sw_sess w) \<and> target_written w' = target_written w
    \<and> (\<forall>b \<in> set new. genuine src (ss_c2sRx (sw_sess w)) b)"
proof (cases a)
  case (Frame conn f p)
  with assms show ?thesis by (auto simp: honest_def split: if_splits)
next
  case (ReadFailed conn x)
  with assms show ?thesis by (auto simp: honest_def split: if_splits)
next
  case (CheckData conn f p)
  with assms show ?thesis by (auto simp: honest_def Let_def not_less split: if_splits)
next
  case (AdvanceAck conn off)
  with e show ?thesis
    by (cases "advanceS2CAckLocked off (sw_sess w)") (auto dest: advance_frame)
next
  case (CheckFin conn f)
  with assms show ?thesis by (auto simp: honest_def Let_def split: if_splits)
next
  case (Resume i f)
  show ?thesis
  proof (cases "advanceS2CAckLocked (h_s2c_rx f) (sw_sess w)")
    case (Inl x)
    with e Resume show ?thesis by (auto simp: honest_def Let_def split: if_splits)
  next
    case (Inr s1)
    note fr = advance_frame [OF Inr]
    from Inr e Resume fr show ?thesis
      by (auto simp: honest_def Let_def dest: genuine_replay split: if_splits option.splits)
  qed
next
  case (AppendRead bs failed)
  with assms show ?thesis
    by (auto simp: honest_def Let_def append_s2c_def note_read_def split: if_splits option.splits)
next
  case (Send conn h p oe)
  obtain x v where s: "server_send conn h p w = (x, v)" by fastforce
  with server_send_eq [OF s] e Send show ?thesis
    by (cases x; cases oe) (auto simp: honest_def)
next
  case (Drop conn)
  with e show ?thesis by (auto simp: sess_disconnect Let_def)
next
  case (Close code m)
  with e show ?thesis by (auto simp: honest_def Let_def split: if_splits option.splits)
qed (use assms in \<open>auto simp: honest_def Let_def split: if_splits option.splits\<close>)


lemma genuine_rx: "\<not> delivers a \<Longrightarrow> genuine src rx a = genuine src rx' a"
  by (cases a) simp_all

lemma exec_delivers:
  assumes e: "exec a w = (new, keep, w')" and a: "delivers a" "genuine src (ss_c2sRx (sw_sess w)) a"
    and w: "prefix (target_written w) src"
      "\<And>conn p. a = WriteTarget conn p \<Longrightarrow> unat (ss_c2sRx (sw_sess w)) = length (target_written w)"
  shows "prefix (target_written w') src \<and> (\<forall>b \<in> set new. genuine src rx b)"
proof (cases a)
  case (WriteTarget conn p)
  obtain n err sk where wr: "writeAll sink_write (tg_sink (ss_target (sw_sess w))) p = (n, err, sk)" using prod_cases3 by blast
  from sink_writer.writeAll_log [OF wr] have "sk_written sk = target_written w @ take n p" by auto
  moreover have "prefix (target_written w @ take n p) src"
    using a(2) w WriteTarget by (intro prefix_extend_slice) simp_all
  ultimately show ?thesis
    using e wr unfolding WriteTarget by (auto simp: client_data_write_def honest_def)
qed (use e a w(1) in \<open>auto simp: honest_def Let_def split: option.splits\<close>)

fun writes :: "act \<Rightarrow> bool" where
  "writes (WriteTarget conn p) = True"
| "writes _ = False"

interpretation session_delivery: exclusive_delivery exec pending world_ok "\<lambda>w. act_ok (sw_sess w)" reader_act "\<lambda>w. reader_ready (sw_sess w)"
  "\<lambda>w w'. later (sw_sess w) (sw_sess w')" "\<lambda>w w'. reader_keeps (sw_sess w) (sw_sess w')" fits
  delivers writes target_written "\<lambda>w. ss_c2sRx (sw_sess w)" genuine
proof
  show "unat (ss_c2sRx (sw_sess w)) = length (target_written w)" if "world_ok 0 w" for w
    using that by (simp add: world_ok_def Let_def)
  show "pending a = 0" if "\<not> delivers a" for a using that by (cases a) simp_all
  show "delivers a \<and> pending a = 0" if "writes a" for a using that by (cases a) simp_all
  show "genuine src r' a" if "\<not> delivers a" "genuine src r a" for src r r' a using genuine_rx [OF that(1)] that(2) by blast
next
  fix a new keep src and w w' :: sworld
  assume e: "exec a w = (new, keep, w')"
  show "ss_c2sRx (sw_sess w') = ss_c2sRx (sw_sess w) \<and> target_written w' = target_written w
      \<and> (\<forall>b \<in> set new. genuine src (ss_c2sRx (sw_sess w)) b)" if "\<not> delivers a" "genuine src (ss_c2sRx (sw_sess w)) a"
    by (rule exec_quiet [OF e that])
  show "prefix (target_written w') src \<and> (\<forall>b \<in> set new. genuine src (ss_c2sRx (sw_sess w')) b)"
    if "delivers a" "genuine src (ss_c2sRx (sw_sess w)) a" "prefix (target_written w) src"
      "writes a \<Longrightarrow> unat (ss_c2sRx (sw_sess w)) = length (target_written w)"
    using exec_delivers [OF e that(1,2,3)] that(4) by simp
qed

lemma careful_step_inv:
  assumes step: "careful_step src l l'" and inv: "careful_inv src l"
  shows "careful_inv src l'"
proof -
  have ls: "lock_step l l'" and one: "deliveries delivers l' \<le> 1" and honest: "\<And>a. a \<in> set (acts l') \<Longrightarrow> honest src a"
    using step by (auto simp: careful_step_def list_all_iff)
  have li: "locked_inv l" "deliveries delivers l \<le> 1" and ok: "delivered_ok target_written (\<lambda>w. ss_c2sRx (sw_sess w)) genuine src l"
    using inv by (auto simp: careful_inv_def)
  note start = session_delivery.delivered_start [OF ok] and env = session_delivery.delivered_world [OF ok]
  from ls have "delivered_ok target_written (\<lambda>w. ss_c2sRx (sw_sess w)) genuine src l'"
  proof cases
    case (lk_run g a todo new keep w')
    show ?thesis unfolding lk_run(1) by (rule session_delivery.delivered_run [OF li ok lk_run(2-4)])
  next
    case (lk_frame conn f p)
    then have "honest src (Frame conn f p)"
      by (intro honest) (simp only: acts_put_new list.set_intros)
    with lk_frame start show ?thesis by simp
  qed (auto intro!: start env simp: honest_def reader_check_def)
  with lock_step_inv [OF ls li(1)] one show ?thesis by (simp add: careful_inv_def)
qed

interpretation careful: step_system "careful_step src" "careful_inv src" for src
  by unfold_locales (rule careful_step_inv)


lemma accept_new_careful:
  assumes "0 < rc_buffer cfg"
  shows "careful_inv src (accept_new cfg now sid i n)"
proof -
  have "acts (accept_new cfg now sid i n) = (if Suc i < n then [Send \<lparr>sc_ws = i, sc_epoch = 1\<rparr> (accept_header sid 1 0 0) [] GiveUp] else [])"
    by (simp add: accept_new_def put_def upd_conv_take_nth_drop list_update_beyond)
  moreover have "target_written (pl_world (accept_new cfg now sid i n)) = []"
    by (simp add: accept_new_def fresh_world_def open_session_def newServerSession_def)
  ultimately show ?thesis
    using accept_new_inv [OF assms, of now sid i n] by (simp add: careful_inv_def deliveries_def delivered_ok_def honest_def)
qed

text \<open>
  C6. Exactly-once delivery needs only that no two deliveries overlap. As long as at most one goroutine is between its
  check of the receive offset and its count, everything else may interleave in any way (resumes, timers, reads, replays,
  late frames of replaced connections): the target receives a prefix of the client's stream.
\<close>

theorem exclusive_delivery_exact:
  assumes "0 < rc_buffer cfg" and "(careful_step src)\<^sup>*\<^sup>* (accept_new cfg now sid i n) l"
  shows "prefix (target_written (pl_world l)) src"
  using careful.run_inv [OF assms(2) accept_new_careful [OF assms(1)]] by (simp add: careful_inv_def delivered_ok_def)

section \<open>A run\<close>

text \<open>Steps that take up frames of a given set only.\<close>

definition fed_step :: "frame set \<Rightarrow> locked_session \<Rightarrow> locked_session \<Rightarrow> bool" where
  "fed_step F l l' \<longleftrightarrow> lock_step l l' \<and> deliveries delivers l' \<le> 1 \<and> (\<forall>conn f p. Frame conn f p \<in> set (acts l') \<longrightarrow> (f, p) \<in> F)"

lemma fed_careful:
  assumes "(fed_step F)\<^sup>*\<^sup>* l l'" and "\<And>f p. (f, p) \<in> F \<Longrightarrow> slice_at (unat (h_offset f)) p src"
  shows "(careful_step src)\<^sup>*\<^sup>* l l'"
  using assms(1)
proof (rule rtranclp_mono [THEN predicate2D, rotated])
  show "fed_step F \<le> careful_step src"
    using assms(2) by (auto simp: fed_step_def careful_step_def list_all_iff honest_def simp del: set_concat)
qed

lemma fed_run: "(fed_step F)\<^sup>*\<^sup>* l l' \<Longrightarrow> lock_step\<^sup>*\<^sup>* l l'"
  by (induction rule: rtranclp_induct) (auto simp: fed_step_def intro: run_then)

abbreviation two :: "sworld \<Rightarrow> act list \<Rightarrow> locked_session" where
  "two w todo \<equiv> \<lparr>pl_world = w, pl_todo = [[], todo]\<rparr>"

lemma two_run:
  assumes "exec a w = (new, True, w')" and "fits w'"
    and "length (filter delivers (new @ todo)) \<le> 1" and "\<forall>conn f p. Frame conn f p \<in> set (new @ todo) \<longrightarrow> (f, p) \<in> F"
  shows "fed_step F (two w (a # todo)) (two w' (new @ todo))"
  using lk_run [of 1 "two w (a # todo)" a todo new True w'] assms
  by (simp add: fed_step_def put_def deliveries_def)

definition demo_input :: frame where
  "demo_input = (zero_header\<lparr>h_type := ''data'', h_direction := dirClientToServer, h_session_id := ''s'', h_epoch := 1\<rparr>, [7, 8])"

lemma demo_delivery:
  obtains w where "(fed_step {demo_input})\<^sup>*\<^sup>* (accept_new demo_cfg 0 ''s'' 0 2) (two w [CountWritten \<lparr>sc_ws = 0, sc_epoch = 1\<rparr> 2 None])"
    and "target_written w = [7, 8]" "target_source w = []" "ss_c2sRx (sw_sess w) = 0" "ss_id (sw_sess w) = ''s''" "healthy (sw_ws w 0)"
proof -
  let ?c = "\<lparr>sc_ws = 0, sc_epoch = 1\<rparr>" and ?w0 = "fresh_world demo_cfg 0 ''s'' 0" and ?f = "fst demo_input"
  let ?run = "(fed_step {demo_input})\<^sup>*\<^sup>* (accept_new demo_cfg 0 ''s'' 0 2)"
  have s0: "ss_id (sw_sess ?w0) = ''s''" "ss_c2sRx (sw_sess ?w0) = 0" "ss_epoch (sw_sess ?w0) = 1"
    "ss_active (sw_sess ?w0) = Some ?c" "\<not> ss_closed (sw_sess ?w0)" "target_source ?w0 = []"
    "tg_sink (ss_target (sw_sess ?w0)) = \<lparr>sk_written = [], sk_budget = None, sk_closed = False\<rparr>" "healthy (sw_ws ?w0 0)"
    by (simp_all add: fresh_world_def open_session_def newServerSession_def healthy_def)
  obtain w1 where a: "server_send ?c (accept_header ''s'' 1 0 0) [] ?w0 = (None, w1)" and h1: "healthy (sw_ws w1 0)"
    using server_send_healthy [of ?w0 ?c "accept_header ''s'' 1 0 0" "[]"] s0 accept_written [of "''s''" "''s''" 1 1 0 0]
    by (cases "server_send ?c (accept_header ''s'' 1 0 0) [] ?w0") (simp add: short_id_def utf8_valid_ascii)
  have s1: "sw_sess w1 = sw_sess ?w0" using server_send_eq [OF a] by simp
  have f1: "fits w1" by (simp add: fits_def s1 s0)
  obtain w2 where wr: "client_data_write [7, 8] w1 = (2, None, w2)"
    and w2: "w2 = upd_sess (\<lambda>s. s\<lparr>ss_target := (ss_target s)\<lparr>tg_sink :=
      (tg_sink (ss_target s))\<lparr>sk_written := sk_written (tg_sink (ss_target s)) @ [7, 8]\<rparr>\<rparr>\<rparr>) w1"
    using client_data_write_free [of w1 "[7, 8]"] by (simp add: s1 s0)
  have "?run (two ?w0 [Send ?c (accept_header ''s'' 1 0 0) [] GiveUp])"
    by (simp add: accept_new_def put_def numeral_2_eq_2)
  then have "?run (two w1 [])"
    by (rule run_then) (use two_run [of _ ?w0 "[]" w1 "[]"] a f1 in simp)
  then have "?run (two w1 [Frame ?c ?f [7, 8]])"
    by (rule run_then) (use lk_frame [of ?c "two w1 []" ?f "[7, 8]"] in
      \<open>simp add: fed_step_def idle_def put_def deliveries_def demo_input_def\<close>)
  then have "?run (two w1 [CheckData ?c ?f [7, 8]])"
    by (rule run_then) (use two_run [of "Frame ?c ?f [7, 8]" w1 "[CheckData ?c ?f [7, 8]]" w1 "[]"] f1 in
      \<open>simp add: isActive_def Let_def s1 s0 demo_input_def\<close>)
  then have "?run (two w1 [WriteTarget ?c [7, 8]])"
    by (rule run_then) (use two_run [of "CheckData ?c ?f [7, 8]" w1 "[WriteTarget ?c [7, 8]]" w1 "[]"] f1 in
      \<open>simp add: Let_def s1 s0 demo_input_def zero_header_def\<close>)
  then have "?run (two w2 [CountWritten ?c 2 None])"
    by (rule run_then) (use two_run [of "WriteTarget ?c [7, 8]" w1 "[CountWritten ?c 2 None]" w2 "[]"] wr w2 f1 in
      \<open>simp add: fits_def s1 s0\<close>)
  then show ?thesis by (rule that) (use h1 in \<open>simp_all add: w2 s1 s0\<close>)
qed

lemma demo_input_slice: "(f, p) \<in> {demo_input} \<Longrightarrow> slice_at (unat (h_offset f)) p [7, 8, 9]"
  by (simp add: demo_input_def slice_at_def zero_header_def)

theorem exclusive_delivery_exact_witness:
  "\<exists>w. target_written w = [7, 8] \<and> prefix (target_written w) [7, 8, 9]"
proof -
  obtain w where r: "(fed_step {demo_input})\<^sup>*\<^sup>* (accept_new demo_cfg 0 ''s'' 0 2) (two w [CountWritten \<lparr>sc_ws = 0, sc_epoch = 1\<rparr> 2 None])"
    "target_written w = [7, 8]" by (rule demo_delivery)
  from exclusive_delivery_exact [OF _ fed_careful [OF r(1) demo_input_slice]] r(2) show ?thesis by (auto simp: demo_cfg_def)
qed

theorem any_interleaving_keeps_session_witness:
  "\<exists>l. uncounted l = 2 \<and> ss_c2sRx (sw_sess (pl_world l)) = 0 \<and> length (target_written (pl_world l)) = 2"
proof -
  obtain w where r: "(fed_step {demo_input})\<^sup>*\<^sup>* (accept_new demo_cfg 0 ''s'' 0 2) (two w [CountWritten \<lparr>sc_ws = 0, sc_epoch = 1\<rparr> 2 None])"
    "ss_c2sRx (sw_sess w) = 0" by (rule demo_delivery)
  have "uncounted (two w [CountWritten \<lparr>sc_ws = 0, sc_epoch = 1\<rparr> 2 None]) = 2" by (simp add: uncounted_def)
  with any_interleaving_keeps_session [OF _ fed_run [OF r(1)] refl] r(2) show ?thesis
    by (intro exI [of _ "two w [CountWritten \<lparr>sc_ws = 0, sc_epoch = 1\<rparr> 2 None]"]) (simp add: demo_cfg_def)
qed

text \<open>The run goes on to the count and the acknowledgement.\<close>

theorem any_interleaving_frames_truthful_witness:
  "\<exists>w h. (h, []) \<in> set (ws_out (sw_ws w 0)) \<and> h_received_offset h = 2 \<and> unat (h_received_offset h) \<le> length (target_written w)"
proof -
  let ?c = "\<lparr>sc_ws = 0, sc_epoch = 1\<rparr>" and ?h = "ack_header dirClientToServer 2"
  obtain w where r: "(fed_step {demo_input})\<^sup>*\<^sup>* (accept_new demo_cfg 0 ''s'' 0 2) (two w [CountWritten ?c 2 None])"
    and w: "target_written w = [7, 8]" "target_source w = []" "ss_c2sRx (sw_sess w) = 0" "ss_id (sw_sess w) = ''s''" "healthy (sw_ws w 0)"
    by (rule demo_delivery)
  let ?w1 = "upd_sess (\<lambda>s. s\<lparr>ss_c2sRx := ss_c2sRx s + 2\<rparr>) w"
  have "\<exists>msg. writeFrame (fill_header ''s'' 1 ?h) [] = Inr msg"
    by (rule writeFrame_small)
       (simp_all add: fill_header_def path_level_def ack_header_def wf_header_def header_text_def utf8_valid_ascii dirClientToServer_def)
  then obtain w2 where s: "server_send ?c ?h [] ?w1 = (None, w2)"
    using server_send_healthy(1) [of ?w1 ?c ?h "[]"] w by (cases "server_send ?c ?h [] ?w1") simp
  have run: "lock_step\<^sup>*\<^sup>* (accept_new demo_cfg 0 ''s'' 0 2) (two w2 [])"
  proof -
    have "(fed_step {demo_input})\<^sup>*\<^sup>* (accept_new demo_cfg 0 ''s'' 0 2) (two ?w1 [Send ?c ?h [] Ignore])"
      by (rule run_then [OF r]) (use two_run [of "CountWritten ?c 2 None" w "[Send ?c ?h [] Ignore]" ?w1 "[]"] w in
        \<open>simp add: Let_def fits_def\<close>)
    then have "(fed_step {demo_input})\<^sup>*\<^sup>* (accept_new demo_cfg 0 ''s'' 0 2) (two w2 [])"
      by (rule run_then) (use two_run [of "Send ?c ?h [] Ignore" ?w1 "[]" w2 "[]"] s w server_send_eq [OF s] in \<open>simp add: fits_def\<close>)
    then show ?thesis by (rule fed_run)
  qed
  have out: "(fill_header ''s'' 1 ?h, []) \<in> set (ws_out (sw_ws w2 0))"
    using server_send_out [of ?c ?h "[]" ?w1 0] s w by simp
  from any_interleaving_frames_truthful [OF _ run, of "fill_header ''s'' 1 ?h" "[]" 0] out
  show ?thesis by (intro exI [of _ w2] exI [of _ "fill_header ''s'' 1 ?h"]) (simp add: demo_cfg_def)
qed

end
