(* ===== verification/Probe.thy ===== *)
theory Probe
  imports Client_Props
begin

text \<open>
  Probing a path: internal/tunnel/probe.go and the timings of timing.go. A candidate owns the
  WebSocket it opened until it is closed or handed over. Sockets are numbered in the world of the
  client; the outcome of the dial, the frames read, the clock and the context are inputs.
\<close>

section \<open>Candidates\<close>

record dial_timings =
  dt_dns :: duration
  dt_tcp :: duration
  dt_tls :: duration
  dt_upgrade :: duration
  dt_hello :: duration
  dt_probe_rtt :: duration
  dt_total :: duration

definition zero_timings :: dial_timings where
  "zero_timings = \<lparr>dt_dns = 0, dt_tcp = 0, dt_tls = 0, dt_upgrade = 0, dt_hello = 0, dt_probe_rtt = 0, dt_total = 0\<rparr>"

record probe_candidate =
  pb_open :: "nat option"
  pb_path :: path_config
  pb_rtt :: duration
  pb_timings :: dial_timings
  pb_err :: "gerror option"
  pb_phase :: string
  pb_order :: int

text \<open>\<open>close\<close> and \<open>transfer\<close>; \<open>closeErr i\<close> is the error that \<open>Close\<close> of socket \<open>i\<close> returns.\<close>

definition candidate_close :: "(nat \<Rightarrow> gerror option) \<Rightarrow> probe_candidate \<Rightarrow> client_world \<Rightarrow>
    gerror option \<times> probe_candidate \<times> client_world" where
  "candidate_close closeErr c w = (case pb_open c of
     None \<Rightarrow> (None, c, w)
   | Some i \<Rightarrow> (closeErr i, c\<lparr>pb_open := None\<rparr>, raw_close i w))"

definition candidate_transfer :: "probe_candidate \<Rightarrow> nat option \<times> probe_candidate" where
  "candidate_transfer c = (pb_open c, c\<lparr>pb_open := None\<rparr>)"

section \<open>One probe\<close>

definition probePhase :: string where
  "probePhase = ''probe''"

text \<open>\<open>timeout e\<close> says whether \<open>e\<close> carries a \<open>net.Error\<close> whose \<open>Timeout\<close> holds.\<close>

definition probeContextError :: "(gerror \<Rightarrow> bool) \<Rightarrow> gerror option \<Rightarrow> gerror \<Rightarrow> gerror" where
  "probeContextError timeout ctx err = (case ctx of Some e \<Rightarrow> e | None \<Rightarrow> if timeout err then DeadlineExceeded else err)"

text \<open>
  A read of the waiting loop with what the code looks at afterwards: the context of the probe, whether
  \<open>stopClose\<close> was in time, the times since the ping and since the start, the result of clearing the
  deadline.
\<close>

record probe_read =
  pr_frame :: "frame result"
  pr_ctx :: "gerror option"
  pr_stopped :: bool
  pr_since_ping :: duration
  pr_since_start :: duration
  pr_clear :: "gerror option"

record probe_request =
  pq_path :: path_config
  pq_order :: int

text \<open>The inputs of a probe: the dial, the deadline, the nonce and time of the ping, the context after a
  failed write, and the reads.\<close>

record probe_input =
  pi_timings :: dial_timings
  pi_dial :: "nat result"
  pi_deadline :: "gerror option"
  pi_nonce :: string
  pi_ping_at :: instant
  pi_write_ctx :: "gerror option"
  pi_reads :: "probe_read list"

definition probe_failed :: "gerror \<Rightarrow> probe_candidate \<Rightarrow> probe_candidate" where
  "probe_failed e c = c\<lparr>pb_err := Some (phaseError probePhase e), pb_phase := probePhase\<rparr>"

text \<open>The loop returns the candidate and the flag \<open>owned\<close> of the deferred close; \<open>None\<close> while it waits.\<close>

fun probe_loop :: "(gerror \<Rightarrow> bool) \<Rightarrow> string \<Rightarrow> probe_read list \<Rightarrow> probe_candidate \<Rightarrow> (probe_candidate \<times> bool) option" where
  "probe_loop timeout nonce [] c = None"
| "probe_loop timeout nonce (x # xs) c = (case pr_frame x of
     Inl e \<Rightarrow> Some (probe_failed (probeContextError timeout (pr_ctx x) e) c, True)
   | Inr (f, p) \<Rightarrow>
       if h_type f \<noteq> ''pong'' \<or> h_nonce f \<noteq> nonce then probe_loop timeout nonce xs c
       else if \<not> pr_stopped x then Some (probe_failed (contextError (pr_ctx x) Canceled) c, True)
       else let c1 = c\<lparr>pb_rtt := pr_since_ping x,
                       pb_timings := (pb_timings c)\<lparr>dt_probe_rtt := pr_since_ping x, dt_total := pr_since_start x\<rparr>\<rparr> in
         case pr_clear x of
           Some e \<Rightarrow> Some (probe_failed e c1, True)
         | None \<Rightarrow> Some (c1, False))"

definition new_candidate :: "probe_request \<Rightarrow> dial_timings \<Rightarrow> probe_candidate" where
  "new_candidate r t = \<lparr>pb_open = None, pb_path = pq_path r, pb_rtt = 0, pb_timings = t, pb_err = None, pb_phase = [], pb_order = pq_order r\<rparr>"

definition probePathCandidate :: "(gerror \<Rightarrow> bool) \<Rightarrow> (nat \<Rightarrow> gerror option) \<Rightarrow> probe_request \<Rightarrow> probe_input \<Rightarrow> client_world \<Rightarrow>
    probe_candidate option \<times> client_world" where
  "probePathCandidate timeout closeErr request inp w =
     (let c = new_candidate request (pi_timings inp) in
      case pi_dial inp of
        Inl e \<Rightarrow> (Some (c\<lparr>pb_err := Some e, pb_phase := (case dial_phase_of e of Some phase \<Rightarrow> phase | None \<Rightarrow> [])\<rparr>), w)
      | Inr i \<Rightarrow>
          let c1 = c\<lparr>pb_open := Some i\<rparr> in
          case (case pi_deadline inp of
                  Some e \<Rightarrow> (Some (probe_failed e c1, True), w)
                | None \<Rightarrow> (case raw_send i (ping_header (pi_nonce inp) (pi_ping_at inp)) [] w of
                    (Some e, w1) \<Rightarrow> (Some (probe_failed (probeContextError timeout (pi_write_ctx inp) e) c1, True), w1)
                  | (None, w1) \<Rightarrow> (probe_loop timeout (pi_nonce inp) (pi_reads inp) c1, w1))) of
            (None, w2) \<Rightarrow> (None, w2)
          | (Some (c2, owned), w2) \<Rightarrow>
              if owned then (case candidate_close closeErr c2 w2 of (_, c3, w3) \<Rightarrow> (Some c3, w3)) else (Some c2, w2))"

text \<open>\<open>probePath\<close>: a probe whose connection is not kept.\<close>

definition probePath :: "(gerror \<Rightarrow> bool) \<Rightarrow> (nat \<Rightarrow> gerror option) \<Rightarrow> path_config \<Rightarrow> probe_input \<Rightarrow> client_world \<Rightarrow>
    (duration \<times> gerror option) option \<times> client_world" where
  "probePath timeout closeErr path inp w = (case probePathCandidate timeout closeErr \<lparr>pq_path = path, pq_order = 0\<rparr> inp w of
     (None, w1) \<Rightarrow> (None, w1)
   | (Some c, w1) \<Rightarrow> (case candidate_close closeErr c w1 of (e, c1, w2) \<Rightarrow> (Some (pb_rtt c, pb_err c), w2)))"

text \<open>The contract of a candidate: it owns a connection exactly when its probe did not fail.\<close>

definition candidate_ok :: "probe_candidate \<Rightarrow> bool" where
  "candidate_ok c \<longleftrightarrow> (pb_open c = None) = (pb_err c \<noteq> None)"

definition answered :: "string \<Rightarrow> probe_read \<Rightarrow> duration \<Rightarrow> bool" where
  "answered nonce x rtt \<longleftrightarrow> (case pr_frame x of Inl e \<Rightarrow> False | Inr (f, p) \<Rightarrow> h_type f = ''pong'' \<and> h_nonce f = nonce)
     \<and> pr_stopped x \<and> pr_clear x = None \<and> pr_since_ping x = rtt"

lemma probe_loop_result:
  assumes "probe_loop timeout nonce xs c = Some (c', owned)" and "pb_err c = None" and "pb_open c = Some i"
  shows "pb_open c' = Some i \<and> pb_path c' = pb_path c \<and> pb_order c' = pb_order c \<and> (owned \<longleftrightarrow> pb_err c' \<noteq> None)
    \<and> (\<not> owned \<longrightarrow> (\<exists>x \<in> set xs. answered nonce x (pb_rtt c')))"
  using assms
proof (induction timeout nonce xs c rule: probe_loop.induct)
  case (2 timeout nonce x xs c)
  show ?case
  proof (cases "pr_frame x")
    case (Inl e)
    with "2.prems" show ?thesis by (auto simp: probe_failed_def)
  next
    case (Inr fr)
    obtain f p where fr: "fr = (f, p)" by (cases fr)
    show ?thesis
    proof (cases "h_type f \<noteq> ''pong'' \<or> h_nonce f \<noteq> nonce")
      case True
      with Inr fr "2.prems" have "probe_loop timeout nonce xs c = Some (c', owned)" by simp
      from "2.IH" [OF Inr fr [symmetric] True this "2.prems"(2,3)] show ?thesis by auto
    next
      case False
      with Inr fr "2.prems" show ?thesis
        by (cases "pr_stopped x"; cases "pr_clear x") (auto simp: probe_failed_def answered_def)
    qed
  qed
qed simp

lemma probePathCandidate_cases:
  assumes "probePathCandidate timeout closeErr r inp w = (Some c, w')"
  obtains e where "pi_dial inp = Inl e" and "w' = w" and "pb_open c = None" and "pb_err c = Some e"
      and "pb_path c = pq_path r" and "pb_order c = pq_order r"
  | i e v where "pi_dial inp = Inr i" and "pb_open c = None" and "pb_err c = Some e" and "w' = raw_close i v"
      and "v = w \<or> v = snd (raw_send i (ping_header (pi_nonce inp) (pi_ping_at inp)) [] w)"
      and "pb_path c = pq_path r" and "pb_order c = pq_order r"
  | i x where "pi_dial inp = Inr i" and "pb_open c = Some i" and "pb_err c = None"
      and "w' = snd (raw_send i (ping_header (pi_nonce inp) (pi_ping_at inp)) [] w)"
      and "fst (raw_send i (ping_header (pi_nonce inp) (pi_ping_at inp)) [] w) = None"
      and "x \<in> set (pi_reads inp)" and "answered (pi_nonce inp) x (pb_rtt c)"
      and "pb_path c = pq_path r" and "pb_order c = pq_order r"
proof (cases "pi_dial inp")
  case (Inl e)
  with assms that(1) show thesis by (simp add: probePathCandidate_def new_candidate_def) auto
next
  case (Inr i)
  let ?c = "(new_candidate r (pi_timings inp))\<lparr>pb_open := Some i\<rparr>"
  have c: "pb_open ?c = Some i" "pb_err ?c = None" "pb_path ?c = pq_path r" "pb_order ?c = pq_order r"
    by (simp_all add: new_candidate_def)
  obtain e w1 where s: "raw_send i (ping_header (pi_nonce inp) (pi_ping_at inp)) [] w = (e, w1)" by fastforce
  show thesis
  proof (cases "pi_deadline inp")
    case (Some d)
    with assms Inr c show thesis
      by (intro that(2) [where i = i and v = w])
         (auto simp: probePathCandidate_def probe_failed_def candidate_close_def Let_def)
  next
    case None
    show thesis
    proof (cases e)
      case (Some d)
      with None assms Inr c s show thesis
        by (intro that(2) [where i = i and v = w1])
           (auto simp: probePathCandidate_def probe_failed_def candidate_close_def Let_def)
    next
      case e: None
      with None assms Inr s obtain c2 owned where l: "probe_loop timeout (pi_nonce inp) (pi_reads inp) ?c = Some (c2, owned)"
        and r: "(c, w') = (if owned then (case candidate_close closeErr c2 w1 of (_, c3, w3) \<Rightarrow> (c3, w3)) else (c2, w1))"
        by (auto simp: probePathCandidate_def Let_def split: option.splits if_splits prod.splits)
      note l' = probe_loop_result [OF l c(2,1)]
      show thesis
      proof (cases owned)
        case True
        with l' obtain d where "pb_err c2 = Some d" by auto
        with True l' r c s Inr show thesis
          by (intro that(2) [where i = i and v = w1 and e = d]) (auto simp: candidate_close_def)
      next
        case False
        with l' obtain x where "x \<in> set (pi_reads inp)" "answered (pi_nonce inp) x (pb_rtt c2)" by blast
        with False l' r c s e Inr show thesis by (intro that(3) [where i = i and x = x]) auto
      qed
    qed
  qed
qed

text \<open>
  A finished probe either failed, and then it owns no connection and the one it had opened is closed,
  or it owns the connection it opened, which it left as it was, after the pong with its own nonce came
  back in time; the round trip it reports is that of this pong.
\<close>

theorem probe_owns_or_closes:
  assumes "probePathCandidate timeout closeErr r inp w = (Some c, w')"
  shows "candidate_ok c \<and> pb_path c = pq_path r \<and> pb_order c = pq_order r
    \<and> (case pi_dial inp of
         Inl e \<Rightarrow> w' = w \<and> pb_err c = Some e
       | Inr i \<Rightarrow> if pb_err c = None
           then pb_open c = Some i \<and> ws_closed (cl_ws w' i) = ws_closed (cl_ws w i)
             \<and> (\<exists>x \<in> set (pi_reads inp). answered (pi_nonce inp) x (pb_rtt c))
           else ws_closed (cl_ws w' i))"
  using assms
proof (cases rule: probePathCandidate_cases)
  case (3 i x)
  moreover obtain e s where "ws_send (ping_header (pi_nonce inp) (pi_ping_at inp)) [] (cl_ws w i) = (e, s)" by fastforce
  ultimately show ?thesis
    using ws_send_closed [of "ping_header (pi_nonce inp) (pi_ping_at inp)" "[]" "cl_ws w i"]
    by (auto simp: candidate_ok_def raw_send_def)
qed (auto simp: candidate_ok_def raw_close_def)

text \<open>\<open>probePath\<close> keeps nothing: when it returns, the connection it dialed is closed and no other was touched.\<close>

lemma probePath_closes:
  assumes "probePath timeout closeErr path inp w = (Some (rtt, e), w')"
  shows "\<forall>i. (pi_dial inp = Inr i \<longrightarrow> ws_closed (cl_ws w' i)) \<and> (pi_dial inp \<noteq> Inr i \<longrightarrow> cl_ws w' i = cl_ws w i)"
proof -
  obtain c v where c: "probePathCandidate timeout closeErr \<lparr>pq_path = path, pq_order = 0\<rparr> inp w = (Some c, v)"
    and w': "w' = snd (snd (candidate_close closeErr c v))"
    using assms by (auto simp: probePath_def split: prod.splits option.splits)
  have raw: "j \<noteq> i \<Longrightarrow> cl_ws (snd (raw_send i h p u)) j = cl_ws u j" for i j h p u by (auto simp: raw_send_def split: prod.split)
  from c show ?thesis
    by (cases rule: probePathCandidate_cases) (auto simp: w' candidate_close_def raw_close_def raw ws_close_def)
qed

section \<open>A concrete probe\<close>

definition demo_pong :: "nat \<Rightarrow> duration \<Rightarrow> probe_read" where
  "demo_pong n rtt = \<lparr>pr_frame = Inr (zero_header\<lparr>h_type := ''pong'', h_nonce := ''n''\<rparr>, []), pr_ctx = None, pr_stopped = True,
     pr_since_ping = rtt, pr_since_start = rtt + 2, pr_clear = None\<rparr>"

definition demo_probe :: "nat \<Rightarrow> duration \<Rightarrow> probe_input" where
  "demo_probe i rtt = \<lparr>pi_timings = zero_timings, pi_dial = Inr i, pi_deadline = None, pi_nonce = ''n'', pi_ping_at = 0,
     pi_write_ctx = None, pi_reads = [demo_pong i rtt]\<rparr>"

lemma demo_ping_written: "\<exists>msg. writeFrame (ping_header ''n'' 0) [] = Inr msg"
  by (rule writeFrame_small)
     (simp_all add: ping_header_def wf_header_def header_text_def utf8_valid_ascii)

definition after_ping :: "nat \<Rightarrow> client_world \<Rightarrow> client_world" where
  "after_ping i w = w\<lparr>cl_ws := (cl_ws w)(i := (cl_ws w i)\<lparr>ws_out := ws_out (cl_ws w i) @ [(ping_header ''n'' 0, [])]\<rparr>)\<rparr>"

lemma demo_ping_sent:
  assumes "\<not> ws_closed (cl_ws w i)" and "ws_budget (cl_ws w i) = None"
  shows "raw_send i (ping_header ''n'' 0) [] w = (None, after_ping i w)"
proof -
  obtain msg where "writeFrame (ping_header ''n'' 0) [] = Inr msg" using demo_ping_written ..
  with assms show ?thesis by (simp add: raw_send_def ws_send_def after_ping_def) (cases "cl_ws w i"; simp)
qed

lemma demo_probe_result:
  assumes "\<not> ws_closed (cl_ws w i)" and "ws_budget (cl_ws w i) = None"
  shows "probePathCandidate timeout closeErr r (demo_probe i rtt) w =
    (Some ((new_candidate r zero_timings)\<lparr>pb_open := Some i, pb_rtt := rtt,
       pb_timings := zero_timings\<lparr>dt_probe_rtt := rtt, dt_total := rtt + 2\<rparr>\<rparr>), after_ping i w)"
  using demo_ping_sent [OF assms]
  by (simp add: probePathCandidate_def demo_probe_def demo_pong_def Let_def new_candidate_def)

lemma demo_client_ws: "cl_ws demo_client i = \<lparr>ws_out = [], ws_budget = None, ws_closed = False\<rparr>"
  by (simp add: demo_client_def fresh_client_def)

theorem probe_owns_or_closes_witness:
  "\<exists>c w'. probePathCandidate (\<lambda>e. False) (\<lambda>i. None) \<lparr>pq_path = demo_path, pq_order = 0\<rparr> (demo_probe 1 7) demo_client = (Some c, w')
     \<and> pb_open c = Some 1 \<and> pb_rtt c = 7 \<and> candidate_ok c"
proof -
  have p: "probePathCandidate (\<lambda>e. False) (\<lambda>i. None) \<lparr>pq_path = demo_path, pq_order = 0\<rparr> (demo_probe 1 7) demo_client =
    (Some ((new_candidate \<lparr>pq_path = demo_path, pq_order = 0\<rparr> zero_timings)\<lparr>pb_open := Some 1, pb_rtt := 7,
       pb_timings := zero_timings\<lparr>dt_probe_rtt := 7, dt_total := 7 + 2\<rparr>\<rparr>), after_ping 1 demo_client)"
    by (rule demo_probe_result) (simp_all add: demo_client_ws)
  from probe_owns_or_closes [OF p] p show ?thesis by auto
qed

end
