(* ===== verification/Probe_Batch.thy ===== *)
theory Probe_Batch
  imports Probe "HOL-Library.Product_Lexorder" "HOL-Library.Multiset"
begin

text \<open>
  Batches of probes: the ranking, the workers that run the probes of a configuration, and the closing of
  the candidates that nobody took (internal/tunnel/probe.go).
\<close>

section \<open>Stable sorting by a comparison\<close>

text \<open>\<open>sort.SliceStable\<close> with the function \<open>less\<close> on the elements.\<close>

fun insert_stable :: "('a \<Rightarrow> 'a \<Rightarrow> bool) \<Rightarrow> 'a \<Rightarrow> 'a list \<Rightarrow> 'a list" where
  "insert_stable lt x [] = [x]"
| "insert_stable lt x (y # ys) = (if lt y x then y # insert_stable lt x ys else x # y # ys)"

fun slice_stable :: "('a \<Rightarrow> 'a \<Rightarrow> bool) \<Rightarrow> 'a list \<Rightarrow> 'a list" where
  "slice_stable lt [] = []"
| "slice_stable lt (x # xs) = insert_stable lt x (slice_stable lt xs)"

text \<open>A comparison that compares keys of a linear order sorts like the sort by that key.\<close>

locale keyed_less =
  fixes lt :: "'a \<Rightarrow> 'a \<Rightarrow> bool" and key :: "'a \<Rightarrow> 'k::linorder"
  assumes lt_key: "lt x y \<longleftrightarrow> key x < key y"
begin

lemma insert_stable_insort: "insert_stable lt x ys = insort_key key x ys"
  by (induction ys) (auto simp: lt_key)

lemma slice_stable_sort: "slice_stable lt xs = sort_key key xs"
  by (induction xs) (simp_all add: insert_stable_insort)

lemma slice_stable_mset [simp]: "mset (slice_stable lt xs) = mset xs"
  by (simp add: slice_stable_sort)

lemma slice_stable_set [simp]: "set (slice_stable lt xs) = set xs"
  by (simp add: slice_stable_sort)

lemma slice_stable_sorted: "sorted_wrt (\<lambda>x y. \<not> lt y x) (slice_stable lt xs)"
proof -
  have "sorted (map key (slice_stable lt xs))" by (simp add: slice_stable_sort)
  then show ?thesis by (simp add: lt_key not_less sorted_map)
qed

lemma slice_stable_equal:
  "filter (\<lambda>y. \<not> lt x y \<and> \<not> lt y x) (slice_stable lt xs) = filter (\<lambda>y. \<not> lt x y \<and> \<not> lt y x) xs"
proof -
  have "(\<lambda>y. \<not> lt x y \<and> \<not> lt y x) = (\<lambda>y. key y = key x)" by (auto simp: lt_key)
  then show ?thesis by (simp add: slice_stable_sort sort_key_stable)
qed

end

section \<open>Ranking\<close>

definition candidate_less :: "probe_candidate \<Rightarrow> probe_candidate \<Rightarrow> bool" where
  "candidate_less left right =
     (let leftOK = (pb_err left = None); rightOK = (pb_err right = None) in
      if leftOK \<noteq> rightOK then leftOK
      else if leftOK \<and> pb_rtt left \<noteq> pb_rtt right then pb_rtt left < pb_rtt right
      else if pc_priority (pb_path left) \<noteq> pc_priority (pb_path right) then pc_priority (pb_path right) < pc_priority (pb_path left)
      else pb_order left < pb_order right)"

definition rankProbeCandidates :: "probe_candidate list \<Rightarrow> probe_candidate list" where
  "rankProbeCandidates cs = slice_stable candidate_less cs"

text \<open>What the ranking promises: successes first, by round trip, priority and order; then the failures,
  by priority and order.\<close>

definition candidate_key :: "probe_candidate \<Rightarrow> nat \<times> int \<times> int \<times> int" where
  "candidate_key c = (if pb_err c = None then (0, pb_rtt c, - pc_priority (pb_path c), pb_order c)
     else (1, 0, - pc_priority (pb_path c), pb_order c))"

interpretation rank: keyed_less candidate_less candidate_key
proof
  fix x y
  show "candidate_less x y \<longleftrightarrow> candidate_key x < candidate_key y"
    by (cases "pb_err x"; cases "pb_err y") (auto simp: candidate_less_def candidate_key_def less_prod_def Let_def)
qed

lemma rank_set [simp]: "set (rankProbeCandidates cs) = set cs"
  by (simp add: rankProbeCandidates_def)

lemma rank_mset [simp]: "mset (rankProbeCandidates cs) = mset cs"
  by (simp add: rankProbeCandidates_def)

lemma rank_length [simp]: "length (rankProbeCandidates cs) = length cs"
  by (metis rank_mset size_mset)

text \<open>
  C37. The comparison function of \<open>rankProbeCandidates\<close> sorts a batch exactly as the stable sort by the
  key (success, round trip, falling priority, configuration order) does; the round trip of a failed probe
  is ignored.
\<close>

theorem rank_is_sort_by_key: "rankProbeCandidates cs = sort_key candidate_key cs"
  by (simp add: rankProbeCandidates_def rank.slice_stable_sort)

text \<open>The head of a ranked batch.\<close>

lemma rank_head:
  assumes "rankProbeCandidates cs = c # rest" and "c' \<in> set cs"
  shows "c \<in> set cs" "\<not> candidate_less c' c"
proof -
  show "c \<in> set cs" using assms(1) rank_set [of cs] by (metis list.set_intros(1))
  have "sorted_wrt (\<lambda>x y. \<not> candidate_less y x) (c # rest)" using rank.slice_stable_sorted [of cs] assms(1)
    by (simp add: rankProbeCandidates_def)
  moreover have "c' \<in> set (c # rest)" using assms rank_set [of cs] by simp
  ultimately show "\<not> candidate_less c' c" by (auto simp: candidate_less_def Let_def)
qed

section \<open>Closing the candidates\<close>

fun close_each :: "(nat \<Rightarrow> gerror option) \<Rightarrow> probe_candidate list \<Rightarrow> client_world \<Rightarrow>
    gerror list \<times> probe_candidate list \<times> client_world" where
  "close_each closeErr [] w = ([], [], w)"
| "close_each closeErr (c # cs) w =
     (case candidate_close closeErr c w of (e, c1, w1) \<Rightarrow>
      case close_each closeErr cs w1 of (es, cs1, w2) \<Rightarrow>
        ((case e of Some x \<Rightarrow> x # es | None \<Rightarrow> es), c1 # cs1, w2))"

definition closeProbeCandidates :: "(nat \<Rightarrow> gerror option) \<Rightarrow> probe_candidate list \<Rightarrow> client_world \<Rightarrow>
    gerror option \<times> probe_candidate list \<times> client_world" where
  "closeProbeCandidates closeErr cs w = (case close_each closeErr cs w of (es, cs1, w1) \<Rightarrow> (errors_join (map Some es), cs1, w1))"

definition sockets :: "probe_candidate list \<Rightarrow> nat set" where
  "sockets cs = {i. \<exists>c \<in> set cs. pb_open c = Some i}"

lemma sockets_simps [simp]:
  "sockets [] = {}" "sockets (c # cs) = set_option (pb_open c) \<union> sockets cs" "sockets (xs @ ys) = sockets xs \<union> sockets ys"
  by (auto simp: sockets_def)

text \<open>Closing a set of sockets of the world.\<close>

definition close_set :: "nat set \<Rightarrow> client_world \<Rightarrow> client_world" where
  "close_set S w = w\<lparr>cl_ws := (\<lambda>i. if i \<in> S then ws_close (cl_ws w i) else cl_ws w i)\<rparr>"

lemma close_set_empty [simp]: "close_set {} w = w"
  by (simp add: close_set_def)

lemma raw_close_set: "raw_close i w = close_set {i} w"
  by (auto simp: raw_close_def close_set_def intro!: arg_cong [where f = "\<lambda>x. w\<lparr>cl_ws := x\<rparr>"])

lemma ws_close_idem [simp]: "ws_close (ws_close s) = ws_close s"
  by (simp add: ws_close_def)

lemma close_set_twice [simp]: "close_set S (close_set T w) = close_set (S \<union> T) w"
  by (auto simp: close_set_def intro!: arg_cong [where f = "\<lambda>x. w\<lparr>cl_ws := x\<rparr>"])

lemma close_set_simps [simp]:
  "cl_rt (close_set S w) = cl_rt w" "cl_cfg (close_set S w) = cl_cfg w" "cl_stdin (close_set S w) = cl_stdin w"
  "cl_stdout (close_set S w) = cl_stdout w" "cl_closed (close_set S w) = cl_closed w" "cl_hb (close_set S w) = cl_hb w"
  "cl_now (close_set S w) = cl_now w" "cl_saved (close_set S w) = cl_saved w"
  "ws_out (cl_ws (close_set S w) i) = ws_out (cl_ws w i)"
  "ws_closed (cl_ws (close_set S w) i) \<longleftrightarrow> i \<in> S \<or> ws_closed (cl_ws w i)"
  by (simp_all add: close_set_def)

lemma candidate_close_set: "candidate_close closeErr c w =
    (case pb_open c of None \<Rightarrow> None | Some i \<Rightarrow> closeErr i, c\<lparr>pb_open := None\<rparr>, close_set (set_option (pb_open c)) w)"
  by (cases c) (auto simp: candidate_close_def raw_close_set split: option.split)

lemma close_each_result:
  "snd (close_each closeErr cs w) = (map (\<lambda>c. c\<lparr>pb_open := None\<rparr>) cs, close_set (sockets cs) w)"
proof (induction cs arbitrary: w)
  case (Cons c cs)
  obtain es cs1 w2 where r: "close_each closeErr cs (close_set (set_option (pb_open c)) w) = (es, cs1, w2)"
    by (cases "close_each closeErr cs (close_set (set_option (pb_open c)) w)") auto
  with Cons [of "close_set (set_option (pb_open c)) w"] show ?case by (simp add: candidate_close_set Un_commute)
qed simp

lemma closeProbeCandidates_result:
  "snd (closeProbeCandidates closeErr cs w) = (map (\<lambda>c. c\<lparr>pb_open := None\<rparr>) cs, close_set (sockets cs) w)"
  using close_each_result [of closeErr cs w] by (cases "close_each closeErr cs w") (simp add: closeProbeCandidates_def)

section \<open>A batch\<close>

definition maxConcurrentProbes :: nat where
  "maxConcurrentProbes = 8"

text \<open>The jobs that \<open>streamProbeCandidates\<close> queues, and the number of goroutines that take them.\<close>

definition probe_jobs :: "path_config list \<Rightarrow> probe_request list" where
  "probe_jobs paths = map (\<lambda>(order, path). \<lparr>pq_path = path, pq_order = int order\<rparr>) (enumerate 0 (enabledPaths paths))"

definition probe_workers :: "path_config list \<Rightarrow> nat" where
  "probe_workers paths = min (length (enabledPaths paths)) maxConcurrentProbes"

text \<open>
  The workers probe the jobs on sockets of their own; \<open>runs\<close> lists the jobs with their inputs in the order
  in which the probes finish, which is the order of the channel of results. The channel is closed when
  all have finished; until then the first component is \<open>None\<close>.
\<close>

type_synonym probe_run = "probe_request \<times> probe_input"

fun streamProbeCandidates :: "(gerror \<Rightarrow> bool) \<Rightarrow> (nat \<Rightarrow> gerror option) \<Rightarrow> probe_run list \<Rightarrow> client_world \<Rightarrow>
    probe_candidate list option \<times> client_world" where
  "streamProbeCandidates timeout closeErr [] w = (Some [], w)"
| "streamProbeCandidates timeout closeErr ((r, inp) # runs) w =
     (case probePathCandidate timeout closeErr r inp w of
        (None, w1) \<Rightarrow> (None, snd (streamProbeCandidates timeout closeErr runs w1))
      | (Some c, w1) \<Rightarrow> (case streamProbeCandidates timeout closeErr runs w1 of (cs, w2) \<Rightarrow> (map_option ((#) c) cs, w2)))"

text \<open>\<open>probeBatch\<close> waits for every result; the first component is \<open>None\<close> while it does.\<close>

definition probeBatch :: "(gerror \<Rightarrow> bool) \<Rightarrow> (nat \<Rightarrow> gerror option) \<Rightarrow> path_config list \<Rightarrow> gerror option \<Rightarrow> probe_run list \<Rightarrow>
    client_world \<Rightarrow> (probe_candidate list \<times> gerror option) option \<times> client_world" where
  "probeBatch timeout closeErr paths ctx runs w =
     (if enabledPaths paths = [] then (Some ([], ctx), w)
      else case streamProbeCandidates timeout closeErr runs w of
        (None, w1) \<Rightarrow> (None, w1)
      | (Some cs, w1) \<Rightarrow>
          let ranked = rankProbeCandidates cs in
          case ctx of
            Some e \<Rightarrow> (case closeProbeCandidates closeErr ranked w1 of (_, closed_cs, w2) \<Rightarrow> (Some (closed_cs, Some e), w2))
          | None \<Rightarrow> (Some (ranked, None), w1))"

definition run_socket :: "probe_run \<Rightarrow> nat option" where
  "run_socket run = (case pi_dial (snd run) of Inl e \<Rightarrow> None | Inr i \<Rightarrow> Some i)"

definition dialed :: "probe_run list \<Rightarrow> nat set" where
  "dialed runs = {i. \<exists>r \<in> set runs. run_socket r = Some i}"

lemma dialed_simps [simp]: "dialed [] = {}" "dialed (r # rs) = set_option (run_socket r) \<union> dialed rs"
  by (auto simp: dialed_def)

text \<open>A schedule of a batch: every job once, each on a socket of its own that is fresh.\<close>

definition batch_schedule :: "path_config list \<Rightarrow> probe_run list \<Rightarrow> client_world \<Rightarrow> bool" where
  "batch_schedule paths runs w \<longleftrightarrow> mset (map fst runs) = mset (probe_jobs paths)
     \<and> distinct (List.map_filter run_socket runs) \<and> (\<forall>i \<in> dialed runs. \<not> ws_closed (cl_ws w i))"

text \<open>Two worlds that differ on sockets of a set only.\<close>

definition same_but :: "nat set \<Rightarrow> client_world \<Rightarrow> client_world \<Rightarrow> bool" where
  "same_but S w w' \<longleftrightarrow> w' = w\<lparr>cl_ws := cl_ws w'\<rparr> \<and> (\<forall>i. i \<notin> S \<longrightarrow> cl_ws w' i = cl_ws w i)"

lemma same_but_refl [simp]: "same_but S w w"
  by (simp add: same_but_def)

lemma same_but_trans: "same_but S w w1 \<Longrightarrow> same_but T w1 w2 \<Longrightarrow> same_but (S \<union> T) w w2"
  unfolding same_but_def by (metis (no_types, lifting) UnI1 UnI2 client_world.surjective client_world.update_convs(4))

lemma same_but_raw_send: "same_but {i} w (snd (raw_send i h p w))"
  by (simp add: same_but_def raw_send_def split: prod.split)

lemma same_but_raw_close: "same_but {i} w (raw_close i w)"
  by (simp add: same_but_def raw_close_def)

lemma same_but_close_set: "same_but S w (close_set S w)"
  by (simp add: same_but_def close_set_def)

lemma same_but_mono: "same_but S w w' \<Longrightarrow> S \<subseteq> T \<Longrightarrow> same_but T w w'"
  by (auto simp: same_but_def)

lemma probe_same_but: "same_but (set_option (run_socket (r, inp))) w (snd (probePathCandidate timeout closeErr r inp w))"
proof (cases "pi_dial inp")
  case (Inr i)
  let ?c = "new_candidate r (pi_timings inp)\<lparr>pb_open := Some i\<rparr>"
  obtain e w1 where s: "raw_send i (ping_header (pi_nonce inp) (pi_ping_at inp)) [] w = (e, w1)" by fastforce
  have w1: "same_but {i} w w1" using same_but_raw_send [of i w "ping_header (pi_nonce inp) (pi_ping_at inp)" "[]"] s by simp
  have close: "same_but {i} w (raw_close i v)" if "same_but {i} w v" for v
    using same_but_trans [OF that same_but_raw_close [of i v]] by simp
  have open_kept: "pb_open c2 = Some i" if "probe_loop timeout (pi_nonce inp) (pi_reads inp) ?c = Some (c2, owned)" for c2 owned
    using probe_loop_result [OF that] by (simp add: new_candidate_def)
  have b: "same_but {i} w (snd (probePathCandidate timeout closeErr r inp w))"
  proof (cases "pi_deadline inp")
    case (Some d)
    with Inr close [of w] show ?thesis by (simp add: probePathCandidate_def candidate_close_def probe_failed_def)
  next
    case None
    show ?thesis
    proof (cases e)
      case (Some d)
      with None Inr s close [OF w1] show ?thesis by (simp add: probePathCandidate_def candidate_close_def probe_failed_def)
    next
      case e: None
      show ?thesis
      proof (cases "probe_loop timeout (pi_nonce inp) (pi_reads inp) ?c")
        case l: None
        with None e Inr s w1 show ?thesis by (simp add: probePathCandidate_def Let_def)
      next
        case (Some co)
        obtain c2 owned where "co = (c2, owned)" by (cases co)
        with None e Inr s w1 close [OF w1] Some open_kept [of c2 owned] show ?thesis
          by (cases owned) (simp_all add: probePathCandidate_def Let_def candidate_close_def)
      qed
    qed
  qed
  from Inr have "set_option (run_socket (r, inp)) = {i}" by (simp add: run_socket_def)
  with b show ?thesis by simp
qed (simp add: probePathCandidate_def)

lemma probe_sockets:
  assumes "probePathCandidate timeout closeErr r inp w = (Some c, w')"
  shows "set_option (pb_open c) \<subseteq> set_option (run_socket (r, inp))
    \<and> (\<forall>i \<in> set_option (run_socket (r, inp)). \<not> ws_closed (cl_ws w i) \<longrightarrow> (ws_closed (cl_ws w' i) \<longleftrightarrow> i \<notin> set_option (pb_open c)))
    \<and> candidate_ok c \<and> \<lparr>pq_path = pb_path c, pq_order = pb_order c\<rparr> = r"
  using assms
proof (cases rule: probePathCandidate_cases)
  case (3 j x)
  obtain e s where s: "ws_send (ping_header (pi_nonce inp) (pi_ping_at inp)) [] (cl_ws w j) = (e, s)" by fastforce
  with ws_send_closed [of "ping_header (pi_nonce inp) (pi_ping_at inp)" "[]" "cl_ws w j"] 3
  show ?thesis by (simp add: run_socket_def candidate_ok_def raw_send_def)
qed (auto simp: run_socket_def candidate_ok_def raw_close_def)

text \<open>After the probes of a schedule each dialed socket is closed or owned by exactly one candidate.\<close>

lemma stream_same_but: "same_but (dialed runs) w (snd (streamProbeCandidates timeout closeErr runs w))"
proof (induction timeout closeErr runs w rule: streamProbeCandidates.induct)
  case (2 timeout closeErr r inp runs w)
  obtain oc w1 where p: "probePathCandidate timeout closeErr r inp w = (oc, w1)" by fastforce
  obtain cs w2 where s: "streamProbeCandidates timeout closeErr runs w1 = (cs, w2)" by fastforce
  have "same_but (set_option (run_socket (r, inp))) w w1" using probe_same_but [of r inp w timeout closeErr] p by simp
  moreover have "same_but (dialed runs) w1 w2"
    using 2 p s by (cases oc) auto
  ultimately have "same_but (dialed ((r, inp) # runs)) w w2" using same_but_trans by fastforce
  with p s show ?case by (cases oc) simp_all
qed simp

definition none_leaked :: "nat set \<Rightarrow> probe_candidate list \<Rightarrow> client_world \<Rightarrow> bool" where
  "none_leaked S cs w \<longleftrightarrow> (\<forall>i \<in> S. ws_closed (cl_ws w i) \<longleftrightarrow> i \<notin> sockets cs) \<and> sockets cs \<subseteq> S \<and> distinct (List.map_filter pb_open cs)"

lemma map_filter_set: "i \<in> set (List.map_filter f xs) \<longleftrightarrow> (\<exists>x \<in> set xs. f x = Some i)"
  by (force simp: List.map_filter_def)

lemma set_map_filter_sockets: "set (List.map_filter pb_open cs) = sockets cs" "set (List.map_filter run_socket runs) = dialed runs"
  by (auto simp: map_filter_set sockets_def dialed_def)

definition request_of :: "probe_candidate \<Rightarrow> probe_request" where
  "request_of c = \<lparr>pq_path = pb_path c, pq_order = pb_order c\<rparr>"

lemma request_of_update [simp]: "request_of (c\<lparr>pb_open := x\<rparr>) = request_of c"
  by (simp add: request_of_def)

lemma stream_result:
  assumes "streamProbeCandidates timeout closeErr runs w = (Some cs, w')"
    and "distinct (List.map_filter run_socket runs)" and "\<forall>i \<in> dialed runs. \<not> ws_closed (cl_ws w i)"
  shows "none_leaked (dialed runs) cs w' \<and> map request_of cs = map fst runs \<and> (\<forall>c \<in> set cs. candidate_ok c)"
  using assms
proof (induction runs arbitrary: w cs w')
  case Nil
  then show ?case by (simp add: none_leaked_def)
next
  case (Cons run runs)
  obtain r inp where run: "run = (r, inp)" by (cases run)
  obtain oc w1 where p: "probePathCandidate timeout closeErr r inp w = (oc, w1)" by fastforce
  obtain ocs w2 where s0: "streamProbeCandidates timeout closeErr runs w1 = (ocs, w2)" by fastforce
  from Cons.prems(1) run p s0 obtain c cs1 where c: "oc = Some c" "ocs = Some cs1" "cs = c # cs1" "w' = w2"
    by (cases oc) auto
  note s = s0 [unfolded c(2)]
  let ?S = "set_option (run_socket (r, inp))"
  note ps = probe_sockets [OF p [unfolded c(1)]]
  have own: "\<And>i. i \<in> ?S \<Longrightarrow> i \<notin> dialed runs" and d1: "distinct (List.map_filter run_socket runs)"
    using Cons.prems(2) run by (auto simp: List.map_filter_simps set_map_filter_sockets split: option.splits)
  have sb1: "same_but ?S w w1" using probe_same_but [of r inp w timeout closeErr] p by simp
  have sb2: "same_but (dialed runs) w1 w2" using stream_same_but [of runs w1 timeout closeErr] s by simp
  have open1: "\<forall>i \<in> dialed runs. \<not> ws_closed (cl_ws w1 i)"
  proof
    fix i assume i: "i \<in> dialed runs"
    with own sb1 have "cl_ws w1 i = cl_ws w i" by (auto simp: same_but_def)
    with i Cons.prems(3) run show "\<not> ws_closed (cl_ws w1 i)" by simp
  qed
  have IH: "none_leaked (dialed runs) cs1 w2 \<and> map request_of cs1 = map fst runs \<and> (\<forall>c \<in> set cs1. candidate_ok c)"
    by (rule Cons.IH [OF s d1 open1])
  have "cl_ws w2 i = cl_ws w1 i" if "i \<in> ?S" for i
    using sb2 own [OF that] by (simp add: same_but_def)
  then have head: "\<forall>i \<in> ?S. ws_closed (cl_ws w2 i) \<longleftrightarrow> i \<notin> set_option (pb_open c)"
    using ps Cons.prems(3) run by auto
  have sub: "set_option (pb_open c) \<subseteq> ?S" "sockets cs1 \<subseteq> dialed runs" using ps IH by (simp_all add: none_leaked_def)
  have "none_leaked (dialed (run # runs)) cs w'"
    unfolding none_leaked_def c(3,4) run
  proof (intro conjI ballI)
    fix i assume i: "i \<in> dialed ((r, inp) # runs)"
    show "ws_closed (cl_ws w2 i) = (i \<notin> sockets (c # cs1))"
    proof (cases "i \<in> ?S")
      case True
      with head own sub show ?thesis by auto
    next
      case False
      with i IH sub show ?thesis by (auto simp: none_leaked_def)
    qed
  next
    show "sockets (c # cs1) \<subseteq> dialed ((r, inp) # runs)" using sub by auto
  next
    show "distinct (List.map_filter pb_open (c # cs1))"
      using IH sub own by (auto simp: none_leaked_def List.map_filter_simps set_map_filter_sockets split: option.split)
  qed
  moreover have "request_of c = r" using ps by (simp add: request_of_def)
  ultimately show ?case using IH ps c run by simp
qed

lemma sockets_set: "set xs = set ys \<Longrightarrow> sockets xs = sockets ys"
  by (simp add: sockets_def)

lemma none_leaked_perm: "mset xs = mset ys \<Longrightarrow> none_leaked S xs w \<Longrightarrow> none_leaked S ys w"
proof -
  assume m: "mset xs = mset ys" and n: "none_leaked S xs w"
  have "mset (List.map_filter pb_open xs) = mset (List.map_filter pb_open ys)"
    using m by (simp add: List.map_filter_def)
  then have "distinct (List.map_filter pb_open xs) = distinct (List.map_filter pb_open ys)" by (rule mset_eq_imp_distinct_iff)
  moreover have "sockets xs = sockets ys" by (rule sockets_set [OF mset_eq_setD [OF m]])
  ultimately show ?thesis using n by (simp add: none_leaked_def)
qed

text \<open>Once a batch is closed, nothing of it is open.\<close>

lemma none_leaked_closed:
  assumes "none_leaked S cs w"
  shows "none_leaked S (map (\<lambda>c. c\<lparr>pb_open := None\<rparr>) cs) (close_set (sockets cs) w)"
proof -
  have "sockets (map (\<lambda>c. c\<lparr>pb_open := None\<rparr>) cs) = {}" "List.map_filter pb_open (map (\<lambda>c. c\<lparr>pb_open := None\<rparr>) cs) = []"
    by (auto simp: sockets_def List.map_filter_def)
  with assms show ?thesis by (auto simp: none_leaked_def)
qed

lemma probe_batch_result:
  assumes sched: "batch_schedule paths runs w" and run: "probeBatch timeout closeErr paths ctx runs w = (Some (cs, e), w')"
  shows "e = ctx \<and> none_leaked (dialed runs) cs w' \<and> same_but (dialed runs) w w'
    \<and> mset (map request_of cs) = mset (probe_jobs paths)
    \<and> (if ctx = None then sorted_wrt (\<lambda>x y. \<not> candidate_less y x) cs else sockets cs = {})"
proof (cases "enabledPaths paths = []")
  case True
  then have "runs = []" using sched by (simp add: batch_schedule_def probe_jobs_def)
  with True run show ?thesis by (auto simp: probeBatch_def none_leaked_def probe_jobs_def)
next
  case False
  with run obtain cs0 w1 where s: "streamProbeCandidates timeout closeErr runs w = (Some cs0, w1)"
    by (auto simp: probeBatch_def split: option.splits prod.splits)
  with run False have out: "(Some (cs, e), w') = (case ctx of
        Some e \<Rightarrow> (case closeProbeCandidates closeErr (rankProbeCandidates cs0) w1 of (_, cc, w2) \<Rightarrow> (Some (cc, Some e), w2))
      | None \<Rightarrow> (Some (rankProbeCandidates cs0, None), w1))"
    by (simp add: probeBatch_def Let_def)
  from stream_result [OF s] sched have r: "none_leaked (dialed runs) cs0 w1" "map request_of cs0 = map fst runs"
    by (simp_all add: batch_schedule_def)
  have sb: "same_but (dialed runs) w w1" using stream_same_but [of runs w timeout closeErr] s by simp
  have jobs: "mset (map request_of (rankProbeCandidates cs0)) = mset (probe_jobs paths)"
    using r(2) sched by (metis batch_schedule_def mset_map rank_mset)
  have nl: "none_leaked (dialed runs) (rankProbeCandidates cs0) w1" using r(1) by (rule none_leaked_perm [rotated]) simp
  show ?thesis
  proof (cases ctx)
    case None
    with out nl sb jobs rank.slice_stable_sorted [of cs0] show ?thesis by (simp add: rankProbeCandidates_def)
  next
    case (Some x)
    let ?cl = "map (\<lambda>c. c\<lparr>pb_open := None\<rparr>) (rankProbeCandidates cs0)" and ?w = "close_set (sockets (rankProbeCandidates cs0)) w1"
    from Some out closeProbeCandidates_result [of closeErr "rankProbeCandidates cs0" w1]
    have res: "cs = ?cl" "w' = ?w" "e = Some x" by (auto split: prod.splits)
    have "sockets (rankProbeCandidates cs0) \<subseteq> dialed runs" using nl by (simp add: none_leaked_def)
    then have "same_but (dialed runs) w ?w"
      using same_but_trans [OF sb same_but_close_set] by (metis sup.absorb1)
    moreover have "map request_of ?cl = map request_of (rankProbeCandidates cs0)" by simp
    with jobs have "mset (map request_of ?cl) = mset (probe_jobs paths)" by (simp only:)
    moreover have "sockets ?cl = {}" by (auto simp: sockets_def)
    ultimately show ?thesis using none_leaked_closed [OF nl] res Some by (simp del: mset_map)
  qed
qed

text \<open>
  C20. A finished batch has one candidate for every enabled path, in ranked order; of the sockets its
  probes opened, those owned by a candidate are open, each by one candidate, and all others are closed. When the
  context of the batch ended the batch owns nothing. Sockets that the batch did not open are untouched.
\<close>

theorem probe_batch_owns_what_it_opened:
  assumes sched: "batch_schedule paths runs w" and run: "probeBatch timeout closeErr paths ctx runs w = (Some (cs, e), w')"
  shows "e = ctx \<and> none_leaked (dialed runs) cs w' \<and> same_but (dialed runs) w w'
    \<and> mset (map request_of cs) = mset (probe_jobs paths)
    \<and> (if ctx = None then sorted_wrt (\<lambda>x y. \<not> candidate_less y x) cs else sockets cs = {})"
  using assms by (rule probe_batch_result)

section \<open>A concrete batch\<close>

definition demo_path_b :: path_config where
  "demo_path_b = demo_path\<lparr>pc_name := ''b''\<rparr>"

definition demo_runs :: "probe_run list" where
  "demo_runs = [(\<lparr>pq_path = demo_path_b, pq_order = 1\<rparr>, demo_probe 2 9), (\<lparr>pq_path = demo_path, pq_order = 0\<rparr>, demo_probe 1 7)]"

lemma demo_schedule: "batch_schedule [demo_path, demo_path_b] demo_runs demo_client"
  by (simp add: batch_schedule_def demo_runs_def probe_jobs_def enabledPaths_def demo_path_b_def demo_path_def
      List.map_filter_simps run_socket_def demo_probe_def demo_client_ws)

lemma demo_batch: "\<exists>cs w'. probeBatch (\<lambda>e. False) (\<lambda>i. None) [demo_path, demo_path_b] None demo_runs demo_client = (Some (cs, None), w')
    \<and> sockets cs = {1, 2}"
proof -
  let ?w = "after_ping 1 (after_ping 2 demo_client)"
  have s: "\<exists>cs. streamProbeCandidates (\<lambda>e. False) (\<lambda>i. None) demo_runs demo_client = (Some cs, ?w) \<and> sockets cs = {1, 2}"
    by (simp add: demo_runs_def demo_probe_result demo_client_ws after_ping_def)
  then obtain cs where s: "streamProbeCandidates (\<lambda>e. False) (\<lambda>i. None) demo_runs demo_client = (Some cs, ?w)"
    and sock: "sockets cs = {1, 2}" by blast
  have "probeBatch (\<lambda>e. False) (\<lambda>i. None) [demo_path, demo_path_b] None demo_runs demo_client
      = (Some (rankProbeCandidates cs, None), ?w)"
    using s by (simp add: probeBatch_def enabledPaths_def demo_path_def Let_def)
  with sock show ?thesis by (auto simp: sockets_def)
qed

theorem probe_batch_owns_what_it_opened_witness:
  "\<exists>cs w'. probeBatch (\<lambda>e. False) (\<lambda>i. None) [demo_path, demo_path_b] None demo_runs demo_client = (Some (cs, None), w')
     \<and> sockets cs = {1, 2} \<and> none_leaked (dialed demo_runs) cs w'"
  using demo_batch probe_batch_owns_what_it_opened [OF demo_schedule] by blast

end
