(* ===== verification/Connect.thy ===== *)
theory Connect
  imports Probe_Batch
begin

text \<open>
  Activation of a path: internal/tunnel/client_connect.go and client_connect_first.go. A path is
  activated by dialing it directly or by promoting a probe candidate; \<open>connectAny\<close> tries the last known
  good path first and then the probed candidates. The functions are composed here as one goroutine runs
  them; what other goroutines do meanwhile is in the step relation of \<open>Client_Session\<close>. Log lines are not
  part of the world.
\<close>

section \<open>Direct activation\<close>

text \<open>The inputs of one hello exchange: the context before it and after a failed send, the reads, and how
  long it took.\<close>

record session_run =
  sr_ctx :: "gerror option"
  sr_write_ctx :: "gerror option"
  sr_inputs :: "hello_input list"
  sr_took :: duration

record direct_run =
  dr_timings :: dial_timings
  dr_dial :: "nat result"
  dr_session :: session_run

definition hello_timings :: "session_run \<Rightarrow> dial_timings \<Rightarrow> dial_timings" where
  "hello_timings s t = t\<lparr>dt_hello := sr_took s, dt_total := dt_total t + sr_took s\<rparr>"

text \<open>\<open>startSession\<close> and \<open>commitActivation\<close> on a connection; the outer \<open>None\<close> while the hello still waits.\<close>

definition start_and_commit :: "nat \<Rightarrow> path_config \<Rightarrow> bool \<Rightarrow> session_request \<Rightarrow> session_run \<Rightarrow> client_world \<Rightarrow>
    gerror option option \<times> client_world" where
  "start_and_commit i path resume request s w =
     (case startSession i request (sr_ctx s) (sr_write_ctx s) (sr_inputs s) w of
        (None, w1) \<Rightarrow> (None, w1)
      | (Some (Inl e), w1) \<Rightarrow> (Some (Some e), w1)
      | (Some (Inr (conn, accept)), w1) \<Rightarrow>
          (case commitActivation \<lparr>ac_conn = conn, ac_accept = accept, ac_path = path, ac_resume = resume\<rparr> w1 of
             (e, w2) \<Rightarrow> (Some e, w2)))"

definition activateDirect :: "path_config \<Rightarrow> bool \<Rightarrow> direct_run \<Rightarrow> client_world \<Rightarrow>
    (dial_timings \<times> gerror option) option \<times> client_world" where
  "activateDirect path resume run w =
     (let request = make_request (cl_cfg w) path resume (cl_rt w) in
      case dr_dial run of
        Inl e \<Rightarrow> (Some (dr_timings run, Some e), w)
      | Inr i \<Rightarrow> (case start_and_commit i path resume request (dr_session run) w of
          (None, w1) \<Rightarrow> (None, w1)
        | (Some e, w1) \<Rightarrow> (Some (hello_timings (dr_session run) (dr_timings run), e), w1)))"

definition activate :: "path_config \<Rightarrow> bool \<Rightarrow> direct_run \<Rightarrow> client_world \<Rightarrow> gerror option option \<times> client_world" where
  "activate path resume run w = (case activateDirect path resume run w of
     (None, w1) \<Rightarrow> (None, w1) | (Some (timings, e), w1) \<Rightarrow> (Some e, w1))"

section \<open>Promotion of a candidate\<close>

record candidate_activation =
  ca_candidate :: "probe_candidate option"
  ca_resume :: bool
  ca_expected :: "client_conn option"
  ca_allow_dropped :: bool

definition candidateSourceIsCurrent :: "client_conn \<Rightarrow> bool \<Rightarrow> client_runtime \<Rightarrow> bool" where
  "candidateSourceIsCurrent expected allowDropped rt =
     (if rt_finished rt then False
      else if rt_active rt = Some expected then True
      else allowDropped \<and> rt_active rt = None \<and> rt_epoch rt = cc_epoch expected)"

text \<open>The result: the timings, whether an activation was attempted, and the error; the candidate afterwards.\<close>

definition promoteCandidate :: "probe_candidate \<Rightarrow> candidate_activation \<Rightarrow> session_run \<Rightarrow> client_world \<Rightarrow>
    (dial_timings \<times> bool \<times> gerror option) option \<times> probe_candidate \<times> client_world" where
  "promoteCandidate candidate request s w =
     (if (case ca_expected request of None \<Rightarrow> False
          | Some expected \<Rightarrow> \<not> candidateSourceIsCurrent expected (ca_allow_dropped request) (cl_rt w)) then
        (Some (pb_timings candidate, False, Some ActivationSuperseded), candidate, w)
      else case candidate_transfer candidate of
        (None, c1) \<Rightarrow> (Some (pb_timings candidate, False, Some (Errorf ''probe candidate has no open connection'')), c1, w)
      | (Some i, c1) \<Rightarrow>
          (case start_and_commit i (pb_path candidate) (ca_resume request)
              (make_request (cl_cfg w) (pb_path candidate) (ca_resume request) (cl_rt w)) s w of
             (None, w1) \<Rightarrow> (None, c1, w1)
           | (Some e, w1) \<Rightarrow> (Some (hello_timings s (pb_timings candidate), True, e), c1, w1)))"

definition activateCandidateFor :: "(nat \<Rightarrow> gerror option) \<Rightarrow> candidate_activation \<Rightarrow> session_run \<Rightarrow> client_world \<Rightarrow>
    (dial_timings \<times> gerror option) option \<times> probe_candidate option \<times> client_world" where
  "activateCandidateFor closeErr request s w = (case ca_candidate request of
     None \<Rightarrow> (Some (zero_timings, Some (Errorf ''probe candidate is nil'')), None, w)
   | Some c \<Rightarrow>
       if pb_err c \<noteq> None then
         (case candidate_close closeErr c w of (_, c1, w1) \<Rightarrow> (Some (pb_timings c, pb_err c), Some c1, w1))
       else case promoteCandidate c request s w of
         (None, c1, w1) \<Rightarrow> (None, Some c1, w1)
       | (Some (timings, attempted, e), c1, w1) \<Rightarrow> (Some (timings, e), Some c1, w1))"

text \<open>\<open>activateCandidate\<close> on a candidate that is not nil.\<close>

definition activateCandidate :: "(nat \<Rightarrow> gerror option) \<Rightarrow> probe_candidate \<Rightarrow> bool \<Rightarrow> session_run \<Rightarrow> client_world \<Rightarrow>
    gerror option option \<times> probe_candidate \<times> client_world" where
  "activateCandidate closeErr c resume s w =
     (case activateCandidateFor closeErr \<lparr>ca_candidate = Some c, ca_resume = resume, ca_expected = None, ca_allow_dropped = False\<rparr> s w of
        (r, c1, w1) \<Rightarrow> (map_option snd r, (case c1 of Some x \<Rightarrow> x | None \<Rightarrow> c), w1))"

section \<open>Ranked candidates\<close>

text \<open>
  The two loops of \<open>activateRankedCandidates\<close>. A loop waits for a hello, has succeeded, or has tried
  everything and yields the last error (and the paths whose probe had failed). \<open>sess\<close> and \<open>direct\<close> are the
  inputs of the attempts.
\<close>

datatype 'a tries = Waits | Succeeds | Exhausted 'a

fun try_candidates :: "(nat \<Rightarrow> gerror option) \<Rightarrow> bool \<Rightarrow> (probe_candidate \<Rightarrow> session_run) \<Rightarrow> probe_candidate list \<Rightarrow>
    gerror option \<Rightarrow> path_config list \<Rightarrow> client_world \<Rightarrow> (gerror option \<times> path_config list) tries \<times> probe_candidate list \<times> client_world" where
  "try_candidates closeErr resume sess [] lastErr failed w = (Exhausted (lastErr, failed), [], w)"
| "try_candidates closeErr resume sess (c # cs) lastErr failed w =
     (if pb_err c \<noteq> None then
        (case try_candidates closeErr resume sess cs (pb_err c) (failed @ [pb_path c]) w of (r, cs1, w1) \<Rightarrow> (r, c # cs1, w1))
      else case activateCandidate closeErr c resume (sess c) w of
        (None, c1, w1) \<Rightarrow> (Waits, c1 # cs, w1)
      | (Some (Some e), c1, w1) \<Rightarrow>
          (case try_candidates closeErr resume sess cs (Some e) failed w1 of (r, cs1, w2) \<Rightarrow> (r, c1 # cs1, w2))
      | (Some None, c1, w1) \<Rightarrow> (Succeeds, c1 # cs, w1))"

fun try_paths :: "bool \<Rightarrow> (path_config \<Rightarrow> direct_run) \<Rightarrow> path_config list \<Rightarrow> gerror option \<Rightarrow> client_world \<Rightarrow>
    gerror option tries \<times> client_world" where
  "try_paths resume direct [] lastErr w = (Exhausted lastErr, w)"
| "try_paths resume direct (path # paths) lastErr w = (case activate path resume (direct path) w of
     (None, w1) \<Rightarrow> (Waits, w1)
   | (Some (Some e), w1) \<Rightarrow> try_paths resume direct paths (Some e) w1
   | (Some None, w1) \<Rightarrow> (Succeeds, w1))"

definition last_error :: "gerror option \<Rightarrow> gerror" where
  "last_error lastErr = (case lastErr of None \<Rightarrow> Errorf ''no enabled path'' | Some e \<Rightarrow> e)"

definition activateRankedCandidates :: "(nat \<Rightarrow> gerror option) \<Rightarrow> bool \<Rightarrow> (probe_candidate \<Rightarrow> session_run) \<Rightarrow>
    (path_config \<Rightarrow> direct_run) \<Rightarrow> probe_candidate list \<Rightarrow> client_world \<Rightarrow> gerror option option \<times> client_world" where
  "activateRankedCandidates closeErr resume sess direct candidates w =
     (case try_candidates closeErr resume sess candidates None [] w of
        (Waits, cs, w1) \<Rightarrow> (None, w1)
      | (Succeeds, cs, w1) \<Rightarrow> (Some None, snd (snd (closeProbeCandidates closeErr cs w1)))
      | (Exhausted (lastErr, failed), cs, w1) \<Rightarrow>
          (case try_paths resume direct failed lastErr w1 of
             (Waits, w2) \<Rightarrow> (None, w2)
           | (Succeeds, w2) \<Rightarrow> (Some None, snd (snd (closeProbeCandidates closeErr cs w2)))
           | (Exhausted lastErr', w2) \<Rightarrow> (Some (Some (last_error lastErr')), snd (snd (closeProbeCandidates closeErr cs w2)))))"

section \<open>The first candidate that answers\<close>

text \<open>
  The loop over the channel of results in \<open>activateFirstAvailable\<close>: \<open>runs\<close> are the probes in the order in
  which they finish. After a success \<open>drainProbeCandidates\<close> closes what the other probes still opened.
\<close>

fun drainProbeCandidates :: "(gerror \<Rightarrow> bool) \<Rightarrow> (nat \<Rightarrow> gerror option) \<Rightarrow> probe_run list \<Rightarrow> client_world \<Rightarrow> client_world" where
  "drainProbeCandidates timeout closeErr [] w = w"
| "drainProbeCandidates timeout closeErr ((r, inp) # runs) w =
     (case probePathCandidate timeout closeErr r inp w of
        (None, w1) \<Rightarrow> w1
      | (Some c, w1) \<Rightarrow> drainProbeCandidates timeout closeErr runs (snd (snd (candidate_close closeErr c w1))))"

fun first_available :: "(gerror \<Rightarrow> bool) \<Rightarrow> (nat \<Rightarrow> gerror option) \<Rightarrow> bool \<Rightarrow> (probe_candidate \<Rightarrow> session_run) \<Rightarrow> probe_run list \<Rightarrow>
    gerror option \<Rightarrow> probe_candidate list \<Rightarrow> client_world \<Rightarrow> (gerror option \<times> probe_candidate list) tries \<times> client_world" where
  "first_available timeout closeErr resume sess [] lastErr failed w = (Exhausted (lastErr, failed), w)"
| "first_available timeout closeErr resume sess ((r, inp) # runs) lastErr failed w =
     (case probePathCandidate timeout closeErr r inp w of
        (None, w1) \<Rightarrow> (Waits, w1)
      | (Some c, w1) \<Rightarrow>
          if pb_err c \<noteq> None then first_available timeout closeErr resume sess runs (pb_err c) (failed @ [c]) w1
          else case activateCandidate closeErr c resume (sess c) w1 of
            (None, c1, w2) \<Rightarrow> (Waits, w2)
          | (Some (Some e), c1, w2) \<Rightarrow> first_available timeout closeErr resume sess runs (Some e) failed w2
          | (Some None, c1, w2) \<Rightarrow> (Succeeds, drainProbeCandidates timeout closeErr runs w2))"

definition activateFirstAvailable :: "(gerror \<Rightarrow> bool) \<Rightarrow> (nat \<Rightarrow> gerror option) \<Rightarrow> gerror option \<Rightarrow> bool \<Rightarrow>
    (probe_candidate \<Rightarrow> session_run) \<Rightarrow> (path_config \<Rightarrow> direct_run) \<Rightarrow> probe_run list \<Rightarrow> client_world \<Rightarrow>
    gerror option option \<times> client_world" where
  "activateFirstAvailable timeout closeErr ctx resume sess direct runs w =
     (if enabledPaths (cfg_paths (cl_cfg w)) = [] then
        (Some (Some (case ctx of Some e \<Rightarrow> e | None \<Rightarrow> Errorf ''no enabled path'')), w)
      else case first_available timeout closeErr resume sess runs None [] w of
        (Waits, w1) \<Rightarrow> (None, w1)
      | (Succeeds, w1) \<Rightarrow> (Some None, w1)
      | (Exhausted (lastErr, failed), w1) \<Rightarrow>
          if failed \<noteq> [] then activateRankedCandidates closeErr resume sess direct (rankProbeCandidates failed) w1
          else (Some (Some (last_error lastErr)), w1))"

section \<open>Any path\<close>

text \<open>\<open>startProbeBatch\<close> starts nothing when no path is enabled.\<close>

definition startProbeBatch :: "path_config list \<Rightarrow> bool" where
  "startProbeBatch paths \<longleftrightarrow> enabledPaths paths \<noteq> []"

definition drainProbeBatch :: "(nat \<Rightarrow> gerror option) \<Rightarrow> (probe_candidate list \<times> gerror option) option \<Rightarrow> client_world \<Rightarrow> client_world" where
  "drainProbeBatch closeErr outcome w = (case outcome of
     None \<Rightarrow> w
   | Some (items, e) \<Rightarrow> snd (snd (closeProbeCandidates closeErr items w)))"

text \<open>
  \<open>pctx\<close> is the error of the context of the batch when its probes are done, \<open>lkgRun\<close> the attempt on the
  last known good path.
\<close>

definition lastKnownGoodPath :: "client_runtime \<Rightarrow> path_config option" where [simp]:
  "lastKnownGoodPath rt = rt_lastKnownGood rt"

definition connectAny :: "(gerror \<Rightarrow> bool) \<Rightarrow> (nat \<Rightarrow> gerror option) \<Rightarrow> gerror option \<Rightarrow> gerror option \<Rightarrow> bool \<Rightarrow> direct_run \<Rightarrow>
    (probe_candidate \<Rightarrow> session_run) \<Rightarrow> (path_config \<Rightarrow> direct_run) \<Rightarrow> probe_run list \<Rightarrow> client_world \<Rightarrow>
    gerror option option \<times> client_world" where
  "connectAny timeout closeErr ctx pctx resume lkgRun sess direct runs w =
     (case lastKnownGoodPath (cl_rt w) of
        None \<Rightarrow> activateFirstAvailable timeout closeErr ctx resume sess direct runs w
      | Some lkg \<Rightarrow>
          let probePaths = pathsExcept (cfg_paths (cl_cfg w)) (pc_name lkg) in
          case activate lkg resume lkgRun w of
            (None, w1) \<Rightarrow> (None, w1)
          | (Some None, w1) \<Rightarrow>
              if startProbeBatch probePaths then
                (case probeBatch timeout closeErr probePaths pctx runs w1 of
                   (outcome, w2) \<Rightarrow> (Some None, drainProbeBatch closeErr outcome w2))
              else (Some None, w1)
          | (Some (Some e), w1) \<Rightarrow>
              if \<not> startProbeBatch probePaths then (Some (Some e), w1)
              else (case probeBatch timeout closeErr probePaths pctx runs w1 of
                  (None, w2) \<Rightarrow> (None, w2)
                | (Some (items, Some e'), w2) \<Rightarrow> (Some (Some e'), w2)
                | (Some (items, None), w2) \<Rightarrow> activateRankedCandidates closeErr resume sess direct items w2))"

end
