(* ===== verification/Client_Locks.thy ===== *)
theory Client_Locks
  imports Connect Goroutines
begin

text \<open>
  The client runtime at the grain of its locks, like Server_Locks for a session. Client_Runtime runs each handler
  without interruption; here \<open>stdinLoop\<close>, the receive loops and the goroutines that connect, switch, probe and send
  heartbeats are lists of stretches, and any of them may take the next step. What survives any interleaving is shown,
  what survives as long as deliveries to standard output do not overlap, and the wakeup that \<open>finish\<close> loses.
\<close>

section \<open>The stretches between two locks\<close>

text \<open>What a goroutine does when a send fails: nothing; report the error to the server and finish; drop the connection and
  give up; or drop the connection and go on.\<close>

datatype on_send_error = Skip | Refuse | DropQuit | DropGoOn

datatype client_act =
    Receive client_conn frame_header bytes
  | CheckServerData client_conn frame_header bytes
  | WriteStdout client_conn bytes
  | CountStdout client_conn nat "gerror option"
  | AckFromServer u64
  | CheckServerFin client_conn frame_header
  | CloseStdout
  | ResolvePong client_conn string
  | StdinAppend client_conn bytes "gerror option"
  | MarkFin
  | SendFin client_conn
  | StopStdin
  | SayHello nat session_request "gerror option" "hello_input list"
  | ReadHello nat session_request "hello_input list"
  | CloseRaw nat
  | Commit activation_commit
  | SavePath string
  | ReplayBytes client_conn
  | Transmit client_conn frame_header bytes on_send_error
  | DropActive client_conn
  | SignalReconnect
  | CloseConn client_conn
  | Finish "gerror option"
  | CloseDone

definition refuse_acts :: "client_conn \<Rightarrow> gerror \<Rightarrow> client_act list" where
  "refuse_acts conn e = [Transmit conn (client_error_header (error_text e)) [] Skip, Finish (Some e)]"

text \<open>The switch of \<open>receiveLoop\<close>, after its test whether the frame is current.\<close>

definition receive_acts :: "client_conn \<Rightarrow> frame_header \<Rightarrow> bytes \<Rightarrow> client_world \<Rightarrow> client_act list" where [simp]:
  "receive_acts conn f p w =
     (if \<not> frame_current conn f (cl_rt w) \<and> h_type f \<noteq> ''ping'' \<and> h_type f \<noteq> ''pong'' then []
      else if h_type f = ''data'' then [CheckServerData conn f p]
      else if h_type f = ''ack'' then
        (if h_direction f \<noteq> dirClientToServer then [Finish (Some (Errorf ''bad ack direction''))]
         else [AckFromServer (h_received_offset f)])
      else if h_type f = ''fin'' then [CheckServerFin conn f]
      else if h_type f = ''close'' then
        [Finish (if h_code f = ''normal'' \<or> h_code f = ''target_closed'' then None else Some (coded_error f))]
      else if h_type f = ''error'' then [Finish (Some (coded_error f))]
      else if h_type f = ''ping'' then [Transmit conn (client_pong_header f) [] Skip]
      else if h_type f = ''pong'' then [ResolvePong conn (h_nonce f)]
      else [Finish (Some (Errorf (''unknown frame type '' @ go_quote (h_type f))))])"

text \<open>The locked part of \<open>commitActivation\<close>, and what it leaves to do.\<close>

definition commit_acts :: "activation_commit \<Rightarrow> client_world \<Rightarrow> client_act list \<times> client_world" where [simp]:
  "commit_acts commit w =
     (let rt = cl_rt w; accept = ac_accept commit; conn = ac_conn commit in
      if rt_finished rt then ([CloseConn conn], w)
      else if ac_resume commit \<and> h_session_id accept \<noteq> rt_sessionID rt then ([CloseConn conn], w)
      else if rt_c2sNext rt < h_c2s_rx accept then ([CloseConn conn], w)
      else case advanceC2SAckLocked (h_c2s_rx accept) rt of
        Inl e \<Rightarrow> ([CloseConn conn], w)
      | Inr rt1 \<Rightarrow>
          (SavePath (pc_name (ac_path commit)) # (case rt_active rt of None \<Rightarrow> [] | Some old \<Rightarrow> [CloseConn old])
             @ [ReplayBytes conn], w\<lparr>cl_rt := commit_state commit (cl_now w) rt1\<rparr>))"

text \<open>\<open>replayClientBytes\<close> after its snapshot.\<close>

definition replay_bytes_acts :: "client_conn \<Rightarrow> client_runtime \<Rightarrow> client_act list" where
  "replay_bytes_acts conn rt =
     map (\<lambda>(off, p). Transmit conn (c2s_data_header (rt_sessionID rt) off) p DropQuit) (chunks (rt_c2sBufFrom rt) (rt_c2sBuf rt))
       @ (if rt_c2sFin rt then [Transmit conn (c2s_fin_header (rt_sessionID rt) (rt_c2sFinAt rt)) [] DropQuit] else [])"

text \<open>\<open>startSession\<close> on a socket of its own: the send of the hello, and the answer to one frame read.\<close>

definition raw_then :: "nat \<Rightarrow> frame_header \<Rightarrow> client_act list \<Rightarrow> client_world \<Rightarrow> client_act list \<times> bool \<times> client_world" where
  "raw_then i h todo w = (case raw_send i h [] w of (Some e, w1) \<Rightarrow> ([CloseRaw i], True, w1) | (None, w1) \<Rightarrow> (todo, True, w1))"

definition read_hello :: "nat \<Rightarrow> session_request \<Rightarrow> hello_input list \<Rightarrow> client_world \<Rightarrow> client_act list \<times> bool \<times> client_world" where
  "read_hello i r inputs w = (case inputs of
     [] \<Rightarrow> ([], True, w)
   | x # xs \<Rightarrow> (case hi_read x of
       Inl e \<Rightarrow> ([CloseRaw i], True, w)
     | Inr (f, p) \<Rightarrow>
         if h_type f = ''accept'' then
           (if hi_ctx x = None \<and> hi_stopped x \<and> hi_clear x = None then
              ([Commit \<lparr>ac_conn = \<lparr>cc_ws = i, cc_path = sq_path r, cc_epoch = h_epoch f\<rparr>, ac_accept = f, ac_path = sq_path r, ac_resume = sq_resume r\<rparr>], True, w)
            else ([CloseRaw i], True, w))
         else if h_type f = ''ping'' then raw_then i (client_pong_header f) [ReadHello i r xs] w
         else ([CloseRaw i], True, w)))"

text \<open>
  One stretch. \<open>CheckServerData\<close>, \<open>WriteStdout\<close> and \<open>CountStdout\<close> are \<open>handleServerData\<close>; \<open>StdinAppend\<close> is
  \<open>appendClientBytes\<close> after a read; \<open>SendFin\<close> reads the offset of the end in \<open>sendClientFin\<close>; \<open>Finish\<close> is the locked part
  of \<open>finish\<close>, whose \<open>Once\<close> lets it through only the first time; \<open>SayHello\<close> and \<open>ReadHello\<close> are \<open>startSession\<close>, which goes on
  with \<open>commitActivation\<close> after an accept.
\<close>

fun client_exec :: "client_act \<Rightarrow> client_world \<Rightarrow> client_act list \<times> bool \<times> client_world" where
  "client_exec (Receive conn f p) w = (receive_acts conn f p w, True, w)"
| "client_exec (CheckServerData conn f p) w =
     (if h_direction f \<noteq> dirServerToClient then (refuse_acts conn (Errorf ''bad data direction''), True, w)
      else let rx = rt_s2cRx (cl_rt w); sid = rt_sessionID (cl_rt w) in
        if h_offset f < rx then
          (if h_offset f + of_nat (length p) \<le> rx then ([Transmit conn (s2c_ack_header sid rx) [] Refuse], True, w)
           else (refuse_acts conn (Errorf ''partial duplicate server data''), True, w))
        else if rx < h_offset f then (refuse_acts conn (Errorf ''server data offset gap''), True, w)
        else ([WriteStdout conn p], True, w))"
| "client_exec (WriteStdout conn p) w =
     (case writeAll sink_write (cl_stdout w) p of (n, err, sink) \<Rightarrow> ([CountStdout conn n err], True, w\<lparr>cl_stdout := sink\<rparr>))"
| "client_exec (CountStdout conn n err) w =
     (let w' = upd_rt (\<lambda>rt. rt\<lparr>rt_s2cRx := rt_s2cRx rt + of_nat n\<rparr>) w in
      (Transmit conn (s2c_ack_header (rt_sessionID (cl_rt w')) (rt_s2cRx (cl_rt w'))) [] Skip
        # (case err of None \<Rightarrow> [] | Some e \<Rightarrow> refuse_acts conn e), True, w'))"
| "client_exec (AckFromServer off) w =
     (case advanceC2SAckLocked off (cl_rt w) of
        Inl e \<Rightarrow> ([Finish (Some e)], True, upd_rt rt_broadcast w)
      | Inr rt \<Rightarrow> ([], True, w\<lparr>cl_rt := rt_broadcast rt\<rparr>))"
| "client_exec (CheckServerFin conn f) w =
     (if h_direction f \<noteq> dirServerToClient then ([Finish (Some (Errorf ''bad fin direction''))], True, w)
      else let rx = rt_s2cRx (cl_rt w) in
        if h_offset f \<noteq> rx then ([Finish (Some (Errorf ''server fin offset gap''))], True, w)
        else ([CloseStdout, Transmit conn (s2c_ack_header (rt_sessionID (cl_rt w)) rx) [] Skip], True, w))"
| "client_exec CloseStdout w = ([], True, close_stdout w)"
| "client_exec (ResolvePong conn nonce) w =
     ([], True, w\<lparr>cl_hb := (cl_hb w)(cc_ws conn := snd (resolvePong nonce (cl_now w) (cl_hb w (cc_ws conn))))\<rparr>)"
| "client_exec (StdinAppend conn bs err) w =
     (let w0 = set_stdin StdinActive w;
          after = (case err of None \<Rightarrow> [] | Some e \<Rightarrow> if errors_is e EOF then [MarkFin] else [StopStdin, Finish (Some e)]) in
      if bs = [] then (after, True, w0)
      else case appendClientBytes bs (w0\<lparr>cl_stdin := cl_stdin w0 @ bs\<rparr>) of ((offset, sid), w1) \<Rightarrow>
        (Transmit conn (c2s_data_header sid offset) bs DropGoOn # after, True, w1))"
| "client_exec MarkFin w = ([], True, set_stdin StdinFin (markClientFin w))"
| "client_exec (SendFin conn) w =
     ([Transmit conn (c2s_fin_header (rt_sessionID (cl_rt w)) (rt_c2sFinAt (cl_rt w))) [] DropQuit, StopStdin], True, w)"
| "client_exec StopStdin w = ([], True, set_stdin StdinStopped w)"
| "client_exec (SayHello i r ctx inputs) w =
     (case ctx of Some e \<Rightarrow> ([CloseRaw i], True, w) | None \<Rightarrow> raw_then i (hello_header r) [ReadHello i r inputs] w)"
| "client_exec (ReadHello i r inputs) w = read_hello i r inputs w"
| "client_exec (CloseRaw i) w = ([], True, raw_close i w)"
| "client_exec (Commit commit) w = (case commit_acts commit w of (new, w') \<Rightarrow> (new, True, w'))"
| "client_exec (SavePath name) w = ([], True, w\<lparr>cl_saved := cl_saved w @ [name]\<rparr>)"
| "client_exec (ReplayBytes conn) w = (replay_bytes_acts conn (cl_rt w), True, w)"
| "client_exec (Transmit conn h p oe) w =
     (case client_send conn h p w of
        (None, w') \<Rightarrow> ([], True, w')
      | (Some e, w') \<Rightarrow> (case oe of
            Skip \<Rightarrow> ([], True, w')
          | Refuse \<Rightarrow> (refuse_acts conn e, True, w')
          | DropQuit \<Rightarrow> ([DropActive conn], False, w')
          | DropGoOn \<Rightarrow> ([DropActive conn], True, w')))"
| "client_exec (DropActive conn) w =
     (if rt_active (cl_rt w) = Some conn then
        ([SignalReconnect, CloseConn conn], True, w\<lparr>cl_rt := rt_broadcast ((cl_rt w)\<lparr>rt_active := None\<rparr>)\<rparr>)
      else ([CloseConn conn], True, w))"
| "client_exec SignalReconnect w = ([], True, upd_rt (\<lambda>rt. rt\<lparr>rt_reconnectSignal := True\<rparr>) w)"
| "client_exec (CloseConn conn) w = ([], True, conn_close conn w)"
| "client_exec (Finish err) w =
     (if rt_finished (cl_rt w) then ([], True, w)
      else ((case rt_active (cl_rt w) of None \<Rightarrow> [] | Some c \<Rightarrow> [CloseConn c]) @ [CloseDone], True, finish_mark err w))"
| "client_exec CloseDone w = ([], True, upd_rt (\<lambda>rt. rt\<lparr>rt_done := True\<rparr>) w)"

section \<open>The handlers are the uninterrupted runs\<close>

abbreviation client_runs :: "client_act list \<Rightarrow> client_world \<Rightarrow> client_world \<Rightarrow> bool" where
  "client_runs todo w w' \<equiv> (run_act client_exec)\<^sup>*\<^sup>* (todo, w) ([], w')"

lemmas client_on = runs_on [where exec = client_exec] and client_stop = runs_stop [where exec = client_exec]
  and client_via = runs_via [where exec = client_exec] and client_last = runs_last [where exec = client_exec]

lemma run_skip: "(run_act client_exec)\<^sup>*\<^sup>* (todo, snd (client_send conn h p w)) t \<Longrightarrow>
    (run_act client_exec)\<^sup>*\<^sup>* (Transmit conn h p Skip # todo, w) t"
  by (rule client_on [of _ _ "[]" "snd (client_send conn h p w)"]) (auto split: prod.split option.split)

text \<open>A stretch that leaves nothing to do, before others.\<close>

lemma run_next: "client_exec a w = ([], True, w1) \<Longrightarrow> (run_act client_exec)\<^sup>*\<^sup>* (todo, w1) t \<Longrightarrow>
    (run_act client_exec)\<^sup>*\<^sup>* (a # todo, w) t"
  by (rule client_on, assumption) simp

lemma run_drop_then: "(run_act client_exec)\<^sup>*\<^sup>* (todo, dropActive conn w) t \<Longrightarrow> (run_act client_exec)\<^sup>*\<^sup>* (DropActive conn # todo, w) t"
proof -
  assume r: "(run_act client_exec)\<^sup>*\<^sup>* (todo, dropActive conn w) t"
  show ?thesis
  proof (cases "rt_active (cl_rt w) = Some conn")
    case True
    let ?w1 = "w\<lparr>cl_rt := rt_broadcast ((cl_rt w)\<lparr>rt_active := None\<rparr>)\<rparr>"
    have "(run_act client_exec)\<^sup>*\<^sup>* ([SignalReconnect, CloseConn conn] @ todo, ?w1) t"
      using r True by (simp add: dropActive_def run_next)
    with True show ?thesis by (intro client_on [of "DropActive conn" w "[SignalReconnect, CloseConn conn]" ?w1]) simp_all
  next
    case False
    with r show ?thesis by (intro client_on [of "DropActive conn" w "[CloseConn conn]" w]) (simp_all add: dropActive_def run_next)
  qed
qed

lemma runs_dropActive: "client_runs [DropActive conn] w (dropActive conn w)"
  by (rule run_drop_then) simp

lemma run_finish_then: "(run_act client_exec)\<^sup>*\<^sup>* (todo, finish err w) t \<Longrightarrow> (run_act client_exec)\<^sup>*\<^sup>* (Finish err # todo, w) t"
proof -
  assume r: "(run_act client_exec)\<^sup>*\<^sup>* (todo, finish err w) t"
  show ?thesis
  proof (cases "rt_finished (cl_rt w)")
    case True
    with r show ?thesis by (intro run_next) (simp_all add: finish_def)
  next
    case False
    let ?new = "(case rt_active (cl_rt w) of None \<Rightarrow> [] | Some c \<Rightarrow> [CloseConn c]) @ [CloseDone]"
    have "(run_act client_exec)\<^sup>*\<^sup>* (?new @ todo, finish_mark err w) t"
      using r False by (cases "rt_active (cl_rt w)") (simp_all add: finish_def finish_close_def run_next)
    with False show ?thesis by (intro client_on [of "Finish err" w ?new "finish_mark err w"]) simp_all
  qed
qed

lemma runs_finish: "client_runs [Finish err] w (finish err w)"
  by (rule run_finish_then) simp

lemma runs_refuse: "client_runs (refuse_acts conn e) w (finish (Some e) (snd (client_send conn (client_error_header (error_text e)) [] w)))"
  unfolding refuse_acts_def by (intro run_skip runs_finish)

text \<open>What \<open>receiveLoop\<close> does with the answer of \<open>handleServerData\<close>.\<close>

definition after_data :: "client_conn \<Rightarrow> gerror option \<times> client_world \<Rightarrow> client_world" where
  "after_data conn r = (case r of (None, w) \<Rightarrow> w
     | (Some e, w) \<Rightarrow> finish (Some e) (snd (client_send conn (client_error_header (error_text e)) [] w)))"

lemma runs_server_data: "client_runs [CheckServerData conn f p] w (after_data conn (handleServerData conn f p w))"
proof -
  let ?rx = "rt_s2cRx (cl_rt w)" and ?sid = "rt_sessionID (cl_rt w)"
  have refuse: "client_runs [CheckServerData conn f p] w (after_data conn (Some e, w))"
    if "client_exec (CheckServerData conn f p) w = (refuse_acts conn e, True, w)" for e
    by (rule client_via [OF that]) (simp add: after_data_def runs_refuse)
  consider "h_direction f \<noteq> dirServerToClient"
    | "h_direction f = dirServerToClient" "h_offset f < ?rx" "h_offset f + of_nat (length p) \<le> ?rx"
    | "h_direction f = dirServerToClient" "h_offset f < ?rx" "\<not> h_offset f + of_nat (length p) \<le> ?rx"
    | "h_direction f = dirServerToClient" "?rx < h_offset f"
    | "h_direction f = dirServerToClient" "h_offset f = ?rx"
    using less_linear by blast
  then show ?thesis
  proof cases
    case 1
    then show ?thesis using refuse [of "Errorf ''bad data direction''"] by (simp add: handleServerData_def)
  next
    case 2
    let ?h = "s2c_ack_header ?sid ?rx"
    obtain e w1 where s: "client_send conn ?h [] w = (e, w1)" by fastforce
    have "client_runs [Transmit conn ?h [] Refuse] w (after_data conn (e, w1))"
    proof (cases e)
      case None
      with s show ?thesis by (intro client_last) (simp add: after_data_def)
    next
      case (Some x)
      with s show ?thesis
        by - (rule client_via [of _ _ "refuse_acts conn x" w1]; simp add: after_data_def runs_refuse)
    qed
    with 2 s show ?thesis
      by - (rule client_via [of _ _ "[Transmit conn ?h [] Refuse]" w]; simp add: handleServerData_def Let_def)
  next
    case 3
    then show ?thesis using refuse [of "Errorf ''partial duplicate server data''"] by (simp add: handleServerData_def Let_def)
  next
    case 4
    then have "\<not> h_offset f < ?rx" by auto
    with 4 show ?thesis using refuse [of "Errorf ''server data offset gap''"] by (simp add: handleServerData_def Let_def)
  next
    case 5
    obtain n err sk where wr: "writeAll sink_write (cl_stdout w) p = (n, err, sk)" using prod_cases3 by blast
    let ?w1 = "w\<lparr>cl_stdout := sk\<rparr>"
    let ?w2 = "upd_rt (\<lambda>rt. rt\<lparr>rt_s2cRx := rt_s2cRx rt + of_nat n\<rparr>) ?w1"
    let ?h = "s2c_ack_header (rt_sessionID (cl_rt ?w2)) (rt_s2cRx (cl_rt ?w2))"
    let ?rest = "case err of None \<Rightarrow> [] | Some e \<Rightarrow> refuse_acts conn e"
    have "client_runs ?rest v (after_data conn (err, v))" for v
      by (cases err) (simp_all add: after_data_def runs_refuse)
    then have "client_runs (Transmit conn ?h [] Skip # ?rest) ?w2 (after_data conn (err, snd (client_send conn ?h [] ?w2)))"
      by (intro run_skip)
    then have "client_runs [CountStdout conn n err] ?w1 (after_data conn (err, snd (client_send conn ?h [] ?w2)))"
      by - (rule client_via [of _ _ "Transmit conn ?h [] Skip # ?rest" ?w2]; simp add: Let_def)
    then have "client_runs [WriteStdout conn p] w (after_data conn (err, snd (client_send conn ?h [] ?w2)))"
      using wr by - (rule client_via [of _ _ "[CountStdout conn n err]" ?w1]; simp)
    with 5 wr show ?thesis
      by - (rule client_via [of _ _ "[WriteStdout conn p]" w]; simp add: handleServerData_def Let_def)
  qed
qed

lemma runs_server_fin:
  "client_runs [CheckServerFin conn f] w (case handleServerFin conn f w of (Some e, w') \<Rightarrow> finish (Some e) w' | (None, w') \<Rightarrow> w')"
proof (cases "h_direction f = dirServerToClient \<and> h_offset f = rt_s2cRx (cl_rt w)")
  case True
  let ?h = "s2c_ack_header (rt_sessionID (cl_rt w)) (rt_s2cRx (cl_rt w))"
  have "client_runs [CloseStdout, Transmit conn ?h [] Skip] w (snd (client_send conn ?h [] (close_stdout w)))"
    by (intro run_next [of CloseStdout w "close_stdout w"] run_skip) simp_all
  with True show ?thesis
    by - (rule client_via [of _ _ "[CloseStdout, Transmit conn ?h [] Skip]" w]; simp add: handleServerFin_def)
next
  case False
  then have "\<exists>e. handleServerFin conn f w = (Some e, w) \<and> client_exec (CheckServerFin conn f) w = ([Finish (Some e)], True, w)"
    by (auto simp: handleServerFin_def Let_def)
  then obtain e where "handleServerFin conn f w = (Some e, w)" and "client_exec (CheckServerFin conn f) w = ([Finish (Some e)], True, w)"
    by blast
  then show ?thesis by - (rule client_via [of _ _ "[Finish (Some e)]" w]; simp add: runs_finish)
qed

lemma runs_server_ack:
  "client_runs [AckFromServer off] w (case advanceC2SAckLocked off (cl_rt w) of
     Inl e \<Rightarrow> finish (Some e) (upd_rt rt_broadcast w) | Inr rt \<Rightarrow> w\<lparr>cl_rt := rt_broadcast rt\<rparr>)"
proof (cases "advanceC2SAckLocked off (cl_rt w)")
  case (Inl e)
  then show ?thesis by - (rule client_via [of _ _ "[Finish (Some e)]" "upd_rt rt_broadcast w"]; simp add: runs_finish)
qed (simp add: client_last)

lemma runs_receive: "client_runs [Receive conn f p] w (snd (receive_frame conn f p w))"
proof -
  have via: "client_runs [Receive conn f p] w w'" if "receive_acts conn f p w = todo" "client_runs todo w w'" for todo w'
    by (rule client_via [OF _ that(2)]) (use that(1) in simp)
  have finish: "client_runs [Receive conn f p] w (finish err w)" if "receive_acts conn f p w = [Finish err]" for err
    by (rule via [OF that runs_finish])
  have data: "snd (case r of (None, w') \<Rightarrow> (True, w')
      | (Some e, w') \<Rightarrow> (False, finish (Some e) (snd (client_send conn (client_error_header (error_text e)) [] w')))) = after_data conn r" for r
    by (simp add: after_data_def split: prod.split option.split)
  show ?thesis
  proof (cases "\<not> frame_current conn f (cl_rt w) \<and> h_type f \<noteq> ''ping'' \<and> h_type f \<noteq> ''pong''")
    case True
    then show ?thesis by (intro via [of "[]"]) (simp_all add: receive_frame_def)
  next
    case False
    then consider "h_type f = ''data''" | "h_type f = ''ack''" "h_direction f \<noteq> dirClientToServer"
      | "h_type f = ''ack''" "h_direction f = dirClientToServer" | "h_type f = ''fin''" | "h_type f = ''close''"
      | "h_type f = ''error''" | "h_type f = ''ping''" | "h_type f = ''pong''"
      | "h_type f \<notin> {''data'', ''ack'', ''fin'', ''close'', ''error'', ''ping'', ''pong''}" by blast
    then show ?thesis
    proof cases
      case 1
      with False runs_server_data [of conn f p w] show ?thesis
        by (intro via [of "[CheckServerData conn f p]"]) (simp_all add: receive_frame_def data)
    next
      case 2
      with False finish [of "Some (Errorf ''bad ack direction'')"] show ?thesis by (simp add: receive_frame_def)
    next
      case 3
      then have "snd (receive_frame conn f p w) = (case advanceC2SAckLocked (h_received_offset f) (cl_rt w) of
          Inl e \<Rightarrow> finish (Some e) (upd_rt rt_broadcast w) | Inr rt \<Rightarrow> w\<lparr>cl_rt := rt_broadcast rt\<rparr>)"
        using False by (simp add: receive_frame_def split: sum.split)
      with 3 False runs_server_ack [of "h_received_offset f" w] show ?thesis
        by (intro via [of "[AckFromServer (h_received_offset f)]"]) simp_all
    next
      case 4
      then have "snd (receive_frame conn f p w) =
          (case handleServerFin conn f w of (Some e, w') \<Rightarrow> finish (Some e) w' | (None, w') \<Rightarrow> w')"
        using False by (simp add: receive_frame_def split: prod.split option.split)
      with 4 False runs_server_fin [of conn f w] show ?thesis
        by (intro via [of "[CheckServerFin conn f]"]) simp_all
    next
      case 5
      with False finish [of "if h_code f = ''normal'' \<or> h_code f = ''target_closed'' then None else Some (coded_error f)"]
      show ?thesis by (simp add: receive_frame_def)
    next
      case 6
      with False finish [of "Some (coded_error f)"] show ?thesis by (simp add: receive_frame_def)
    next
      case 7
      then show ?thesis
        by (intro via [of "[Transmit conn (client_pong_header f) [] Skip]"]) (simp_all add: receive_frame_def run_skip)
    next
      case 8
      then show ?thesis
        by (intro via [of "[ResolvePong conn (h_nonce f)]"]) (simp_all add: receive_frame_def client_last)
    next
      case 9
      with False finish [of "Some (Errorf (''unknown frame type '' @ go_quote (h_type f)))"] show ?thesis
        by (simp add: receive_frame_def)
    qed
  qed
qed

text \<open>The round of \<open>stdinLoop\<close> after a read; the goroutine is in \<open>Read\<close> with the connection it has fetched.\<close>

lemma runs_stdin_read: "client_runs [StdinAppend conn bs err] w (stdin_read bs err (set_stdin (StdinReading conn) w))"
proof -
  let ?w0 = "set_stdin StdinActive w"
  let ?after = "case err of None \<Rightarrow> [] | Some e \<Rightarrow> if errors_is e EOF then [MarkFin] else [StopStdin, Finish (Some e)]"
  let ?done = "\<lambda>v. case err of None \<Rightarrow> v | Some e \<Rightarrow> if errors_is e EOF then set_stdin StdinFin (markClientFin v)
      else finish (Some e) (set_stdin StdinStopped v)"
  have after: "client_runs ?after v (?done v)" for v
  proof (cases err)
    case (Some e)
    show ?thesis
    proof (cases "errors_is e EOF")
      case False
      have "client_runs [StopStdin, Finish (Some e)] v (finish (Some e) (set_stdin StdinStopped v))"
        by (rule run_next [OF _ runs_finish]) simp
      with Some False show ?thesis by simp
    qed (use Some in \<open>simp add: client_last\<close>)
  qed simp
  have spec: "stdin_read bs err (set_stdin (StdinReading conn) w) = ?done (stdin_data conn bs ?w0)"
    by (simp add: stdin_read_def Let_def)
  show ?thesis
  proof (cases "bs = []")
    case True
    then have "stdin_data conn bs ?w0 = ?w0" and e: "client_exec (StdinAppend conn bs err) w = (?after, True, ?w0)"
      by (simp_all add: stdin_data_def Let_def)
    with spec have "stdin_read bs err (set_stdin (StdinReading conn) w) = ?done ?w0" by (simp only:)
    with client_via [OF e after] show ?thesis by (simp only:)
  next
    case False
    obtain off sid w1 where a: "appendClientBytes bs (?w0\<lparr>cl_stdin := cl_stdin ?w0 @ bs\<rparr>) = ((off, sid), w1)"
      by (metis prod.collapse)
    let ?h = "c2s_data_header sid off"
    obtain e w2 where s: "client_send conn ?h bs w1 = (e, w2)" by fastforce
    let ?w3 = "case e of None \<Rightarrow> w2 | Some x \<Rightarrow> dropActive conn w2"
    have "stdin_data conn bs ?w0 = ?w3" using False a s by (simp add: stdin_data_def split: option.split)
    moreover have "client_runs (Transmit conn ?h bs DropGoOn # ?after) w1 (?done ?w3)"
    proof (cases e)
      case None
      show ?thesis unfolding None option.case(1) by (rule run_next [OF _ after]) (use s None in simp)
    next
      case (Some x)
      have "(run_act client_exec)\<^sup>*\<^sup>* ([DropActive conn] @ ?after, w2) ([], ?done (dropActive conn w2))"
        unfolding append_Cons append_Nil by (rule run_drop_then [OF after])
      then show ?thesis unfolding Some option.case(2) by (rule client_on [rotated]) (use s Some in simp)
    qed
    moreover have "client_exec (StdinAppend conn bs err) w = (Transmit conn ?h bs DropGoOn # ?after, True, w1)"
      using False a by (simp add: Let_def)
    ultimately show ?thesis using spec by (simp only: client_via)
  qed
qed

text \<open>One round of \<open>sendClientFin\<close> that finds a connection.\<close>

lemma runs_send_fin:
  assumes "rt_stdin (cl_rt w) = StdinFin" and "rt_active (cl_rt w) = Some conn"
  shows "client_runs [SendFin conn] w (sendClientFin w)"
proof -
  let ?h = "c2s_fin_header (rt_sessionID (cl_rt w)) (rt_c2sFinAt (cl_rt w))"
  obtain e w1 where s: "client_send conn ?h [] w = (e, w1)" by fastforce
  have "client_runs [Transmit conn ?h [] DropQuit, StopStdin] w (sendClientFin w)"
  proof (cases e)
    case None
    with s assms show ?thesis
      by (intro run_next [of "Transmit conn ?h [] DropQuit" w w1] client_last) (simp_all add: sendClientFin_def waitActive_def)
  next
    case (Some x)
    with s assms runs_dropActive [of conn w1] show ?thesis
      by (intro client_stop [of _ w "[DropActive conn]" w1]) (simp_all add: sendClientFin_def waitActive_def)
  qed
  then show ?thesis by - (rule client_via; simp)
qed

section \<open>Activation\<close>

lemma runs_client_chunks:
  assumes "send_all (\<lambda>off p. client_send conn (c2s_data_header sid off) p) cs w = (e, w1)"
  shows "(run_act client_exec)\<^sup>*\<^sup>* (map (\<lambda>(off, p). Transmit conn (c2s_data_header sid off) p DropQuit) cs @ rest, w)
    (case e of None \<Rightarrow> (rest, w1) | Some x \<Rightarrow> ([], dropActive conn w1))"
  using assms
proof (induction cs arbitrary: w)
  case (Cons oc cs)
  obtain off p where oc: "oc = (off, p)" by (cases oc)
  let ?s = "Transmit conn (c2s_data_header sid off) p DropQuit"
  obtain e2 w2 where s: "client_send conn (c2s_data_header sid off) p w = (e2, w2)" by fastforce
  show ?case
  proof (cases e2)
    case None
    with Cons s oc show ?thesis by (auto intro!: run_next [of ?s w w2])
  next
    case (Some x)
    with Cons.prems s oc show ?thesis
      by (auto intro!: client_stop [of ?s w "[DropActive conn]" w2] runs_dropActive)
  qed
qed simp

lemma runs_replay_bytes: "client_runs [ReplayBytes conn] w (snd (replayClientBytes conn w))"
proof -
  let ?rt = "cl_rt w"
  let ?sid = "rt_sessionID ?rt" and ?h = "c2s_fin_header (rt_sessionID ?rt) (rt_c2sFinAt ?rt)"
  let ?fin = "if rt_c2sFin ?rt then [Transmit conn ?h [] DropQuit] else []"
  obtain e w1 where l: "send_all (\<lambda>off p. client_send conn (c2s_data_header ?sid off) p) (chunks (rt_c2sBufFrom ?rt) (rt_c2sBuf ?rt)) w = (e, w1)"
    by fastforce
  obtain e2 w2 where s: "client_send conn ?h [] w1 = (e2, w2)" by fastforce
  have r: "(run_act client_exec)\<^sup>*\<^sup>* (replay_bytes_acts conn ?rt, w) (case e of None \<Rightarrow> (?fin, w1) | Some x \<Rightarrow> ([], dropActive conn w1))"
    unfolding replay_bytes_acts_def by (rule runs_client_chunks [OF l])
  have "client_runs (replay_bytes_acts conn ?rt) w (snd (replayClientBytes conn w))"
  proof (cases e)
    case None
    have "client_runs ?fin w1 (snd (replayClientBytes conn w))"
    proof (cases "rt_c2sFin ?rt")
      case True
      have "client_runs [Transmit conn ?h [] DropQuit] w1 (case e2 of None \<Rightarrow> w2 | Some x \<Rightarrow> dropActive conn w2)"
      proof (cases e2)
        case (Some x)
        with s show ?thesis by - (rule client_stop [of _ w1 "[DropActive conn]" w2]; simp add: runs_dropActive)
      qed (use s in \<open>simp add: client_last\<close>)
      moreover have "snd (replayClientBytes conn w) = (case e2 of None \<Rightarrow> w2 | Some x \<Rightarrow> dropActive conn w2)"
        using True None l s by (cases e2) (simp_all add: replayClientBytes_def Let_def chunk_loop_send_all)
      ultimately show ?thesis using True by simp
    next
      case False
      with None l show ?thesis by (simp add: replayClientBytes_def Let_def chunk_loop_send_all)
    qed
    with r None show ?thesis unfolding None option.case by (blast intro: rtranclp_trans)
  next
    case (Some x)
    with r l show ?thesis by (simp add: replayClientBytes_def Let_def chunk_loop_send_all)
  qed
  then show ?thesis by - (rule client_via; simp)
qed

lemma runs_commit: "client_runs [Commit c] w (snd (commitActivation c w))"
proof -
  let ?rt = "cl_rt w" and ?conn = "ac_conn c"
  have close: "client_runs [Commit c] w (snd (commitActivation c w))"
    if "commit_acts c w = ([CloseConn ?conn], w)" "snd (commitActivation c w) = conn_close ?conn w"
    by (rule client_via [of _ _ "[CloseConn ?conn]" w]) (use that in \<open>simp_all add: client_last\<close>)
  show ?thesis
  proof (cases "\<exists>rt1. \<not> rt_finished ?rt \<and> \<not> (ac_resume c \<and> h_session_id (ac_accept c) \<noteq> rt_sessionID ?rt)
      \<and> \<not> rt_c2sNext ?rt < h_c2s_rx (ac_accept c) \<and> advanceC2SAckLocked (h_c2s_rx (ac_accept c)) ?rt = Inr rt1")
    case True
    then obtain rt1 where ok: "\<not> rt_finished ?rt" "\<not> (ac_resume c \<and> h_session_id (ac_accept c) \<noteq> rt_sessionID ?rt)"
      "\<not> rt_c2sNext ?rt < h_c2s_rx (ac_accept c)" "advanceC2SAckLocked (h_c2s_rx (ac_accept c)) ?rt = Inr rt1" by blast
    have ok2: "(ac_resume c \<and> h_session_id (ac_accept c) \<noteq> rt_sessionID ?rt) = False" using ok(2) by simp
    let ?w1 = "w\<lparr>cl_rt := commit_state c (cl_now w) rt1\<rparr>"
    let ?w2 = "?w1\<lparr>cl_saved := cl_saved w @ [pc_name (ac_path c)]\<rparr>"
    let ?w3 = "case rt_active ?rt of None \<Rightarrow> ?w2 | Some old \<Rightarrow> conn_close old ?w2"
    let ?todo = "SavePath (pc_name (ac_path c)) # (case rt_active ?rt of None \<Rightarrow> [] | Some old \<Rightarrow> [CloseConn old]) @ [ReplayBytes ?conn]"
    have spec: "snd (commitActivation c w) = snd (replayClientBytes ?conn ?w3)"
      by (simp add: commitActivation_def commit_publish_def Let_def ok(1,3,4) ok2)
    have "client_runs ?todo ?w1 (snd (replayClientBytes ?conn ?w3))"
      using runs_replay_bytes [of ?conn ?w3] by (cases "rt_active ?rt") (simp_all add: run_next)
    then show ?thesis
      unfolding spec by - (rule client_via [of _ _ ?todo ?w1]; simp add: Let_def ok(1,3,4) ok2)
  next
    case False
    then have "commit_acts c w = ([CloseConn ?conn], w) \<and> snd (commitActivation c w) = conn_close ?conn w"
      by (cases "advanceC2SAckLocked (h_c2s_rx (ac_accept c)) ?rt") (auto simp: commitActivation_def commit_publish_def Let_def)
    then show ?thesis using close by blast
  qed
qed

text \<open>A hello, and the activation that follows its accept.\<close>

definition after_hello :: "nat \<Rightarrow> session_request \<Rightarrow> (client_conn \<times> frame_header) result option \<times> client_world \<Rightarrow> client_world" where
  "after_hello i r res = (case res of
     (None, w) \<Rightarrow> w
   | (Some (Inl e), w) \<Rightarrow> raw_close i w
   | (Some (Inr (conn, accept)), w) \<Rightarrow>
       snd (commitActivation \<lparr>ac_conn = conn, ac_accept = accept, ac_path = sq_path r, ac_resume = sq_resume r\<rparr> w))"

lemma runs_close_raw: "client_runs [CloseRaw i] w (raw_close i w)"
  by (rule client_last) simp

lemma runs_read_hello: "client_runs [ReadHello i r inputs] w (after_hello i r (hello_loop i (sq_path r) inputs w))"
proof (induction inputs arbitrary: w)
  case Nil
  show ?case by (rule client_last) (simp add: read_hello_def after_hello_def)
next
  case (Cons x xs)
  have close: "client_runs [ReadHello i r (x # xs)] w (raw_close i v)" if "read_hello i r (x # xs) w = ([CloseRaw i], True, v)" for v
    by (rule client_via [of _ _ "[CloseRaw i]" v]) (use that in \<open>simp_all add: runs_close_raw\<close>)
  show ?case
  proof (cases "hi_read x")
    case (Inl e)
    then show ?thesis using close [of w] by (simp add: read_hello_def after_hello_def)
  next
    case (Inr fr)
    obtain f p where fr: "fr = (f, p)" by (cases fr)
    consider "h_type f = ''accept''" "hi_ctx x = None \<and> hi_stopped x \<and> hi_clear x = None"
      | "h_type f = ''accept''" "\<not> (hi_ctx x = None \<and> hi_stopped x \<and> hi_clear x = None)"
      | "h_type f = ''ping''" | "h_type f \<noteq> ''accept''" "h_type f \<noteq> ''ping''" by blast
    then show ?thesis
    proof cases
      case 1
      let ?c = "\<lparr>ac_conn = \<lparr>cc_ws = i, cc_path = sq_path r, cc_epoch = h_epoch f\<rparr>, ac_accept = f, ac_path = sq_path r, ac_resume = sq_resume r\<rparr>"
      have "client_runs [ReadHello i r (x # xs)] w (snd (commitActivation ?c w))"
        by (rule client_via [of _ _ "[Commit ?c]" w]) (use 1 Inr fr in \<open>simp_all add: read_hello_def runs_commit\<close>)
      with 1 Inr fr show ?thesis by (simp add: after_hello_def)
    next
      case 2
      with Inr fr show ?thesis using close [of w] by (auto simp: read_hello_def after_hello_def split: option.split)
    next
      case 3
      obtain e w1 where s: "raw_send i (client_pong_header f) [] w = (e, w1)" by fastforce
      show ?thesis
      proof (cases e)
        case None
        have "client_runs [ReadHello i r (x # xs)] w (after_hello i r (hello_loop i (sq_path r) xs w1))"
          by (rule client_via [of _ _ "[ReadHello i r xs]" w1]) (use 3 Inr fr s None Cons in \<open>simp_all add: read_hello_def raw_then_def\<close>)
        with 3 Inr fr s None show ?thesis by simp
      next
        case (Some d)
        with 3 Inr fr s show ?thesis using close [of w1] by (simp add: read_hello_def raw_then_def after_hello_def)
      qed
    next
      case 4
      with Inr fr show ?thesis using close [of w] by (simp add: read_hello_def after_hello_def)
    qed
  qed
qed

lemma runs_hello:
  "client_runs [SayHello i r ctx inputs] w (snd (start_and_commit i (sq_path r) (sq_resume r) r
     \<lparr>sr_ctx = ctx, sr_write_ctx = ctx', sr_inputs = inputs, sr_took = took\<rparr> w))"
proof -
  obtain e w1 where s: "raw_send i (hello_header r) [] w = (e, w1)" by fastforce
  obtain y w2 where l: "hello_loop i (sq_path r) inputs w1 = (y, w2)" by fastforce
  have spec: "snd (start_and_commit i (sq_path r) (sq_resume r) r \<lparr>sr_ctx = ctx, sr_write_ctx = ctx', sr_inputs = inputs, sr_took = took\<rparr> w)
      = (case ctx of Some d \<Rightarrow> raw_close i w | None \<Rightarrow> case e of Some d \<Rightarrow> raw_close i w1 | None \<Rightarrow> after_hello i r (y, w2))"
    using s l by (simp add: start_and_commit_def startSession_def after_hello_def split: option.split sum.split prod.split)
  show ?thesis
  proof (cases "ctx = None \<and> e = None")
    case True
    then show ?thesis unfolding spec
      by - (rule client_via [of _ _ "[ReadHello i r inputs]" w1]; use s l runs_read_hello [of i r inputs w1] in \<open>simp add: raw_then_def\<close>)
  next
    case False
    let ?v = "if ctx = None then w1 else w"
    have "client_exec (SayHello i r ctx inputs) w = ([CloseRaw i], True, ?v)"
      using False s by (auto simp: raw_then_def split: option.split)
    from client_via [OF this runs_close_raw] False show ?thesis unfolding spec by (auto split: option.split)
  qed
qed


section \<open>What every stretch keeps\<close>

text \<open>Bytes that were written to standard output and not counted yet.\<close>

fun unread :: "client_act \<Rightarrow> nat" where
  "unread (CountStdout conn n err) = n"
| "unread _ = 0"

definition runtime_life :: "client_runtime \<Rightarrow> bool" where
  "runtime_life rt \<longleftrightarrow> (rt_done rt \<longrightarrow> rt_finished rt) \<and> (if rt_finished rt then rt_active rt = None else rt_doneErr rt = None)"

text \<open>The invariant of the world, with \<open>k\<close> bytes written and not counted.\<close>

definition client_ok :: "nat \<Rightarrow> client_world \<Rightarrow> bool" where
  "client_ok k w \<longleftrightarrow> (let rt = cl_rt w in
     sender_ok (rt_c2sNext rt) (rt_c2sAck rt) (rt_c2sBufFrom rt) (rt_c2sBuf rt) (cl_stdin w)
     \<and> unat (rt_s2cRx rt) + k = length (stdout_written w) \<and> length (stdout_written w) < stream_limit
     \<and> (rt_c2sFin rt \<longrightarrow> rt_c2sFinAt rt = rt_c2sNext rt) \<and> runtime_life rt \<and> client_stdin_ok (cl_cfg w) rt \<and> client_frames w)"

abbreviation frame_true :: "client_world \<Rightarrow> frame \<Rightarrow> bool" where
  "frame_true w \<equiv> client_frame_ok (cl_stdin w) (stdout_written w) (rt_c2sFin (cl_rt w)) (rt_c2sAck (cl_rt w))"

text \<open>What a goroutine relies on when it plans a stretch; it stays true. The plans of \<open>stdinLoop\<close> are its own.\<close>

fun client_act_ok :: "client_world \<Rightarrow> client_act \<Rightarrow> bool" where
  "client_act_ok w (Transmit conn h p oe) = frame_true w (h, p)"
| "client_act_ok w (SayHello i r ctx inputs) = request_taken r (cl_rt w)"
| "client_act_ok w CloseDone = rt_finished (cl_rt w)"
| "client_act_ok w _ = True"

fun stdin_act :: "client_act \<Rightarrow> bool" where
  "stdin_act (StdinAppend conn bs err) = True"
| "stdin_act MarkFin = True"
| "stdin_act (SendFin conn) = True"
| "stdin_act StopStdin = True"
| "stdin_act _ = False"

fun stdin_ready :: "client_world \<Rightarrow> client_act \<Rightarrow> bool" where
  "stdin_ready w (StdinAppend conn bs err) = (rt_stdin (cl_rt w) = StdinReading conn \<and> length bs \<le> dataChunkBytes)"
| "stdin_ready w MarkFin = (rt_stdin (cl_rt w) = StdinActive)"
| "stdin_ready w (SendFin conn) = (rt_stdin (cl_rt w) = StdinFin)"
| "stdin_ready w _ = True"

definition client_later :: "client_world \<Rightarrow> client_world \<Rightarrow> bool" where
  "client_later w w' \<longleftrightarrow> prefix (cl_stdin w) (cl_stdin w') \<and> prefix (stdout_written w) (stdout_written w')
     \<and> (rt_c2sFin (cl_rt w) \<longrightarrow> rt_c2sFin (cl_rt w') \<and> cl_stdin w' = cl_stdin w)
     \<and> rt_c2sAck (cl_rt w) \<le> rt_c2sAck (cl_rt w') \<and> rt_s2cRx (cl_rt w) \<le> rt_s2cRx (cl_rt w')
     \<and> (rt_finished (cl_rt w) \<longrightarrow> rt_finished (cl_rt w'))"

definition stdin_keeps :: "client_world \<Rightarrow> client_world \<Rightarrow> bool" where
  "stdin_keeps w w' \<longleftrightarrow> rt_stdin (cl_rt w') = rt_stdin (cl_rt w) \<or> rt_stdin (cl_rt w') = wake (rt_stdin (cl_rt w))"

lemma client_later_refl [simp]: "client_later w w"
  by (simp add: client_later_def)

lemma stdin_keeps_refl [simp]: "stdin_keeps w w"
  by (simp add: stdin_keeps_def)

lemma client_act_later: "client_act_ok w a \<Longrightarrow> client_later w w' \<Longrightarrow> client_act_ok w' a"
  by (cases "(w, a)" rule: client_act_ok.cases)
     (auto simp: client_later_def request_taken_def intro: client_frame_grows order_trans)

lemma stdin_ready_keeps: "stdin_ready w a \<Longrightarrow> stdin_act a \<Longrightarrow> stdin_keeps w w' \<Longrightarrow> stdin_ready w' a"
  by (cases a) (auto simp: stdin_keeps_def)

lemma client_frames_later: "client_frames w \<Longrightarrow> client_later w w' \<Longrightarrow> (\<And>i. ws_out (cl_ws w' i) = ws_out (cl_ws w i)) \<Longrightarrow> client_frames w'"
  unfolding client_frames_def client_later_def by (metis client_frame_grows)

text \<open>Updates that leave the data, or only send.\<close>

lemma client_ok_update:
  assumes ok: "client_ok k w" and later: "client_later w w'" and out: "\<And>i. ws_out (cl_ws w' i) = ws_out (cl_ws w i)"
    and "sender_ok (rt_c2sNext (cl_rt w')) (rt_c2sAck (cl_rt w')) (rt_c2sBufFrom (cl_rt w')) (rt_c2sBuf (cl_rt w')) (cl_stdin w')"
    and "unat (rt_s2cRx (cl_rt w')) + k' = length (stdout_written w')" and "length (stdout_written w') < stream_limit"
    and "rt_c2sFin (cl_rt w') \<longrightarrow> rt_c2sFinAt (cl_rt w') = rt_c2sNext (cl_rt w')" and "runtime_life (cl_rt w')"
    and "client_stdin_ok (cl_cfg w') (cl_rt w')"
  shows "client_ok k' w'"
  using assms client_frames_later [OF _ later out] by (simp add: client_ok_def Let_def)

lemma client_ok_control:
  assumes ok: "client_ok k w" and same: "same_data w w'" and life: "runtime_life (cl_rt w')" and st: "client_stdin_ok (cl_cfg w') (cl_rt w')"
    and fin: "rt_finished (cl_rt w) \<longrightarrow> rt_finished (cl_rt w')"
  shows "client_ok k w'" "client_later w w'"
proof -
  show later: "client_later w w'" using same fin by (simp add: client_later_def same_data_def data_fields_eq)
  show "client_ok k w'"
    using ok same life st
    by (intro client_ok_update [OF ok later]) (simp_all add: client_ok_def Let_def same_data_def data_fields_eq)
qed

lemma client_ok_send:
  assumes "client_ok k w" and "frame_true w (h, p)"
  shows "client_ok k (snd (client_send conn h p w))"
proof -
  have "frame_true w (client_fill (cc_epoch conn) h, p)" using assms(2) by (simp add: client_frame_ok_def)
  with assms(1) show ?thesis by (auto simp: client_ok_def Let_def client_frames_def client_send_out)
qed

definition client_stretch :: "nat \<Rightarrow> client_act \<Rightarrow> client_world \<Rightarrow> client_act list \<times> bool \<times> client_world \<Rightarrow> bool" where
  "client_stretch k a w r \<longleftrightarrow> (case r of (new, keep, w') \<Rightarrow>
     stretch_ok unread client_ok client_act_ok stdin_act stdin_ready client_later stdin_keeps k a w new w')"

abbreviation plain :: "client_world \<Rightarrow> client_act \<Rightarrow> bool" where
  "plain w b \<equiv> client_act_ok w b \<and> \<not> stdin_act b \<and> unread b = 0"

lemma plain_list: "\<forall>b \<in> set new. plain w b \<Longrightarrow> weights unread new = 0 \<and> weights unread (tl new) = 0 \<and> filter stdin_act new = []"
  by (cases new) (auto simp: filter_empty_conv)

lemma stretch_plain:
  assumes "client_ok k w'" and "client_later w w'" and "\<forall>b \<in> set new. plain w' b" and "stdin_act a \<or> stdin_keeps w w'"
  shows "client_stretch k a w (new, keep, w')"
  using assms plain_list [OF assms(3)] by (auto simp: client_stretch_def stretch_ok_def simp del: sum_list_eq_0_iff)

lemma stretch_same: "client_ok k w \<Longrightarrow> \<forall>b \<in> set new. plain w b \<Longrightarrow> client_stretch k a w (new, keep, w)"
  by (rule stretch_plain) simp_all

lemma plain_refuse [simp]: "b \<in> set (refuse_acts conn e) \<Longrightarrow> plain w b"
  by (auto simp: refuse_acts_def)

lemma client_ok_rx: "client_ok k w \<Longrightarrow> unat (rt_s2cRx (cl_rt w)) \<le> length (stdout_written w)"
  by (simp add: client_ok_def Let_def)

lemma client_ok_sender: "client_ok k w \<Longrightarrow>
    sender_ok (rt_c2sNext (cl_rt w)) (rt_c2sAck (cl_rt w)) (rt_c2sBufFrom (cl_rt w)) (rt_c2sBuf (cl_rt w)) (cl_stdin w)"
  by (simp add: client_ok_def Let_def)

lemma client_ok_phase: "client_ok k w \<Longrightarrow>
    stdin_phase_ok (rc_buffer (cfg_resume (cl_cfg w))) (length (rt_c2sBuf (cl_rt w))) (rt_c2sFin (cl_rt w)) (rt_stdin (cl_rt w))"
  by (simp add: client_ok_def Let_def client_stdin_ok_def)

subsection \<open>Frames from the server\<close>

lemma receive_stretch: "client_ok k w \<Longrightarrow> client_stretch k (Receive conn f p) w (client_exec (Receive conn f p) w)"
  by (auto intro!: stretch_same)

lemma check_data_stretch: "client_ok k w \<Longrightarrow> client_stretch k (CheckServerData conn f p) w (client_exec (CheckServerData conn f p) w)"
  using client_ok_rx [of k w] by (auto simp: Let_def intro!: stretch_same)

lemma check_fin_stretch: "client_ok k w \<Longrightarrow> client_stretch k (CheckServerFin conn f) w (client_exec (CheckServerFin conn f) w)"
  using client_ok_rx [of k w] by (auto simp: Let_def intro!: stretch_same)

lemma write_stretch:
  assumes ok: "client_ok k w" and fit: "length (stdout_written (snd (snd (client_exec (WriteStdout conn p) w)))) < stream_limit"
  shows "client_stretch k (WriteStdout conn p) w (client_exec (WriteStdout conn p) w)"
proof -
  obtain n err sk where wr: "writeAll sink_write (cl_stdout w) p = (n, err, sk)" using prod_cases3 by blast
  from sink_writer.writeAll_log [OF wr] have sk: "sk_written sk = stdout_written w @ take n p" "n \<le> length p" by auto
  have e: "client_exec (WriteStdout conn p) w = ([CountStdout conn n err], True, w\<lparr>cl_stdout := sk\<rparr>)" by (simp add: wr)
  have l: "client_later w (w\<lparr>cl_stdout := sk\<rparr>)" using sk by (simp add: client_later_def)
  have "client_ok (n + k) (w\<lparr>cl_stdout := sk\<rparr>)"
    using ok fit sk unfolding e by (intro client_ok_update [OF ok l]) (auto simp: client_ok_def Let_def)
  with l show ?thesis unfolding e by (simp add: client_stretch_def stretch_ok_def stdin_keeps_def)
qed

lemma count_stretch:
  assumes ok: "client_ok (n + k) w"
  shows "client_stretch k (CountStdout conn n err) w (client_exec (CountStdout conn n err) w)"
proof -
  let ?w = "w\<lparr>cl_rt := (cl_rt w)\<lparr>rt_s2cRx := rt_s2cRx (cl_rt w) + of_nat n\<rparr>\<rparr>"
  have rx: "unat (rt_s2cRx (cl_rt w) + of_nat n) = unat (rt_s2cRx (cl_rt w)) + n"
    using ok by (intro u64_add_nat) (simp add: client_ok_def Let_def)
  then have l: "client_later w ?w" by (simp add: client_later_def word_le_nat_alt)
  have "client_ok k ?w"
    using ok rx by (intro client_ok_update [OF ok l]) (auto simp: client_ok_def Let_def runtime_life_def client_stdin_ok_def)
  with l client_ok_rx [OF this] show ?thesis
    by (auto simp: Let_def stdin_keeps_def intro!: stretch_plain split: option.split)
qed

lemma broadcast_ok:
  assumes ok: "client_ok k w"
  shows "client_ok k (upd_rt rt_broadcast w)" "client_later w (upd_rt rt_broadcast w)"
  by (rule client_ok_control [OF ok]; use ok in \<open>simp add: same_data_def client_ok_def Let_def runtime_life_def client_stdin_ok_def\<close>)+

lemma advance_ok:
  assumes ok: "client_ok k w" and adv: "advanceC2SAckLocked off (cl_rt w) = Inr rt"
  shows "client_ok k (w\<lparr>cl_rt := rt\<rparr>)" "client_later w (w\<lparr>cl_rt := rt\<rparr>)"
proof -
  note so = client_ok_sender [OF ok]
  show l: "client_later w (w\<lparr>cl_rt := rt\<rparr>)"
    using c2s.advance_refines(2) [OF so adv] advance_rt [OF adv] by (simp add: client_later_def word_le_nat_alt)
  show "client_ok k (w\<lparr>cl_rt := rt\<rparr>)"
    using ok c2s.advance_refines(1) [OF so adv] advance_rt [OF adv]
      stdin_phase_smaller [OF client_ok_phase [OF ok] advance_rt(12) [OF adv]]
    by (intro client_ok_update [OF ok l]) (auto simp: client_ok_def Let_def runtime_life_def client_stdin_ok_def)
qed

lemma ack_stretch:
  assumes ok: "client_ok k w"
  shows "client_stretch k (AckFromServer off) w (client_exec (AckFromServer off) w)"
proof (cases "advanceC2SAckLocked off (cl_rt w)")
  case (Inl e)
  with broadcast_ok [OF ok] show ?thesis by (auto intro!: stretch_plain simp: stdin_keeps_def)
next
  case (Inr rt)
  have "client_ok k (w\<lparr>cl_rt := rt_broadcast rt\<rparr>)" "client_later w (w\<lparr>cl_rt := rt_broadcast rt\<rparr>)"
    using broadcast_ok [OF advance_ok(1) [OF ok Inr]] advance_ok(2) [OF ok Inr] by (simp_all add: client_later_def)
  with Inr advance_rt(8) [OF Inr] show ?thesis by (auto intro!: stretch_plain simp: stdin_keeps_def)
qed

subsection \<open>Connections and the end\<close>

text \<open>What changes neither the runtime nor the frames sent.\<close>

lemma stretch_control:
  assumes ok: "client_ok k w" and same: "same_data w w'" and "runtime_life (cl_rt w')" and "client_stdin_ok (cl_cfg w') (cl_rt w')"
    and "rt_finished (cl_rt w) \<longrightarrow> rt_finished (cl_rt w')" and "\<forall>b \<in> set new. plain w' b" and "stdin_act a \<or> stdin_keeps w w'"
  shows "client_stretch k a w (new, keep, w')"
  using assms client_ok_control [OF assms(1-5)] by (intro stretch_plain)

lemma client_ok_control_fields: "client_ok k w \<Longrightarrow> runtime_life (cl_rt w) \<and> client_stdin_ok (cl_cfg w) (cl_rt w)"
  by (simp add: client_ok_def Let_def)

lemma simple_stretches:
  assumes ok: "client_ok k w"
  shows "client_stretch k CloseStdout w (client_exec CloseStdout w)"
    "client_stretch k (ResolvePong conn nonce) w (client_exec (ResolvePong conn nonce) w)"
    "client_stretch k (SavePath name) w (client_exec (SavePath name) w)"
    "client_stretch k (CloseConn conn) w (client_exec (CloseConn conn) w)"
    "client_stretch k SignalReconnect w (client_exec SignalReconnect w)"
    "client_stretch k (DropActive conn) w (client_exec (DropActive conn) w)"
    "client_stretch k (Finish err) w (client_exec (Finish err) w)"
    "rt_finished (cl_rt w) \<Longrightarrow> client_stretch k CloseDone w (client_exec CloseDone w)"
  using client_ok_control_fields [OF ok]
  by (simp_all, auto intro!: stretch_control [OF ok] stretch_same [OF ok] split: option.split
      simp: same_data_def data_fields_eq close_stdout_def runtime_life_def client_stdin_ok_def stdin_keeps_def finish_mark_def)

lemma transmit_stretch:
  assumes ok: "client_ok k w" and h: "frame_true w (h, p)"
  shows "client_stretch k (Transmit conn h p oe) w (client_exec (Transmit conn h p oe) w)"
proof -
  obtain e w' where s: "client_send conn h p w = (e, w')" by fastforce
  note eq = client_send_eq [OF s]
  have "client_ok k w'" using client_ok_send [OF ok h, of conn] s by simp
  moreover have "client_later w w'" "stdin_keeps w w'" using eq by (simp_all add: client_later_def stdin_keeps_def)
  ultimately show ?thesis using s by (cases e; cases oe) (auto intro!: stretch_plain)
qed

subsection \<open>Activation\<close>

lemma client_ok_ws:
  assumes "client_ok k w" and "client_frames (w\<lparr>cl_ws := ws\<rparr>)"
  shows "client_ok k (w\<lparr>cl_ws := ws\<rparr>)"
  using assms by (simp add: client_ok_def Let_def)

lemma client_ok_raw_send:
  assumes "client_ok k w" and "frame_true w (h, p)"
  shows "client_ok k (snd (raw_send i h p w))"
proof -
  obtain e s where s: "ws_send h p (cl_ws w i) = (e, s)" by fastforce
  with assms ws_send_out [of h p "cl_ws w i"] show ?thesis
    by (auto simp: raw_send_def client_ok_def Let_def client_frames_def)
qed

lemma raw_then_frame:
  assumes "raw_then i h todo w = (new, keep, w')"
  shows "cl_rt w' = cl_rt w" "cl_stdin w' = cl_stdin w" "cl_stdout w' = cl_stdout w" "new = todo \<or> new = [CloseRaw i]"
proof -
  obtain e w1 where s: "raw_send i h [] w = (e, w1)" by fastforce
  have "cl_rt w1 = cl_rt w" "cl_stdin w1 = cl_stdin w" "cl_stdout w1 = cl_stdout w" using raw_send_frame [of i h "[]" w] s by simp_all
  with assms s show "cl_rt w' = cl_rt w" "cl_stdin w' = cl_stdin w" "cl_stdout w' = cl_stdout w" "new = todo \<or> new = [CloseRaw i]"
    by (auto simp: raw_then_def split: option.splits)
qed

lemma raw_close_rest [simp]: "cl_rt (raw_close i w) = cl_rt w" "cl_stdin (raw_close i w) = cl_stdin w" "cl_stdout (raw_close i w) = cl_stdout w"
  by (simp_all add: raw_close_def)

text \<open>The plans of an activation.\<close>

fun activation_act :: "client_act \<Rightarrow> bool" where
  "activation_act (ReadHello i r xs) = True"
| "activation_act (CloseRaw i) = True"
| "activation_act (Commit c) = True"
| "activation_act _ = False"

lemma read_hello_frame:
  assumes "read_hello i r inputs w = (new, keep, w')"
  shows "cl_rt w' = cl_rt w" "cl_stdin w' = cl_stdin w" "cl_stdout w' = cl_stdout w" "b \<in> set new \<Longrightarrow> activation_act b"
  using assms by (auto simp: read_hello_def dest: raw_then_frame split: list.splits sum.splits prod.splits if_splits)

lemma say_hello_frame:
  assumes "client_exec (SayHello i r ctx inputs) w = (new, keep, w')"
  shows "cl_rt w' = cl_rt w" "cl_stdin w' = cl_stdin w" "cl_stdout w' = cl_stdout w" "b \<in> set new \<Longrightarrow> activation_act b"
  using assms by (auto dest: raw_then_frame split: option.splits)

lemma activation_plain: "activation_act b \<Longrightarrow> plain w b"
  by (cases b) simp_all

lemma raw_then_ok: "client_ok k w \<Longrightarrow> frame_true w (h, []) \<Longrightarrow> raw_then i h todo w = (new, keep, w') \<Longrightarrow> client_ok k w'"
  using client_ok_raw_send [of k w h "[]" i] by (auto simp: raw_then_def split: prod.splits option.splits)

lemma activation_stretches:
  assumes ok: "client_ok k w"
  shows "request_taken r (cl_rt w) \<Longrightarrow> client_stretch k (SayHello i r ctx inputs) w (client_exec (SayHello i r ctx inputs) w)"
    "client_stretch k (ReadHello i r inputs) w (client_exec (ReadHello i r inputs) w)"
    "client_stretch k (CloseRaw i) w (client_exec (CloseRaw i) w)"
proof -
  have same: "client_stretch k a w (new, keep, w')" if "client_ok k w'" "cl_rt w' = cl_rt w" "cl_stdin w' = cl_stdin w" "cl_stdout w' = cl_stdout w"
      "\<forall>b \<in> set new. activation_act b" for a new keep w'
    using that activation_plain by (intro stretch_plain) (auto simp: client_later_def stdin_keeps_def)
  show "client_stretch k (SayHello i r ctx inputs) w (client_exec (SayHello i r ctx inputs) w)" if taken: "request_taken r (cl_rt w)"
  proof -
    have h: "frame_true w (hello_header r, [])"
      using client_ok_rx [OF ok] taken by (simp add: client_frame_ok_def hello_header_def request_taken_def word_le_nat_alt)
    obtain new keep w' where e: "client_exec (SayHello i r ctx inputs) w = (new, keep, w')" using prod_cases3 by blast
    then have "client_ok k w'" using ok raw_then_ok [OF ok h] by (auto split: option.splits)
    with say_hello_frame [OF e] show ?thesis unfolding e by (intro same) auto
  qed
  show "client_stretch k (ReadHello i r inputs) w (client_exec (ReadHello i r inputs) w)"
  proof -
    obtain new keep w' where e: "read_hello i r inputs w = (new, keep, w')" using prod_cases3 by blast
    have "client_ok k v" if "raw_then i (client_pong_header f) todo w = (new, keep, v)" for f todo v
      by (rule raw_then_ok [OF ok _ that]) simp
    with e have "client_ok k w'" using ok
      by (auto simp: read_hello_def split: list.splits sum.splits prod.splits if_splits)
    with read_hello_frame [OF e] show ?thesis unfolding client_exec.simps e by (intro same) auto
  qed
  have "client_ok k (raw_close i w)"
    using ok by (auto simp: raw_close_def client_ok_def Let_def client_frames_def)
  then show "client_stretch k (CloseRaw i) w (client_exec (CloseRaw i) w)"
    unfolding client_exec.simps by (intro same) (simp_all add: raw_close_def)
qed

lemma replay_bytes_ok:
  assumes ok: "client_ok k w" and b: "b \<in> set (replay_bytes_acts conn (cl_rt w))"
  shows "plain w b"
proof -
  note so = client_ok_sender [OF ok]
  from b consider off p where "(off, p) \<in> set (chunks (rt_c2sBufFrom (cl_rt w)) (rt_c2sBuf (cl_rt w)))"
        "b = Transmit conn (c2s_data_header (rt_sessionID (cl_rt w)) off) p DropQuit"
    | "rt_c2sFin (cl_rt w)" "b = Transmit conn (c2s_fin_header (rt_sessionID (cl_rt w)) (rt_c2sFinAt (cl_rt w))) [] DropQuit"
    by (auto simp: replay_bytes_acts_def split: if_splits)
  then show ?thesis
  proof cases
    case 1
    with sender_ok_chunks(1) [OF so] show ?thesis by simp
  next
    case 2
    with ok so show ?thesis by (simp add: client_ok_def Let_def sender_ok_def)
  qed
qed

lemma replay_stretch: "client_ok k w \<Longrightarrow> client_stretch k (ReplayBytes conn) w (client_exec (ReplayBytes conn) w)"
  by (auto intro!: stretch_same dest: replay_bytes_ok)

lemma commit_stretch:
  assumes ok: "client_ok k w"
  shows "client_stretch k (Commit c) w (client_exec (Commit c) w)"
proof (cases "\<exists>rt1. \<not> rt_finished (cl_rt w) \<and> snd (commit_acts c w) = w\<lparr>cl_rt := commit_state c (cl_now w) rt1\<rparr>
    \<and> advanceC2SAckLocked (h_c2s_rx (ac_accept c)) (cl_rt w) = Inr rt1")
  case True
  then obtain rt1 where nf: "\<not> rt_finished (cl_rt w)" and w': "snd (commit_acts c w) = w\<lparr>cl_rt := commit_state c (cl_now w) rt1\<rparr>"
    and adv: "advanceC2SAckLocked (h_c2s_rx (ac_accept c)) (cl_rt w) = Inr rt1" by blast
  note a = advance_ok [OF ok adv]
  let ?w = "w\<lparr>cl_rt := commit_state c (cl_now w) rt1\<rparr>"
  have same: "same_data (w\<lparr>cl_rt := rt1\<rparr>) ?w" by (simp add: same_data_def)
  have "client_ok k ?w" "client_later (w\<lparr>cl_rt := rt1\<rparr>) ?w"
    using nf advance_rt [OF adv] client_ok_control_fields [OF a(1)]
    by (intro client_ok_control [OF a(1) same]; simp add: runtime_life_def client_stdin_ok_def)+
  moreover have "client_later w ?w"
    using a(2) nf by (simp add: client_later_def data_fields_eq)
  moreover have "\<forall>b \<in> set (fst (commit_acts c w)). plain ?w b"
    by (auto simp: Let_def split: sum.split option.split)
  moreover have "stdin_keeps w ?w" using advance_rt(8) [OF adv] by (simp add: stdin_keeps_def)
  ultimately show ?thesis using w' by (cases "commit_acts c w") (auto intro!: stretch_plain simp del: commit_acts_def)
next
  case False
  then have "commit_acts c w = ([CloseConn (ac_conn c)], w)"
    by (cases "advanceC2SAckLocked (h_c2s_rx (ac_accept c)) (cl_rt w)") (auto simp: Let_def split: if_splits)
  with ok show ?thesis by (auto intro!: stretch_same simp del: commit_acts_def)
qed

subsection \<open>Standard input\<close>

lemma append_stretch:
  assumes ok: "client_ok k w" and r: "stdin_ready w (StdinAppend conn bs err)"
    and fit: "length (cl_stdin w) + length bs < stream_limit"
  shows "client_stretch k (StdinAppend conn bs err) w (client_exec (StdinAppend conn bs err) w)"
proof -
  let ?w0 = "set_stdin StdinActive w"
  let ?after = "case err of None \<Rightarrow> [] | Some e \<Rightarrow> if errors_is e EOF then [MarkFin] else [StopStdin, Finish (Some e)]"
  from client_ok_phase [OF ok] r have nofin: "\<not> rt_c2sFin (cl_rt w)"
    and room: "int (length (rt_c2sBuf (cl_rt w))) < rc_buffer (cfg_resume (cl_cfg w))" and len: "length bs \<le> dataChunkBytes" by simp_all
  note fields = client_ok_control_fields [OF ok]
  have same: "same_data w ?w0" by (simp add: same_data_def data_fields_eq)
  have i0: "client_ok k ?w0" "client_later w ?w0"
    using nofin fields by (intro client_ok_control [OF ok same]; simp add: runtime_life_def client_stdin_ok_def)+
  have after: "\<forall>b \<in> set ?after. client_act_ok v b \<and> unread b = 0 \<and> (rt_stdin (cl_rt v) = StdinActive \<longrightarrow> stdin_ready v b)"
    for v by (auto split: option.split)
  have own: "length (filter stdin_act ?after) \<le> 1" by (auto split: option.split)
  have w: "weights unread ?after = 0" "weights unread (tl ?after) = 0" by (auto split: option.split)
  show ?thesis
  proof (cases "bs = []")
    case True
    then have e: "client_exec (StdinAppend conn bs err) w = (?after, True, ?w0)" by (simp add: Let_def)
    show ?thesis unfolding e using i0 after [of ?w0] own w by (simp add: client_stretch_def stretch_ok_def del: sum_list_eq_0_iff)
  next
    case False
    let ?w1 = "?w0\<lparr>cl_stdin := cl_stdin w @ bs, cl_rt := append_c2s bs (cl_rt ?w0)\<rparr>"
    let ?h = "c2s_data_header (rt_sessionID (cl_rt w)) (rt_c2sNext (cl_rt w))"
    have e: "client_exec (StdinAppend conn bs err) w = (Transmit conn ?h bs DropGoOn # ?after, True, ?w1)"
      using False by (simp add: Let_def appendClientBytes_def)
    have l: "client_later ?w0 ?w1" using nofin by (simp add: client_later_def)
    have fit0: "length (cl_stdin ?w0) + length bs < stream_limit" using fit by simp
    have i1: "client_ok k ?w1"
      using i0(1) nofin room len c2s.append_sender_ok [OF client_ok_sender [OF i0(1)] fit0]
      by (intro client_ok_update [OF i0(1) l]) (auto simp: client_ok_def Let_def runtime_life_def client_stdin_ok_def)
    have "frame_true ?w1 (?h, bs)" using client_ok_sender [OF ok] by (simp add: sender_ok_def slice_at_end)
    moreover have "client_later w ?w1" using l by (simp add: client_later_def)
    ultimately show ?thesis
      unfolding e using i1 after [of ?w1] own w by (simp add: client_stretch_def stretch_ok_def del: sum_list_eq_0_iff)
  qed
qed

lemma mark_fin_stretch:
  assumes ok: "client_ok k w" and r: "stdin_ready w MarkFin"
  shows "client_stretch k MarkFin w (client_exec MarkFin w)"
proof -
  let ?w = "set_stdin StdinFin (markClientFin w)"
  have "\<not> rt_c2sFin (cl_rt w)" using client_ok_phase [OF ok] r by simp
  then have l: "client_later w ?w" by (simp add: client_later_def markClientFin_def)
  have "client_ok k ?w"
    using ok by (intro client_ok_update [OF ok l]) (auto simp: client_ok_def Let_def runtime_life_def client_stdin_ok_def markClientFin_def)
  with l show ?thesis by (auto intro!: stretch_plain)
qed

lemma stop_stretch:
  assumes ok: "client_ok k w"
  shows "client_stretch k StopStdin w (client_exec StopStdin w)"
  using client_ok_control_fields [OF ok]
  by (auto intro!: stretch_control [OF ok] simp: same_data_def data_fields_eq runtime_life_def client_stdin_ok_def)

lemma send_fin_stretch:
  assumes ok: "client_ok k w" and r: "stdin_ready w (SendFin conn)"
  shows "client_stretch k (SendFin conn) w (client_exec (SendFin conn) w)"
  using ok client_ok_phase [OF ok] r
  by (auto simp: client_stretch_def stretch_ok_def client_ok_def Let_def sender_ok_def)

definition client_fits :: "client_world \<Rightarrow> bool" where
  "client_fits w \<longleftrightarrow> length (stdout_written w) < stream_limit \<and> length (cl_stdin w) < stream_limit"

lemma client_exec_keeps:
  assumes ok: "client_ok (unread a + k) w" and a: "client_act_ok w a" "stdin_act a \<longrightarrow> stdin_ready w a"
    and r: "client_exec a w = r" and fit: "client_fits (snd (snd r))"
  shows "client_stretch k a w r"
proof (cases a)
  case (StdinAppend conn bs err)
  have "length (cl_stdin w) + length bs < stream_limit"
    using fit r StdinAppend by (auto simp: Let_def appendClientBytes_def client_fits_def split: if_splits)
  with ok a r StdinAppend show ?thesis using append_stretch [of k w conn bs err] by (auto simp del: client_exec.simps)
next
  case (WriteStdout conn p)
  with ok r fit show ?thesis using write_stretch [of k w conn p] by (auto simp: client_fits_def simp del: client_exec.simps)
next
  case (MarkFin)
  with ok a r show ?thesis using mark_fin_stretch [of k w] by (auto simp del: client_exec.simps)
next
  case (SendFin conn)
  with ok a r show ?thesis using send_fin_stretch [of k w conn] by (auto simp del: client_exec.simps)
qed (use ok a r in \<open>auto simp: receive_stretch check_data_stretch check_fin_stretch count_stretch ack_stretch simple_stretches
      transmit_stretch activation_stretches replay_stretch commit_stretch stop_stretch simp del: client_exec.simps\<close>)

interpretation client_pool: goroutine_pool client_exec unread client_ok client_act_ok stdin_act stdin_ready client_later stdin_keeps client_fits
proof
  fix a k new keep and w w' :: client_world
  assume "client_ok (unread a + k) w" "client_act_ok w a" "stdin_act a \<longrightarrow> stdin_ready w a"
    and e: "client_exec a w = (new, keep, w')" and "client_fits w'"
  then have "client_stretch k a w (new, keep, w')" by (intro client_exec_keeps [OF _ _ _ e]) simp_all
  then show "stretch_ok unread client_ok client_act_ok stdin_act stdin_ready client_later stdin_keeps k a w new w'"
    by (simp add: client_stretch_def)
qed (auto intro: client_act_later stdin_ready_keeps)

section \<open>A client and its goroutines\<close>

type_synonym locked_client = "(client_act, client_world) pool"

text \<open>What \<open>stdinLoop\<close> does under the lock at the head of its loop, in \<open>waitActive\<close> and \<open>waitBuffer\<close>, and \<open>sendClientFin\<close> in
  \<open>waitActive\<close>.\<close>

definition stdin_look :: "gerror option \<Rightarrow> client_world \<Rightarrow> client_act list \<times> client_world" where
  "stdin_look ctx w = (case rt_stdin (cl_rt w) of
     StdinActive \<Rightarrow> (case waitActive ctx (cl_rt w) of
         Go c \<Rightarrow> ([], set_stdin (StdinBuffer c) w)
       | GiveUp e \<Rightarrow> ([Finish (Some e)], set_stdin StdinStopped w)
       | Sleep \<Rightarrow> ([], set_stdin StdinActiveAsleep w))
   | StdinBuffer c \<Rightarrow> (case waitBuffer ctx (cl_cfg w) (cl_rt w) of
         Go _ \<Rightarrow> ([], set_stdin (StdinReading c) w)
       | GiveUp e \<Rightarrow> ([Finish (Some e)], set_stdin StdinStopped w)
       | Sleep \<Rightarrow> ([], set_stdin (StdinBufferAsleep c) w))
   | StdinFin \<Rightarrow> (case waitActive None (cl_rt w) of
         Go c \<Rightarrow> ([SendFin c], w)
       | GiveUp e \<Rightarrow> ([], set_stdin StdinStopped w)
       | Sleep \<Rightarrow> ([], set_stdin StdinFinAsleep w))
   | _ \<Rightarrow> ([], w))"

text \<open>
  Goroutine 0 is \<open>stdinLoop\<close>. Goroutine \<open>Suc i\<close> is \<open>receiveLoop\<close> of WebSocket \<open>i\<close>, and any idle one may also stand for a
  goroutine that connects, switches or sends heartbeats: it commits an activation, sends a hello with the offsets it has
  read under the lock, pings, drops a connection, or ends the proxy. Probes use sockets of their own.
\<close>

inductive client_lock_step :: "locked_client \<Rightarrow> locked_client \<Rightarrow> bool" where
  cl_run: "g < length (pl_todo l) \<Longrightarrow> pl_todo l ! g = a # todo \<Longrightarrow> client_exec a (pl_world l) = (new, keep, w') \<Longrightarrow>
    client_fits w' \<Longrightarrow> client_lock_step l (put g (new @ (if keep then todo else [])) w' l)"
| cl_receive: "idle (Suc (cc_ws conn)) l \<Longrightarrow> client_lock_step l (put (Suc (cc_ws conn)) [Receive conn f p] (pl_world l) l)"
| cl_broken: "idle (Suc (cc_ws conn)) l \<Longrightarrow> client_lock_step l (put (Suc (cc_ws conn)) [DropActive conn] (pl_world l) l)"
| cl_commit: "idle (Suc g) l \<Longrightarrow> client_lock_step l (put (Suc g) [Commit c] (pl_world l) l)"
| cl_hello: "idle (Suc g) l \<Longrightarrow> request_taken r (cl_rt (pl_world l)) \<Longrightarrow>
    client_lock_step l (put (Suc g) [SayHello i r ctx inputs] (pl_world l) l)"
| cl_ping: "idle (Suc g) l \<Longrightarrow> client_lock_step l (put (Suc g) [Transmit conn (ping_header nonce sent) [] Skip] (pl_world l) l)"
| cl_drop: "idle (Suc g) l \<Longrightarrow> client_lock_step l (put (Suc g) [DropActive conn] (pl_world l) l)"
| cl_finish: "idle (Suc g) l \<Longrightarrow> client_lock_step l (put (Suc g) [Finish err] (pl_world l) l)"
| cl_look: "idle 0 l \<Longrightarrow> stdin_look ctx (pl_world l) = (todo, w') \<Longrightarrow> client_lock_step l (put 0 todo w' l)"
| cl_read: "idle 0 l \<Longrightarrow> rt_stdin (cl_rt (pl_world l)) = StdinReading conn \<Longrightarrow> length bs \<le> dataChunkBytes \<Longrightarrow>
    client_lock_step l (put 0 [StdinAppend conn bs err] (pl_world l) l)"
| cl_probe: "client_lock_step l (l\<lparr>pl_world := snd (raw_send i (ping_header nonce sent) [] (pl_world l))\<rparr>)"
| cl_close: "client_lock_step l (l\<lparr>pl_world := raw_close i (pl_world l)\<rparr>)"
| cl_signal: "client_lock_step l (l\<lparr>pl_world := upd_rt (\<lambda>rt. rt\<lparr>rt_reconnectSignal := b\<rparr>) (pl_world l)\<rparr>)"
| cl_clock: "client_lock_step l (l\<lparr>pl_world := (pl_world l)\<lparr>cl_now := t\<rparr>\<rparr>)"
| cl_heartbeat: "client_lock_step l (l\<lparr>pl_world := (pl_world l)\<lparr>cl_hb := hb\<rparr>\<rparr>)"
| cl_socket: "client_lock_step l (l\<lparr>pl_world := (pl_world l)\<lparr>cl_ws := (cl_ws (pl_world l))(i := (cl_ws (pl_world l) i)\<lparr>ws_budget := b\<rparr>)\<rparr>\<rparr>)"
| cl_stdout: "client_lock_step l (l\<lparr>pl_world := (pl_world l)\<lparr>cl_stdout := (cl_stdout (pl_world l))\<lparr>sk_budget := b\<rparr>\<rparr>\<rparr>)"

definition start_client :: "config \<Rightarrow> path_config option \<Rightarrow> bool \<Rightarrow> nat \<Rightarrow> locked_client" where
  "start_client cfg lkg half n = \<lparr>pl_world = fresh_client cfg lkg half, pl_todo = replicate n []\<rparr>"

abbreviation client_locked_inv :: "locked_client \<Rightarrow> bool" where
  "client_locked_inv \<equiv> pool_inv unread client_ok client_act_ok stdin_act stdin_ready"

definition unread_bytes :: "locked_client \<Rightarrow> nat" where
  "unread_bytes l = weights unread (acts l)"

lemma look_ok:
  assumes ok: "client_ok k w" and s: "stdin_look ctx w = (todo, w')"
  shows "client_ok k w'" "client_later w w'" "todo_ok unread client_act_ok stdin_act stdin_ready w' True todo" "weights unread todo = 0"
proof -
  note fields = client_ok_control_fields [OF ok] and phase = client_ok_phase [OF ok]
  have room: "int (length (rt_c2sBuf (cl_rt w))) < rc_buffer (cfg_resume (cl_cfg w))" if "waitBuffer ctx (cl_cfg w) (cl_rt w) = Go u" for u
    using that by (auto simp: waitBuffer_def split: if_splits option.splits)
  have set: "same_data w v \<and> runtime_life (cl_rt v) \<and> client_stdin_ok (cl_cfg v) (cl_rt v) \<and> rt_finished (cl_rt v) = rt_finished (cl_rt w)"
    if "stdin_phase_ok (rc_buffer (cfg_resume (cl_cfg w))) (length (rt_c2sBuf (cl_rt w))) (rt_c2sFin (cl_rt w)) s" "v = set_stdin s w" for s v
    using that fields by (simp add: same_data_def data_fields_eq runtime_life_def client_stdin_ok_def)
  have same: "same_data w w' \<and> runtime_life (cl_rt w') \<and> client_stdin_ok (cl_cfg w') (cl_rt w') \<and> rt_finished (cl_rt w') = rt_finished (cl_rt w)"
    and plan: "todo = [] \<or> (\<exists>e. todo = [Finish e]) \<or> (\<exists>c. todo = [SendFin c] \<and> rt_stdin (cl_rt w') = StdinFin)"
  proof -
    show "same_data w w' \<and> runtime_life (cl_rt w') \<and> client_stdin_ok (cl_cfg w') (cl_rt w') \<and> rt_finished (cl_rt w') = rt_finished (cl_rt w)"
    proof (cases "rt_stdin (cl_rt w)")
      case StdinActive
      with s phase show ?thesis by (cases "waitActive ctx (cl_rt w)") (auto simp: stdin_look_def intro!: set)
    next
      case (StdinBuffer c)
      with s phase room show ?thesis by (cases "waitBuffer ctx (cl_cfg w) (cl_rt w)") (auto simp: stdin_look_def intro!: set)
    next
      case StdinFin
      with s phase fields show ?thesis by (cases "waitActive None (cl_rt w)") (auto simp: stdin_look_def intro!: set)
    qed (use s fields in \<open>simp_all add: stdin_look_def\<close>)
    show "todo = [] \<or> (\<exists>e. todo = [Finish e]) \<or> (\<exists>c. todo = [SendFin c] \<and> rt_stdin (cl_rt w') = StdinFin)"
      using s
      by (cases "rt_stdin (cl_rt w)"; cases "waitActive ctx (cl_rt w)"; cases "waitActive None (cl_rt w)";
          cases "waitBuffer ctx (cl_cfg w) (cl_rt w)") (auto simp: stdin_look_def)
  qed
  have "rt_finished (cl_rt w) \<longrightarrow> rt_finished (cl_rt w')" using same by blast
  with same client_ok_control [OF ok, of w'] show "client_ok k w'" "client_later w w'" by blast+
  show "todo_ok unread client_act_ok stdin_act stdin_ready w' True todo" "weights unread todo = 0"
    using plan by (auto simp: todo_ok_def)
qed

lemma client_lock_step_inv:
  assumes step: "client_lock_step l l'" and inv: "client_locked_inv l"
  shows "client_locked_inv l'"
proof -
  let ?w = "pl_world l"
  have ok: "client_ok (weights unread (acts l)) ?w" using inv by (simp add: pool_inv_def)
  note start = client_pool.inv_start [OF inv] and env = client_pool.inv_world [OF inv]
  from step show ?thesis
  proof cases
    case (cl_run g a todo new keep w')
    then show ?thesis using client_pool.inv_run [OF inv] by metis
  next
    case (cl_look ctx todo w')
    from look_ok [OF ok cl_look(3)] cl_look(1,2) show ?thesis by (simp add: start)
  next
    case (cl_probe i nonce sent)
    have "client_ok (weights unread (acts l)) (snd (raw_send i (ping_header nonce sent) [] ?w))" by (rule client_ok_raw_send [OF ok]) simp
    with cl_probe raw_send_frame [of i "ping_header nonce sent" "[]" ?w] show ?thesis
      by (auto intro!: env simp: client_later_def stdin_keeps_def)
  next
    case (cl_socket i b)
    with ok show ?thesis by (auto intro!: env simp: client_ok_def Let_def client_frames_def client_later_def stdin_keeps_def)
  next
    case (cl_signal b)
    have "client_ok (weights unread (acts l)) (upd_rt (\<lambda>rt. rt\<lparr>rt_reconnectSignal := b\<rparr>) ?w)"
      using client_ok_control_fields [OF ok]
      by (intro client_ok_control(1) [OF ok]) (simp_all add: same_data_def data_fields_eq runtime_life_def client_stdin_ok_def)
    with cl_signal show ?thesis by (auto intro!: env simp: client_later_def stdin_keeps_def)
  qed (use ok in \<open>auto intro!: start env
        simp: todo_ok_def client_ok_def Let_def client_frames_def raw_close_def client_later_def stdin_keeps_def\<close>)
qed

interpretation locked_client: step_system client_lock_step client_locked_inv
  by unfold_locales (rule client_lock_step_inv)

lemma start_client_inv:
  assumes "0 < rc_buffer (cfg_resume cfg)"
  shows "client_locked_inv (start_client cfg lkg half n)"
  using fresh_client_inv [OF assms, of lkg half]
  by (simp add: start_client_def pool_inv_def todo_ok_def client_ok_def Let_def client_inv_def client_streams_def client_life_def
      runtime_life_def) (simp add: fresh_client_def)

lemmas client_interleaved_inv = locked_client.run_inv [OF _ start_client_inv]

text \<open>
  C8. The client is correct at the grain of its locks. Whatever the order in which its goroutines take turns, its
  buffer holds exactly the input that was read and not acknowledged and stays bounded, the end of input is at the final
  offset, \<open>s2cRx\<close> and the bytes written but not counted yet make up what standard output received, and once the proxy
  has ended no connection is active.
\<close>

theorem any_interleaving_keeps_client:
  assumes "0 < rc_buffer (cfg_resume cfg)" and "client_lock_step\<^sup>*\<^sup>* (start_client cfg lkg half n) l" and "w = pl_world l"
  shows "unat (rt_c2sNext (cl_rt w)) = length (cl_stdin w) \<and> rt_c2sBufFrom (cl_rt w) = rt_c2sAck (cl_rt w)
    \<and> unat (rt_c2sAck (cl_rt w)) \<le> length (cl_stdin w)
    \<and> rt_c2sBuf (cl_rt w) = drop (unat (rt_c2sAck (cl_rt w))) (cl_stdin w)
    \<and> int (length (rt_c2sBuf (cl_rt w))) < rc_buffer (cfg_resume (cl_cfg w)) + int dataChunkBytes
    \<and> (rt_c2sFin (cl_rt w) \<longrightarrow> unat (rt_c2sFinAt (cl_rt w)) = length (cl_stdin w))
    \<and> unat (rt_s2cRx (cl_rt w)) + unread_bytes l = length (stdout_written w)
    \<and> (rt_finished (cl_rt w) \<longrightarrow> rt_active (cl_rt w) = None)"
  using client_interleaved_inv [OF assms(2,1)] assms(3)
  by (auto simp: pool_inv_def unread_bytes_def client_ok_def Let_def sender_ok_def client_stdin_ok_def runtime_life_def split: if_splits)

text \<open>
  C9. Every frame that any goroutine of the client ever sent is truthful, whatever the interleaving: data is a slice
  of standard input at its offset, no acknowledgement or hello claims more than standard output received or the server
  acknowledged, and a fin carries the final length of standard input.
\<close>

theorem any_interleaving_client_frames_truthful:
  assumes "0 < rc_buffer (cfg_resume cfg)" and "client_lock_step\<^sup>*\<^sup>* (start_client cfg lkg half n) l"
    and "(h, p) \<in> set (ws_out (cl_ws (pl_world l) k))"
  shows "(h_type h = ''data'' \<longrightarrow> slice_at (unat (h_offset h)) p (cl_stdin (pl_world l)))
    \<and> (h_type h = ''ack'' \<longrightarrow> unat (h_received_offset h) \<le> length (stdout_written (pl_world l)))
    \<and> (h_type h = ''hello'' \<longrightarrow> h_c2s_rx h \<le> rt_c2sAck (cl_rt (pl_world l)) \<and> unat (h_s2c_rx h) \<le> length (stdout_written (pl_world l)))
    \<and> (h_type h = ''fin'' \<longrightarrow> unat (h_offset h) = length (cl_stdin (pl_world l)) \<and> rt_c2sFin (cl_rt (pl_world l)))"
  using client_interleaved_inv [OF assms(2,1)] assms(3)
  by (fastforce simp: pool_inv_def client_ok_def Let_def client_frames_def client_frame_ok_def)

section \<open>Without overlapping deliveries\<close>

fun stdout_delivers :: "client_act \<Rightarrow> bool" where
  "stdout_delivers (WriteStdout conn p) = True"
| "stdout_delivers (CountStdout conn n err) = True"
| "stdout_delivers _ = False"

fun stdout_writes :: "client_act \<Rightarrow> bool" where
  "stdout_writes (WriteStdout conn p) = True"
| "stdout_writes _ = False"

definition server_honest :: "bytes \<Rightarrow> client_act \<Rightarrow> bool" where
  "server_honest src a \<longleftrightarrow> (\<forall>conn f p. a = Receive conn f p \<longrightarrow> h_type f = ''data'' \<longrightarrow> slice_at (unat (h_offset f)) p src)"

text \<open>The run is careful when at most one goroutine delivers at a time and the data frames that arrive are slices of the
  stream of the server.\<close>

definition careful_client_step :: "bytes \<Rightarrow> locked_client \<Rightarrow> locked_client \<Rightarrow> bool" where
  "careful_client_step src l l' \<longleftrightarrow> client_lock_step l l' \<and> deliveries stdout_delivers l' \<le> 1 \<and> list_all (server_honest src) (acts l')"

fun server_genuine :: "bytes \<Rightarrow> u64 \<Rightarrow> client_act \<Rightarrow> bool" where
  "server_genuine src rx (CheckServerData conn f p) = slice_at (unat (h_offset f)) p src"
| "server_genuine src rx (WriteStdout conn p) = slice_at (unat rx) p src"
| "server_genuine src rx a = server_honest src a"

abbreviation client_delivered :: "bytes \<Rightarrow> locked_client \<Rightarrow> bool" where
  "client_delivered \<equiv> delivered_ok stdout_written (\<lambda>w. rt_s2cRx (cl_rt w)) server_genuine"

definition careful_client_inv :: "bytes \<Rightarrow> locked_client \<Rightarrow> bool" where
  "careful_client_inv src l \<longleftrightarrow> client_locked_inv l \<and> deliveries stdout_delivers l \<le> 1 \<and> client_delivered src l"

lemma genuine_refuse [simp]: "b \<in> set (refuse_acts conn e) \<Longrightarrow> server_genuine src rx b"
  by (auto simp: refuse_acts_def server_honest_def)

lemma genuine_replay_bytes: "b \<in> set (replay_bytes_acts conn rt) \<Longrightarrow> server_genuine src rx b"
  by (auto simp: replay_bytes_acts_def server_honest_def split: if_splits)

lemma activation_genuine: "activation_act b \<Longrightarrow> server_genuine src rx b"
  by (cases b) (simp_all add: server_honest_def)

lemma client_exec_quiet:
  assumes e: "client_exec a w = (new, keep, w')" and a: "\<not> stdout_delivers a" "server_genuine src (rt_s2cRx (cl_rt w)) a"
  shows "rt_s2cRx (cl_rt w') = rt_s2cRx (cl_rt w) \<and> stdout_written w' = stdout_written w
    \<and> (\<forall>b \<in> set new. server_genuine src (rt_s2cRx (cl_rt w)) b)"
proof (cases a)
  case (Receive conn f p)
  with e a(2) show ?thesis by (auto simp: server_honest_def split: if_splits)
next
  case (CheckServerData conn f p)
  with e a(2) show ?thesis by (auto simp: server_honest_def Let_def not_less split: if_splits)
next
  case (AckFromServer off)
  with e show ?thesis
    by (cases "advanceC2SAckLocked off (cl_rt w)") (auto simp: server_honest_def dest: advance_rt)
next
  case (CheckServerFin conn f)
  with e show ?thesis by (auto simp: server_honest_def Let_def split: if_splits)
next
  case (StdinAppend conn bs err)
  with e show ?thesis
    by (auto simp: server_honest_def Let_def appendClientBytes_def split: if_splits option.splits)
next
  case (SayHello i r ctx inputs)
  from say_hello_frame [OF e [unfolded SayHello]] show ?thesis
    by (auto simp: server_honest_def dest!: activation_genuine)
next
  case (ReadHello i r inputs)
  from read_hello_frame [of i r inputs w new keep w'] e ReadHello show ?thesis
    by (auto dest!: activation_genuine)
next
  case (Commit c)
  show ?thesis
  proof (cases "advanceC2SAckLocked (h_c2s_rx (ac_accept c)) (cl_rt w)")
    case (Inl x)
    with e Commit show ?thesis by (auto simp: server_honest_def Let_def split: if_splits)
  next
    case (Inr rt1)
    from Inr e Commit advance_rt(3) [OF Inr] show ?thesis
      by (auto simp: server_honest_def Let_def split: if_splits option.splits)
  qed
next
  case (ReplayBytes conn)
  with e show ?thesis by (auto dest: genuine_replay_bytes)
next
  case (Transmit conn h p oe)
  obtain x v where s: "client_send conn h p w = (x, v)" by fastforce
  with client_send_eq [OF s] e Transmit show ?thesis
    by (cases x; cases oe) (auto simp: server_honest_def)
qed (use e a(1) in \<open>auto simp: server_honest_def markClientFin_def close_stdout_def finish_mark_def split: if_splits option.splits\<close>)

lemma client_exec_delivers:
  assumes e: "client_exec a w = (new, keep, w')" and a: "stdout_delivers a" "server_genuine src (rt_s2cRx (cl_rt w)) a"
    and w: "prefix (stdout_written w) src" "stdout_writes a \<Longrightarrow> unat (rt_s2cRx (cl_rt w)) = length (stdout_written w)"
  shows "prefix (stdout_written w') src \<and> (\<forall>b \<in> set new. server_genuine src rx b)"
proof (cases a)
  case (WriteStdout conn p)
  obtain n err sk where wr: "writeAll sink_write (cl_stdout w) p = (n, err, sk)" using prod_cases3 by blast
  from sink_writer.writeAll_log [OF wr] have "sk_written sk = stdout_written w @ take n p" by auto
  moreover have "prefix (stdout_written w @ take n p) src"
    using a(2) w WriteStdout by (intro prefix_extend_slice) simp_all
  ultimately show ?thesis using e wr unfolding WriteStdout by (auto simp: server_honest_def)
qed (use e a w(1) in \<open>auto simp: server_honest_def Let_def split: option.splits\<close>)

interpretation client_delivery: exclusive_delivery client_exec unread client_ok client_act_ok stdin_act stdin_ready client_later stdin_keeps
  client_fits stdout_delivers stdout_writes stdout_written "\<lambda>w. rt_s2cRx (cl_rt w)" server_genuine
proof
  show "unat (rt_s2cRx (cl_rt w)) = length (stdout_written w)" if "client_ok 0 w" for w
    using that by (simp add: client_ok_def Let_def)
  show "unread a = 0" if "\<not> stdout_delivers a" for a using that by (cases a) simp_all
  show "stdout_delivers a \<and> unread a = 0" if "stdout_writes a" for a using that by (cases a) simp_all
  show "server_genuine src r' a" if "\<not> stdout_delivers a" "server_genuine src r a" for src r r' a using that by (cases a) simp_all
next
  fix a new keep src and w w' :: client_world
  assume e: "client_exec a w = (new, keep, w')"
  show "rt_s2cRx (cl_rt w') = rt_s2cRx (cl_rt w) \<and> stdout_written w' = stdout_written w
      \<and> (\<forall>b \<in> set new. server_genuine src (rt_s2cRx (cl_rt w)) b)" if "\<not> stdout_delivers a" "server_genuine src (rt_s2cRx (cl_rt w)) a"
    by (rule client_exec_quiet [OF e that])
  show "prefix (stdout_written w') src \<and> (\<forall>b \<in> set new. server_genuine src (rt_s2cRx (cl_rt w')) b)"
    if "stdout_delivers a" "server_genuine src (rt_s2cRx (cl_rt w)) a" "prefix (stdout_written w) src"
      "stdout_writes a \<Longrightarrow> unat (rt_s2cRx (cl_rt w)) = length (stdout_written w)"
    by (rule client_exec_delivers [OF e that])
qed

lemma look_delivered:
  assumes "stdin_look ctx w = (todo, w')"
  shows "rt_s2cRx (cl_rt w') = rt_s2cRx (cl_rt w)" "cl_stdout w' = cl_stdout w" "a \<in> set todo \<Longrightarrow> server_genuine src rx a"
  using assms
  by (cases "rt_stdin (cl_rt w)"; cases "waitActive ctx (cl_rt w)"; cases "waitActive None (cl_rt w)";
      cases "waitBuffer ctx (cl_cfg w) (cl_rt w)"; auto simp: stdin_look_def server_honest_def)+

lemma careful_client_step_inv:
  assumes step: "careful_client_step src l l'" and inv: "careful_client_inv src l"
  shows "careful_client_inv src l'"
proof -
  have ls: "client_lock_step l l'" and one: "deliveries stdout_delivers l' \<le> 1"
    and honest: "\<And>a. a \<in> set (acts l') \<Longrightarrow> server_honest src a"
    using step by (auto simp: careful_client_step_def list_all_iff)
  have li: "client_locked_inv l" "deliveries stdout_delivers l \<le> 1" and ok: "client_delivered src l"
    using inv by (auto simp: careful_client_inv_def)
  note start = client_delivery.delivered_start [OF ok] and env = client_delivery.delivered_world [OF ok]
  from ls have "client_delivered src l'"
  proof cases
    case (cl_run g a todo new keep w')
    show ?thesis unfolding cl_run(1) by (rule client_delivery.delivered_run [OF li ok cl_run(2-4)])
  next
    case (cl_receive conn f p)
    then have "server_honest src (Receive conn f p)" by (intro honest) (simp only: acts_put_new list.set_intros)
    with cl_receive start show ?thesis by simp
  next
    case (cl_look ctx todo w')
    with look_delivered [OF cl_look(3)] start show ?thesis by simp
  qed (auto intro!: start env simp: server_honest_def raw_close_def)
  with client_lock_step_inv [OF ls li(1)] one show ?thesis by (simp add: careful_client_inv_def)
qed

interpretation careful_client: step_system "careful_client_step src" "careful_client_inv src" for src
  by unfold_locales (rule careful_client_step_inv)

lemma start_client_careful:
  assumes "0 < rc_buffer (cfg_resume cfg)"
  shows "careful_client_inv src (start_client cfg lkg half n)"
  using start_client_inv [OF assms, of lkg half n]
  by (simp add: careful_client_inv_def deliveries_def delivered_ok_def start_client_def fresh_client_def)

text \<open>
  Standard output is exact as long as no two deliveries overlap: if at most one goroutine at a time is between its
  check of the receive offset and its count, everything else may interleave in any way (activations, replays,
  switches, heartbeats, late frames of replaced connections), and standard output receives a prefix of the server's stream.
\<close>

theorem exclusive_stdout_exact:
  assumes "0 < rc_buffer (cfg_resume cfg)" and "(careful_client_step src)\<^sup>*\<^sup>* (start_client cfg lkg half n) l"
  shows "prefix (stdout_written (pl_world l)) src"
  using careful_client.run_inv [OF assms(2) start_client_careful [OF assms(1)]] by (simp add: careful_client_inv_def delivered_ok_def)

section \<open>The wakeup that \<open>finish\<close> loses\<close>

text \<open>Stretches that move \<open>stdinLoop\<close> although nothing is active and the proxy has ended.\<close>

fun wakes :: "client_act \<Rightarrow> bool" where
  "wakes (AckFromServer off) = True"
| "wakes a = stdin_act a"

definition asleep_for_good :: "locked_client \<Rightarrow> bool" where
  "asleep_for_good l \<longleftrightarrow> rt_finished (cl_rt (pl_world l)) \<and> rt_active (cl_rt (pl_world l)) = None
     \<and> rt_stdin (cl_rt (pl_world l)) = StdinActiveAsleep \<and> (\<forall>a \<in> set (acts l). \<not> wakes a)"

lemma wakes_refuse [simp]: "b \<in> set (refuse_acts conn e) \<Longrightarrow> \<not> wakes b"
  by (auto simp: refuse_acts_def)

lemma wakes_replay: "b \<in> set (replay_bytes_acts conn rt) \<Longrightarrow> \<not> wakes b"
  by (auto simp: replay_bytes_acts_def split: if_splits)

lemma activation_asleep: "activation_act b \<Longrightarrow> \<not> wakes b"
  by (cases b) simp_all

lemma exec_asleep:
  assumes e: "client_exec a w = (new, keep, w')" and a: "\<not> wakes a"
    and w: "rt_finished (cl_rt w)" "rt_active (cl_rt w) = None" "rt_stdin (cl_rt w) = StdinActiveAsleep"
  shows "rt_finished (cl_rt w') \<and> rt_active (cl_rt w') = None \<and> rt_stdin (cl_rt w') = StdinActiveAsleep \<and> (\<forall>b \<in> set new. \<not> wakes b)"
proof (cases a)
  case (Receive conn f p)
  with e w show ?thesis by (auto simp: frame_current_def split: if_splits)
next
  case (SayHello i r ctx inputs)
  from say_hello_frame [OF e [unfolded SayHello]] w show ?thesis by (auto dest!: activation_asleep)
next
  case (ReadHello i r inputs)
  from read_hello_frame [of i r inputs w new keep w'] e ReadHello w show ?thesis by (auto dest!: activation_asleep)
next
  case (ReplayBytes conn)
  with e w show ?thesis by (auto dest: wakes_replay)
next
  case (Transmit conn h p oe)
  obtain x v where s: "client_send conn h p w = (x, v)" by fastforce
  with client_send_eq [OF s] e w Transmit show ?thesis by (cases x; cases oe) auto
qed (use e a w in \<open>auto simp: Let_def close_stdout_def split: if_splits option.splits prod.splits\<close>)

lemma asleep_start:
  assumes "asleep_for_good l" and "idle g l" and "cl_rt w' = cl_rt (pl_world l)" and "\<forall>a \<in> set todo. \<not> wakes a"
  shows "asleep_for_good (put g todo w' l)"
proof -
  obtain before after where "acts l = before @ (pl_todo l ! g) @ after" "acts (put g todo w' l) = before @ todo @ after"
    using acts_put [of g l] assms(2) unfolding idle_def by metis
  with assms show ?thesis by (auto simp: asleep_for_good_def)
qed

lemma asleep_world: "asleep_for_good l \<Longrightarrow> rt_finished (cl_rt w') \<and> rt_active (cl_rt w') = None \<and> rt_stdin (cl_rt w') = StdinActiveAsleep
    \<Longrightarrow> asleep_for_good (l\<lparr>pl_world := w'\<rparr>)"
  by (simp add: asleep_for_good_def)

lemma asleep_step:
  assumes step: "client_lock_step l l'" and inv: "asleep_for_good l"
  shows "asleep_for_good l'"
proof -
  have w: "rt_finished (cl_rt (pl_world l))" "rt_active (cl_rt (pl_world l)) = None" "rt_stdin (cl_rt (pl_world l)) = StdinActiveAsleep"
    and quiet: "\<And>a. a \<in> set (acts l) \<Longrightarrow> \<not> wakes a" using inv by (auto simp: asleep_for_good_def)
  note start = asleep_start [OF inv] and env = asleep_world [OF inv]
  from step show ?thesis
  proof cases
    case (cl_run g a todo new keep w')
    obtain before after where ba: "acts l = before @ (pl_todo l ! g) @ after"
        "acts (put g (new @ (if keep then todo else [])) w' l) = before @ (new @ (if keep then todo else [])) @ after"
      using acts_put [OF cl_run(2)] by metis
    have old: "\<not> wakes b" if "b = a \<or> b \<in> set (before @ todo @ after)" for b
      using quiet [of b] that unfolding ba(1) cl_run(3) by auto
    from exec_asleep [OF cl_run(4) _ w] old have "rt_finished (cl_rt w') \<and> rt_active (cl_rt w') = None
        \<and> rt_stdin (cl_rt w') = StdinActiveAsleep \<and> (\<forall>b \<in> set new. \<not> wakes b)" by blast
    moreover have "set (acts l') \<subseteq> set new \<union> set (before @ todo @ after)" unfolding cl_run(1) ba(2) by auto
    ultimately show ?thesis using old unfolding asleep_for_good_def cl_run(1) put_world by blast
  next
    case (cl_look ctx todo w')
    then have "todo = [] \<and> w' = pl_world l" using w by (simp add: stdin_look_def)
    with cl_look start show ?thesis by simp
  next
    case (cl_read conn bs err)
    with w show ?thesis by simp
  qed (auto intro!: start env simp: raw_close_def w)
qed

interpretation asleep: step_system client_lock_step asleep_for_good
  by unfold_locales (rule asleep_step)

text \<open>
  C38. \<open>finish\<close> broadcasts before it closes \<open>done\<close>, and the waiting loops look at \<open>done\<close>: from the start of any client an
  interleaving leads to a state in which the proxy has ended, \<open>done\<close> is closed, no goroutine has anything left to do, and
  \<open>stdinLoop\<close> sleeps in \<open>waitActive\<close>; and nothing that can happen afterwards ever wakes it.
\<close>

theorem finish_loses_wakeup:
  "\<exists>l. client_lock_step\<^sup>*\<^sup>* (start_client cfg lkg half (Suc (Suc n))) l \<and> rt_done (cl_rt (pl_world l)) \<and> acts l = []
     \<and> (\<forall>l'. client_lock_step\<^sup>*\<^sup>* l l' \<longrightarrow> rt_stdin (cl_rt (pl_world l')) = StdinActiveAsleep)"
proof -
  let ?w0 = "fresh_client cfg lkg half" and ?todo = "\<lambda>t. [] # t # replicate n []"
  let ?w1 = "set_stdin StdinActiveAsleep ?w0"
  let ?w2 = "finish_mark None ?w1"
  let ?w3 = "set_stdin StdinActiveAsleep ?w2"
  let ?w4 = "upd_rt (\<lambda>rt. rt\<lparr>rt_done := True\<rparr>) ?w3"
  let ?at = "\<lambda>w t. \<lparr>pl_world = w, pl_todo = ?todo t\<rparr>"
  let ?run = "client_lock_step\<^sup>*\<^sup>* (start_client cfg lkg half (Suc (Suc n)))"
  have rt: "rt_stdin (cl_rt ?w0) = StdinActive" "rt_active (cl_rt ?w0) = None" "\<not> rt_done (cl_rt ?w0)" "\<not> rt_finished (cl_rt ?w0)"
    by (simp_all add: fresh_client_def newClientRuntime_def)
  have fit: "client_fits ?w0" by (simp add: client_fits_def fresh_client_def)
  have "?run (?at ?w0 [])" by (simp add: start_client_def)
  then have "?run (?at ?w1 [])"
    by (rule run_then) (use cl_look [of "?at ?w0 []" None "[]" ?w1] rt in \<open>simp add: idle_def put_def stdin_look_def waitActive_def\<close>)
  then have "?run (?at ?w1 [Finish None])"
    by (rule run_then) (use cl_finish [of 0 "?at ?w1 []" None] in \<open>simp add: idle_def put_def\<close>)
  then have "?run (?at ?w2 [CloseDone])"
    by (rule run_then) (use cl_run [of 1 "?at ?w1 [Finish None]" "Finish None" "[]" "[CloseDone]" True ?w2] rt fit in
      \<open>simp add: put_def finish_mark_def client_fits_def\<close>)
  then have "?run (?at ?w3 [CloseDone])"
    by (rule run_then) (use cl_look [of "?at ?w2 [CloseDone]" None "[]" ?w3] rt in
      \<open>simp add: idle_def put_def stdin_look_def waitActive_def finish_mark_def\<close>)
  then have run: "?run (?at ?w4 [])"
    by (rule run_then) (use cl_run [of 1 "?at ?w3 [CloseDone]" CloseDone "[]" "[]" True ?w4] fit in
      \<open>simp add: put_def finish_mark_def client_fits_def\<close>)
  have "asleep_for_good (?at ?w4 [])" by (simp add: asleep_for_good_def finish_mark_def)
  then have "asleep_for_good l'" if "client_lock_step\<^sup>*\<^sup>* (?at ?w4 []) l'" for l'
    using asleep.run_inv [OF that] by blast
  with run show ?thesis
    by (intro exI [of _ "?at ?w4 []"]) (auto simp: asleep_for_good_def)
qed

theorem finish_loses_wakeup_witness:
  "\<exists>l. client_lock_step\<^sup>*\<^sup>* (start_client demo_client_cfg None False 2) l \<and> rt_done (cl_rt (pl_world l))
     \<and> rt_stdin (cl_rt (pl_world l)) = StdinActiveAsleep"
  using finish_loses_wakeup [of demo_client_cfg None False 0] by (auto simp: numeral_2_eq_2)

section \<open>A run\<close>

text \<open>Steps that take up frames of a given set only.\<close>

definition fed_client_step :: "frame set \<Rightarrow> locked_client \<Rightarrow> locked_client \<Rightarrow> bool" where
  "fed_client_step F l l' \<longleftrightarrow> client_lock_step l l' \<and> deliveries stdout_delivers l' \<le> 1
     \<and> (\<forall>conn f p. Receive conn f p \<in> set (acts l') \<longrightarrow> (f, p) \<in> F)"

lemma fed_client_careful:
  assumes "(fed_client_step F)\<^sup>*\<^sup>* l l'" and "\<And>f p. (f, p) \<in> F \<Longrightarrow> slice_at (unat (h_offset f)) p src"
  shows "(careful_client_step src)\<^sup>*\<^sup>* l l'"
  using assms(1)
proof (rule rtranclp_mono [THEN predicate2D, rotated])
  show "fed_client_step F \<le> careful_client_step src"
    using assms(2) by (auto simp: fed_client_step_def careful_client_step_def list_all_iff server_honest_def simp del: set_concat)
qed

lemma fed_client_run: "(fed_client_step F)\<^sup>*\<^sup>* l l' \<Longrightarrow> client_lock_step\<^sup>*\<^sup>* l l'"
  by (induction rule: rtranclp_induct) (auto simp: fed_client_step_def intro: run_then)

abbreviation one_client :: "client_world \<Rightarrow> client_act list \<Rightarrow> locked_client" where
  "one_client w todo \<equiv> \<lparr>pl_world = w, pl_todo = [[], todo]\<rparr>"

lemma one_client_run:
  assumes "client_exec a w = (new, True, w')" and "client_fits w'"
    and "length (filter stdout_delivers (new @ todo)) \<le> 1" and "\<forall>conn f p. Receive conn f p \<in> set (new @ todo) \<longrightarrow> (f, p) \<in> F"
  shows "fed_client_step F (one_client w (a # todo)) (one_client w' (new @ todo))"
  using cl_run [of 1 "one_client w (a # todo)" a todo new True w'] assms
  by (simp add: fed_client_step_def put_def deliveries_def)

definition demo_output :: frame where
  "demo_output = (zero_header\<lparr>h_type := ''data'', h_direction := dirServerToClient, h_session_id := ''s'', h_epoch := 1\<rparr>, [7, 8])"

definition demo_received :: client_world where
  "demo_received = demo_connected\<lparr>cl_stdout := (cl_stdout demo_connected)\<lparr>sk_written := [7, 8]\<rparr>\<rparr>"

lemma demo_stdout: "cl_stdout demo_connected = \<lparr>sk_written = [], sk_budget = None, sk_closed = False\<rparr>"
  by (simp add: demo_connected_eq demo_client_def fresh_client_def)

lemma demo_activation:
  "(fed_client_step F)\<^sup>*\<^sup>* (start_client demo_client_cfg None False 2) (one_client demo_connected [])"
proof -
  let ?c = "demo_conn 0 1" and ?run = "(fed_client_step F)\<^sup>*\<^sup>* (start_client demo_client_cfg None False 2)"
  let ?w1 = "demo_client\<lparr>cl_rt := commit_state (demo_commit 0 1 0) 0 (cl_rt demo_client)\<rparr>"
  have fits: "client_fits ?w1" "client_fits demo_connected"
    by (simp_all add: client_fits_def demo_connected_state demo_client_def fresh_client_def)
  have e1: "client_exec (Commit (demo_commit 0 1 0)) demo_client = ([SavePath ''a'', ReplayBytes ?c], True, ?w1)"
    by (simp add: demo_client_def fresh_client_def newClientRuntime_def demo_commit_def demo_path_def advanceC2SAckLocked_def Let_def)
  have "?run (one_client demo_client [])" by (simp add: start_client_def demo_client_def numeral_2_eq_2)
  then have "?run (one_client demo_client [Commit (demo_commit 0 1 0)])"
    by (rule run_then) (use cl_commit [of 0 "one_client demo_client []" "demo_commit 0 1 0"] in
      \<open>simp add: fed_client_step_def idle_def put_def deliveries_def\<close>)
  then have "?run (one_client ?w1 [SavePath ''a'', ReplayBytes ?c])"
    by (rule run_then) (use one_client_run [OF e1, of "[]"] fits in simp)
  then have "?run (one_client demo_connected [ReplayBytes ?c])"
    by (rule run_then) (use one_client_run [of "SavePath ''a''" ?w1 "[]" demo_connected "[ReplayBytes ?c]"] fits in
      \<open>simp add: demo_connected_eq demo_client_def fresh_client_def\<close>)
  then show "?run (one_client demo_connected [])"
    by (rule run_then) (use one_client_run [of "ReplayBytes ?c" demo_connected "[]" demo_connected "[]"] fits in
      \<open>simp add: replay_bytes_acts_def demo_connected_state chunks.simps [of _ "[]"]\<close>)
qed

lemma demo_reception:
  "(fed_client_step {demo_output})\<^sup>*\<^sup>* (start_client demo_client_cfg None False 2) (one_client demo_received [CountStdout (demo_conn 0 1) 2 None])"
proof -
  let ?c = "demo_conn 0 1" and ?run = "(fed_client_step {demo_output})\<^sup>*\<^sup>* (start_client demo_client_cfg None False 2)"
  let ?f = "fst demo_output"
  have fits: "client_fits demo_connected" "client_fits demo_received"
    by (simp_all add: client_fits_def demo_received_def demo_connected_state)
  have cur: "frame_current ?c ?f (cl_rt demo_connected)" by (simp add: frame_current_def demo_connected_state demo_output_def)
  have rx: "rt_s2cRx (cl_rt demo_connected) = 0"
    by (simp add: demo_connected_eq demo_client_def fresh_client_def newClientRuntime_def)
  have e7: "client_exec (WriteStdout ?c [7, 8]) demo_connected = ([CountStdout ?c 2 None], True, demo_received)"
    by (simp add: demo_stdout writeAll.simps sink_write_def demo_received_def)
  have "?run (one_client demo_connected [])" by (rule demo_activation)
  then have "?run (one_client demo_connected [Receive ?c ?f [7, 8]])"
    by (rule run_then) (use cl_receive [of ?c "one_client demo_connected []" ?f "[7, 8]"] in
      \<open>simp add: fed_client_step_def idle_def put_def deliveries_def demo_conn_def demo_output_def\<close>)
  then have "?run (one_client demo_connected [CheckServerData ?c ?f [7, 8]])"
    by (rule run_then) (use one_client_run [of "Receive ?c ?f [7, 8]" demo_connected "[CheckServerData ?c ?f [7, 8]]" demo_connected "[]"] fits cur in
      \<open>simp add: demo_output_def\<close>)
  then have "?run (one_client demo_connected [WriteStdout ?c [7, 8]])"
    by (rule run_then) (use one_client_run [of "CheckServerData ?c ?f [7, 8]" demo_connected "[WriteStdout ?c [7, 8]]" demo_connected "[]"] fits rx in
      \<open>simp add: demo_output_def Let_def zero_header_def\<close>)
  then show ?thesis
    by (rule run_then) (use one_client_run [OF e7, of "[]"] fits in simp)
qed

lemma demo_output_slice: "(f, p) \<in> {demo_output} \<Longrightarrow> slice_at (unat (h_offset f)) p [7, 8, 9]"
  by (simp add: demo_output_def slice_at_def zero_header_def)

theorem exclusive_stdout_exact_witness:
  "stdout_written demo_received = [7, 8] \<and> prefix (stdout_written demo_received) [7, 8, 9]"
  using exclusive_stdout_exact [OF demo_cfg_positive fed_client_careful [OF demo_reception demo_output_slice]] by (simp add: demo_received_def)

theorem any_interleaving_keeps_client_witness:
  "unread_bytes (one_client demo_received [CountStdout (demo_conn 0 1) 2 None]) = 2
   \<and> unat (rt_s2cRx (cl_rt demo_received)) + 2 = length (stdout_written demo_received)"
  using any_interleaving_keeps_client [OF demo_cfg_positive fed_client_run [OF demo_reception] refl]
  by (simp add: unread_bytes_def)

text \<open>The run goes on to the count and the acknowledgement.\<close>

theorem any_interleaving_client_frames_truthful_witness:
  "\<exists>w h. (h, []) \<in> set (ws_out (cl_ws w 0)) \<and> h_received_offset h = 2 \<and> unat (h_received_offset h) \<le> length (stdout_written w)"
proof -
  let ?c = "demo_conn 0 1" and ?h = "s2c_ack_header ''s'' 2"
  let ?w1 = "upd_rt (\<lambda>rt. rt\<lparr>rt_s2cRx := rt_s2cRx rt + 2\<rparr>) demo_received"
  have rx: "rt_s2cRx (cl_rt demo_connected) = 0"
    by (simp add: demo_connected_eq demo_client_def fresh_client_def newClientRuntime_def)
  have "\<exists>msg. writeFrame (client_fill (cc_epoch ?c) ?h) [] = Inr msg"
    by (rule writeFrame_small)
       (simp_all add: client_fill_def s2c_ack_header_def wf_header_def header_text_def utf8_valid_ascii dirServerToClient_def)
  from client_send_healthy [of ?w1, OF _ _ this]
  obtain w2 where s: "client_send ?c ?h [] ?w1 = (None, w2)"
    and out: "ws_out (cl_ws w2 0) = [(client_fill 1 ?h, [])]"
    by (simp add: demo_received_def demo_connected_state demo_conn_def)
  have "client_lock_step\<^sup>*\<^sup>* (start_client demo_client_cfg None False 2) (one_client w2 [])"
  proof -
    have "(fed_client_step {demo_output})\<^sup>*\<^sup>* (start_client demo_client_cfg None False 2) (one_client ?w1 [Transmit ?c ?h [] Skip])"
      by (rule run_then [OF demo_reception])
         (use one_client_run [of "CountStdout ?c 2 None" demo_received "[Transmit ?c ?h [] Skip]" ?w1 "[]"] rx in
           \<open>simp add: Let_def client_fits_def demo_received_def demo_connected_state\<close>)
    then have "(fed_client_step {demo_output})\<^sup>*\<^sup>* (start_client demo_client_cfg None False 2) (one_client w2 [])"
      by (rule run_then) (use one_client_run [of "Transmit ?c ?h [] Skip" ?w1 "[]" w2 "[]"] s client_send_eq [OF s] in
        \<open>simp add: client_fits_def demo_received_def demo_connected_state\<close>)
    then show ?thesis by (rule fed_client_run)
  qed
  from any_interleaving_client_frames_truthful [OF demo_cfg_positive this, of "client_fill 1 ?h" "[]" 0] out
  show ?thesis by (intro exI [of _ w2] exI [of _ "client_fill 1 ?h"]) (simp add: s2c_ack_header_def)
qed

end
