(* ===== verification/Locked_Tunnel.thy ===== *)
theory Locked_Tunnel
  imports Server_Locks Client_Locks
begin

text \<open>
  A client and a session at the grain of their locks, over a network that delivers any frame the other side ever sent on
  any connection, late, twice or never. As long as neither side runs two deliveries at once, both byte streams arrive
  exactly, whatever the interleaving of the goroutines of both sides.
\<close>

section \<open>Both sides\<close>

definition sent_by_client :: "locked_client \<Rightarrow> frame set" where
  "sent_by_client c = (\<Union>i. set (ws_out (cl_ws (pl_world c) i)))"

definition sent_by_server :: "locked_session \<Rightarrow> frame set" where
  "sent_by_server s = (\<Union>i. set (ws_out (sw_ws (pl_world s) i)))"

text \<open>
  A side takes a step; the frames it takes up are frames the other side has sent. Activations and resumes are not
  tied to each other: a client may commit any accept, a session may resume for any hello.
\<close>

inductive locked_tunnel_step :: "locked_client \<times> locked_session \<Rightarrow> locked_client \<times> locked_session \<Rightarrow> bool" where
  lt_client: "client_lock_step c c' \<Longrightarrow> deliveries stdout_delivers c' \<le> 1 \<Longrightarrow>
    (\<And>conn f p. Receive conn f p \<in> set (acts c') \<Longrightarrow> Receive conn f p \<in> set (acts c) \<or> (f, p) \<in> sent_by_server s) \<Longrightarrow>
    locked_tunnel_step (c, s) (c', s)"
| lt_server: "lock_step s s' \<Longrightarrow> deliveries delivers s' \<le> 1 \<Longrightarrow>
    (\<And>conn f p. Frame conn f p \<in> set (acts s') \<Longrightarrow> Frame conn f p \<in> set (acts s) \<or> (f, p) \<in> sent_by_client c) \<Longrightarrow>
    locked_tunnel_step (c, s) (c, s')"

section \<open>The streams only grow\<close>

lemma genuine_grows: "genuine src rx a \<Longrightarrow> prefix src src' \<Longrightarrow> genuine src' rx a"
  by (cases a) (auto simp: honest_def intro: slice_at_prefix)

lemma server_genuine_grows: "server_genuine src rx a \<Longrightarrow> prefix src src' \<Longrightarrow> server_genuine src' rx a"
  by (cases a) (auto simp: server_honest_def intro: slice_at_prefix)

lemma client_step_later:
  assumes "client_lock_step c c'" and inv: "client_locked_inv c"
  shows "client_later (pl_world c) (pl_world c')"
  using assms(1)
proof cases
  case (cl_run g a todo new keep w')
  from client_pool.later_run [OF inv cl_run(2-5)] cl_run(1) show ?thesis by simp
next
  case (cl_look ctx todo w')
  have "client_ok (weights unread (acts c)) (pl_world c)" using inv by (simp add: pool_inv_def)
  from look_ok(2) [OF this cl_look(3)] cl_look(1) show ?thesis by simp
qed (simp_all add: client_later_def raw_close_def)

lemma session_step_later:
  assumes "lock_step s s'" and inv: "locked_inv s"
  shows "later (sw_sess (pl_world s)) (sw_sess (pl_world s'))"
  using assms(1)
proof cases
  case (lk_run g a todo new keep w')
  from session_pool.later_run [OF inv lk_run(2-5)] lk_run(1) show ?thesis by simp
next
  case lk_check
  have "world_ok (weights pending (acts s)) (pl_world s)" using inv by (simp add: pool_inv_def)
  from reader_check_world(2) [OF this lk_check(3)] lk_check(1) show ?thesis by simp
qed (simp_all add: later_def session_grows_def)

lemma source_grows: "lock_step s s' \<Longrightarrow> locked_inv s \<Longrightarrow> prefix (target_source (pl_world s)) (target_source (pl_world s'))"
  by (drule (1) session_step_later) (simp add: later_def session_grows_def)

lemma stdin_grows: "client_lock_step c c' \<Longrightarrow> client_locked_inv c \<Longrightarrow> prefix (cl_stdin (pl_world c)) (cl_stdin (pl_world c'))"
  by (drule (1) client_step_later) (simp add: client_later_def)

section \<open>The invariant\<close>

definition locked_tunnel_inv :: "locked_client \<times> locked_session \<Rightarrow> bool" where
  "locked_tunnel_inv cs \<longleftrightarrow> (case cs of (c, s) \<Rightarrow>
     careful_client_inv (target_source (pl_world s)) c \<and> careful_inv (cl_stdin (pl_world c)) s)"

lemma genuine_honest: "genuine src rx a \<Longrightarrow> honest src a"
  by (cases a) (auto simp: honest_def)

lemma server_genuine_honest: "server_genuine src rx a \<Longrightarrow> server_honest src a"
  by (cases a) (auto simp: server_honest_def)

lemma careful_client_grows: "careful_client_inv src c \<Longrightarrow> prefix src src' \<Longrightarrow> careful_client_inv src' c"
  by (auto simp: careful_client_inv_def delivered_ok_def simp del: set_concat intro: server_genuine_grows prefix_order.trans)

lemma careful_session_grows: "careful_inv src s \<Longrightarrow> prefix src src' \<Longrightarrow> careful_inv src' s"
  by (auto simp: careful_inv_def delivered_ok_def simp del: set_concat intro: genuine_grows prefix_order.trans)

text \<open>The data frames on the network are slices of the streams.\<close>

lemma client_frames_honest:
  assumes "client_locked_inv c" and "(f, p) \<in> sent_by_client c" and "h_type f = ''data''"
  shows "slice_at (unat (h_offset f)) p (cl_stdin (pl_world c))"
  using assms by (fastforce simp: sent_by_client_def pool_inv_def client_ok_def Let_def client_frames_def client_frame_ok_def)

lemma server_frames_honest:
  assumes "locked_inv s" and "(f, p) \<in> sent_by_server s" and "h_type f = ''data''"
  shows "slice_at (unat (h_offset f)) p (target_source (pl_world s))"
  using assms by (fastforce simp: sent_by_server_def pool_inv_def world_ok_def Let_def frames_ok_in_def server_frame_ok_def)

text \<open>So each step of the tunnel is a careful step of one side.\<close>

lemma tunnel_client_careful:
  assumes step: "client_lock_step c c'" and one: "deliveries stdout_delivers c' \<le> 1" and c: "careful_client_inv (target_source (pl_world s)) c"
    and s: "locked_inv s" and net: "\<And>conn f p. Receive conn f p \<in> set (acts c') \<Longrightarrow> Receive conn f p \<in> set (acts c) \<or> (f, p) \<in> sent_by_server s"
  shows "careful_client_step (target_source (pl_world s)) c c'"
proof -
  have "server_honest (target_source (pl_world s)) (Receive conn f p)" if "Receive conn f p \<in> set (acts c')" for conn f p
    using net [OF that]
  proof
    assume "Receive conn f p \<in> set (acts c)"
    with c show ?thesis by (auto simp: careful_client_inv_def delivered_ok_def simp del: set_concat intro: server_genuine_honest)
  next
    assume "(f, p) \<in> sent_by_server s"
    with server_frames_honest [OF s] show ?thesis by (auto simp: server_honest_def)
  qed
  then have "server_honest (target_source (pl_world s)) a" if "a \<in> set (acts c')" for a
    using that by (cases "\<exists>conn f p. a = Receive conn f p") (auto simp: server_honest_def simp del: set_concat)
  with step one show ?thesis by (simp add: careful_client_step_def list_all_iff del: set_concat)
qed

lemma tunnel_server_careful:
  assumes step: "lock_step s s'" and one: "deliveries delivers s' \<le> 1" and s: "careful_inv (cl_stdin (pl_world c)) s"
    and c: "client_locked_inv c" and net: "\<And>conn f p. Frame conn f p \<in> set (acts s') \<Longrightarrow> Frame conn f p \<in> set (acts s) \<or> (f, p) \<in> sent_by_client c"
  shows "careful_step (cl_stdin (pl_world c)) s s'"
proof -
  have "honest (cl_stdin (pl_world c)) (Frame conn f p)" if "Frame conn f p \<in> set (acts s')" for conn f p
    using net [OF that]
  proof
    assume "Frame conn f p \<in> set (acts s)"
    with s show ?thesis by (auto simp: careful_inv_def delivered_ok_def simp del: set_concat intro: genuine_honest)
  next
    assume "(f, p) \<in> sent_by_client c"
    with client_frames_honest [OF c] show ?thesis by (auto simp: honest_def)
  qed
  then have "honest (cl_stdin (pl_world c)) a" if "a \<in> set (acts s')" for a
    using that by (cases "\<exists>conn f p. a = Frame conn f p") (auto simp: honest_def simp del: set_concat)
  with step one show ?thesis by (simp add: careful_step_def list_all_iff del: set_concat)
qed

lemma locked_tunnel_step_inv:
  assumes "locked_tunnel_step cs cs'" and inv: "locked_tunnel_inv cs"
  shows "locked_tunnel_inv cs'"
  using assms(1)
proof cases
  case (lt_client c c' s)
  have i: "careful_client_inv (target_source (pl_world s)) c" "careful_inv (cl_stdin (pl_world c)) s" "locked_inv s" "client_locked_inv c"
    using inv lt_client(1) by (auto simp: locked_tunnel_inv_def careful_inv_def careful_client_inv_def)
  have "careful_client_step (target_source (pl_world s)) c c'"
    by (rule tunnel_client_careful [OF lt_client(3,4) i(1,3) lt_client(5)])
  from careful_client_step_inv [OF this i(1)] careful_session_grows [OF i(2) stdin_grows [OF lt_client(3) i(4)]] lt_client(2)
  show ?thesis by (simp add: locked_tunnel_inv_def)
next
  case (lt_server s s' c)
  have i: "careful_client_inv (target_source (pl_world s)) c" "careful_inv (cl_stdin (pl_world c)) s" "locked_inv s" "client_locked_inv c"
    using inv lt_server(1) by (auto simp: locked_tunnel_inv_def careful_inv_def careful_client_inv_def)
  have "careful_step (cl_stdin (pl_world c)) s s'"
    by (rule tunnel_server_careful [OF lt_server(3,4) i(2,4) lt_server(5)])
  from careful_step_inv [OF this i(2)] careful_client_grows [OF i(1) source_grows [OF lt_server(3) i(3)]] lt_server(2)
  show ?thesis by (simp add: locked_tunnel_inv_def)
qed

interpretation locked_tunnel: step_system locked_tunnel_step locked_tunnel_inv
  by unfold_locales (rule locked_tunnel_step_inv)

text \<open>
  End to end at the grain of the locks: whatever the interleaving of the goroutines of the client and of the server,
  and whatever the network does to the frames, as long as neither side runs two deliveries at once the target has
  received a prefix of standard input and standard output a prefix of what the target sent.
\<close>

theorem locked_tunnel_delivers_prefixes:
  assumes "0 < rc_buffer (cfg_resume ccfg)" and "0 < rc_buffer scfg"
    and "locked_tunnel_step\<^sup>*\<^sup>* (start_client ccfg lkg half n, accept_new scfg now sid i m) (c, s)"
  shows "prefix (target_written (pl_world s)) (cl_stdin (pl_world c)) \<and> prefix (stdout_written (pl_world c)) (target_source (pl_world s))"
proof -
  have "locked_tunnel_inv (start_client ccfg lkg half n, accept_new scfg now sid i m)"
    using start_client_careful [OF assms(1)] accept_new_careful [OF assms(2)] by (simp add: locked_tunnel_inv_def)
  from locked_tunnel.run_inv [OF assms(3) this] show ?thesis
    by (simp add: locked_tunnel_inv_def careful_inv_def careful_client_inv_def delivered_ok_def)
qed

section \<open>A run of both sides\<close>

lemma tunnel_client_run:
  assumes "(fed_client_step F)\<^sup>*\<^sup>* c c'" and "F \<subseteq> sent_by_server s"
  shows "locked_tunnel_step\<^sup>*\<^sup>* (c, s) (c', s)"
  using assms(1)
proof (induction rule: rtranclp_induct)
  case (step u v)
  have "locked_tunnel_step (u, s) (v, s)"
    by (rule lt_client) (use step(2) assms(2) in \<open>auto simp: fed_client_step_def simp del: set_concat\<close>)
  with step.IH show ?case by (rule run_then)
qed simp

lemma tunnel_server_run:
  assumes "(fed_step F)\<^sup>*\<^sup>* s s'" and "F \<subseteq> sent_by_client c"
  shows "locked_tunnel_step\<^sup>*\<^sup>* (c, s) (c, s')"
  using assms(1)
proof (induction rule: rtranclp_induct)
  case (step u v)
  have "locked_tunnel_step (c, u) (c, v)"
    by (rule lt_server) (use step(2) assms(2) in \<open>auto simp: fed_step_def simp del: set_concat\<close>)
  with step.IH show ?case by (rule run_then)
qed simp

text \<open>The client reads two bytes and sends them.\<close>

lemma demo_input_sent:
  obtains c where "(fed_client_step {})\<^sup>*\<^sup>* (start_client demo_client_cfg None False 2) c"
    and "demo_input \<in> sent_by_client c" and "cl_stdin (pl_world c) = [7, 8]"
proof -
  let ?c = "demo_conn 0 1" and ?run = "(fed_client_step {})\<^sup>*\<^sup>* (start_client demo_client_cfg None False 2)"
  let ?at = "\<lambda>w t. \<lparr>pl_world = w, pl_todo = [t, []]\<rparr>" and ?h = "c2s_data_header ''s'' 0"
  let ?w1 = "set_stdin (StdinBuffer ?c) demo_connected" and ?w2 = "set_stdin (StdinReading ?c) demo_connected"
  let ?w3 = "(set_stdin StdinActive demo_connected)\<lparr>cl_stdin := [7, 8], cl_rt := append_c2s [7, 8] (cl_rt (set_stdin StdinActive demo_connected))\<rparr>"
  have stdin: "rt_stdin (cl_rt demo_connected) = StdinActive"
    by (simp add: demo_connected_eq demo_client_def fresh_client_def newClientRuntime_def)
  have "\<exists>msg. writeFrame (client_fill (cc_epoch ?c) ?h) [7, 8] = Inr msg"
    by (rule c2s_data_written) (simp_all add: client_short_id_def utf8_valid_ascii maxPayloadBytes_def)
  from client_send_healthy [of ?w3, OF _ _ this]
  obtain w4 where s: "client_send ?c ?h [7, 8] ?w3 = (None, w4)" and out: "ws_out (cl_ws w4 0) = [(client_fill 1 ?h, [7, 8])]"
    by (simp add: demo_connected_state demo_conn_def)
  have fits: "client_fits ?w3" "client_fits w4"
    using client_send_eq [OF s] by (simp_all add: client_fits_def demo_connected_state)
  have "?run (?at demo_connected [])" by (rule demo_activation)
  then have "?run (?at ?w1 [])"
    by (rule run_then) (use cl_look [of "?at demo_connected []" None "[]" ?w1] stdin in
      \<open>simp add: fed_client_step_def idle_def put_def deliveries_def stdin_look_def waitActive_def demo_connected_state\<close>)
  then have "?run (?at ?w2 [])"
    by (rule run_then) (use cl_look [of "?at ?w1 []" None "[]" ?w2] in
      \<open>simp add: fed_client_step_def idle_def put_def deliveries_def stdin_look_def waitBuffer_def demo_connected_state demo_client_cfg_def\<close>)
  then have "?run (?at ?w2 [StdinAppend ?c [7, 8] None])"
    by (rule run_then) (use cl_read [of "?at ?w2 []" ?c "[7, 8]" None] in
      \<open>simp add: fed_client_step_def idle_def put_def deliveries_def dataChunkBytes_def\<close>)
  then have "?run (?at ?w3 [Transmit ?c ?h [7, 8] DropGoOn])"
    by (rule run_then) (use cl_run [of 0 "?at ?w2 [StdinAppend ?c [7, 8] None]" "StdinAppend ?c [7, 8] None" "[]" "[Transmit ?c ?h [7, 8] DropGoOn]" True ?w3] fits in
      \<open>simp add: fed_client_step_def put_def deliveries_def Let_def appendClientBytes_def demo_connected_state\<close>)
  then have "?run (?at w4 [])"
    by (rule run_then) (use cl_run [of 0 "?at ?w3 [Transmit ?c ?h [7, 8] DropGoOn]" "Transmit ?c ?h [7, 8] DropGoOn" "[]" "[]" True w4] fits s in
      \<open>simp add: fed_client_step_def put_def deliveries_def\<close>)
  moreover have "client_fill 1 ?h = fst demo_input"
    by (simp add: client_fill_def c2s_data_header_def demo_input_def zero_header_def)
  then have "demo_input \<in> set (ws_out (cl_ws w4 0))" using out by (simp add: demo_input_def)
  then have "demo_input \<in> sent_by_client (?at w4 [])" by (auto simp: sent_by_client_def)
  moreover have "cl_stdin w4 = [7, 8]" using client_send_eq [OF s] by simp
  ultimately show ?thesis by (intro that [of "?at w4 []"]) simp_all
qed

lemma demo_tunnel_run:
  obtains c s where "locked_tunnel_step\<^sup>*\<^sup>* (start_client demo_client_cfg None False 2, accept_new demo_cfg 0 ''s'' 0 2) (c, s)"
    and "target_written (pl_world s) = [7, 8]" and "cl_stdin (pl_world c) = [7, 8]"
proof -
  obtain c where c: "(fed_client_step {})\<^sup>*\<^sup>* (start_client demo_client_cfg None False 2) c" "demo_input \<in> sent_by_client c" "cl_stdin (pl_world c) = [7, 8]"
    by (rule demo_input_sent)
  obtain w where s: "(fed_step {demo_input})\<^sup>*\<^sup>* (accept_new demo_cfg 0 ''s'' 0 2) (two w [CountWritten \<lparr>sc_ws = 0, sc_epoch = 1\<rparr> 2 None])"
    and w: "target_written w = [7, 8]" by (rule demo_delivery)
  let ?s = "two w [CountWritten \<lparr>sc_ws = 0, sc_epoch = 1\<rparr> 2 None]"
  have "locked_tunnel_step\<^sup>*\<^sup>* (start_client demo_client_cfg None False 2, accept_new demo_cfg 0 ''s'' 0 2) (c, ?s)"
    using tunnel_client_run [OF c(1), of "accept_new demo_cfg 0 ''s'' 0 2"] tunnel_server_run [OF s, of c] c(2)
    by (auto intro: rtranclp_trans)
  with w c(3) show ?thesis by (intro that [of c ?s]) simp_all
qed

lemma demo_server_positive: "0 < rc_buffer demo_cfg"
  by (simp add: demo_cfg_def)

theorem locked_tunnel_delivers_prefixes_witness:
  "\<exists>c s. locked_tunnel_step\<^sup>*\<^sup>* (start_client demo_client_cfg None False 2, accept_new demo_cfg 0 ''s'' 0 2) (c, s)
     \<and> target_written (pl_world s) = [7, 8] \<and> prefix (target_written (pl_world s)) (cl_stdin (pl_world c))"
proof -
  obtain c s where run: "locked_tunnel_step\<^sup>*\<^sup>* (start_client demo_client_cfg None False 2, accept_new demo_cfg 0 ''s'' 0 2) (c, s)"
    and w: "target_written (pl_world s) = [7, 8]" by (rule demo_tunnel_run)
  from locked_tunnel_delivers_prefixes [OF demo_cfg_positive demo_server_positive run] run w show ?thesis by blast
qed

end
