(* ===== verification/Pipe.thy ===== *)
theory Pipe
  imports Step_Systems "HOL-Library.Sublist"
begin

text \<open>
  What the tunnel promises to the programs at its ends, without connections, offsets, epochs or acknowledgements: two
  pipes, one for each direction. A pipe takes input until its end, gives it out in order, in pieces of any
  length, and reports the end of the stream only when everything is out.
\<close>

record pipe =
  pi_in :: bytes
  pi_ended :: bool
  pi_out :: bytes
  pi_closed :: bool

definition empty_pipe :: pipe where
  "empty_pipe = \<lparr>pi_in = [], pi_ended = False, pi_out = [], pi_closed = False\<rparr>"

inductive pipe_step :: "pipe \<Rightarrow> pipe \<Rightarrow> bool" where
  pipe_take: "\<not> pi_ended p \<Longrightarrow> pipe_step p (p\<lparr>pi_in := pi_in p @ bs\<rparr>)"
| pipe_end: "pipe_step p (p\<lparr>pi_ended := True\<rparr>)"
| pipe_give: "\<not> pi_closed p \<Longrightarrow> prefix (pi_out p @ bs) (pi_in p) \<Longrightarrow> pipe_step p (p\<lparr>pi_out := pi_out p @ bs\<rparr>)"
| pipe_close: "pi_ended p \<Longrightarrow> pi_out p = pi_in p \<Longrightarrow> pipe_step p (p\<lparr>pi_closed := True\<rparr>)"

definition pipe_ok :: "pipe \<Rightarrow> bool" where
  "pipe_ok p \<longleftrightarrow> prefix (pi_out p) (pi_in p) \<and> (pi_closed p \<longrightarrow> pi_ended p \<and> pi_out p = pi_in p)"

lemma pipe_step_ok: "pipe_step p p' \<Longrightarrow> pipe_ok p \<Longrightarrow> pipe_ok p'"
  by (induction rule: pipe_step.induct) (simp_all add: pipe_ok_def)

interpretation pipe: step_system pipe_step pipe_ok
  by unfold_locales (rule pipe_step_ok)

lemma empty_pipe_ok [simp]: "pipe_ok empty_pipe"
  by (simp add: pipe_ok_def empty_pipe_def)

text \<open>How a good pipe may look later: the run of the pipe that leads there.\<close>

definition pipe_grows :: "pipe \<Rightarrow> pipe \<Rightarrow> bool" where
  "pipe_grows p p' \<longleftrightarrow> prefix (pi_in p) (pi_in p') \<and> prefix (pi_out p) (pi_out p')
     \<and> (pi_ended p \<longrightarrow> pi_ended p' \<and> pi_in p' = pi_in p) \<and> (pi_closed p \<longrightarrow> pi_closed p')"

lemma pipe_run:
  assumes ok: "pipe_ok p" "pipe_ok p'" and grows: "pipe_grows p p'"
  shows "pipe_step\<^sup>*\<^sup>* p p'"
proof -
  let ?p1 = "p\<lparr>pi_in := pi_in p'\<rparr>" and ?p2 = "p\<lparr>pi_in := pi_in p', pi_ended := pi_ended p'\<rparr>"
  let ?p3 = "p\<lparr>pi_in := pi_in p', pi_ended := pi_ended p', pi_out := pi_out p'\<rparr>"
  have "pipe_step\<^sup>*\<^sup>* p ?p1"
  proof (cases "pi_ended p")
    case True
    with grows have "?p1 = p" by (simp add: pipe_grows_def)
    then show ?thesis by simp
  next
    case False
    from grows obtain bs where "pi_in p' = pi_in p @ bs" by (auto simp: pipe_grows_def prefix_def)
    with pipe_take [OF False, of bs] show ?thesis by (metis r_into_rtranclp)
  qed
  moreover have "pipe_step\<^sup>*\<^sup>* ?p1 ?p2"
  proof (cases "pi_ended p' = pi_ended p")
    case True
    then have "?p2 = ?p1" by simp
    then show ?thesis by simp
  next
    case False
    with grows have "pi_ended p'" by (auto simp: pipe_grows_def)
    with pipe_end [of ?p1] show ?thesis by auto
  qed
  moreover have "pipe_step\<^sup>*\<^sup>* ?p2 ?p3"
  proof (cases "pi_closed p")
    case True
    with ok grows have "?p3 = ?p2" by (auto simp: pipe_ok_def pipe_grows_def prefix_order.eq_iff)
    then show ?thesis by simp
  next
    case False
    from grows obtain bs where "pi_out p' = pi_out p @ bs" by (auto simp: pipe_grows_def prefix_def)
    with pipe_give [of ?p2 bs] ok(2) False show ?thesis by (auto simp: pipe_ok_def)
  qed
  moreover have "pipe_step\<^sup>*\<^sup>* ?p3 p'"
  proof (cases "pi_closed p' = pi_closed p")
    case True
    then have "p' = ?p3" by simp
    then show ?thesis by simp
  next
    case False
    with grows have c: "pi_closed p'" by (auto simp: pipe_grows_def)
    then have "p' = ?p3\<lparr>pi_closed := True\<rparr>" by simp
    have "pipe_step ?p3 (?p3\<lparr>pi_closed := True\<rparr>)" using ok(2) c by (intro pipe_close) (simp_all add: pipe_ok_def)
    with \<open>p' = _\<close> show ?thesis by (metis r_into_rtranclp)
  qed
  ultimately show ?thesis by (blast intro: rtranclp_trans)
qed

section \<open>Both directions\<close>

inductive duplex_step :: "pipe \<times> pipe \<Rightarrow> pipe \<times> pipe \<Rightarrow> bool" where
  duplex_up: "pipe_step u u' \<Longrightarrow> duplex_step (u, d) (u', d)"
| duplex_down: "pipe_step d d' \<Longrightarrow> duplex_step (u, d) (u, d')"

lemma duplex_up_run: "pipe_step\<^sup>*\<^sup>* u u' \<Longrightarrow> duplex_step\<^sup>*\<^sup>* (u, d) (u', d)"
  by (induction rule: rtranclp_induct) (auto intro: run_then duplex_up)

lemma duplex_down_run: "pipe_step\<^sup>*\<^sup>* d d' \<Longrightarrow> duplex_step\<^sup>*\<^sup>* (u, d) (u, d')"
  by (induction rule: rtranclp_induct) (auto intro: run_then duplex_down)

lemma duplex_run: "pipe_step\<^sup>*\<^sup>* u u' \<Longrightarrow> pipe_step\<^sup>*\<^sup>* d d' \<Longrightarrow> duplex_step\<^sup>*\<^sup>* (u, d) (u', d')"
  by (rule rtranclp_trans [OF duplex_up_run duplex_down_run])

lemma duplex_step_ok: "duplex_step ud ud' \<Longrightarrow> pipe_ok (fst ud) \<and> pipe_ok (snd ud) \<Longrightarrow> pipe_ok (fst ud') \<and> pipe_ok (snd ud')"
  by (induction rule: duplex_step.induct) (auto intro: pipe_step_ok)

interpretation duplex: step_system duplex_step "\<lambda>ud. pipe_ok (fst ud) \<and> pipe_ok (snd ud)"
  by unfold_locales (rule duplex_step_ok)

interpretation upstream: component_system duplex_step "\<lambda>ud. pipe_ok (fst ud) \<and> pipe_ok (snd ud)" pipe_step pipe_ok fst
  by unfold_locales (auto elim: duplex_step.cases)

interpretation downstream: component_system duplex_step "\<lambda>ud. pipe_ok (fst ud) \<and> pipe_ok (snd ud)" pipe_step pipe_ok snd
  by unfold_locales (auto elim: duplex_step.cases)

end
