(* ===== verification/Locked_Pipes.thy ===== *)
theory Locked_Pipes
  imports Locked_Tunnel Tunnel_Props Pipe
begin

text \<open>
  The tunnel at the grain of its locks refines the two pipes of Pipe: from standard input to the target, and from the
  target to standard output. The ends of the streams are part of it: the target is half-closed and standard output
  is closed only when everything has arrived.
\<close>

section \<open>The end of standard input\<close>

text \<open>A fin of the client that a goroutine of the session has in hand is the end of standard input.\<close>

fun fin_ok :: "bool \<Rightarrow> bytes \<Rightarrow> act \<Rightarrow> bool" where
  "fin_ok ended src (Frame conn f p) = (h_type f = ''fin'' \<longrightarrow> ended \<and> unat (h_offset f) = length src)"
| "fin_ok ended src (CheckFin conn f) = (ended \<and> unat (h_offset f) = length src)"
| "fin_ok ended src _ = True"

lemma fin_ok_reject [simp]: "b \<in> set (reject_acts conn m) \<Longrightarrow> fin_ok ended src b"
  by (auto simp: reject_acts_def)

lemma fin_ok_replay: "b \<in> set (replay_acts conn s) \<Longrightarrow> fin_ok ended src b"
  by (auto simp: replay_acts_def data_acts_def split: if_splits)

lemma exec_fin_flag:
  assumes e: "exec a w = (new, keep, w')"
  shows "ss_c2sFin (sw_sess w') = ss_c2sFin (sw_sess w)
    \<or> (\<exists>conn f. a = CheckFin conn f \<and> h_offset f = ss_c2sRx (sw_sess w) \<and> ss_c2sFin (sw_sess w'))"
proof (cases a)
  case (AdvanceAck conn off)
  with e show ?thesis
    by (cases "advanceS2CAckLocked off (sw_sess w)") (auto dest: c2sFin_ack)
next
  case (Resume i f)
  with e show ?thesis
    by (cases "advanceS2CAckLocked (h_s2c_rx f) (sw_sess w)")
       (auto simp: Let_def resume_commit_def dest: c2sFin_ack split: if_splits)
next
  case (Send conn h p oe)
  obtain x v where s: "server_send conn h p w = (x, v)" by fastforce
  with server_send_eq [OF s] e Send show ?thesis by (cases x; cases oe) auto
qed (use e in \<open>auto simp: Let_def client_data_write_def append_s2c_def note_read_def split: if_splits prod.splits\<close>)

lemma exec_fin_new:
  assumes e: "exec a w = (new, keep, w')" and a: "fin_ok ended src a" and b: "b \<in> set new"
  shows "fin_ok ended src b"
proof (cases a)
  case (AdvanceAck conn off)
  with e b show ?thesis by (cases "advanceS2CAckLocked off (sw_sess w)") auto
next
  case (Resume i f)
  with e b show ?thesis
    by (cases "advanceS2CAckLocked (h_s2c_rx f) (sw_sess w)")
       (auto simp: Let_def dest: fin_ok_replay split: if_splits option.splits)
next
  case (Send conn h p oe)
  obtain x v where s: "server_send conn h p w = (x, v)" by fastforce
  with e b Send show ?thesis by (cases x; cases oe) auto
qed (use e a b in \<open>auto simp: Let_def split: if_splits prod.splits option.splits\<close>)

section \<open>The end of the target's stream\<close>

fun close_ok :: "bool \<Rightarrow> bytes \<Rightarrow> bytes \<Rightarrow> client_act \<Rightarrow> bool" where
  "close_ok ended src out (Receive conn f p) = (h_type f = ''fin'' \<longrightarrow> ended \<and> unat (h_offset f) = length src)"
| "close_ok ended src out (CheckServerFin conn f) = (ended \<and> unat (h_offset f) = length src)"
| "close_ok ended src out CloseStdout = (ended \<and> out = src)"
| "close_ok ended src out _ = True"

lemma close_ok_refuse [simp]: "b \<in> set (refuse_acts conn e) \<Longrightarrow> close_ok ended src out b"
  by (auto simp: refuse_acts_def)

lemma close_ok_replay: "b \<in> set (replay_bytes_acts conn rt) \<Longrightarrow> close_ok ended src out b"
  by (auto simp: replay_bytes_acts_def split: if_splits)

lemma close_ok_grows: "close_ok ended src out a \<Longrightarrow> prefix out out' \<Longrightarrow> prefix out' src \<Longrightarrow> close_ok ended src out' a"
  by (cases a) (auto simp: prefix_order.eq_iff)

lemma client_exec_closes:
  assumes e: "client_exec a w = (new, keep, w')"
  shows "sk_closed (cl_stdout w') = sk_closed (cl_stdout w) \<or> (a = CloseStdout \<and> sk_closed (cl_stdout w'))"
proof (cases a)
  case (WriteStdout conn p)
  with e show ?thesis by (auto dest: sink_closed_kept split: prod.splits)
next
  case (AckFromServer off)
  with e show ?thesis by (cases "advanceC2SAckLocked off (cl_rt w)") auto
next
  case (SayHello i r ctx inputs)
  from say_hello_frame [OF e [unfolded SayHello]] show ?thesis by simp
next
  case (ReadHello i r inputs)
  from read_hello_frame [of i r inputs w new keep w'] e ReadHello show ?thesis by simp
next
  case (Commit c)
  with e show ?thesis
    by (cases "advanceC2SAckLocked (h_c2s_rx (ac_accept c)) (cl_rt w)") (auto simp: Let_def split: if_splits)
next
  case (Transmit conn h p oe)
  obtain x v where s: "client_send conn h p w = (x, v)" by fastforce
  with client_send_stdout [OF s] e Transmit show ?thesis by (cases x; cases oe) auto
qed (use e in \<open>auto simp: Let_def appendClientBytes_def markClientFin_def close_stdout_def finish_mark_def split: if_splits option.splits\<close>)

lemma activation_closes: "activation_act b \<Longrightarrow> close_ok ended src out b"
  by (cases b) simp_all

lemma client_exec_close_new:
  assumes e: "client_exec a w = (new, keep, w')" and a: "close_ok ended src (stdout_written w) a" and b: "b \<in> set new"
    and rx: "unat (rt_s2cRx (cl_rt w)) \<le> length (stdout_written w)" and pre: "prefix (stdout_written w) src"
  shows "close_ok ended src (stdout_written w) b"
proof (cases a)
  case (CheckServerFin conn f)
  have "stdout_written w = src" if "h_offset f = rt_s2cRx (cl_rt w)"
    using a rx pre prefix_length_le [OF pre] that unfolding CheckServerFin by (auto simp: prefix_def)
  with e a b CheckServerFin show ?thesis by (auto simp: Let_def split: if_splits)
next
  case (AckFromServer off)
  with e b show ?thesis by (cases "advanceC2SAckLocked off (cl_rt w)") auto
next
  case (SayHello i r ctx inputs)
  from say_hello_frame(4) [OF e [unfolded SayHello] b] show ?thesis by (rule activation_closes)
next
  case (ReadHello i r inputs)
  from read_hello_frame(4) [of i r inputs w new keep w' b] e b ReadHello show ?thesis by (auto intro: activation_closes)
next
  case (Commit c)
  with e b show ?thesis
    by (cases "advanceC2SAckLocked (h_c2s_rx (ac_accept c)) (cl_rt w)") (auto simp: Let_def split: if_splits option.splits)
next
  case (ReplayBytes conn)
  with e b show ?thesis by (auto dest: close_ok_replay)
next
  case (Transmit conn h p oe)
  obtain x v where s: "client_send conn h p w = (x, v)" by fastforce
  with e b Transmit show ?thesis by (cases x; cases oe) auto
qed (use e a b in \<open>auto simp: Let_def appendClientBytes_def split: if_splits option.splits prod.splits\<close>)

section \<open>The refinement\<close>

text \<open>
  The tunnel as two pipes. The upper one ends with the end of standard input and is closed when the session marks the
  half-close of the target; the lower one ends when the target is read no more and is closed with standard output.
\<close>

definition up_pipe :: "locked_client \<times> locked_session \<Rightarrow> pipe" where
  "up_pipe cs = \<lparr>pi_in = cl_stdin (pl_world (fst cs)), pi_ended = rt_c2sFin (cl_rt (pl_world (fst cs))),
     pi_out = target_written (pl_world (snd cs)), pi_closed = ss_c2sFin (sw_sess (pl_world (snd cs)))\<rparr>"

definition down_pipe :: "locked_client \<times> locked_session \<Rightarrow> pipe" where
  "down_pipe cs = \<lparr>pi_in = target_source (pl_world (snd cs)), pi_ended = (ss_reader (sw_sess (pl_world (snd cs))) = ReaderStopped),
     pi_out = stdout_written (pl_world (fst cs)), pi_closed = sk_closed (cl_stdout (pl_world (fst cs)))\<rparr>"

abbreviation ends_known :: "locked_client \<Rightarrow> locked_session \<Rightarrow> bool" where
  "ends_known c s \<equiv> list_all (fin_ok (rt_c2sFin (cl_rt (pl_world c))) (cl_stdin (pl_world c))) (acts s)
     \<and> list_all (close_ok (ss_reader (sw_sess (pl_world s)) = ReaderStopped) (target_source (pl_world s)) (stdout_written (pl_world c))) (acts c)"

definition pipes_inv :: "locked_client \<times> locked_session \<Rightarrow> bool" where
  "pipes_inv cs \<longleftrightarrow> locked_tunnel_inv cs \<and> ends_known (fst cs) (snd cs) \<and> pipe_ok (up_pipe cs) \<and> pipe_ok (down_pipe cs)"

lemma pipes_invD:
  assumes "pipes_inv (c, s)"
  shows "client_locked_inv c" "locked_inv s" "prefix (target_written (pl_world s)) (cl_stdin (pl_world c))"
    "prefix (stdout_written (pl_world c)) (target_source (pl_world s))"
    "unat (rt_s2cRx (cl_rt (pl_world c))) \<le> length (stdout_written (pl_world c))"
    "unat (ss_c2sRx (sw_sess (pl_world s))) \<le> length (target_written (pl_world s))"
  using assms client_ok_rx world_ok_acked
  by (auto simp: pipes_inv_def locked_tunnel_inv_def careful_inv_def careful_client_inv_def delivered_ok_def pool_inv_def simp del: set_concat)

text \<open>A fin on the network is true.\<close>

lemma client_fin_true:
  assumes "client_locked_inv c" and "(f, p) \<in> sent_by_client c" and "h_type f = ''fin''"
  shows "rt_c2sFin (cl_rt (pl_world c)) \<and> unat (h_offset f) = length (cl_stdin (pl_world c))"
  using assms by (fastforce simp: sent_by_client_def pool_inv_def client_ok_def Let_def client_frames_def client_frame_ok_def)

lemma server_fin_true:
  assumes "locked_inv s" and "(f, p) \<in> sent_by_server s" and "h_type f = ''fin''"
  shows "ss_reader (sw_sess (pl_world s)) = ReaderStopped \<and> unat (h_offset f) = length (target_source (pl_world s))"
  using assms by (fastforce simp: sent_by_server_def pool_inv_def world_ok_def Let_def frames_ok_in_def server_frame_ok_def)

lemma fin_ok_later:
  assumes "fin_ok (rt_c2sFin (cl_rt w)) (cl_stdin w) a" and "client_later w w'"
  shows "fin_ok (rt_c2sFin (cl_rt w')) (cl_stdin w') a"
  using assms by (cases a) (auto simp: client_later_def)

lemma close_ok_later:
  assumes "close_ok (ss_reader s = ReaderStopped) (tg_read (ss_target s)) out a" and "later s s'"
  shows "close_ok (ss_reader s' = ReaderStopped) (tg_read (ss_target s')) out a"
  using assms by (cases a) (auto simp: later_def session_grows_def)

text \<open>A step of the client: what its goroutines know about the end of the target's stream, and what closes standard output.\<close>

lemma client_step_ends:
  assumes step: "client_lock_step c c'" and inv: "client_locked_inv c" and pre: "prefix (stdout_written (pl_world c')) src"
    and known: "list_all (close_ok ended src (stdout_written (pl_world c))) (acts c)"
    and net: "\<And>conn f p. Receive conn f p \<in> set (acts c') \<Longrightarrow> Receive conn f p \<notin> set (acts c) \<Longrightarrow>
      h_type f = ''fin'' \<Longrightarrow> ended \<and> unat (h_offset f) = length src"
  shows "list_all (close_ok ended src (stdout_written (pl_world c'))) (acts c')
    \<and> (sk_closed (cl_stdout (pl_world c)) \<longrightarrow> sk_closed (cl_stdout (pl_world c')))
    \<and> (sk_closed (cl_stdout (pl_world c')) \<longrightarrow> sk_closed (cl_stdout (pl_world c)) \<or> ended \<and> stdout_written (pl_world c) = src)"
proof -
  have later: "prefix (stdout_written (pl_world c)) (stdout_written (pl_world c'))"
    using client_step_later [OF step inv] by (simp add: client_later_def)
  have old: "close_ok ended src (stdout_written (pl_world c')) b" if "b \<in> set (acts c)" for b
    using known that close_ok_grows [OF _ later pre] by (auto simp: list_all_iff simp del: set_concat)
  have took: "close_ok ended src (stdout_written (pl_world c')) (Receive conn f p)" if "Receive conn f p \<in> set (acts c')" for conn f p
    using old [of "Receive conn f p"] net [OF that] by (cases "Receive conn f p \<in> set (acts c)") (auto simp del: set_concat)
  from step show ?thesis
  proof cases
    case (cl_run g a todo new keep w')
    have a: "a \<in> set (acts c)" by (rule acts_head [OF cl_run(2,3)])
    then have ok: "close_ok ended src (stdout_written (pl_world c)) a" using known by (simp add: list_all_iff del: set_concat)
    have "client_ok (weights unread (acts c)) (pl_world c)" using inv by (simp add: pool_inv_def)
    note fresh = client_exec_close_new [OF cl_run(4) ok _ client_ok_rx [OF this] prefix_order.trans [OF later pre]]
    have "close_ok ended src (stdout_written (pl_world c')) b" if "b \<in> set (acts c')" for b
      using acts_run [OF cl_run(2,3), of b new keep w'] that old close_ok_grows [OF fresh later pre] unfolding cl_run(1) by blast
    moreover from client_exec_closes [OF cl_run(4)] have "sk_closed (cl_stdout w') = sk_closed (cl_stdout (pl_world c))
        \<or> (sk_closed (cl_stdout w') \<and> ended \<and> stdout_written (pl_world c) = src)" using ok by auto
    ultimately show ?thesis using cl_run(1) by (auto simp: list_all_iff simp del: set_concat)
  next
    case (cl_look ctx todo w')
    have "cl_stdout w' = cl_stdout (pl_world c)" "\<forall>b \<in> set todo. close_ok ended src out b" for out
      using cl_look(3) by (auto simp: stdin_look_def split: stdin_state.splits wait_result.splits)
    with cl_look old show ?thesis by (auto dest!: acts_start simp: list_all_iff simp del: set_concat)
  next
    case (cl_receive conn f p)
    have "Receive conn f p \<in> set (acts c')" unfolding cl_receive(1) by (rule acts_put_new [OF cl_receive(2)]) simp
    from took [OF this] cl_receive old show ?thesis by (auto dest!: acts_start simp: list_all_iff simp del: set_concat)
  qed (use old in \<open>auto dest!: acts_start simp: list_all_iff raw_close_def simp del: set_concat\<close>)
qed

text \<open>A step of the session: what its goroutines know about the end of standard input, and what marks the half-close.\<close>

lemma session_step_ends:
  assumes step: "lock_step s s'" and inv: "locked_inv s" and pre: "prefix (target_written (pl_world s)) src"
    and known: "list_all (fin_ok ended src) (acts s)"
    and net: "\<And>conn f p. Frame conn f p \<in> set (acts s') \<Longrightarrow> Frame conn f p \<notin> set (acts s) \<Longrightarrow>
      h_type f = ''fin'' \<Longrightarrow> ended \<and> unat (h_offset f) = length src"
  shows "list_all (fin_ok ended src) (acts s')
    \<and> (ss_c2sFin (sw_sess (pl_world s)) \<longrightarrow> ss_c2sFin (sw_sess (pl_world s')))
    \<and> (ss_c2sFin (sw_sess (pl_world s')) \<longrightarrow> ss_c2sFin (sw_sess (pl_world s)) \<or> ended \<and> target_written (pl_world s) = src)"
proof -
  have old: "fin_ok ended src b" if "b \<in> set (acts s)" for b
    using known that by (simp add: list_all_iff del: set_concat)
  have took: "fin_ok ended src (Frame conn f p)" if "Frame conn f p \<in> set (acts s')" for conn f p
    using old [of "Frame conn f p"] net [OF that] by (cases "Frame conn f p \<in> set (acts s)") (auto simp del: set_concat)
  from step show ?thesis
  proof cases
    case (lk_run g a todo new keep w')
    have ok: "fin_ok ended src a" by (rule old [OF acts_head [OF lk_run(2,3)]])
    have "world_ok (weights pending (acts s)) (pl_world s)" using inv by (simp add: pool_inv_def)
    note rx = world_ok_acked [OF this]
    have all: "target_written (pl_world s) = src" if "a = CheckFin conn f" "h_offset f = ss_c2sRx (sw_sess (pl_world s))" for conn f
      using ok rx prefix_length_le [OF pre] pre that by (auto simp: prefix_def)
    have "fin_ok ended src b" if "b \<in> set (acts s')" for b
      using acts_run [OF lk_run(2,3), of b new keep w'] that old exec_fin_new [OF lk_run(4) ok] unfolding lk_run(1) by blast
    moreover from exec_fin_flag [OF lk_run(4)] have "ss_c2sFin (sw_sess w') = ss_c2sFin (sw_sess (pl_world s))
        \<or> ss_c2sFin (sw_sess w') \<and> ended \<and> target_written (pl_world s) = src" using ok all by auto
    ultimately show ?thesis using lk_run(1) by (auto simp: list_all_iff simp del: set_concat)
  next
    case (lk_frame conn f p)
    have "Frame conn f p \<in> set (acts s')" unfolding lk_frame(1) by (rule acts_put_new [OF lk_frame(2)]) simp
    from took [OF this] lk_frame old show ?thesis by (auto dest!: acts_start simp: list_all_iff simp del: set_concat)
  next
    case lk_check
    have "ss_c2sFin (sw_sess (reader_check w)) = ss_c2sFin (sw_sess w)" for w by (simp add: reader_check_def)
    with lk_check old show ?thesis by (auto dest!: acts_start simp: list_all_iff simp del: set_concat)
  qed (use old in \<open>auto dest!: acts_start simp: list_all_iff simp del: set_concat\<close>)
qed

lemma tunnel_step_pipes:
  assumes "locked_tunnel_step cs cs'" and inv: "pipes_inv cs"
  shows "pipes_inv cs' \<and> pipe_grows (up_pipe cs) (up_pipe cs') \<and> pipe_grows (down_pipe cs) (down_pipe cs')"
proof -
  have "locked_tunnel_inv cs'" using inv locked_tunnel_step_inv [OF assms(1)] by (simp add: pipes_inv_def)
  note pre = this [unfolded locked_tunnel_inv_def careful_inv_def careful_client_inv_def delivered_ok_def] and lt = this
  from assms(1) show ?thesis
  proof cases
    case (lt_client c c' s)
    note i = pipes_invD [OF inv [unfolded lt_client(1)]]
    note later = client_step_later [OF lt_client(3) i(1)]
    have k: "ends_known c s" "pipe_ok (up_pipe (c, s))" "pipe_ok (down_pipe (c, s))"
      using inv lt_client(1) by (simp_all add: pipes_inv_def del: set_concat)
    have out: "prefix (stdout_written (pl_world c')) (target_source (pl_world s))" "prefix (target_written (pl_world s)) (cl_stdin (pl_world c'))"
      using pre lt_client(2) by simp_all
    from k(1) client_step_ends [OF lt_client(3) i(1) out(1), of "ss_reader (sw_sess (pl_world s)) = ReaderStopped"]
      lt_client(5) server_fin_true [OF i(2)]
    have e: "list_all (close_ok (ss_reader (sw_sess (pl_world s)) = ReaderStopped) (target_source (pl_world s)) (stdout_written (pl_world c'))) (acts c')"
      "sk_closed (cl_stdout (pl_world c)) \<longrightarrow> sk_closed (cl_stdout (pl_world c'))"
      "sk_closed (cl_stdout (pl_world c')) \<longrightarrow> sk_closed (cl_stdout (pl_world c))
         \<or> ss_reader (sw_sess (pl_world s)) = ReaderStopped \<and> stdout_written (pl_world c) = target_source (pl_world s)"
      by blast+
    have "list_all (fin_ok (rt_c2sFin (cl_rt (pl_world c'))) (cl_stdin (pl_world c'))) (acts s)"
      using k(1) fin_ok_later [OF _ later] by (auto simp: list_all_iff simp del: set_concat)
    with e k later out lt lt_client(2) show ?thesis unfolding lt_client(1)
      by (auto simp: pipes_inv_def pipe_grows_def pipe_ok_def up_pipe_def down_pipe_def client_later_def prefix_order.eq_iff simp del: set_concat)
  next
    case (lt_server s s' c)
    note i = pipes_invD [OF inv [unfolded lt_server(1)]]
    note later = session_step_later [OF lt_server(3) i(2)]
    have k: "ends_known c s" "pipe_ok (up_pipe (c, s))" "pipe_ok (down_pipe (c, s))"
      using inv lt_server(1) by (simp_all add: pipes_inv_def del: set_concat)
    have out: "prefix (stdout_written (pl_world c)) (target_source (pl_world s'))" "prefix (target_written (pl_world s')) (cl_stdin (pl_world c))"
      using pre lt_server(2) by simp_all
    from k(1) session_step_ends [OF lt_server(3) i(2,3), of "rt_c2sFin (cl_rt (pl_world c))"]
      lt_server(5) client_fin_true [OF i(1)]
    have e: "list_all (fin_ok (rt_c2sFin (cl_rt (pl_world c))) (cl_stdin (pl_world c))) (acts s')"
      "ss_c2sFin (sw_sess (pl_world s)) \<longrightarrow> ss_c2sFin (sw_sess (pl_world s'))"
      "ss_c2sFin (sw_sess (pl_world s')) \<longrightarrow> ss_c2sFin (sw_sess (pl_world s))
         \<or> rt_c2sFin (cl_rt (pl_world c)) \<and> target_written (pl_world s) = cl_stdin (pl_world c)"
      by blast+
    have "list_all (close_ok (ss_reader (sw_sess (pl_world s')) = ReaderStopped) (target_source (pl_world s')) (stdout_written (pl_world c))) (acts c)"
      using k(1) close_ok_later [OF _ later] by (auto simp: list_all_iff simp del: set_concat)
    with e k later out lt lt_server(2) show ?thesis unfolding lt_server(1)
      by (auto simp: pipes_inv_def pipe_grows_def pipe_ok_def up_pipe_def down_pipe_def later_def session_grows_def prefix_order.eq_iff simp del: set_concat)
  qed
qed

interpretation pipes: refinement locked_tunnel_step pipes_inv duplex_step "\<lambda>cs. (up_pipe cs, down_pipe cs)"
proof
  fix cs cs' assume "locked_tunnel_step cs cs'" "pipes_inv cs"
  then show "pipes_inv cs'" using tunnel_step_pipes by blast
next
  fix cs cs' assume inv: "pipes_inv cs" and step: "locked_tunnel_step cs cs'"
  from tunnel_step_pipes [OF step inv] inv show "duplex_step\<^sup>*\<^sup>* (up_pipe cs, down_pipe cs) (up_pipe cs', down_pipe cs')"
    by (intro duplex_run pipe_run) (simp_all add: pipes_inv_def)
qed

lemma start_acts: "acts (start_client cfg lkg half n) = []"
    "b \<in> set (acts (accept_new scfg now sid i m)) \<Longrightarrow> fin_ok ended src b"
proof -
  show "acts (start_client cfg lkg half n) = []" by (simp add: start_client_def)
  assume b: "b \<in> set (acts (accept_new scfg now sid i m))"
  show "fin_ok ended src b"
  proof (cases "Suc i < m")
    case True
    then have "idle (Suc i) \<lparr>pl_world = fresh_world scfg now sid i, pl_todo = replicate m ([] :: act list)\<rparr>" by (simp add: idle_def)
    from acts_start [OF this b [unfolded accept_new_def]] show ?thesis by auto
  next
    case False
    with b show ?thesis by (simp add: accept_new_def put_def list_update_beyond)
  qed
qed

lemma start_pipes:
  "up_pipe (start_client cfg lkg half n, accept_new scfg now sid i m) = empty_pipe"
  "down_pipe (start_client cfg lkg half n, accept_new scfg now sid i m) = empty_pipe"
  by (simp_all add: up_pipe_def down_pipe_def empty_pipe_def start_client_def accept_new_def fresh_client_def newClientRuntime_def
      fresh_world_def open_session_def newServerSession_def)

lemma start_pipes_inv:
  assumes "0 < rc_buffer (cfg_resume ccfg)" and "0 < rc_buffer scfg"
  shows "pipes_inv (start_client ccfg lkg half n, accept_new scfg now sid i m)"
proof -
  have "list_all P (acts (start_client ccfg lkg half n))" for P by (simp only: start_acts list.pred_inject)
  with start_client_careful [OF assms(1)] accept_new_careful [OF assms(2)] start_acts(2) show ?thesis
    by (simp add: pipes_inv_def locked_tunnel_inv_def start_pipes list_all_iff del: set_concat)
qed

text \<open>
  C1. The tunnel implements two reliable pipes. Every run of client and session in which neither side has two deliveries
  under way at once (Server_Races shows what happens otherwise), at the grain of their locks and over a network that loses,
  repeats and reorders frames, is a run of the two pipes: input is taken until its end, given out in order without gaps or
  repetitions, and the end of the stream is passed on only after the last byte. No connection, resume, replay, path switch or
  interleaving of the other stretches shows.
\<close>

theorem locked_tunnel_refines_pipes:
  assumes "0 < rc_buffer (cfg_resume ccfg)" and "0 < rc_buffer scfg"
    and "locked_tunnel_step\<^sup>*\<^sup>* (start_client ccfg lkg half n, accept_new scfg now sid i m) (c, s)"
  shows "duplex_step\<^sup>*\<^sup>* (empty_pipe, empty_pipe) (up_pipe (c, s), down_pipe (c, s))"
  using pipes.run_refines [OF assms(3) start_pipes_inv [OF assms(1,2)]] by (simp only: start_pipes)

theorem locked_tunnel_refines_pipes_witness:
  "\<exists>c s. duplex_step\<^sup>*\<^sup>* (empty_pipe, empty_pipe) (up_pipe (c, s), down_pipe (c, s)) \<and> pi_out (up_pipe (c, s)) = [7, 8]"
proof -
  obtain c s where run: "locked_tunnel_step\<^sup>*\<^sup>* (start_client demo_client_cfg None False 2, accept_new demo_cfg 0 ''s'' 0 2) (c, s)"
    and w: "target_written (pl_world s) = [7, 8]" by (rule demo_tunnel_run)
  from w have "pi_out (up_pipe (c, s)) = [7, 8]" by (simp add: up_pipe_def)
  with locked_tunnel_refines_pipes [OF demo_cfg_positive demo_server_positive run] show ?thesis by blast
qed

end
