(* ===== verification/Connect_Props.thy ===== *)
theory Connect_Props
  imports Connect Client_Props
begin

text \<open>
  What activation keeps: every function of \<open>Connect\<close> is a run of the client's step relation, so the
  invariants of the runtime hold after it; and every WebSocket it touched is closed in the end or is the
  active connection.
\<close>

section \<open>Activation refines the step relation\<close>

abbreviation client_run :: "client_world \<Rightarrow> client_world \<Rightarrow> bool" where
  "client_run \<equiv> client_step\<^sup>*\<^sup>*"

named_theorems client_runs \<open>the operations as runs of the client\<close>

lemma client_run_refl [client_runs]: "client_run w w"
  by simp

lemma client_run_step: "client_step w w' \<Longrightarrow> client_run w w'"
  by (rule r_into_rtranclp)

lemma client_run_trans: "client_run w w1 \<Longrightarrow> client_run w1 w2 \<Longrightarrow> client_run w w2"
  by (rule rtranclp_trans)

lemma run_raw_close [client_runs]: "client_run w (raw_close i w)"
  by (rule client_run_step [OF cs_close])

lemma run_candidate_close: "candidate_close closeErr c w = (e, c', w') \<Longrightarrow> client_run w w'"
  by (auto simp: candidate_close_def run_raw_close split: option.splits)

lemma run_close_each: "close_each closeErr cs w = (es, cs', w') \<Longrightarrow> client_run w w'"
proof (induction closeErr cs w arbitrary: es cs' w' rule: close_each.induct)
  case (2 closeErr c cs w)
  obtain e c1 w1 where c: "candidate_close closeErr c w = (e, c1, w1)" by (cases "candidate_close closeErr c w") auto
  obtain es1 cs1 w2 where r: "close_each closeErr cs w1 = (es1, cs1, w2)" by (cases "close_each closeErr cs w1") auto
  have "client_run w1 w2" by (rule "2.IH" [OF c [symmetric] refl r])
  with run_candidate_close [OF c] have "client_run w w2" by (rule client_run_trans)
  with 2(2) c r show ?case by simp
qed simp

lemma run_closeProbeCandidates [client_runs]: "client_run w (snd (snd (closeProbeCandidates closeErr cs w)))"
proof -
  obtain es cs' w' where r: "close_each closeErr cs w = (es, cs', w')" by (cases "close_each closeErr cs w") auto
  with run_close_each [OF r] show ?thesis by (simp add: closeProbeCandidates_def)
qed

lemma run_raw_ping: "raw_send i (ping_header nonce sent) [] w = (e, w') \<Longrightarrow> client_run w w'"
  using client_run_step [OF cs_probe, of w i nonce sent] by simp

lemma run_probe: "probePathCandidate timeout closeErr r inp w = (oc, w') \<Longrightarrow> client_run w w'"
proof -
  assume Pair: "probePathCandidate timeout closeErr r inp w = (oc, w')"
  let ?h = "ping_header (pi_nonce inp) (pi_ping_at inp)"
  have ping: "client_run w (snd (raw_send i ?h [] w))" for i
    by (rule client_run_step [OF cs_probe])
  show ?thesis
  proof (cases oc)
    case (Some c)
    with Pair have "probePathCandidate timeout closeErr r inp w = (Some c, w')" by simp
    then show ?thesis
    proof (cases rule: probePathCandidate_cases)
      case (2 i e v)
      then have "client_run w v" using ping by auto
      with 2(4) run_raw_close [of v i] show ?thesis by (auto intro: client_run_trans)
    qed (use ping in auto)
  next
    case None
    with Pair show ?thesis
      by (auto simp: probePathCandidate_def Let_def dest: run_raw_ping split: sum.splits option.splits prod.splits if_splits)
  qed
qed

lemma run_stream: "streamProbeCandidates timeout closeErr runs w = (cs, w') \<Longrightarrow> client_run w w'"
proof (induction timeout closeErr runs w arbitrary: cs w' rule: streamProbeCandidates.induct)
  case (2 timeout closeErr r inp runs w)
  obtain oc w1 where p: "probePathCandidate timeout closeErr r inp w = (oc, w1)" by fastforce
  obtain cs1 w2 where s: "streamProbeCandidates timeout closeErr runs w1 = (cs1, w2)" by fastforce
  have "client_run w1 w2" using 2(1,2) p s by (cases oc) auto
  with run_probe [OF p] have "client_run w w2" by (rule client_run_trans)
  with p s 2(3) show ?case by (cases oc) simp_all
qed simp

lemma run_probeBatch: "probeBatch timeout closeErr paths ctx runs w = (r, w') \<Longrightarrow> client_run w w'"
proof -
  assume b: "probeBatch timeout closeErr paths ctx runs w = (r, w')"
  obtain ocs w1 where s: "streamProbeCandidates timeout closeErr runs w = (ocs, w1)" by fastforce
  note w1 = run_stream [OF s]
  obtain e cs' w2 where c: "closeProbeCandidates closeErr (rankProbeCandidates (the ocs)) w1 = (e, cs', w2)"
    by (cases "closeProbeCandidates closeErr (rankProbeCandidates (the ocs)) w1") auto
  then have "client_run w w2"
    using client_run_trans [OF w1 run_closeProbeCandidates, of closeErr "rankProbeCandidates (the ocs)"] by simp
  with s w1 c b show ?thesis by (auto simp: probeBatch_def Let_def split: option.splits if_splits)
qed

lemma run_commit: "commitActivation c w = (e, w') \<Longrightarrow> client_run w w'"
  using client_run_step [OF cs_commit, of w c] by simp

lemma run_startSession: "startSession i r ctx ctx' inputs w = (x, w') \<Longrightarrow> request_taken r (cl_rt w) \<Longrightarrow> client_run w w'"
  using client_run_step [OF cs_hello, of r w i ctx ctx' inputs] by simp

lemma run_start_and_commit:
  assumes "start_and_commit i path resume request s w = (x, w')" and t: "request_taken request (cl_rt w)"
  shows "client_run w w'"
proof -
  obtain r w1 where h: "startSession i request (sr_ctx s) (sr_write_ctx s) (sr_inputs s) w = (r, w1)" by fastforce
  note w1 = run_startSession [OF h t]
  have "client_run w v" if "commitActivation c w1 = (e, v)" for c e v
    using w1 run_commit [OF that] by (rule client_run_trans)
  with w1 h assms(1) show ?thesis
    by (auto simp: start_and_commit_def split: option.splits sum.splits prod.splits)
qed

lemma run_activate: "activate path resume run w = (x, w') \<Longrightarrow> client_run w w'"
  by (auto simp: activate_def activateDirect_def Let_def dest!: run_start_and_commit [OF _ request_taken_now]
      split: sum.splits option.splits prod.splits)

lemma run_promote: "promoteCandidate c request s w = (x, c', w') \<Longrightarrow> client_run w w'"
  by (auto simp: promoteCandidate_def candidate_transfer_def dest!: run_start_and_commit [OF _ request_taken_now]
      split: sum.splits option.splits prod.splits if_splits)

lemma run_activateCandidateFor: "activateCandidateFor closeErr request s w = (x, c', w') \<Longrightarrow> client_run w w'"
  by (auto simp: activateCandidateFor_def dest!: run_promote run_candidate_close split: option.splits prod.splits if_splits)

lemma run_activateCandidate: "activateCandidate closeErr c resume s w = (r, c', w') \<Longrightarrow> client_run w w'"
  by (auto simp: activateCandidate_def dest!: run_activateCandidateFor split: prod.splits)

lemma run_try_candidates:
  "try_candidates closeErr resume sess cs lastErr failed w = (r, cs', w') \<Longrightarrow> client_run w w'"
proof (induction closeErr resume sess cs lastErr failed w arbitrary: r cs' w' rule: try_candidates.induct)
  case (2 closeErr resume sess c cs lastErr failed w)
  obtain x c1 w1 where a: "activateCandidate closeErr c resume (sess c) w = (x, c1, w1)"
    by (cases "activateCandidate closeErr c resume (sess c) w") auto
  note w1 = run_activateCandidate [OF a]
  show ?case
  proof (cases "pb_err c")
    case (Some e)
    with 2 show ?thesis by (auto split: prod.splits)
  next
    case None
    show ?thesis
    proof (cases "\<exists>e. x = Some (Some e)")
      case True
      then obtain e where x: "x = Some (Some e)" by blast
      obtain r2 cs2 w2 where t: "try_candidates closeErr resume sess cs (Some e) failed w1 = (r2, cs2, w2)"
        by (cases "try_candidates closeErr resume sess cs (Some e) failed w1") auto
      have "client_run w1 w2" using 2(2) None a x t by auto
      with w1 have "client_run w w2" by (rule client_run_trans)
      with 2(3) None a x t show ?thesis by simp
    next
      case False
      with 2(3) None a w1 show ?thesis by (auto split: option.splits)
    qed
  qed
qed simp

lemma run_try_paths: "try_paths resume direct paths lastErr w = (r, w') \<Longrightarrow> client_run w w'"
proof (induction resume direct paths lastErr w rule: try_paths.induct)
  case (2 resume direct path paths lastErr w)
  obtain x w1 where a: "activate path resume (direct path) w = (x, w1)" by fastforce
  note w1 = run_activate [OF a]
  show ?case
  proof (cases "\<exists>e. x = Some (Some e)")
    case True
    with 2 a have "client_run w1 w'" by auto
    with w1 show ?thesis by (rule client_run_trans)
  next
    case False
    with 2(2) a w1 show ?thesis by (auto split: option.splits)
  qed
qed simp

lemma run_close_after: "client_run w v \<Longrightarrow> client_run w (snd (snd (closeProbeCandidates closeErr cs v)))"
  by (rule client_run_trans [OF _ run_closeProbeCandidates])

lemma run_ranked: "activateRankedCandidates closeErr resume sess direct cs w = (x, w') \<Longrightarrow> client_run w w'"
proof -
  assume r: "activateRankedCandidates closeErr resume sess direct cs w = (x, w')"
  obtain t cs1 w1 where t: "try_candidates closeErr resume sess cs None [] w = (t, cs1, w1)"
    by (cases "try_candidates closeErr resume sess cs None [] w") auto
  note w1 = run_try_candidates [OF t]
  show ?thesis
  proof (cases t)
    case (Exhausted lf)
    obtain l f where lf: "lf = (l, f)" by (cases lf)
    obtain u w2 where p: "try_paths resume direct f l w1 = (u, w2)" by fastforce
    have "client_run w w2" using w1 run_try_paths [OF p] by (rule client_run_trans)
    with r t Exhausted lf p run_close_after [of w w2 closeErr cs1] show ?thesis
      by (auto simp: activateRankedCandidates_def split: tries.splits)
  qed (use r t w1 run_close_after [of w w1 closeErr cs1] in \<open>auto simp: activateRankedCandidates_def\<close>)
qed

lemma run_drain: "client_run w (drainProbeCandidates timeout closeErr runs w)"
proof (induction timeout closeErr runs w rule: drainProbeCandidates.induct)
  case (2 timeout closeErr r inp runs w)
  obtain oc w1 where p: "probePathCandidate timeout closeErr r inp w = (oc, w1)" by fastforce
  note w1 = run_probe [OF p]
  show ?case
  proof (cases oc)
    case (Some c)
    obtain e c1 w2 where c: "candidate_close closeErr c w1 = (e, c1, w2)" by (cases "candidate_close closeErr c w1") auto
    have "client_run w2 (drainProbeCandidates timeout closeErr runs w2)" using 2 p Some c by simp
    with w1 run_candidate_close [OF c] Some p c show ?thesis by (auto intro: client_run_trans)
  qed (use p w1 in simp)
qed simp

lemma run_first_available:
  "first_available timeout closeErr resume sess runs lastErr failed w = (t, w') \<Longrightarrow> client_run w w'"
proof (induction timeout closeErr resume sess runs lastErr failed w rule: first_available.induct)
  case (2 timeout closeErr resume sess r inp runs lastErr failed w)
  obtain oc w1 where p: "probePathCandidate timeout closeErr r inp w = (oc, w1)" by fastforce
  note w1 = run_probe [OF p]
  show ?case
  proof (cases oc)
    case None
    with 2(3) p w1 show ?thesis by simp
  next
    case (Some c)
    show ?thesis
    proof (cases "pb_err c")
      case e: (Some e)
      with 2(1,3) p Some have "client_run w1 w'" by auto
      with w1 show ?thesis by (rule client_run_trans)
    next
      case None
      obtain x c1 w2 where a: "activateCandidate closeErr c resume (sess c) w1 = (x, c1, w2)"
        by (cases "activateCandidate closeErr c resume (sess c) w1") auto
      note w2 = client_run_trans [OF w1 run_activateCandidate [OF a]]
      show ?thesis
      proof (cases "\<exists>e. x = Some (Some e)")
        case True
        with 2(2,3) p Some None a have "client_run w2 w'" by auto
        with w2 show ?thesis by (rule client_run_trans)
      next
        case False
        with 2(3) p Some None a w2 client_run_trans [OF w2 run_drain] show ?thesis by (auto split: option.splits)
      qed
    qed
  qed
qed simp

lemma run_first: "activateFirstAvailable timeout closeErr ctx resume sess direct runs w = (x, w') \<Longrightarrow> client_run w w'"
proof -
  assume r: "activateFirstAvailable timeout closeErr ctx resume sess direct runs w = (x, w')"
  obtain t w1 where t: "first_available timeout closeErr resume sess runs None [] w = (t, w1)" by fastforce
  note w1 = run_first_available [OF t]
  have "client_run w v" if "activateRankedCandidates closeErr resume sess direct cs w1 = (y, v)" for cs y v
    using w1 run_ranked [OF that] by (rule client_run_trans)
  with r t w1 show ?thesis by (auto simp: activateFirstAvailable_def split: tries.splits if_splits)
qed

lemma run_connectAny:
  assumes "connectAny timeout closeErr ctx pctx resume lkgRun sess direct runs w = (x, w')"
  shows "client_run w w'"
proof (cases "rt_lastKnownGood (cl_rt w)")
  case None
  with assms run_first show ?thesis by (auto simp: connectAny_def)
next
  case (Some lkg)
  let ?paths = "pathsExcept (cfg_paths (cl_cfg w)) (pc_name lkg)"
  obtain y w1 where a: "activate lkg resume lkgRun w = (y, w1)" by fastforce
  obtain oc w2 where b: "probeBatch timeout closeErr ?paths pctx runs w1 = (oc, w2)" by fastforce
  note w1 = run_activate [OF a] and w2 = client_run_trans [OF run_activate [OF a] run_probeBatch [OF b]]
  have drain: "client_run w (drainProbeBatch closeErr oc w2)"
    using w2 run_close_after [OF w2] by (auto simp: drainProbeBatch_def split: option.split)
  have ranked: "client_run w v" if "activateRankedCandidates closeErr resume sess direct cs w2 = (z, v)" for cs z v
    using w2 run_ranked [OF that] by (rule client_run_trans)
  from assms Some a b w1 w2 drain ranked show ?thesis
    by (auto simp: connectAny_def Let_def split: option.splits if_splits)
qed

section \<open>No socket is forgotten\<close>

text \<open>A connection whose \<open>closeOnce\<close> has run has closed its socket.\<close>

definition closes_ok :: "client_world \<Rightarrow> bool" where
  "closes_ok w \<longleftrightarrow> (\<forall>i. cl_closed w i \<longrightarrow> ws_closed (cl_ws w i))"

text \<open>
  Relative to the world at the start: a socket is as it was, or closed, or in the set \<open>T\<close> of those that
  somebody still owns.
\<close>

definition accounted :: "client_world \<Rightarrow> nat set \<Rightarrow> client_world \<Rightarrow> bool" where
  "accounted w0 T w \<longleftrightarrow> closes_ok w \<and> (\<forall>i. cl_ws w i = cl_ws w0 i \<or> ws_closed (cl_ws w i) \<or> i \<in> T)"

lemma accounted_refl: "closes_ok w \<Longrightarrow> accounted w T w"
  by (simp add: accounted_def)

lemma accounted_mono: "accounted w0 T w \<Longrightarrow> T \<subseteq> T' \<Longrightarrow> accounted w0 T' w"
  by (auto simp: accounted_def)

lemma accounted_close_set: "accounted w0 (S \<union> T) w \<Longrightarrow> accounted w0 T (close_set S w)"
  by (auto simp: accounted_def closes_ok_def) (auto simp: close_set_def)

lemma accounted_raw_close: "accounted w0 (insert i T) w \<Longrightarrow> accounted w0 T (raw_close i w)"
  using accounted_close_set [of w0 "{i}" T w] by (simp add: raw_close_set)

lemma accounted_raw_close': "accounted w0 T w \<Longrightarrow> accounted w0 T (raw_close i w)"
  by (rule accounted_raw_close [OF accounted_mono]) auto

text \<open>A write on socket \<open>i\<close>.\<close>

lemma accounted_write:
  assumes "accounted w0 T w" and "w' = w\<lparr>cl_ws := (cl_ws w)(i := s)\<rparr>" and "ws_closed s = ws_closed (cl_ws w i)"
  shows "accounted w0 (insert i T) w'"
  using assms by (auto simp: accounted_def closes_ok_def)

lemma ws_send_closed_eq: "ws_send h p s = (e, s') \<Longrightarrow> ws_closed s' = ws_closed s"
  using ws_send_closed [of h p s] by simp

lemma accounted_raw_send: "raw_send i h p w = (e, w') \<Longrightarrow> accounted w0 T w \<Longrightarrow> accounted w0 (insert i T) w'"
  by (auto simp: raw_send_def dest: ws_send_closed_eq intro!: accounted_write [OF _ refl] split: prod.splits)

lemma accounted_client_send:
  "client_send conn h p w = (e, w') \<Longrightarrow> accounted w0 T w \<Longrightarrow> accounted w0 (insert (cc_ws conn) T) w'"
  by (auto simp: client_send_def dest: ws_send_closed_eq intro!: accounted_write [OF _ refl] split: prod.splits)

lemma accounted_cong: "accounted w0 T w \<Longrightarrow> cl_ws w' = cl_ws w \<Longrightarrow> cl_closed w' = cl_closed w \<Longrightarrow> accounted w0 T w'"
  by (simp add: accounted_def closes_ok_def)

lemma accounted_conn_close: "accounted w0 (insert (cc_ws conn) T) w \<Longrightarrow> accounted w0 T (conn_close conn w)"
  by (auto simp: conn_close_def accounted_def closes_ok_def Let_def)

lemma accounted_conn_close': "accounted w0 T w \<Longrightarrow> accounted w0 T (conn_close conn w)"
  by (rule accounted_conn_close [OF accounted_mono]) auto

lemma accounted_dropActive: "accounted w0 (insert (cc_ws conn) T) w \<Longrightarrow> accounted w0 T (dropActive conn w)"
  unfolding dropActive_def by (rule accounted_conn_close) (auto elim: accounted_cong)

lemma accounted_chunk_loop:
  assumes "accounted w0 (insert (cc_ws conn) T) w"
  shows "accounted w0 (insert (cc_ws conn) T)
     (snd (chunk_loop (\<lambda>off p. client_send conn (c2s_data_header sid off) p) off buf w))"
proof -
  have "accounted w0 (insert (cc_ws conn) T) (snd (send_all (\<lambda>off p. client_send conn (c2s_data_header sid off) p) cs w))" for cs
  proof (rule send_all_invariant)
    fix off p and v
    assume v: "accounted w0 (insert (cc_ws conn) T) v"
    obtain e v' where s: "client_send conn (c2s_data_header sid off) p v = (e, v')" by fastforce
    from accounted_client_send [OF this v] s
    show "accounted w0 (insert (cc_ws conn) T) (snd (client_send conn (c2s_data_header sid off) p v))" by simp
  qed (use assms in simp)
  then show ?thesis by (simp add: chunk_loop_send_all)
qed

lemma accounted_replay:
  assumes r: "replayClientBytes conn w = (e, w')" and acc: "accounted w0 (insert (cc_ws conn) T) w"
  shows "accounted w0 (insert (cc_ws conn) T) w'" "e \<noteq> None \<Longrightarrow> accounted w0 T w'"
    "e = None \<Longrightarrow> cl_rt w' = cl_rt w"
proof -
  let ?sid = "rt_sessionID (cl_rt w)" and ?fin = "c2s_fin_header (rt_sessionID (cl_rt w)) (rt_c2sFinAt (cl_rt w))"
  obtain e1 w1 where c: "chunk_loop (\<lambda>off p. client_send conn (c2s_data_header ?sid off) p)
      (rt_c2sBufFrom (cl_rt w)) (rt_c2sBuf (cl_rt w)) w = (e1, w1)" by fastforce
  have w1: "accounted w0 (insert (cc_ws conn) T) w1" using accounted_chunk_loop [OF acc] c by (metis snd_conv)
  obtain e2 w2 where f: "client_send conn ?fin [] w1 = (e2, w2)" by fastforce
  have w2: "accounted w0 (insert (cc_ws conn) T) w2" using accounted_client_send [OF f w1] by simp
  have rt1: "cl_rt w1 = cl_rt w"
  proof -
    have "cl_rt (snd (send_all (\<lambda>off p. client_send conn (c2s_data_header ?sid off) p) cs w)) = cl_rt w" for cs
      by (rule send_all_invariant) simp_all
    with c show ?thesis by (metis chunk_loop_send_all snd_conv)
  qed
  have rt2: "cl_rt w2 = cl_rt w1" using client_send_eq [OF f] by simp
  note d1 = accounted_dropActive [OF w1] and d2 = accounted_dropActive [OF w2]
  have d1': "accounted w0 (insert (cc_ws conn) T) (dropActive conn w1)" "accounted w0 (insert (cc_ws conn) T) (dropActive conn w2)"
    using d1 d2 by (auto elim: accounted_mono)
  show "accounted w0 (insert (cc_ws conn) T) w'" "e \<noteq> None \<Longrightarrow> accounted w0 T w'" "e = None \<Longrightarrow> cl_rt w' = cl_rt w"
    using r c f w1 w2 d1 d2 d1' rt1 rt2 by (auto simp: replayClientBytes_def Let_def split: option.splits if_splits)
qed

text \<open>The connection that is active sits on socket \<open>i\<close>.\<close>

definition active_on :: "nat \<Rightarrow> client_world \<Rightarrow> bool" where
  "active_on i w \<longleftrightarrow> (\<exists>c. rt_active (cl_rt w) = Some c \<and> cc_ws c = i)"

lemma accounted_commit:
  assumes r: "commitActivation c w = (e, w')" and acc: "accounted w0 (insert (cc_ws (ac_conn c)) T) w"
  shows "accounted w0 (insert (cc_ws (ac_conn c)) T) w'" "e \<noteq> None \<Longrightarrow> accounted w0 T w'"
    "e = None \<Longrightarrow> active_on (cc_ws (ac_conn c)) w'"
proof -
  obtain e1 w1 where p: "commit_publish c w = (e1, w1)" by fastforce
  have "(e1 \<noteq> None \<and> accounted w0 T w1) \<or> (e1 = None \<and> accounted w0 (insert (cc_ws (ac_conn c)) T) w1
      \<and> rt_active (cl_rt w1) = Some (ac_conn c))"
  proof (cases e1)
    case (Some x)
    with p have "w1 = conn_close (ac_conn c) w"
      by (auto simp: commit_publish_def Let_def split: if_splits sum.splits)
    with Some accounted_conn_close [OF acc] show ?thesis by simp
  next
    case None
    with p obtain rt1 where w1: "w1 = (case rt_active (cl_rt w) of
        None \<Rightarrow> w\<lparr>cl_rt := commit_state c (cl_now w) rt1, cl_saved := cl_saved w @ [pc_name (ac_path c)]\<rparr>
      | Some old \<Rightarrow> conn_close old (w\<lparr>cl_rt := commit_state c (cl_now w) rt1, cl_saved := cl_saved w @ [pc_name (ac_path c)]\<rparr>))"
      by (auto simp: commit_publish_def Let_def split: if_splits sum.splits)
    let ?v = "w\<lparr>cl_rt := commit_state c (cl_now w) rt1, cl_saved := cl_saved w @ [pc_name (ac_path c)]\<rparr>"
    have v: "accounted w0 (insert (cc_ws (ac_conn c)) T) ?v" using acc by (rule accounted_cong) simp_all
    have "rt_active (cl_rt ?v) = Some (ac_conn c)" by (simp add: commit_state_def rt_broadcast_def)
    with v w1 None accounted_conn_close' [OF v] show ?thesis
      by (cases "rt_active (cl_rt w)") (simp_all add: conn_close_def Let_def)
  qed
  with r p accounted_replay [of "ac_conn c" w1 e w' w0 T]
  show "accounted w0 (insert (cc_ws (ac_conn c)) T) w'" "e \<noteq> None \<Longrightarrow> accounted w0 T w'"
    "e = None \<Longrightarrow> active_on (cc_ws (ac_conn c)) w'"
    by (auto simp: commitActivation_def active_on_def elim: accounted_mono split: option.splits)
qed

lemma accounted_hello_loop:
  assumes "hello_loop i path inputs w = (x, w')" and "accounted w0 (insert i T) w"
  shows "accounted w0 (insert i T) w' \<and> (\<forall>conn f. x = Some (Inr (conn, f)) \<longrightarrow> cc_ws conn = i)"
  using assms
proof (induction i path inputs w rule: hello_loop.induct)
  case (2 i path x xs w)
  show ?case
  proof (cases "hi_read x")
    case (Inr fr)
    obtain f p where fr: "fr = (f, p)" by (cases fr)
    obtain e w1 where s: "raw_send i (client_pong_header f) [] w = (e, w1)" by fastforce
    have "accounted w0 (insert i T) w1" using accounted_raw_send [OF s "2.prems"(2)] by simp
    with 2 Inr fr s show ?thesis by (auto split: option.splits if_splits)
  qed (use 2 in auto)
qed simp

lemma accounted_startSession:
  assumes s: "startSession i r ctx ctx' inputs w = (x, w')" and acc: "accounted w0 (insert i T) w"
  shows "accounted w0 (insert i T) w'" "x = Some (Inl e) \<Longrightarrow> accounted w0 T w'"
    "x = Some (Inr (conn, f)) \<Longrightarrow> cc_ws conn = i"
proof -
  obtain e1 w1 where h: "raw_send i (hello_header r) [] w = (e1, w1)" by fastforce
  have w1: "accounted w0 (insert i T) w1" using accounted_raw_send [OF h acc] by simp
  obtain y w2 where l: "hello_loop i (sq_path r) inputs w1 = (y, w2)" by fastforce
  note w2 = accounted_hello_loop [OF l w1]
  have "accounted w0 T (raw_close i v)" "accounted w0 (insert i T) (raw_close i v)" if "accounted w0 (insert i T) v" for v
    using that by (simp_all add: accounted_raw_close accounted_raw_close')
  with s acc h w1 l w2 show "accounted w0 (insert i T) w'" "x = Some (Inl e) \<Longrightarrow> accounted w0 T w'"
    "x = Some (Inr (conn, f)) \<Longrightarrow> cc_ws conn = i"
    by (auto simp: startSession_def split: option.splits sum.splits)
qed

text \<open>A finished attempt on socket \<open>i\<close>: it failed and the socket is closed, or the connection on it is active.\<close>

lemma accounted_start_and_commit:
  assumes s: "start_and_commit i path resume request run w = (Some e, w')" and acc: "accounted w0 (insert i T) w"
  shows "accounted w0 (if e = None then insert i T else T) w'" "e = None \<Longrightarrow> active_on i w'"
proof -
  obtain x w1 where h: "startSession i request (sr_ctx run) (sr_write_ctx run) (sr_inputs run) w = (x, w1)" by fastforce
  note a = accounted_startSession [OF h acc]
  have "accounted w0 (if e = None then insert i T else T) w' \<and> (e = None \<longrightarrow> active_on i w')"
  proof (cases "\<exists>d. x = Some (Inl d)")
    case True
    with s h a(2) show ?thesis by (auto simp: start_and_commit_def)
  next
    case False
    with s h obtain conn accept where x: "x = Some (Inr (conn, accept))"
      by (auto simp: start_and_commit_def split: option.splits sum.splits)
    let ?c = "\<lparr>ac_conn = conn, ac_accept = accept, ac_path = path, ac_resume = resume\<rparr>"
    from s h x have c: "commitActivation ?c w1 = (e, w')"
      by (auto simp: start_and_commit_def split: prod.splits)
    from a(3) [OF x] have "cc_ws (ac_conn ?c) = i" by simp
    with accounted_commit [OF c, of w0 T] a(1) show ?thesis by auto
  qed
  then show "accounted w0 (if e = None then insert i T else T) w'" "e = None \<Longrightarrow> active_on i w'" by simp_all
qed

lemma accounted_probe:
  assumes p: "probePathCandidate timeout closeErr r inp w = (Some c, w')" and acc: "accounted w0 T w"
  shows "accounted w0 (set_option (pb_open c) \<union> T) w'"
  using p
proof (cases rule: probePathCandidate_cases)
  case 1
  with acc show ?thesis by simp
next
  case (2 i e v)
  obtain d u where s: "raw_send i (ping_header (pi_nonce inp) (pi_ping_at inp)) [] w = (d, u)" by fastforce
  from 2 s acc accounted_raw_send [OF s acc] have "accounted w0 (insert i T) v"
    by (auto elim: accounted_mono)
  with 2 accounted_raw_close show ?thesis by simp
next
  case (3 i x)
  obtain d u where s: "raw_send i (ping_header (pi_nonce inp) (pi_ping_at inp)) [] w = (d, u)" by fastforce
  with 3 accounted_raw_send [OF s acc] show ?thesis by simp
qed

lemma accounted_candidate_close:
  "candidate_close closeErr c w = (e, c', w') \<Longrightarrow> accounted w0 (set_option (pb_open c) \<union> T) w \<Longrightarrow> accounted w0 T w'"
  by (auto simp: candidate_close_set accounted_close_set)

lemma accounted_close_all:
  "accounted w0 (sockets cs \<union> T) w \<Longrightarrow> accounted w0 T (snd (snd (closeProbeCandidates closeErr cs w)))"
  by (simp add: closeProbeCandidates_result accounted_close_set)

lemma accounted_stream:
  "streamProbeCandidates timeout closeErr runs w = (Some cs, w') \<Longrightarrow> accounted w0 T w \<Longrightarrow> accounted w0 (sockets cs \<union> T) w'"
proof (induction runs arbitrary: w cs T)
  case (Cons run runs)
  obtain r inp where run: "run = (r, inp)" by (cases run)
  from Cons.prems(1) run obtain c w1 cs1 where p: "probePathCandidate timeout closeErr r inp w = (Some c, w1)"
    and s: "streamProbeCandidates timeout closeErr runs w1 = (Some cs1, w')" and cs: "cs = c # cs1"
    by (auto split: prod.splits option.splits)
  from Cons.IH [OF s accounted_probe [OF p Cons.prems(2)]] cs show ?case by (simp add: Un_ac)
qed simp

lemma accounted_batch:
  assumes b: "probeBatch timeout closeErr paths ctx runs w = (Some (cs, e), w')" and acc: "accounted w0 T w"
  shows "accounted w0 (sockets cs \<union> T) w'" "e \<noteq> None \<Longrightarrow> accounted w0 T w'"
proof -
  have "accounted w0 (sockets cs \<union> T) w' \<and> (e \<noteq> None \<longrightarrow> accounted w0 T w')"
  proof (cases "enabledPaths paths = []")
    case True
    with b acc show ?thesis by (simp add: probeBatch_def)
  next
    case False
    with b obtain cs0 w1 where s: "streamProbeCandidates timeout closeErr runs w = (Some cs0, w1)"
      by (auto simp: probeBatch_def split: option.splits prod.splits)
    from accounted_stream [OF this acc] have a: "accounted w0 (sockets (rankProbeCandidates cs0) \<union> T) w1"
      by (simp add: sockets_def)
    obtain d cl w2 where c: "closeProbeCandidates closeErr (rankProbeCandidates cs0) w1 = (d, cl, w2)"
      by (cases "closeProbeCandidates closeErr (rankProbeCandidates cs0) w1") auto
    have "accounted w0 T w2" using accounted_close_all [OF a, of closeErr] c by simp
    then have "accounted w0 (sockets cl \<union> T) w2" by (auto elim: accounted_mono)
    with a b c s False \<open>accounted w0 T w2\<close> show ?thesis
      by (auto simp: probeBatch_def Let_def split: option.splits)
  qed
  then show "accounted w0 (sockets cs \<union> T) w'" "e \<noteq> None \<Longrightarrow> accounted w0 T w'" by simp_all
qed

text \<open>The outcome of an attempt, when somebody still owns the sockets of \<open>T\<close>.\<close>

definition outcome :: "client_world \<Rightarrow> nat set \<Rightarrow> gerror option \<Rightarrow> client_world \<Rightarrow> bool" where
  "outcome w0 T e w \<longleftrightarrow> (if e = None then \<exists>i. active_on i w \<and> accounted w0 (insert i T) w else accounted w0 T w)"

lemma outcome_start_and_commit:
  "start_and_commit i path resume request run w = (Some e, w') \<Longrightarrow> accounted w0 (insert i T) w \<Longrightarrow> outcome w0 T e w'"
  using accounted_start_and_commit [of i path resume request run w e w' w0 T] by (auto simp: outcome_def split: if_splits)

lemma outcome_activate:
  assumes "activate path resume run w = (Some e, w')" and "accounted w0 T w"
  shows "outcome w0 T e w'"
proof (cases "dr_dial run")
  case (Inl d)
  with assms show ?thesis by (auto simp: activate_def activateDirect_def outcome_def)
next
  case (Inr i)
  with assms have "start_and_commit i path resume (make_request (cl_cfg w) path resume (cl_rt w)) (dr_session run) w = (Some e, w')"
    by (auto simp: activate_def activateDirect_def split: option.splits prod.splits)
  then show ?thesis by (rule outcome_start_and_commit) (use assms(2) in \<open>auto elim: accounted_mono\<close>)
qed

lemma outcome_promote:
  assumes "promoteCandidate c request s w = (Some (t, attempted, e), c', w')" and "accounted w0 (set_option (pb_open c) \<union> T) w"
  shows "outcome w0 (set_option (pb_open c') \<union> T) e w'"
  using assms
  by (auto simp: promoteCandidate_def candidate_transfer_def outcome_def [of _ _ "Some _"] intro: outcome_start_and_commit
      split: option.splits prod.splits if_splits)

lemma outcome_activateCandidateFor:
  assumes "activateCandidateFor closeErr request s w = (Some (t, e), oc, w')"
    and "accounted w0 ((case ca_candidate request of None \<Rightarrow> {} | Some c \<Rightarrow> set_option (pb_open c)) \<union> T) w"
  shows "outcome w0 ((case oc of None \<Rightarrow> {} | Some c \<Rightarrow> set_option (pb_open c)) \<union> T) e w'"
proof (cases "ca_candidate request")
  case None
  with assms show ?thesis by (auto simp: activateCandidateFor_def outcome_def)
next
  case (Some c)
  show ?thesis
  proof (cases "pb_err c")
    case None
    with Some assms outcome_promote [of c request s w t _ e _ w' w0 T] show ?thesis
      by (auto simp: activateCandidateFor_def split: option.splits prod.splits)
  next
    case e: (Some x)
    from Some assms(2) have "accounted w0 (set_option (pb_open c) \<union> T) w" by simp
    then have "accounted w0 T (close_set (set_option (pb_open c)) w)" by (rule accounted_close_set)
    with e Some assms(1) show ?thesis by (auto simp: activateCandidateFor_def candidate_close_set outcome_def)
  qed
qed

lemma outcome_activateCandidate:
  assumes "activateCandidate closeErr c resume s w = (Some e, c', w')" and "accounted w0 (set_option (pb_open c) \<union> T) w"
  shows "outcome w0 (set_option (pb_open c') \<union> T) e w'"
proof -
  let ?r = "\<lparr>ca_candidate = Some c, ca_resume = resume, ca_expected = None, ca_allow_dropped = False\<rparr>"
  obtain x oc v where a: "activateCandidateFor closeErr ?r s w = (x, oc, v)"
    by (cases "activateCandidateFor closeErr ?r s w") auto
  with assms(1) obtain t where x: "x = Some (t, e)" and c': "c' = (case oc of Some x \<Rightarrow> x | None \<Rightarrow> c)" "w' = v"
    by (auto simp: activateCandidate_def)
  from outcome_activateCandidateFor [OF a [unfolded x], of w0 T] assms(2)
  have "outcome w0 ((case oc of None \<Rightarrow> {} | Some c \<Rightarrow> set_option (pb_open c)) \<union> T) e v" by simp
  with c' show ?thesis
    by (cases oc) (auto simp: outcome_def elim: accounted_mono split: if_splits)
qed

lemma active_on_close [simp]: "active_on i (snd (snd (closeProbeCandidates closeErr cs w))) = active_on i w"
  by (simp add: closeProbeCandidates_result active_on_def)

lemma outcome_close:
  assumes "outcome w0 (sockets cs \<union> T) e w"
  shows "outcome w0 T e (snd (snd (closeProbeCandidates closeErr cs w)))"
proof (cases e)
  case None
  with assms obtain i where i: "active_on i w" "accounted w0 (insert i (sockets cs \<union> T)) w" by (auto simp: outcome_def)
  then have "accounted w0 (sockets cs \<union> insert i T) w" by simp
  from accounted_close_all [OF this] i(1) None show ?thesis by (auto simp: outcome_def)
next
  case (Some x)
  with assms accounted_close_all show ?thesis by (simp add: outcome_def)
qed

lemma outcome_try_candidates:
  assumes "try_candidates closeErr resume sess cs lastErr failed w = (r, cs', w')" and "accounted w0 (sockets cs \<union> T) w"
  shows "(r = Succeeds \<longrightarrow> outcome w0 (sockets cs' \<union> T) None w') \<and> (\<forall>x. r = Exhausted x \<longrightarrow> accounted w0 (sockets cs' \<union> T) w')"
  using assms
proof (induction closeErr resume sess cs lastErr failed w arbitrary: r cs' w' T rule: try_candidates.induct)
  case (2 closeErr resume sess c cs lastErr failed w)
  obtain x c1 w1 where a: "activateCandidate closeErr c resume (sess c) w = (x, c1, w1)"
    by (cases "activateCandidate closeErr c resume (sess c) w") auto
  let ?T = "set_option (pb_open c) \<union> T" and ?T1 = "set_option (pb_open c1) \<union> T"
  have acc: "accounted w0 (sockets cs \<union> ?T) w" using "2.prems"(2) by (simp add: Un_ac)
  show ?case
  proof (cases "pb_err c")
    case (Some e)
    obtain r2 cs2 where t: "try_candidates closeErr resume sess cs (pb_err c) (failed @ [pb_path c]) w = (r2, cs2, w')"
      and r: "r = r2" "cs' = c # cs2" using "2.prems"(1) Some by (auto split: prod.splits)
    from "2.IH"(1) [OF _ t acc] Some r show ?thesis by (simp add: Un_ac)
  next
    case None
    show ?thesis
    proof (cases x)
      case xn: None
      with "2.prems"(1) None a show ?thesis by simp
    next
      case (Some oe)
      have "accounted w0 (set_option (pb_open c) \<union> (sockets cs \<union> T)) w" using acc by (simp add: Un_ac)
      from outcome_activateCandidate [OF a [unfolded Some] this]
      have o: "outcome w0 (sockets cs \<union> ?T1) oe w1" by (simp add: Un_ac)
      show ?thesis
      proof (cases oe)
        case oen: None
        with "2.prems"(1) None a Some have "r = Succeeds" "cs' = c1 # cs" "w' = w1" by auto
        with o oen show ?thesis by (simp add: Un_ac)
      next
        case (Some e)
        obtain r2 cs2 where t: "try_candidates closeErr resume sess cs (Some e) failed w1 = (r2, cs2, w')"
          and r: "r = r2" "cs' = c1 # cs2" using "2.prems"(1) None a Some \<open>x = Some oe\<close> by (auto split: prod.splits)
        from o Some have "accounted w0 (sockets cs \<union> ?T1) w1" by (simp add: outcome_def)
        have "\<not> pb_err c \<noteq> None" using None by simp
        from "2.IH"(2) [OF this a [symmetric] \<open>x = Some oe\<close> Some refl t \<open>accounted w0 (sockets cs \<union> ?T1) w1\<close>] None Some \<open>x = Some oe\<close> r show ?thesis
          by (simp add: Un_ac)
      qed
    qed
  qed
qed auto

lemma outcome_try_paths:
  assumes "try_paths resume direct paths lastErr w = (r, w')" and "accounted w0 T w"
  shows "(r = Succeeds \<longrightarrow> outcome w0 T None w') \<and> (\<forall>x. r = Exhausted x \<longrightarrow> accounted w0 T w')"
  using assms
proof (induction resume direct paths lastErr w rule: try_paths.induct)
  case (2 resume direct path paths lastErr w)
  obtain x w1 where a: "activate path resume (direct path) w = (x, w1)" by fastforce
  show ?case
  proof (cases x)
    case None
    with 2(2) a show ?thesis by simp
  next
    case (Some oe)
    have o: "outcome w0 T oe w1" by (rule outcome_activate [OF a [unfolded Some] 2(3)])
    show ?thesis
    proof (cases oe)
      case None
      with 2(2) a Some have "r = Succeeds" "w' = w1" by auto
      with o None show ?thesis by simp
    next
      case e: (Some e)
      with 2(2) a Some have "try_paths resume direct paths (Some e) w1 = (r, w')" by simp
      moreover have "accounted w0 T w1" using o e by (simp add: outcome_def)
      ultimately show ?thesis using 2(1) [OF a [symmetric] Some e] by simp
    qed
  qed
qed auto

lemma outcome_ranked:
  assumes "activateRankedCandidates closeErr resume sess direct cs w = (Some e, w')" and "accounted w0 (sockets cs \<union> T) w"
  shows "outcome w0 T e w'"
proof -
  obtain t cs1 w1 where t: "try_candidates closeErr resume sess cs None [] w = (t, cs1, w1)"
    by (cases "try_candidates closeErr resume sess cs None [] w") auto
  note o1 = outcome_try_candidates [OF t assms(2)]
  show ?thesis
  proof (cases t)
    case Waits
    with assms(1) t show ?thesis by (simp add: activateRankedCandidates_def)
  next
    case Succeeds
    with assms(1) t have "e = None" "w' = snd (snd (closeProbeCandidates closeErr cs1 w1))"
      by (simp_all add: activateRankedCandidates_def)
    with o1 Succeeds outcome_close show ?thesis by simp
  next
    case (Exhausted lf)
    obtain l f where lf: "lf = (l, f)" by (cases lf)
    obtain u w2 where p: "try_paths resume direct f l w1 = (u, w2)" by fastforce
    from o1 Exhausted have "accounted w0 (sockets cs1 \<union> T) w1" by simp
    note o2 = outcome_try_paths [OF p this]
    with assms(1) t Exhausted lf p show ?thesis
      by (cases u) (auto simp: activateRankedCandidates_def outcome_def [of _ _ "Some _"] intro: outcome_close accounted_close_all)
  qed
qed

text \<open>A probe ends with a read error (the context of the probe has a deadline) or with its pong.\<close>

definition ends_probe :: "string \<Rightarrow> probe_read \<Rightarrow> bool" where
  "ends_probe nonce x \<longleftrightarrow> (case pr_frame x of Inl e \<Rightarrow> True | Inr (f, p) \<Rightarrow> h_type f = ''pong'' \<and> h_nonce f = nonce)"

definition run_ends :: "probe_run \<Rightarrow> bool" where
  "run_ends run \<longleftrightarrow> list_ex (ends_probe (pi_nonce (snd run))) (pi_reads (snd run))"

lemma probe_loop_ends: "list_ex (ends_probe nonce) xs \<Longrightarrow> probe_loop timeout nonce xs c \<noteq> None"
proof (induction timeout nonce xs c rule: probe_loop.induct)
  case (2 timeout nonce x xs c)
  show ?case
  proof (cases "pr_frame x")
    case (Inr fr)
    obtain f p where fr: "fr = (f, p)" by (cases fr)
    show ?thesis
    proof (cases "h_type f \<noteq> ''pong'' \<or> h_nonce f \<noteq> nonce")
      case True
      with Inr fr have "\<not> ends_probe nonce x" by (auto simp: ends_probe_def)
      with 2(2) have "list_ex (ends_probe nonce) xs" by simp
      with 2(1) [OF Inr fr [symmetric] True] Inr fr True show ?thesis by simp
    next
      case False
      with Inr fr show ?thesis by (auto simp: Let_def split: option.split)
    qed
  qed simp
qed simp

lemma probe_ends:
  assumes "run_ends (r, inp)"
  obtains c w' where "probePathCandidate timeout closeErr r inp w = (Some c, w')"
proof -
  have l: "probe_loop timeout (pi_nonce inp) (pi_reads inp) c \<noteq> None" for c
    by (rule probe_loop_ends) (use assms in \<open>simp add: run_ends_def\<close>)
  have "fst (probePathCandidate timeout closeErr r inp w) \<noteq> None"
    using l [of "new_candidate r (pi_timings inp)\<lparr>pb_open := Some (case pi_dial inp of Inr i \<Rightarrow> i)\<rparr>"]
    by (auto simp: probePathCandidate_def Let_def split: sum.splits option.splits prod.splits if_splits)
  then show thesis using that by (cases "probePathCandidate timeout closeErr r inp w") auto
qed

lemma outcome_drain:
  assumes "outcome w0 T None w" and "list_all run_ends runs"
  shows "outcome w0 T None (drainProbeCandidates timeout closeErr runs w)"
  using assms
proof (induction runs arbitrary: w)
  case (Cons run runs)
  obtain r inp where run: "run = (r, inp)" by (cases run)
  from Cons.prems(2) run have "run_ends (r, inp)" by simp
  then obtain c w1 where p: "probePathCandidate timeout closeErr r inp w = (Some c, w1)" by (rule probe_ends)
  obtain e c1 w2 where cc: "candidate_close closeErr c w1 = (e, c1, w2)" by (cases "candidate_close closeErr c w1") auto
  from Cons.prems(1) obtain i where i: "active_on i w" "accounted w0 (insert i T) w" by (auto simp: outcome_def)
  have a2: "accounted w0 (insert i T) w2" by (rule accounted_candidate_close [OF cc accounted_probe [OF p i(2)]])
  have "w1 = w\<lparr>cl_ws := cl_ws w1\<rparr>" using probe_same_but [of r inp w timeout closeErr] p by (simp add: same_but_def)
  then have "cl_rt w1 = cl_rt w" by (metis client_world.select_convs(3) client_world.surjective client_world.update_convs(4))
  with i(1) cc have "active_on i w2" by (auto simp: active_on_def candidate_close_set)
  with a2 have "outcome w0 T None w2" by (auto simp: outcome_def)
  with Cons.IH Cons.prems(2) run p cc show ?case by simp
qed simp

lemma outcome_first_available:
  assumes "first_available timeout closeErr resume sess runs lastErr failed w = (r, w')" and "accounted w0 T w"
    and "list_all run_ends runs" and "\<forall>c \<in> set failed. pb_open c = None"
  shows "(r = Succeeds \<longrightarrow> outcome w0 T None w')
    \<and> (\<forall>l f. r = Exhausted (l, f) \<longrightarrow> accounted w0 T w' \<and> (\<forall>c \<in> set f. pb_open c = None))"
  using assms
proof (induction timeout closeErr resume sess runs lastErr failed w rule: first_available.induct)
  case (2 timeout closeErr resume sess r' inp runs lastErr failed w)
  obtain oc w1 where p: "probePathCandidate timeout closeErr r' inp w = (oc, w1)" by fastforce
  show ?case
  proof (cases oc)
    case None
    with "2.prems"(1) p show ?thesis by simp
  next
    case (Some c)
    note p' = p [unfolded Some]
    have acc: "accounted w0 (set_option (pb_open c) \<union> T) w1" by (rule accounted_probe [OF p' "2.prems"(2)])
    have ok: "candidate_ok c" using probe_sockets [OF p'] by simp
    show ?thesis
    proof (cases "pb_err c")
      case e: (Some e)
      with ok have "pb_open c = None" by (simp add: candidate_ok_def)
      with "2.IH"(1) [OF p' [symmetric] refl] "2.prems" e p' acc show ?thesis by simp
    next
      case None
      obtain x c1 w2 where a: "activateCandidate closeErr c resume (sess c) w1 = (x, c1, w2)"
        by (cases "activateCandidate closeErr c resume (sess c) w1") auto
      show ?thesis
      proof (cases x)
        case xn: None
        with "2.prems"(1) p' None a show ?thesis by simp
      next
        case xs: (Some oe)
        from outcome_activateCandidate [OF a [unfolded xs] acc] have o: "outcome w0 (set_option (pb_open c1) \<union> T) oe w2" .
        have "set_option (pb_open c1) = {}" using a None xs
          by (auto simp: activateCandidate_def activateCandidateFor_def promoteCandidate_def candidate_transfer_def
              split: option.splits prod.splits)
        with o have o: "outcome w0 T oe w2" by simp
        show ?thesis
        proof (cases oe)
          case oen: None
          with "2.prems"(1) p' None a xs have "r = Succeeds" "w' = drainProbeCandidates timeout closeErr runs w2" by auto
          with outcome_drain [OF o [unfolded oen]] "2.prems"(3) show ?thesis by simp
        next
          case oes: (Some e)
          with o have "accounted w0 T w2" by (simp add: outcome_def)
          moreover have "\<not> pb_err c \<noteq> None" using None by simp
          ultimately show ?thesis
            using "2.IH"(2) [OF p' [symmetric] refl _ a [symmetric] xs oes refl] "2.prems" None p' a xs oes by simp
        qed
      qed
    qed
  qed
qed auto

lemma sockets_none: "\<forall>c \<in> set cs. pb_open c = None \<Longrightarrow> sockets cs = {}"
  by (auto simp: sockets_def)

lemma outcome_first:
  assumes "activateFirstAvailable timeout closeErr ctx resume sess direct runs w = (Some e, w')" and acc: "accounted w0 T w"
    and ends: "list_all run_ends runs"
  shows "outcome w0 T e w'"
proof (cases "enabledPaths (cfg_paths (cl_cfg w)) = []")
  case True
  with assms show ?thesis by (auto simp: activateFirstAvailable_def outcome_def)
next
  case False
  obtain t w1 where t: "first_available timeout closeErr resume sess runs None [] w = (t, w1)" by fastforce
  have o: "(t = Succeeds \<longrightarrow> outcome w0 T None w1)
      \<and> (\<forall>l f. t = Exhausted (l, f) \<longrightarrow> accounted w0 T w1 \<and> (\<forall>c \<in> set f. pb_open c = None))"
    by (rule outcome_first_available [OF t acc ends]) simp
  show ?thesis
  proof (cases t)
    case Waits
    with assms(1) t False show ?thesis by (simp add: activateFirstAvailable_def)
  next
    case Succeeds
    with assms(1) t False o show ?thesis by (auto simp: activateFirstAvailable_def)
  next
    case (Exhausted lf)
    obtain l f where lf: "lf = (l, f)" by (cases lf)
    with o Exhausted have a: "accounted w0 T w1" and "\<forall>c \<in> set (rankProbeCandidates f). pb_open c = None" by simp_all
    then have f: "sockets (rankProbeCandidates f) = {}" by (intro sockets_none)
    show ?thesis
    proof (cases "f = []")
      case True
      with assms(1) t False Exhausted lf a show ?thesis by (auto simp: activateFirstAvailable_def outcome_def)
    next
      case ne: False
      with assms(1) t False Exhausted lf
      have "activateRankedCandidates closeErr resume sess direct (rankProbeCandidates f) w1 = (Some e, w')"
        by (simp add: activateFirstAvailable_def)
      then show ?thesis by (rule outcome_ranked) (use a f in simp)
    qed
  qed
qed

lemma outcome_drainBatch:
  assumes "outcome w0 T None w" and b: "probeBatch timeout closeErr paths ctx runs w = (oc, w')" and ends: "list_all run_ends runs"
  shows "outcome w0 T None (drainProbeBatch closeErr oc w')"
proof -
  obtain i where i: "active_on i w" "accounted w0 (insert i T) w" using assms(1) by (auto simp: outcome_def)
  have rt: "cl_rt w' = cl_rt w"
  proof -
    have "cl_rt (snd (streamProbeCandidates timeout closeErr runs w)) = cl_rt w"
      using stream_same_but [of runs w timeout closeErr] unfolding same_but_def
      by (metis client_world.select_convs(3) client_world.surjective client_world.update_convs(4))
    with b show ?thesis
      by (auto simp: probeBatch_def Let_def closeProbeCandidates_def split: option.splits prod.splits if_splits)
         (metis close_each_result close_set_simps(1) snd_conv)
  qed
  have "list_all run_ends xs \<Longrightarrow> \<exists>cs. fst (streamProbeCandidates timeout closeErr xs v) = Some cs" for xs v
  proof (induction xs arbitrary: v)
    case (Cons x xs)
    obtain r inp where x: "x = (r, inp)" by (cases x)
    with Cons.prems have "run_ends (r, inp)" by simp
    then obtain c v' where "probePathCandidate timeout closeErr r inp v = (Some c, v')" by (rule probe_ends)
    moreover obtain ocs v2 where s: "streamProbeCandidates timeout closeErr xs v' = (ocs, v2)" by fastforce
    moreover have "\<exists>cs. fst (streamProbeCandidates timeout closeErr xs v') = Some cs" using Cons by simp
    ultimately show ?case using x by auto
  qed simp
  from this [OF ends, of w] b obtain cs e where oc: "oc = Some (cs, e)"
    by (auto simp: probeBatch_def Let_def split: option.splits prod.splits if_splits)
  from accounted_batch(1) [OF b [unfolded oc] i(2)] have "accounted w0 (insert i T) (drainProbeBatch closeErr oc w')"
    using accounted_close_all oc by (simp add: drainProbeBatch_def)
  moreover have "active_on i (drainProbeBatch closeErr oc w')" using i(1) rt oc
    by (simp add: drainProbeBatch_def) (simp add: active_on_def)
  ultimately show ?thesis by (auto simp: outcome_def)
qed

lemma outcome_connectAny:
  assumes c: "connectAny timeout closeErr ctx pctx resume lkgRun sess direct runs w = (Some e, w')" and acc: "accounted w0 T w"
    and ends: "list_all run_ends runs"
  shows "outcome w0 T e w'"
proof (cases "rt_lastKnownGood (cl_rt w)")
  case None
  with c have "activateFirstAvailable timeout closeErr ctx resume sess direct runs w = (Some e, w')" by (simp add: connectAny_def)
  from outcome_first [OF this acc ends] show ?thesis .
next
  case (Some lkg)
  let ?paths = "pathsExcept (cfg_paths (cl_cfg w)) (pc_name lkg)"
  obtain y w1 where a: "activate lkg resume lkgRun w = (y, w1)" by fastforce
  obtain oc w2 where b: "probeBatch timeout closeErr ?paths pctx runs w1 = (oc, w2)" by fastforce
  show ?thesis
  proof (cases y)
    case None
    with c Some a show ?thesis by (simp add: connectAny_def)
  next
    case y: (Some oe)
    have o: "outcome w0 T oe w1" by (rule outcome_activate [OF a [unfolded y] acc])
    show ?thesis
    proof (cases oe)
      case None
      with o have o: "outcome w0 T None w1" by simp
      from outcome_drainBatch [OF o b ends] o c Some a y None b show ?thesis
        by (auto simp: connectAny_def Let_def split: if_splits)
    next
      case oe: (Some d)
      with o have a1: "accounted w0 T w1" by (simp add: outcome_def)
      show ?thesis
      proof (cases "startProbeBatch ?paths")
        case False
        with c Some a y oe a1 show ?thesis by (auto simp: connectAny_def outcome_def)
      next
        case True
        with c Some a y oe b obtain items e' where oc: "oc = Some (items, e')"
          by (auto simp: connectAny_def split: option.splits)
        note ab = accounted_batch [OF b [unfolded oc] a1]
        show ?thesis
        proof (cases e')
          case None
          with c Some a y oe b True oc
          have "activateRankedCandidates closeErr resume sess direct items w2 = (Some e, w')" by (simp add: connectAny_def)
          from outcome_ranked [OF this ab(1)] show ?thesis .
        next
          case e': (Some d')
          with c Some a y oe b True oc ab(2) show ?thesis by (auto simp: connectAny_def outcome_def)
        qed
      qed
    qed
  qed
qed


text \<open>A client whose only path is probed, but whose context ends before the hello.\<close>

definition demo_stopped_session :: session_run where
  "demo_stopped_session = \<lparr>sr_ctx = Some Canceled, sr_write_ctx = None, sr_inputs = [], sr_took = 0\<rparr>"

definition demo_direct :: direct_run where
  "demo_direct = \<lparr>dr_timings = zero_timings, dr_dial = Inl (NetErr ''refused''), dr_session = demo_stopped_session\<rparr>"


end
