(* ===== verification/Switch.thy ===== *)
theory Switch
  imports Connect_Props
begin

text \<open>
  Path switching: internal/tunnel/client_switch.go, and the heartbeat of the active connection of
  client_heartbeat.go on which it relies. A cycle pings the active connection while a batch of probes
  runs on the other paths, updates the statistics of the paths, and then stays, drops the active
  connection or promotes a candidate.
\<close>

section \<open>The active heartbeat\<close>

record active_heartbeat =
  ah_rtt :: duration
  ah_timed_out :: bool
  ah_closed :: bool
  ah_err :: "gerror option"

definition heartbeatCycleResult :: "heartbeat_result \<Rightarrow> active_heartbeat" where
  "heartbeatCycleResult r = \<lparr>ah_rtt = hr_rtt r, ah_timed_out = hr_timed_out r, ah_closed = hr_closed r, ah_err = None\<rparr>"

text \<open>\<open>isActive\<close> of the client.\<close>

definition client_isActive :: "client_conn \<Rightarrow> client_runtime \<Rightarrow> bool" where
  "client_isActive conn rt \<longleftrightarrow> rt_active rt = Some conn"

text \<open>Which case of the \<open>select\<close> was taken.\<close>

datatype heartbeat_event = Answered | TimerFired | ContextEnded gerror

record heartbeat_input =
  hi_nonce :: string
  hi_sent_at :: instant
  hi_event :: heartbeat_event

text \<open>The channel \<open>c\<close> holds the result that the receive takes.\<close>

definition heartbeat_wait :: "client_conn \<Rightarrow> string \<Rightarrow> nat \<Rightarrow> heartbeat_event \<Rightarrow> client_world \<Rightarrow> active_heartbeat \<times> client_world" where
  "heartbeat_wait conn nonce c event w =
     (let i = cc_ws conn; t = cl_hb w i in
      case event of
        Answered \<Rightarrow> (heartbeatCycleResult (hd (ht_chans t ! c)), w)
      | TimerFired \<Rightarrow> (case hb_timeout nonce t of
          (True, t1) \<Rightarrow> (\<lparr>ah_rtt = 0, ah_timed_out = True, ah_closed = False, ah_err = None\<rparr>, w\<lparr>cl_hb := (cl_hb w)(i := t1)\<rparr>)
        | (False, t1) \<Rightarrow> (heartbeatCycleResult (hd (ht_chans t ! c)), w))
      | ContextEnded e \<Rightarrow> (case hb_timeout nonce t of
          (True, t1) \<Rightarrow> (\<lparr>ah_rtt = 0, ah_timed_out = False, ah_closed = False, ah_err = Some e\<rparr>, w\<lparr>cl_hb := (cl_hb w)(i := t1)\<rparr>)
        | (False, t1) \<Rightarrow> (heartbeatCycleResult (hd (ht_chans t ! c)), w)))"

text \<open>\<open>others\<close> is what the other goroutines do while the heartbeat waits.\<close>

definition activeHeartbeat :: "client_conn \<Rightarrow> heartbeat_input \<Rightarrow> (client_world \<Rightarrow> client_world) \<Rightarrow> client_world \<Rightarrow>
    active_heartbeat \<times> client_world" where
  "activeHeartbeat conn inp others w =
     (if \<not> client_isActive conn (cl_rt w) then (\<lparr>ah_rtt = 0, ah_timed_out = False, ah_closed = True, ah_err = None\<rparr>, w)
      else let i = cc_ws conn in
        case hb_begin (hi_nonce inp) (hi_sent_at inp) (cl_hb w i) of
          (Inl e, _) \<Rightarrow> (\<lparr>ah_rtt = 0, ah_timed_out = False, ah_closed = (e = HeartbeatClosed), ah_err = Some e\<rparr>, w)
        | (Inr c, t) \<Rightarrow>
            (case client_send conn (ping_header (hi_nonce inp) (hi_sent_at inp)) [] (w\<lparr>cl_hb := (cl_hb w)(i := t)\<rparr>) of
               (Some e, w1) \<Rightarrow> (\<lparr>ah_rtt = 0, ah_timed_out = False, ah_closed = True, ah_err = Some e\<rparr>, dropActive conn w1)
             | (None, w1) \<Rightarrow> heartbeat_wait conn (hi_nonce inp) c (hi_event inp) (others w1)))"

section \<open>Statistics\<close>

record probe_stat =
  ps_success :: int
  ps_fail :: int
  ps_rtt :: duration

type_synonym path_stats = "string \<rightharpoonup> probe_stat"

definition zero_stat :: probe_stat where
  "zero_stat = \<lparr>ps_success = 0, ps_fail = 0, ps_rtt = 0\<rparr>"

text \<open>The entry is a pointer in the program; here it is read from and written back to the map.\<close>

definition pathProbeStat :: "path_stats \<Rightarrow> string \<Rightarrow> probe_stat \<times> path_stats" where
  "pathProbeStat stats name = (case stats name of
     None \<Rightarrow> (zero_stat, stats(name \<mapsto> zero_stat))
   | Some s \<Rightarrow> (s, stats))"

definition updateActiveHeartbeatStat :: "active_heartbeat \<Rightarrow> probe_stat \<Rightarrow> probe_stat" where
  "updateActiveHeartbeatStat hb stat =
     (if ah_err hb \<noteq> None \<or> ah_timed_out hb \<or> ah_closed hb then stat\<lparr>ps_fail := ps_fail stat + 1, ps_success := 0\<rparr>
      else stat\<lparr>ps_success := ps_success stat + 1, ps_fail := 0, ps_rtt := ah_rtt hb\<rparr>)"

text \<open>The loop of \<open>updateCandidateStats\<close> from index \<open>i\<close> on; \<open>best\<close> is the index of the chosen candidate.\<close>

fun update_from :: "int \<Rightarrow> nat \<Rightarrow> probe_candidate list \<Rightarrow> nat option \<Rightarrow> path_stats \<Rightarrow> nat option \<times> path_stats" where
  "update_from threshold i [] best stats = (best, stats)"
| "update_from threshold i (c # cs) best stats =
     (case pathProbeStat stats (pc_name (pb_path c)) of (stat, stats1) \<Rightarrow>
        if pb_err c \<noteq> None then
          update_from threshold (i + 1) cs best (stats1(pc_name (pb_path c) \<mapsto> stat\<lparr>ps_fail := ps_fail stat + 1, ps_success := 0\<rparr>))
        else let stat1 = stat\<lparr>ps_success := ps_success stat + 1, ps_fail := 0, ps_rtt := pb_rtt c\<rparr> in
          update_from threshold (i + 1) cs (if best = None \<and> threshold \<le> ps_success stat1 then Some i else best)
            (stats1(pc_name (pb_path c) \<mapsto> stat1)))"

definition updateCandidateStats :: "config \<Rightarrow> path_stats \<Rightarrow> probe_candidate list \<Rightarrow> nat option \<times> path_stats" where
  "updateCandidateStats cfg stats candidates = update_from (pr_candidate_successes (cfg_probe cfg)) 0 candidates None stats"

section \<open>The latency rule\<close>

definition absDuration :: "duration \<Rightarrow> duration" where
  "absDuration d = (if d < 0 then - d else d)"

text \<open>\<open>q >= r\<close> on \<open>float64\<close>, for a finite \<open>q\<close>.\<close>

definition f64_ge :: "rat \<Rightarrow> f64 \<Rightarrow> bool" where
  "f64_ge q r \<longleftrightarrow> r \<le> Fin q"

record latency_request =
  lr_active :: path_config
  lr_stat :: "probe_stat option"
  lr_candidate :: path_config
  lr_rtt :: duration
  lr_last :: "instant option"

definition shouldLatencySwitch :: "probe_config \<Rightarrow> instant \<Rightarrow> latency_request \<Rightarrow> bool" where
  "shouldLatencySwitch cfg now r =
     (if (case lr_last r of None \<Rightarrow> False | Some t \<Rightarrow> now - t < pr_switch_cooldown cfg) then False
      else case lr_stat r of
        None \<Rightarrow> pc_priority (lr_active r) < pc_priority (lr_candidate r)
      | Some stat \<Rightarrow>
          if ps_rtt stat \<le> 0 then pc_priority (lr_active r) < pc_priority (lr_candidate r)
          else let delta = ps_rtt stat - lr_rtt r in
            if pr_better_min_delta cfg \<le> delta
               \<and> f64_ge (f64_round (f64_of_int delta / f64_of_int (ps_rtt stat))) (pr_better_ratio cfg) then True
            else absDuration delta \<le> pr_better_min_delta cfg \<and> pc_priority (lr_active r) < pc_priority (lr_candidate r))"

section \<open>A cycle\<close>

datatype switch_decision = Stay | Drop | Promote nat bool

definition heartbeat_healthy :: "active_heartbeat \<Rightarrow> bool" where
  "heartbeat_healthy hb \<longleftrightarrow> ah_err hb = None \<and> \<not> ah_timed_out hb \<and> \<not> ah_closed hb"

text \<open>From the collected probes to the decision; \<open>Promote i failed\<close> carries \<open>activeFailed\<close>.\<close>

definition switch_decide :: "config \<Rightarrow> instant \<Rightarrow> client_conn \<Rightarrow> instant option \<Rightarrow> active_heartbeat \<Rightarrow> probe_candidate list \<Rightarrow>
    path_stats \<Rightarrow> switch_decision \<times> path_stats" where
  "switch_decide cfg now active lastSwitch hb candidates stats =
     (case pathProbeStat stats (pc_name (cc_path active)) of (stat, stats1) \<Rightarrow>
      let activeStat = updateActiveHeartbeatStat hb stat;
          stats2 = stats1(pc_name (cc_path active) \<mapsto> activeStat);
          activeFailed = (pr_active_failures (cfg_probe cfg) \<le> ps_fail activeStat) in
      case updateCandidateStats cfg stats2 candidates of
        (None, stats3) \<Rightarrow> (if activeFailed then Drop else Stay, stats3)
      | (Some i, stats3) \<Rightarrow>
          let best = candidates ! i;
              request = \<lparr>lr_active = cc_path active, lr_stat = stats3 (pc_name (cc_path active)), lr_candidate = pb_path best,
                         lr_rtt = pb_rtt best, lr_last = lastSwitch\<rparr> in
          (if \<not> activeFailed \<and> (\<not> heartbeat_healthy hb \<or> \<not> shouldLatencySwitch (cfg_probe cfg) now request) then Stay
           else Promote i activeFailed, stats3))"

record switch_input =
  si_heartbeat :: heartbeat_input
  si_others :: "client_world \<Rightarrow> client_world"
  si_runs :: "probe_run list"
  si_ctx :: "gerror option"
  si_session :: session_run

text \<open>\<open>collectSwitchCandidates\<close> on the batch that \<open>startProbeBatch\<close> may have started.\<close>

definition collectSwitchCandidates :: "(gerror \<Rightarrow> bool) \<Rightarrow> (nat \<Rightarrow> gerror option) \<Rightarrow> path_config list \<Rightarrow> gerror option \<Rightarrow> probe_run list \<Rightarrow>
    client_world \<Rightarrow> (probe_candidate list \<times> gerror option) option \<times> client_world" where
  "collectSwitchCandidates timeout closeErr paths ctx runs w =
     (if \<not> startProbeBatch paths then (Some ([], None), w) else probeBatch timeout closeErr paths ctx runs w)"

definition runSwitchCycle :: "(gerror \<Rightarrow> bool) \<Rightarrow> (nat \<Rightarrow> gerror option) \<Rightarrow> switch_input \<Rightarrow> path_stats \<Rightarrow> client_world \<Rightarrow>
    gerror option option \<times> path_stats \<times> client_world" where
  "runSwitchCycle timeout closeErr inp stats w = (case rt_active (cl_rt w) of
     None \<Rightarrow> (Some None, stats, w)
   | Some active \<Rightarrow>
       let lastSwitch = rt_lastSwitch (cl_rt w); cfg = cl_cfg w in
       case activeHeartbeat active (si_heartbeat inp) (si_others inp) w of (hb, w1) \<Rightarrow>
       case collectSwitchCandidates timeout closeErr (pathsExcept (cfg_paths cfg) (pc_name (cc_path active))) (si_ctx inp) (si_runs inp) w1 of
         (None, w2) \<Rightarrow> (None, stats, w2)
       | (Some (candidates, Some e), w2) \<Rightarrow> (Some (Some e), stats, w2)
       | (Some (candidates, None), w2) \<Rightarrow>
           case switch_decide cfg (cl_now w2) active lastSwitch hb candidates stats of
             (Stay, stats1) \<Rightarrow> (Some None, stats1, snd (snd (closeProbeCandidates closeErr candidates w2)))
           | (Drop, stats1) \<Rightarrow> (Some None, stats1, snd (snd (closeProbeCandidates closeErr candidates (dropActive active w2))))
           | (Promote i activeFailed, stats1) \<Rightarrow>
               (case activateCandidateFor closeErr \<lparr>ca_candidate = Some (candidates ! i), ca_resume = True,
                    ca_expected = Some active, ca_allow_dropped = activeFailed\<rparr> (si_session inp) w2 of
                  (None, c1, w3) \<Rightarrow> (None, stats1, w3)
                | (Some (timings, err), c1, w3) \<Rightarrow>
                    (Some (case err of None \<Rightarrow> None | Some e \<Rightarrow> if errors_is e ActivationSuperseded then None else Some e), stats1,
                     snd (snd (closeProbeCandidates closeErr
                       (case c1 of None \<Rightarrow> candidates | Some c \<Rightarrow> candidates[i := c]) w3)))))"

end
