(* ===== verification/Switch_Props.thy ===== *)
theory Switch_Props
  imports Switch
begin

text \<open>
  What path switching promises: the counters are lengths of runs, a switch is justified by them and by
  the latency rule, and a cycle is a run of the client's step relation.
\<close>

section \<open>The counters\<close>

text \<open>An observation of a path: the round trip of a success, or a failure.\<close>

definition observe :: "duration option \<Rightarrow> probe_stat \<Rightarrow> probe_stat" where
  "observe ob stat = (case ob of
     None \<Rightarrow> stat\<lparr>ps_fail := ps_fail stat + 1, ps_success := 0\<rparr>
   | Some rtt \<Rightarrow> stat\<lparr>ps_success := ps_success stat + 1, ps_fail := 0, ps_rtt := rtt\<rparr>)"

definition heartbeat_observation :: "active_heartbeat \<Rightarrow> duration option" where
  "heartbeat_observation hb = (if heartbeat_healthy hb then Some (ah_rtt hb) else None)"

definition probe_observation :: "probe_candidate \<Rightarrow> duration option" where
  "probe_observation c = (if pb_err c = None then Some (pb_rtt c) else None)"

lemma updateActiveHeartbeatStat_observe: "updateActiveHeartbeatStat hb stat = observe (heartbeat_observation hb) stat"
  by (simp add: updateActiveHeartbeatStat_def observe_def heartbeat_observation_def heartbeat_healthy_def)

definition stat_of :: "path_stats \<Rightarrow> string \<Rightarrow> probe_stat" where
  "stat_of stats name = (case stats name of None \<Rightarrow> zero_stat | Some s \<Rightarrow> s)"

lemma pathProbeStat_eq: "pathProbeStat stats name = (stat_of stats name, stats(name \<mapsto> stat_of stats name))"
  by (auto simp: pathProbeStat_def stat_of_def split: option.split)

lemma stat_of_upd [simp]: "stat_of (stats(name \<mapsto> s)) name' = (if name' = name then s else stat_of stats name')"
  by (simp add: stat_of_def)

lemma update_from_Cons:
  "update_from threshold i (c # cs) best stats =
    (let name = pc_name (pb_path c); stat1 = observe (probe_observation c) (stat_of stats name) in
     update_from threshold (i + 1) cs
       (if pb_err c = None \<and> best = None \<and> threshold \<le> ps_success stat1 then Some i else best) (stats(name \<mapsto> stat1)))"
  by (auto simp: pathProbeStat_eq observe_def probe_observation_def Let_def)

declare update_from.simps(2) [simp del]

text \<open>The length of the run at the end of a history.\<close>

definition trailing :: "('a \<Rightarrow> bool) \<Rightarrow> 'a list \<Rightarrow> nat" where
  "trailing P xs = length (takeWhile P (rev xs))"

lemma trailing_snoc [simp]: "trailing P (xs @ [x]) = (if P x then Suc (trailing P xs) else 0)"
  by (simp add: trailing_def)

lemma trailing_Nil [simp]: "trailing P [] = 0"
  by (simp add: trailing_def)

text \<open>What a history of cycles observed of one path: of an active path the heartbeat, else its probes.\<close>

definition observed :: "string \<Rightarrow> client_conn \<Rightarrow> active_heartbeat \<Rightarrow> probe_candidate list \<Rightarrow> duration option list" where
  "observed name active hb candidates = (if pc_name (cc_path active) = name then [heartbeat_observation hb] else [])
     @ map probe_observation (filter (\<lambda>c. pc_name (pb_path c) = name) candidates)"

lemma update_from_stat:
  "stat_of (snd (update_from threshold i cs best stats)) name
     = fold observe (map probe_observation (filter (\<lambda>c. pc_name (pb_path c) = name) cs)) (stat_of stats name)"
  by (induction cs arbitrary: i best stats) (simp_all add: update_from_Cons Let_def)

lemma switch_decide_stats:
  "stat_of (snd (switch_decide cfg now active lastSwitch hb cs stats)) name
     = fold observe (observed name active hb cs) (stat_of stats name)"
proof -
  let ?a = "pc_name (cc_path active)"
  let ?s2 = "stats(?a \<mapsto> updateActiveHeartbeatStat hb (stat_of stats ?a))"
  obtain b s3 where u: "updateCandidateStats cfg ?s2 cs = (b, s3)" by fastforce
  then have "stat_of s3 name = fold observe (map probe_observation (filter (\<lambda>c. pc_name (pb_path c) = name) cs)) (stat_of ?s2 name)"
    using update_from_stat [of _ 0 cs None ?s2 name] unfolding updateCandidateStats_def by (metis snd_conv)
  moreover have "snd (switch_decide cfg now active lastSwitch hb cs stats) = s3"
    using u by (auto simp: switch_decide_def pathProbeStat_eq Let_def split: option.split)
  ultimately show ?thesis by (auto simp: observed_def updateActiveHeartbeatStat_observe)
qed

text \<open>A sequence of cycles, with what each observed.\<close>

record cycle =
  cy_active :: client_conn
  cy_last :: "instant option"
  cy_now :: instant
  cy_heartbeat :: active_heartbeat
  cy_candidates :: "probe_candidate list"

definition cycles :: "config \<Rightarrow> cycle list \<Rightarrow> path_stats \<Rightarrow> path_stats" where
  "cycles cfg ys stats = fold (\<lambda>y stats. snd (switch_decide cfg (cy_now y) (cy_active y) (cy_last y) (cy_heartbeat y) (cy_candidates y) stats)) ys stats"

definition history :: "string \<Rightarrow> cycle list \<Rightarrow> duration option list" where
  "history name ys = concat (map (\<lambda>y. observed name (cy_active y) (cy_heartbeat y) (cy_candidates y)) ys)"

lemma cycles_fold: "stat_of (cycles cfg ys stats) name = fold observe (history name ys) (stat_of stats name)"
  by (induction ys arbitrary: stats) (simp_all add: cycles_def history_def switch_decide_stats)

lemma fold_observe:
  "ps_success (fold observe obs zero_stat) = int (trailing (\<lambda>ob. ob \<noteq> None) obs)
   \<and> ps_fail (fold observe obs zero_stat) = int (trailing (\<lambda>ob. ob = None) obs)"
proof (induction obs rule: rev_induct)
  case (snoc ob obs)
  then show ?case by (cases ob) (auto simp: observe_def)
qed (simp add: zero_stat_def)

text \<open>
  C36. Starting from no statistics, after any sequence of cycles the counters of a path are the lengths of
  the runs of successes and of failures at the end of all that was observed of it, by heartbeats while it was active and by
  probes otherwise: one failure forgets every success before it and the other way round.
\<close>

theorem switch_counts_runs:
  "ps_success (stat_of (cycles cfg ys Map.empty) name) = int (trailing (\<lambda>ob. ob \<noteq> None) (history name ys))
   \<and> ps_fail (stat_of (cycles cfg ys Map.empty) name) = int (trailing (\<lambda>ob. ob = None) (history name ys))"
  using fold_observe [of "history name ys"] cycles_fold [of cfg ys Map.empty name] by (simp add: stat_of_def)

section \<open>The decision\<close>

lemma update_from_best:
  "best \<noteq> None \<Longrightarrow> fst (update_from threshold i cs best stats) = best"
  by (induction cs arbitrary: i best stats) (auto simp: update_from_Cons Let_def)

lemma update_from_frame:
  "name \<notin> set (map (\<lambda>c. pc_name (pb_path c)) cs) \<Longrightarrow> snd (update_from threshold i cs best stats) name = stats name"
  by (induction cs arbitrary: i best stats) (simp_all add: update_from_Cons Let_def)

lemma update_from_first:
  assumes "distinct (map (\<lambda>c. pc_name (pb_path c)) cs)"
    and "update_from threshold i cs None stats = (best, stats')"
  shows "(case best of
      None \<Rightarrow> \<forall>c \<in> set cs. pb_err c \<noteq> None \<or> ps_success (stat_of stats' (pc_name (pb_path c))) < threshold
    | Some j \<Rightarrow> i \<le> j \<and> j < i + length cs \<and> pb_err (cs ! (j - i)) = None
        \<and> threshold \<le> ps_success (stat_of stats' (pc_name (pb_path (cs ! (j - i)))))
        \<and> (\<forall>k < j - i. pb_err (cs ! k) \<noteq> None \<or> ps_success (stat_of stats' (pc_name (pb_path (cs ! k)))) < threshold))"
  using assms
proof (induction cs arbitrary: i stats)
  case (Cons c cs)
  let ?n = "pc_name (pb_path c)"
  let ?s = "observe (probe_observation c) (stat_of stats ?n)"
  have keep: "stat_of stats' ?n = ?s"
  proof -
    have "?n \<notin> set (map (\<lambda>c. pc_name (pb_path c)) cs)" using Cons.prems(1) by simp
    from update_from_frame [OF this] have "snd (update_from threshold (i + 1) cs best' (stats(?n \<mapsto> ?s))) ?n = Some ?s" for best'
      by simp
    with Cons.prems(2) show ?thesis by (simp add: update_from_Cons Let_def stat_of_def) (metis option.simps(5) snd_conv)
  qed
  show ?case
  proof (cases "pb_err c = None \<and> threshold \<le> ps_success ?s")
    case True
    with Cons.prems(2) update_from_best [of "Some i" threshold "i + 1" cs "stats(?n \<mapsto> ?s)"] have "best = Some i"
      by (simp add: update_from_Cons Let_def)
    with True keep show ?thesis by simp
  next
    case False
    then have "(if pb_err c = None \<and> threshold \<le> ps_success ?s then Some i else None) = None" by auto
    with Cons.prems(2) have u: "update_from threshold (i + 1) cs None (stats(?n \<mapsto> ?s)) = (best, stats')"
      by (simp add: update_from_Cons Let_def)
    have d: "distinct (map (\<lambda>c. pc_name (pb_path c)) cs)" using Cons.prems(1) by simp
    have head: "pb_err c \<noteq> None \<or> ps_success (stat_of stats' ?n) < threshold" using False keep by auto
    from Cons.IH [OF d u] head show ?thesis
    proof (cases best)
      case (Some j)
      with Cons.IH [OF d u] have j: "Suc i \<le> j" "j < Suc i + length cs" "pb_err (cs ! (j - Suc i)) = None"
        "threshold \<le> ps_success (stat_of stats' (pc_name (pb_path (cs ! (j - Suc i)))))"
        "\<forall>k < j - Suc i. pb_err (cs ! k) \<noteq> None \<or> ps_success (stat_of stats' (pc_name (pb_path (cs ! k)))) < threshold"
        by simp_all
      then have eq: "(c # cs) ! (j - i) = cs ! (j - Suc i)" by (metis Suc_diff_le diff_Suc_Suc nth_Cons_Suc)
      have "pb_err ((c # cs) ! k) \<noteq> None \<or> ps_success (stat_of stats' (pc_name (pb_path ((c # cs) ! k)))) < threshold"
        if "k < j - i" for k
        using that head j(1,5) by (cases k) auto
      with Some j eq show ?thesis by simp
    qed auto
  qed
qed simp

text \<open>
  The latency rule: the cooldown is over and the candidate is faster by the margin and the ratio, or is of higher
  priority and about as fast (or nothing is known of the active path).
\<close>

definition latency_gain :: "probe_config \<Rightarrow> probe_stat \<Rightarrow> duration \<Rightarrow> bool" where
  "latency_gain cfg stat rtt \<longleftrightarrow> 0 < ps_rtt stat \<and> pr_better_min_delta cfg \<le> ps_rtt stat - rtt
     \<and> f64_ge (f64_round (f64_of_int (ps_rtt stat - rtt) / f64_of_int (ps_rtt stat))) (pr_better_ratio cfg)"

lemma shouldLatencySwitch_rule:
  assumes "shouldLatencySwitch cfg now r" and "lr_stat r = Some stat"
  shows "(\<forall>t. lr_last r = Some t \<longrightarrow> pr_switch_cooldown cfg \<le> now - t)
    \<and> (latency_gain cfg stat (lr_rtt r)
       \<or> pc_priority (lr_active r) < pc_priority (lr_candidate r)
         \<and> (ps_rtt stat \<le> 0 \<or> \<bar>ps_rtt stat - lr_rtt r\<bar> \<le> pr_better_min_delta cfg))"
  using assms
  by (auto simp: shouldLatencySwitch_def latency_gain_def absDuration_def Let_def split: option.splits if_splits)

text \<open>A candidate whose run of successes is long enough.\<close>

definition qualifies :: "config \<Rightarrow> path_stats \<Rightarrow> probe_candidate \<Rightarrow> bool" where
  "qualifies cfg stats c \<longleftrightarrow> pb_err c = None
     \<and> pr_candidate_successes (cfg_probe cfg) \<le> ps_success (stat_of stats (pc_name (pb_path c)))"

text \<open>The run of failures of the active path has reached the threshold.\<close>

definition active_failed :: "config \<Rightarrow> path_stats \<Rightarrow> client_conn \<Rightarrow> bool" where
  "active_failed cfg stats active \<longleftrightarrow> pr_active_failures (cfg_probe cfg) \<le> ps_fail (stat_of stats (pc_name (cc_path active)))"

lemma switch_decide_cases:
  assumes names: "distinct (pc_name (cc_path active) # map (\<lambda>c. pc_name (pb_path c)) cs)"
    and d: "switch_decide cfg now active lastSwitch hb cs stats = (decision, stats')"
  shows "case decision of
      Stay \<Rightarrow> \<not> active_failed cfg stats' active
    | Drop \<Rightarrow> active_failed cfg stats' active \<and> (\<forall>c \<in> set cs. \<not> qualifies cfg stats' c)
    | Promote i failed \<Rightarrow> i < length cs \<and> qualifies cfg stats' (cs ! i) \<and> (\<forall>k < i. \<not> qualifies cfg stats' (cs ! k))
        \<and> (failed \<longleftrightarrow> active_failed cfg stats' active)
        \<and> (failed \<or> heartbeat_healthy hb \<and> (\<forall>t. lastSwitch = Some t \<longrightarrow> pr_switch_cooldown (cfg_probe cfg) \<le> now - t)
            \<and> (latency_gain (cfg_probe cfg) (stat_of stats' (pc_name (cc_path active))) (pb_rtt (cs ! i))
               \<or> pc_priority (cc_path active) < pc_priority (pb_path (cs ! i))
                 \<and> (ps_rtt (stat_of stats' (pc_name (cc_path active))) \<le> 0
                     \<or> \<bar>ps_rtt (stat_of stats' (pc_name (cc_path active))) - pb_rtt (cs ! i)\<bar> \<le> pr_better_min_delta (cfg_probe cfg))))"
proof -
  let ?a = "pc_name (cc_path active)"
  let ?A = "observe (heartbeat_observation hb) (stat_of stats ?a)"
  obtain best s3 where u: "update_from (pr_candidate_successes (cfg_probe cfg)) 0 cs None (stats(?a \<mapsto> ?A)) = (best, s3)" by fastforce
  have s3: "stats' = s3" using d u
    by (auto simp: switch_decide_def pathProbeStat_eq updateCandidateStats_def updateActiveHeartbeatStat_observe Let_def split: option.splits)
  have sa: "s3 ?a = Some ?A"
    using update_from_frame [of ?a cs "pr_candidate_successes (cfg_probe cfg)" 0 None "stats(?a \<mapsto> ?A)"] names u by simp
  then have a: "stat_of s3 ?a = ?A" by (simp add: stat_of_def)
  have "distinct (map (\<lambda>c. pc_name (pb_path c)) cs)" using names by simp
  note first = update_from_first [OF this u]
  show ?thesis
  proof (cases best)
    case None
    have q: "\<not> qualifies cfg s3 c" if "c \<in> set cs" for c
    proof -
      from None first that have "pb_err c \<noteq> None \<or> ps_success (stat_of s3 (pc_name (pb_path c))) < pr_candidate_successes (cfg_probe cfg)"
        by simp
      then show ?thesis by (auto simp: qualifies_def)
    qed
    from None d u a have "decision = (if active_failed cfg s3 active then Drop else Stay)"
      by (auto simp: switch_decide_def pathProbeStat_eq updateCandidateStats_def updateActiveHeartbeatStat_observe Let_def
          active_failed_def)
    with q show ?thesis unfolding s3 by auto
  next
    case (Some j)
    with first have q: "j < length cs" "qualifies cfg s3 (cs ! j)" "\<forall>k < j. \<not> qualifies cfg s3 (cs ! k)"
      by (auto simp: qualifies_def)
    let ?r = "\<lparr>lr_active = cc_path active, lr_stat = s3 ?a, lr_candidate = pb_path (cs ! j), lr_rtt = pb_rtt (cs ! j), lr_last = lastSwitch\<rparr>"
    have rule: "(\<forall>t. lastSwitch = Some t \<longrightarrow> pr_switch_cooldown (cfg_probe cfg) \<le> now - t)
        \<and> (latency_gain (cfg_probe cfg) (stat_of s3 ?a) (pb_rtt (cs ! j))
           \<or> pc_priority (cc_path active) < pc_priority (pb_path (cs ! j))
             \<and> (ps_rtt (stat_of s3 ?a) \<le> 0 \<or> \<bar>ps_rtt (stat_of s3 ?a) - pb_rtt (cs ! j)\<bar> \<le> pr_better_min_delta (cfg_probe cfg)))"
      if "shouldLatencySwitch (cfg_probe cfg) now ?r"
      using shouldLatencySwitch_rule [OF that] sa a by simp
    have dec: "decision = (if \<not> active_failed cfg s3 active
        \<and> (\<not> heartbeat_healthy hb \<or> \<not> shouldLatencySwitch (cfg_probe cfg) now ?r) then Stay
      else Promote j (active_failed cfg s3 active))"
      using d u Some a by (auto simp: switch_decide_def pathProbeStat_eq updateCandidateStats_def
          updateActiveHeartbeatStat_observe Let_def active_failed_def)
    show ?thesis unfolding s3 using dec rule q by auto
  qed
qed

text \<open>
  C18. The decision of a cycle, in terms of the statistics it leaves. It stays only while the run of
  failures of the active path is below its threshold; it drops the connection only when that is reached and no
  candidate qualifies; it promotes the first candidate in rank whose run of successes is long enough, and then
  either the active path has failed, or its heartbeat is healthy, the cooldown is over, and the candidate is better by
  the margin and the ratio or has a higher priority at about the same round trip.
\<close>

theorem switch_decision_justified:
  assumes "distinct (pc_name (cc_path active) # map (\<lambda>c. pc_name (pb_path c)) cs)"
    and "switch_decide cfg now active lastSwitch hb cs stats = (decision, stats')"
  shows "case decision of
      Stay \<Rightarrow> \<not> active_failed cfg stats' active
    | Drop \<Rightarrow> active_failed cfg stats' active \<and> (\<forall>c \<in> set cs. \<not> qualifies cfg stats' c)
    | Promote i failed \<Rightarrow> i < length cs \<and> qualifies cfg stats' (cs ! i) \<and> (\<forall>k < i. \<not> qualifies cfg stats' (cs ! k))
        \<and> (failed \<longleftrightarrow> active_failed cfg stats' active)
        \<and> (failed \<or> heartbeat_healthy hb \<and> (\<forall>t. lastSwitch = Some t \<longrightarrow> pr_switch_cooldown (cfg_probe cfg) \<le> now - t)
            \<and> (latency_gain (cfg_probe cfg) (stat_of stats' (pc_name (cc_path active))) (pb_rtt (cs ! i))
               \<or> pc_priority (cc_path active) < pc_priority (pb_path (cs ! i))
                 \<and> (ps_rtt (stat_of stats' (pc_name (cc_path active))) \<le> 0
                     \<or> \<bar>ps_rtt (stat_of stats' (pc_name (cc_path active))) - pb_rtt (cs ! i)\<bar> \<le> pr_better_min_delta (cfg_probe cfg))))"
  by (rule switch_decide_cases [OF assms])

definition demo_switch_candidate :: probe_candidate where
  "demo_switch_candidate = \<lparr>pb_open = Some 1, pb_path = demo_path\<lparr>pc_name := ''b'', pc_priority := 1\<rparr>, pb_rtt = 5,
     pb_timings = zero_timings, pb_err = None, pb_phase = [], pb_order = 0\<rparr>"

definition demo_dead :: active_heartbeat where
  "demo_dead = \<lparr>ah_rtt = 0, ah_timed_out = True, ah_closed = False, ah_err = None\<rparr>"

definition demo_stats :: path_stats where
  "demo_stats = Map.empty(''a'' \<mapsto> \<lparr>ps_success = 0, ps_fail = 1, ps_rtt = 9\<rparr>, ''b'' \<mapsto> \<lparr>ps_success = 2, ps_fail = 0, ps_rtt = 5\<rparr>)"

theorem switch_decision_justified_witness:
  "\<exists>stats'. switch_decide demo_client_cfg 0 (demo_conn 0 1) None demo_dead [demo_switch_candidate] demo_stats = (Promote 0 True, stats')
     \<and> active_failed demo_client_cfg stats' (demo_conn 0 1) \<and> qualifies demo_client_cfg stats' demo_switch_candidate"
proof -
  obtain stats' where d: "switch_decide demo_client_cfg 0 (demo_conn 0 1) None demo_dead [demo_switch_candidate] demo_stats
      = (Promote 0 True, stats')"
    by (simp add: switch_decide_def pathProbeStat_def demo_stats_def demo_conn_def demo_path_def updateCandidateStats_def
        update_from.simps demo_switch_candidate_def updateActiveHeartbeatStat_def demo_dead_def demo_client_cfg_def Let_def)
  have "distinct (pc_name (cc_path (demo_conn 0 1)) # map (\<lambda>c. pc_name (pb_path c)) [demo_switch_candidate])"
    by (simp add: demo_conn_def demo_path_def demo_switch_candidate_def)
  from switch_decision_justified [OF this d] d show ?thesis by auto
qed

section \<open>A cycle is a run of the client\<close>

lemma run_heartbeat_wait: "client_run w (snd (heartbeat_wait conn nonce c event w))"
  using client_run_step [OF cs_heartbeat, of w]
  by (auto simp: heartbeat_wait_def Let_def split: heartbeat_event.split prod.split bool.split)

lemma run_client_ping: "client_send conn (ping_header nonce sent) [] w = (e, w') \<Longrightarrow> client_run w w'"
  using client_run_step [OF cs_ping, of w conn nonce sent] by simp

lemma run_activeHeartbeat:
  assumes "activeHeartbeat conn inp others w = (hb, w')" and others: "\<And>v. client_run v (others v)"
  shows "client_run w w'"
proof (cases "hb_begin (hi_nonce inp) (hi_sent_at inp) (cl_hb w (cc_ws conn))")
  case (Pair x t)
  obtain e w1 where s: "client_send conn (ping_header (hi_nonce inp) (hi_sent_at inp)) [] (w\<lparr>cl_hb := (cl_hb w)(cc_ws conn := t)\<rparr>) = (e, w1)"
    by fastforce
  have w1: "client_run w w1" by (rule client_run_trans [OF client_run_step [OF cs_heartbeat] run_client_ping [OF s]])
  have "client_run w (dropActive conn w1)" by (rule client_run_trans [OF w1 client_run_step [OF cs_drop]])
  moreover have "client_run w (snd (heartbeat_wait conn nonce c event (others w1)))" for nonce c event
    by (rule client_run_trans [OF client_run_trans [OF w1 others] run_heartbeat_wait])
  then have "client_run w v" if "heartbeat_wait conn nonce c event (others w1) = (hb', v)" for nonce c event hb' v
    using that by (metis snd_conv)
  ultimately show ?thesis
    using assms(1) Pair s by (auto simp: activeHeartbeat_def Let_def split: if_splits sum.splits option.splits)
qed

lemma run_switch:
  assumes r: "runSwitchCycle timeout closeErr inp stats w = (x, stats', w')" and others: "\<And>v. client_run v (si_others inp v)"
  shows "client_run w w'"
proof (cases "rt_active (cl_rt w)")
  case None
  with r show ?thesis by (simp add: runSwitchCycle_def)
next
  case (Some active)
  let ?paths = "pathsExcept (cfg_paths (cl_cfg w)) (pc_name (cc_path active))"
  obtain hb w1 where h: "activeHeartbeat active (si_heartbeat inp) (si_others inp) w = (hb, w1)" by fastforce
  note w1 = run_activeHeartbeat [OF h others]
  obtain oc w2 where c: "collectSwitchCandidates timeout closeErr ?paths (si_ctx inp) (si_runs inp) w1 = (oc, w2)" by fastforce
  have "client_run w1 w2" using c run_probeBatch by (auto simp: collectSwitchCandidates_def split: if_splits)
  with w1 have w2: "client_run w w2" by (rule client_run_trans)
  have close: "client_run w (snd (snd (closeProbeCandidates closeErr cs w2)))" for cs by (rule run_close_after [OF w2])
  have drop: "client_run w (snd (snd (closeProbeCandidates closeErr cs (dropActive active w2))))" for cs
    by (rule run_close_after [OF client_run_trans [OF w2 client_run_step [OF cs_drop]]])
  have promote: "client_run w w3" "client_run w (snd (snd (closeProbeCandidates closeErr cs w3)))"
    if "activateCandidateFor closeErr request s w2 = (y, c1, w3)" for request s y c1 w3 cs
    using client_run_trans [OF w2 run_activateCandidateFor [OF that]] run_close_after by blast+
  show ?thesis
  proof (cases "\<exists>cs. oc = Some (cs, None)")
    case False
    with r Some h c w2 show ?thesis by (auto simp: runSwitchCycle_def Let_def split: option.splits prod.splits)
  next
    case True
    then obtain cs where oc: "oc = Some (cs, None)" by blast
    obtain dec stats1 where d: "switch_decide (cl_cfg w) (cl_now w2) active (rt_lastSwitch (cl_rt w)) hb cs stats = (dec, stats1)" by fastforce
    show ?thesis
    proof (cases dec)
      case (Promote i failed)
      obtain y c1 w3 where p: "activateCandidateFor closeErr \<lparr>ca_candidate = Some (cs ! i), ca_resume = True,
          ca_expected = Some active, ca_allow_dropped = failed\<rparr> (si_session inp) w2 = (y, c1, w3)"
        by (cases "activateCandidateFor closeErr \<lparr>ca_candidate = Some (cs ! i), ca_resume = True,
          ca_expected = Some active, ca_allow_dropped = failed\<rparr> (si_session inp) w2") auto
      with r Some h c oc d Promote promote [OF p] show ?thesis
        by (auto simp: runSwitchCycle_def Let_def split: option.splits prod.splits)
    qed (use r Some h c oc d close drop in \<open>auto simp: runSwitchCycle_def Let_def\<close>)
  qed
qed

definition demo_switch :: switch_input where
  "demo_switch = \<lparr>si_heartbeat = \<lparr>hi_nonce = ''n'', hi_sent_at = 0, hi_event = TimerFired\<rparr>, si_others = (\<lambda>w. w), si_runs = [],
     si_ctx = None, si_session = \<lparr>sr_ctx = None, sr_write_ctx = None, sr_inputs = [], sr_took = 0\<rparr>\<rparr>"

end
