(* ===== verification/Retry.thy ===== *)
theory Retry
  imports Go_Float
begin

text \<open>
  The retry policy of internal/tunnel/retry.go: the capped exponential delay, its jitter in float64 arithmetic, and
  the decision of the next attempt.
\<close>

section \<open>The policy\<close>

definition retryBaseDelay :: duration where
  "retryBaseDelay = 200 * 1000000"

definition retryMaxDelay :: duration where
  "retryMaxDelay = 5 * 1000000000"

record retry_decision =
  rd_delay :: duration
  rd_cap :: duration
  rd_exhausted :: bool

text \<open>The loop of \<open>retryCap\<close>, from step \<open>step\<close> with the cap reached so far.\<close>

function retry_cap_loop :: "int \<Rightarrow> int \<Rightarrow> duration \<Rightarrow> duration" where
  "retry_cap_loop step attempt cap =
     (if step < attempt \<and> cap < retryMaxDelay then
        if retryMaxDelay div 2 < cap then retryMaxDelay
        else retry_cap_loop (step + 1) attempt (cap * 2)
      else cap)"
  by pat_completeness auto
termination
  by (relation "measure (\<lambda>(step, attempt, cap). nat (attempt - step))") auto

declare retry_cap_loop.simps [simp del]

definition retryCap :: "int \<Rightarrow> duration" where
  "retryCap attempt = retry_cap_loop 1 attempt retryBaseDelay"

definition retryJitter :: "duration \<Rightarrow> f64 \<Rightarrow> duration" where
  "retryJitter cap sample =
     (if cap \<le> 0 then 0
      else case sample of
        NaN \<Rightarrow> 0
      | NegInf \<Rightarrow> 0
      | PosInf \<Rightarrow> (let delay = f64_trunc (f64_round (f64_of_int cap * below_one)) in
          if delay < 0 then 0 else if cap \<le> delay then cap - 1 else delay)
      | Fin x \<Rightarrow>
          if x \<le> 0 then 0
          else let x = (if 1 \<le> x then below_one else x);
                   delay = f64_trunc (f64_round (f64_of_int cap * x)) in
            if delay < 0 then 0 else if cap \<le> delay then cap - 1 else delay)"

definition retry_next :: "int \<Rightarrow> duration \<Rightarrow> f64 \<Rightarrow> retry_decision" where
  "retry_next attempt remaining sample =
     (if remaining \<le> 0 then \<lparr>rd_delay = 0, rd_cap = 0, rd_exhausted = True\<rparr>
      else if attempt \<le> 0 then \<lparr>rd_delay = 0, rd_cap = 0, rd_exhausted = False\<rparr>
      else let cap = (if remaining < retryCap attempt then remaining else retryCap attempt) in
        \<lparr>rd_delay = retryJitter cap sample, rd_cap = cap, rd_exhausted = False\<rparr>)"

section \<open>Its bounds\<close>

lemma retry_cap_loop_power:
  "step \<le> attempt \<Longrightarrow> cap = min (retryBaseDelay * 2 ^ nat (step - 1)) retryMaxDelay \<Longrightarrow> 1 \<le> step \<Longrightarrow>
   retry_cap_loop step attempt cap = min (retryBaseDelay * 2 ^ nat (attempt - 1)) retryMaxDelay"
proof (induction step attempt cap rule: retry_cap_loop.induct)
  case (1 step attempt cap)
  show ?case
  proof (cases "step < attempt \<and> cap < retryMaxDelay")
    case True
    then have cap: "cap = retryBaseDelay * 2 ^ nat (step - 1)" using "1.prems" by (simp add: min_def split: if_splits)
    have st: "nat (step + 1 - 1) = Suc (nat (step - 1))" using "1.prems" by simp
    show ?thesis
    proof (cases "retryMaxDelay div 2 < cap")
      case big: True
      have "nat (step - 1) + 1 \<le> nat (attempt - 1)" using conjunct1 [OF True] "1.prems"(3) by arith
      then have "(2::int) ^ (nat (step - 1) + 1) \<le> 2 ^ nat (attempt - 1)" by (rule power_increasing) simp
      then have "retryBaseDelay * (2 * 2 ^ nat (step - 1)) \<le> retryBaseDelay * 2 ^ nat (attempt - 1)"
        by (simp add: retryBaseDelay_def)
      with big cap have "retryMaxDelay \<le> retryBaseDelay * 2 ^ nat (attempt - 1)"
        by (simp add: retryMaxDelay_def retryBaseDelay_def)
      with True big show ?thesis by (simp add: retry_cap_loop.simps)
    next
      case False
      have "cap * 2 = min (retryBaseDelay * 2 ^ nat (step + 1 - 1)) retryMaxDelay"
        unfolding st using False cap by (simp add: retryMaxDelay_def retryBaseDelay_def)
      with "1.IH" [OF True False] True "1.prems"(3) have
        "retry_cap_loop (step + 1) attempt (cap * 2) = min (retryBaseDelay * 2 ^ nat (attempt - 1)) retryMaxDelay"
        by simp
      with True False show ?thesis by (subst retry_cap_loop.simps) simp
    qed
  next
    case False
    then consider "step = attempt" | "cap = retryMaxDelay" using "1.prems" by (force simp: min_def split: if_splits)
    then show ?thesis
    proof cases
      case 1
      with "1.prems" show ?thesis by (simp add: retry_cap_loop.simps)
    next
      case 2
      have "(2::int) ^ nat (step - 1) \<le> 2 ^ nat (attempt - 1)" using "1.prems" by (intro power_increasing) auto
      moreover have "retryMaxDelay \<le> retryBaseDelay * 2 ^ nat (step - 1)"
        using 2 "1.prems"(2) by (simp add: min_def split: if_splits)
      ultimately have "retryMaxDelay \<le> retryBaseDelay * 2 ^ nat (attempt - 1)"
        unfolding retryBaseDelay_def by linarith
      with 2 show ?thesis by (simp add: retry_cap_loop.simps)
    qed
  qed
qed

lemma retryCap_power: "1 \<le> attempt \<Longrightarrow> retryCap attempt = min (retryBaseDelay * 2 ^ nat (attempt - 1)) retryMaxDelay"
  unfolding retryCap_def by (rule retry_cap_loop_power) (simp_all add: retryBaseDelay_def retryMaxDelay_def)

lemma retryJitter_bounds: "0 < cap \<Longrightarrow> 0 \<le> retryJitter cap sample \<and> retryJitter cap sample < cap"
  by (auto simp: retryJitter_def Let_def split: f64.split)

lemma retryCap_bounds: "retryBaseDelay \<le> retryCap attempt \<and> retryCap attempt \<le> retryMaxDelay"
proof (cases "1 \<le> attempt")
  case True
  have "(1::int) \<le> 2 ^ nat (attempt - 1)" by simp
  then have "retryBaseDelay \<le> retryBaseDelay * 2 ^ nat (attempt - 1)" by (simp add: retryBaseDelay_def)
  with True show ?thesis by (simp add: retryCap_power retryBaseDelay_def retryMaxDelay_def)
next
  case False
  then show ?thesis by (simp add: retryCap_def retry_cap_loop.simps retryBaseDelay_def retryMaxDelay_def)
qed

lemma retry_next_exhausted: "rd_exhausted (retry_next attempt remaining sample) = (remaining \<le> 0)"
  by (simp add: retry_next_def Let_def)

lemma retry_next_delay:
  "0 \<le> rd_delay (retry_next attempt remaining sample)"
  "0 < remaining \<Longrightarrow> rd_delay (retry_next attempt remaining sample) < remaining"
proof -
  have "0 < cap \<Longrightarrow> cap \<le> remaining \<Longrightarrow> retryJitter cap sample < remaining" for cap
    using retryJitter_bounds [of cap sample] by linarith
  then show "0 \<le> rd_delay (retry_next attempt remaining sample)"
    "0 < remaining \<Longrightarrow> rd_delay (retry_next attempt remaining sample) < remaining"
    using retryJitter_bounds [of "retryCap attempt" sample] retryJitter_bounds [of remaining sample]
      retryCap_bounds [of attempt]
    by (auto simp: retry_next_def Let_def retryBaseDelay_def)
qed

text \<open>
  C33. The decision of the retry policy: exhausted exactly when no time remains, immediate for the first
  attempt, and otherwise a delay below the exponential cap (200 ms doubled per attempt, at most 5 s) and
  below the remaining time, so that a retry is never scheduled at or after the deadline.
\<close>

theorem retry_next_bounds:
  "rd_exhausted (retry_next attempt remaining sample) = (remaining \<le> 0)
   \<and> (attempt \<le> 0 \<longrightarrow> rd_delay (retry_next attempt remaining sample) = 0)
   \<and> 0 \<le> rd_delay (retry_next attempt remaining sample)
   \<and> (0 < remaining \<longrightarrow> rd_delay (retry_next attempt remaining sample) < remaining)
   \<and> (0 < remaining \<and> 1 \<le> attempt \<longrightarrow>
        rd_cap (retry_next attempt remaining sample) = min remaining (min (retryBaseDelay * 2 ^ nat (attempt - 1)) retryMaxDelay)
        \<and> rd_delay (retry_next attempt remaining sample) < rd_cap (retry_next attempt remaining sample))"
  using retryJitter_bounds [of "retryCap attempt" sample] retryJitter_bounds [of remaining sample]
    retryCap_bounds [of attempt] retryCap_power [of attempt] retry_next_exhausted retry_next_delay
  by (auto simp: retry_next_def Let_def retryBaseDelay_def)

theorem retry_next_bounds_witness:
  "rd_cap (retry_next 5 10000000000 (Fin (1 / 2))) = 3200000000
   \<and> rd_cap (retry_next 9 10000000000 (Fin (1 / 2))) = 5000000000
   \<and> rd_delay (retry_next 9 1000 PosInf) < 1000"
  using retry_next_bounds [of 5 10000000000 "Fin (1 / 2)"] retry_next_bounds [of 9 10000000000 "Fin (1 / 2)"]
    retry_next_bounds [of 9 1000 PosInf]
  by (simp add: retryBaseDelay_def retryMaxDelay_def)

end
