(* ===== verification/Reconnect.thy ===== *)
theory Reconnect
  imports Retry
begin

text \<open>
  The reconnect loop of internal/tunnel/client_reconnect.go. \<open>runReconnectLoop\<close> takes its clock, timer,
  random source, runtime state and attempt from \<open>reconnectDependencies\<close>; here they are the inputs of one
  round of the loop, and a run of the loop is a list of them.
\<close>

section \<open>The loop\<close>

text \<open>
  What a round observes: whether \<open>done\<close> or the context ended the loop at its head, the state, the
  results of the two waits, the three readings of the clock, the random sample, and the outcome of
  the attempt (\<open>None\<close>: no error).
\<close>

record reconnect_input =
  ri_stopped :: bool
  ri_active :: bool
  ri_session :: bool
  ri_signal :: bool
  ri_now1 :: instant
  ri_now2 :: instant
  ri_sample :: f64
  ri_timer :: bool
  ri_now3 :: instant
  ri_attempt :: "gerror option"

record reconnect_vars =
  rv_deadline :: "instant option"
  rv_attempt :: int

text \<open>
  What a round did: the variables for the next round or \<open>None\<close> when the loop returned, the error given
  to \<open>finish\<close>, the delay slept, and the start and deadline of an attempt.
\<close>

record round_result =
  rr_next :: "reconnect_vars option"
  rr_finish :: "gerror option"
  rr_slept :: duration
  rr_attempt :: "(instant \<times> instant) option"

definition initial_vars :: reconnect_vars where
  "initial_vars = \<lparr>rv_deadline = None, rv_attempt = 0\<rparr>"

definition reconnect_round :: "duration \<Rightarrow> reconnect_input \<Rightarrow> reconnect_vars \<Rightarrow> round_result" where
  "reconnect_round timeout ri v =
     (if ri_stopped ri then \<lparr>rr_next = None, rr_finish = None, rr_slept = 0, rr_attempt = None\<rparr>
      else if ri_active ri \<or> \<not> ri_session ri then
        (if \<not> ri_signal ri then \<lparr>rr_next = None, rr_finish = None, rr_slept = 0, rr_attempt = None\<rparr>
         else \<lparr>rr_next = Some initial_vars, rr_finish = None, rr_slept = 0, rr_attempt = None\<rparr>)
      else let deadline = (case rv_deadline v of None \<Rightarrow> ri_now1 ri + timeout | Some d \<Rightarrow> d);
               decision = retry_next (rv_attempt v) (deadline - ri_now2 ri) (ri_sample ri) in
        if rd_exhausted decision then
          \<lparr>rr_next = None, rr_finish = Some (Errorf ''resume timeout''), rr_slept = 0, rr_attempt = None\<rparr>
        else let slept = (if 0 < rd_delay decision then rd_delay decision else 0) in
          if 0 < rd_delay decision \<and> \<not> ri_timer ri then
            \<lparr>rr_next = None, rr_finish = None, rr_slept = slept, rr_attempt = None\<rparr>
          else if \<not> ri_now3 ri < deadline then
            \<lparr>rr_next = None, rr_finish = Some (Errorf ''resume timeout''), rr_slept = slept, rr_attempt = None\<rparr>
          else \<lparr>rr_next = (case ri_attempt ri of
                  None \<Rightarrow> Some initial_vars
                | Some e \<Rightarrow> Some \<lparr>rv_deadline = Some deadline, rv_attempt = rv_attempt v + 1\<rparr>),
                rr_finish = None, rr_slept = slept, rr_attempt = Some (ri_now3 ri, deadline)\<rparr>)"

fun runReconnectLoop :: "duration \<Rightarrow> reconnect_input list \<Rightarrow> reconnect_vars \<Rightarrow> round_result list" where
  "runReconnectLoop timeout [] v = []"
| "runReconnectLoop timeout (ri # ris) v =
     (let r = reconnect_round timeout ri v in
      r # (case rr_next r of None \<Rightarrow> [] | Some v' \<Rightarrow> runReconnectLoop timeout ris v'))"

section \<open>The deadline of an outage\<close>

text \<open>
  Within one round: an attempt starts strictly before the deadline, a sleep ends strictly before it,
  the loop gives up only with the resume timeout and only once a clock reading reached the deadline,
  and a round that sees the deadline reached does give up. A failed attempt keeps the deadline and
  counts the attempt, a success forgets both.
\<close>

theorem reconnect_round_deadline:
  fixes ri :: reconnect_input and v :: reconnect_vars and timeout :: duration
  defines "d \<equiv> (case rv_deadline v of None \<Rightarrow> ri_now1 ri + timeout | Some d \<Rightarrow> d)"
    and "r \<equiv> reconnect_round timeout ri v"
  shows "(\<forall>t d'. rr_attempt r = Some (t, d') \<longrightarrow> t = ri_now3 ri \<and> d' = d \<and> t < d
        \<and> rr_next r = (if ri_attempt ri = None then Some initial_vars
                       else Some \<lparr>rv_deadline = Some d, rv_attempt = rv_attempt v + 1\<rparr>))
    \<and> (0 < rr_slept r \<longrightarrow> ri_now2 ri + rr_slept r < d)
    \<and> (\<forall>e. rr_finish r = Some e \<longrightarrow> e = Errorf ''resume timeout'' \<and> d \<le> max (ri_now2 ri) (ri_now3 ri))
    \<and> (\<not> ri_stopped ri \<and> \<not> ri_active ri \<and> ri_session ri \<and> d \<le> ri_now2 ri \<longrightarrow>
        rr_finish r = Some (Errorf ''resume timeout'') \<and> rr_next r = None)"
proof -
  note e = retry_next_exhausted [of "rv_attempt v" "d - ri_now2 ri" "ri_sample ri"]
    and l = retry_next_delay [where attempt = "rv_attempt v" and remaining = "d - ri_now2 ri" and sample = "ri_sample ri"]
  show ?thesis
    using e l unfolding r_def reconnect_round_def Let_def d_def [symmetric]
    by (auto split: option.split)
qed

text \<open>A round of an outage: the session is lost, nothing ends the loop, and the attempt fails.\<close>

definition failing_round :: "reconnect_input \<Rightarrow> bool" where
  "failing_round ri \<longleftrightarrow> \<not> ri_stopped ri \<and> \<not> ri_active ri \<and> ri_session ri \<and> ri_timer ri \<and> ri_attempt ri \<noteq> None"

lemma failing_round_result:
  assumes "failing_round ri" and "d = (case rv_deadline v of None \<Rightarrow> ri_now1 ri + timeout | Some d \<Rightarrow> d)"
  shows "rr_next (reconnect_round timeout ri v) = (if ri_now2 ri < d \<and> ri_now3 ri < d
      then Some \<lparr>rv_deadline = Some d, rv_attempt = rv_attempt v + 1\<rparr> else None)"
    "rr_attempt (reconnect_round timeout ri v) = (if ri_now2 ri < d \<and> ri_now3 ri < d then Some (ri_now3 ri, d) else None)"
    "rr_finish (reconnect_round timeout ri v) = (if ri_now2 ri < d \<and> ri_now3 ri < d then None
      else Some (Errorf ''resume timeout''))"
  using assms retry_next_exhausted [of "rv_attempt v" "d - ri_now2 ri" "ri_sample ri"]
  unfolding reconnect_round_def Let_def assms(2) [symmetric] failing_round_def
  by (auto split: option.split)

lemma outage_run:
  assumes "list_all failing_round ris" and "rv_deadline v = Some d"
  shows "(\<forall>r \<in> set (runReconnectLoop timeout ris v). \<forall>t d'. rr_attempt r = Some (t, d') \<longrightarrow> d' = d \<and> t < d)"
    "\<exists>ri \<in> set ris. d \<le> ri_now2 ri \<Longrightarrow>
       rr_finish (last (runReconnectLoop timeout ris v)) = Some (Errorf ''resume timeout'')"
  using assms
proof (induction ris arbitrary: v)
  case (Cons ri ris)
  {
    case 1
    then show ?case
      using Cons.IH(1) [of "\<lparr>rv_deadline = Some d, rv_attempt = rv_attempt v + 1\<rparr>"]
        failing_round_result [where ri = ri and d = d and v = v and timeout = timeout]
      by (auto simp: Let_def)
  next
    case 2
    let ?v = "\<lparr>rv_deadline = Some d, rv_attempt = rv_attempt v + 1\<rparr>"
    show ?case
    proof (cases "ri_now2 ri < d \<and> ri_now3 ri < d")
      case True
      with 2 have "\<exists>ri \<in> set ris. d \<le> ri_now2 ri" by auto
      moreover from this have "runReconnectLoop timeout ris ?v \<noteq> []" by (cases ris) (auto simp: Let_def)
      ultimately show ?thesis
        using 2 True Cons.IH(2) [of ?v] failing_round_result [where ri = ri and d = d and v = v and timeout = timeout] by (auto simp: Let_def)
    next
      case False
      with 2 show ?thesis using failing_round_result [where ri = ri and d = d and v = v and timeout = timeout] by (auto simp: Let_def)
    qed
  }
qed auto

lemma first_round:
  "runReconnectLoop timeout (ri # ris) initial_vars
     = runReconnectLoop timeout (ri # ris) \<lparr>rv_deadline = Some (ri_now1 ri + timeout), rv_attempt = 0\<rparr>"
proof -
  have "reconnect_round timeout ri initial_vars
      = reconnect_round timeout ri \<lparr>rv_deadline = Some (ri_now1 ri + timeout), rv_attempt = 0\<rparr>"
    unfolding reconnect_round_def initial_vars_def reconnect_vars.simps option.case ..
  then show ?thesis by simp
qed

text \<open>
  C32. Over a whole outage: all attempts share one deadline, the first clock reading after the loss plus
  the resume timeout, every attempt starts before it however many fail, and as soon as a reading of the
  clock reaches the deadline the loop ends the proxy with the resume timeout.
\<close>

theorem outage_shares_one_deadline:
  assumes "list_all failing_round (ri # ris)"
  shows "(\<forall>r \<in> set (runReconnectLoop timeout (ri # ris) initial_vars). \<forall>t d.
      rr_attempt r = Some (t, d) \<longrightarrow> d = ri_now1 ri + timeout \<and> t < d)
    \<and> ((\<exists>x \<in> set (ri # ris). ri_now1 ri + timeout \<le> ri_now2 x) \<longrightarrow>
        rr_finish (last (runReconnectLoop timeout (ri # ris) initial_vars)) = Some (Errorf ''resume timeout''))"
  using outage_run [OF assms, of "\<lparr>rv_deadline = Some (ri_now1 ri + timeout), rv_attempt = 0\<rparr>" "ri_now1 ri + timeout" timeout]
  unfolding first_round by auto

definition demo_round :: "instant \<Rightarrow> reconnect_input" where
  "demo_round t = \<lparr>ri_stopped = False, ri_active = False, ri_session = True, ri_signal = True, ri_now1 = t, ri_now2 = t,
     ri_sample = Fin (1 / 2), ri_timer = True, ri_now3 = t, ri_attempt = Some EOF\<rparr>"

theorem outage_shares_one_deadline_witness:
  "rr_finish (last (runReconnectLoop 10 [demo_round 0, demo_round 4, demo_round 12] initial_vars))
     = Some (Errorf ''resume timeout'')"
  using outage_shares_one_deadline [of "demo_round 0" "[demo_round 4, demo_round 12]" 10]
  by (simp add: failing_round_def demo_round_def)

theorem reconnect_round_deadline_witness:
  "rr_finish (reconnect_round 10 (demo_round 12) \<lparr>rv_deadline = Some 10, rv_attempt = 3\<rparr>) = Some (Errorf ''resume timeout'')"
proof -
  let ?v = "\<lparr>rv_deadline = Some 10, rv_attempt = 3\<rparr>"
  have "\<not> ri_stopped (demo_round 12) \<and> \<not> ri_active (demo_round 12) \<and> ri_session (demo_round 12)
      \<and> (case rv_deadline ?v of None \<Rightarrow> ri_now1 (demo_round 12) + 10 | Some d \<Rightarrow> d) \<le> ri_now2 (demo_round 12)"
    by (simp add: demo_round_def)
  then show ?thesis using reconnect_round_deadline [where v = ?v and ri = "demo_round 12" and timeout = 10] by blast
qed

end
