(* ===== verification/Proxy_Loops.thy ===== *)
theory Proxy_Loops
  imports Switch_Props Reconnect
begin

text \<open>
  The proxy as a whole: \<open>Proxy\<close> of tunnel.go, the reconnect loop with the dependencies that
  \<open>reconnectLoop\<close> of client_reconnect.go gives it, and \<open>switchLoop\<close> of client_switch.go. The loops run on
  the world of the client; between their rounds, and while they wait, other goroutines change it.
\<close>

section \<open>Connecting\<close>

text \<open>The inputs of one call of \<open>connectAny\<close>.\<close>

record connect_run =
  cn_ctx :: "gerror option"
  cn_probe_ctx :: "gerror option"
  cn_lkg :: direct_run
  cn_sessions :: "probe_candidate \<Rightarrow> session_run"
  cn_direct :: "path_config \<Rightarrow> direct_run"
  cn_probes :: "probe_run list"

definition connect_with :: "(gerror \<Rightarrow> bool) \<Rightarrow> (nat \<Rightarrow> gerror option) \<Rightarrow> bool \<Rightarrow> connect_run \<Rightarrow> client_world \<Rightarrow>
    gerror option option \<times> client_world" where
  "connect_with timeout closeErr resume run w =
     connectAny timeout closeErr (cn_ctx run) (cn_probe_ctx run) resume (cn_lkg run) (cn_sessions run) (cn_direct run) (cn_probes run) w"

text \<open>
  \<open>Proxy\<close> up to the start of its loops: a fresh runtime, then the first connection. It returns the error of
  that connection, or goes on to start the loops and wait. \<open>loaded\<close> is what \<open>LoadLastKnownGoodPath\<close> returned and
  \<open>half\<close> says whether standard output can be half-closed; \<open>others\<close> is what runs meanwhile, which is the goroutine that
  waits for the context and calls \<open>finish\<close>.
\<close>

definition Proxy_start :: "(gerror \<Rightarrow> bool) \<Rightarrow> (nat \<Rightarrow> gerror option) \<Rightarrow> config \<Rightarrow> path_config option result \<Rightarrow> bool \<Rightarrow>
    (client_world \<Rightarrow> client_world) \<Rightarrow> connect_run \<Rightarrow> gerror option option \<times> client_world" where
  "Proxy_start timeout closeErr cfg loaded half others run =
     connect_with timeout closeErr False run
       (others (fresh_client cfg (case loaded of Inl e \<Rightarrow> None | Inr p \<Rightarrow> p) half))"

text \<open>\<open>wait\<close>: the result of the proxy once \<open>done\<close> is closed.\<close>

definition proxy_result :: "client_runtime \<Rightarrow> gerror option option" where
  "proxy_result rt = (if rt_done rt then Some (rt_doneErr rt) else None)"

section \<open>The reconnect loop on the runtime\<close>

text \<open>
  One round: what others do before it and during its waits, its clock and timer, and the inputs of the attempt. The
  fields of \<open>lp_round\<close> for the state and the attempt are overwritten by what the runtime says.
\<close>

record loop_input =
  lp_before :: "client_world \<Rightarrow> client_world"
  lp_round :: reconnect_input
  lp_during :: "client_world \<Rightarrow> client_world"
  lp_connect :: connect_run

definition observed_round :: "reconnect_input \<Rightarrow> client_runtime \<Rightarrow> gerror option \<Rightarrow> reconnect_input" where
  "observed_round ri rt res = ri\<lparr>ri_stopped := (ri_stopped ri \<or> rt_done rt), ri_active := (rt_active rt \<noteq> None),
     ri_session := (rt_sessionID rt \<noteq> []), ri_attempt := res\<rparr>"

text \<open>The outer \<open>None\<close> while an attempt waits; then the variables of the next round, or \<open>None\<close> when the loop returned.
  A round that waited for the signal takes it; whether the wait for the timer took it is up to \<open>lp_during\<close>.\<close>

definition loop_round :: "(gerror \<Rightarrow> bool) \<Rightarrow> (nat \<Rightarrow> gerror option) \<Rightarrow> loop_input \<Rightarrow> reconnect_vars \<Rightarrow> client_world \<Rightarrow>
    reconnect_vars option option \<times> client_world" where
  "loop_round timeout closeErr li v w =
     (let w0 = lp_before li w;
          window = rc_timeout (cfg_resume (cl_cfg w0));
          ri = observed_round (lp_round li) (cl_rt w0) None;
          r = reconnect_round window ri v in
      if \<not> ri_stopped ri \<and> (ri_active ri \<or> \<not> ri_session ri) then
        (Some (rr_next r), let w1 = lp_during li w0 in
           if ri_signal ri then upd_rt (\<lambda>rt. rt\<lparr>rt_reconnectSignal := False\<rparr>) w1 else w1)
      else case rr_attempt r of
        None \<Rightarrow> (Some (rr_next r), let w1 = lp_during li w0 in case rr_finish r of None \<Rightarrow> w1 | Some e \<Rightarrow> finish (Some e) w1)
      | Some _ \<Rightarrow> (case connect_with timeout closeErr True (lp_connect li) (lp_during li w0) of
          (None, w1) \<Rightarrow> (None, w1)
        | (Some res, w1) \<Rightarrow> (Some (rr_next (reconnect_round window (observed_round (lp_round li) (cl_rt w0) res) v)), w1)))"

text \<open>The flag says that the loop has returned.\<close>

fun reconnectLoop :: "(gerror \<Rightarrow> bool) \<Rightarrow> (nat \<Rightarrow> gerror option) \<Rightarrow> loop_input list \<Rightarrow> reconnect_vars \<Rightarrow> client_world \<Rightarrow> bool \<times> client_world" where
  "reconnectLoop timeout closeErr [] v w = (False, w)"
| "reconnectLoop timeout closeErr (li # lis) v w = (case loop_round timeout closeErr li v w of
     (None, w1) \<Rightarrow> (False, w1)
   | (Some None, w1) \<Rightarrow> (True, w1)
   | (Some (Some v1), w1) \<Rightarrow> reconnectLoop timeout closeErr lis v1 w1)"

section \<open>The switch loop\<close>

text \<open>One turn of the loop: what others do while it waits, and which case the \<open>select\<close> takes when both are ready.\<close>

record switch_tick =
  st_before :: "client_world \<Rightarrow> client_world"
  st_ticked :: bool
  st_cycle :: switch_input

fun switchLoop :: "(gerror \<Rightarrow> bool) \<Rightarrow> (nat \<Rightarrow> gerror option) \<Rightarrow> switch_tick list \<Rightarrow> path_stats \<Rightarrow> client_world \<Rightarrow> bool \<times> path_stats \<times> client_world" where
  "switchLoop timeout closeErr [] stats w = (False, stats, w)"
| "switchLoop timeout closeErr (t # ts) stats w =
     (let w0 = st_before t w in
      if rt_done (cl_rt w0) \<and> \<not> st_ticked t then (True, stats, w0)
      else case runSwitchCycle timeout closeErr (st_cycle t) stats w0 of
        (None, stats1, w1) \<Rightarrow> (False, stats1, w1)
      | (Some err, stats1, w1) \<Rightarrow> switchLoop timeout closeErr ts stats1 w1)"

section \<open>They run the steps of the client\<close>

text \<open>What other goroutines do is itself a run of the client.\<close>

definition steps_only :: "(client_world \<Rightarrow> client_world) \<Rightarrow> bool" where
  "steps_only f \<longleftrightarrow> (\<forall>v. client_step\<^sup>*\<^sup>* v (f v))"

lemma steps_onlyD: "steps_only f \<Longrightarrow> client_run v (f v)"
  by (simp add: steps_only_def)

lemma run_connect_with: "connect_with timeout closeErr resume run w = (x, w') \<Longrightarrow> client_run w w'"
  unfolding connect_with_def by (rule run_connectAny)

lemma run_loop_round:
  assumes r: "loop_round timeout closeErr li v w = (x, w')" and b: "steps_only (lp_before li)" and d: "steps_only (lp_during li)"
  shows "client_run w w'"
proof -
  let ?w0 = "lp_before li w" and ?w1 = "lp_during li (lp_before li w)"
  have w0: "client_run w ?w0" by (rule steps_onlyD [OF b])
  have w1: "client_run w ?w1" by (rule client_run_trans [OF w0 steps_onlyD [OF d]])
  have sig: "client_run w (upd_rt (\<lambda>rt. rt\<lparr>rt_reconnectSignal := False\<rparr>) ?w1)" by (rule client_run_trans [OF w1 client_run_step [OF cs_signal]])
  have fin: "client_run w (finish e ?w1)" for e by (rule client_run_trans [OF w1 client_run_step [OF cs_finish]])
  obtain y w2 where c: "connect_with timeout closeErr True (lp_connect li) ?w1 = (y, w2)" by fastforce
  note w2 = client_run_trans [OF w1 run_connect_with [OF c]]
  show ?thesis using r c w0 w1 w2 sig fin by (auto simp: loop_round_def Let_def split: if_splits option.splits)
qed

lemma run_reconnectLoop:
  assumes "\<forall>li \<in> set lis. steps_only (lp_before li) \<and> steps_only (lp_during li)"
  shows "client_run w (snd (reconnectLoop timeout closeErr lis v w))"
  using assms
proof (induction lis arbitrary: v w)
  case (Cons li lis)
  obtain x w1 where r: "loop_round timeout closeErr li v w = (x, w1)" by fastforce
  have w1: "client_run w w1" by (rule run_loop_round [OF r]) (use Cons.prems in auto)
  with r Cons client_run_trans show ?case by (auto split: option.split)
qed simp

lemma run_switchLoop:
  assumes "\<forall>t \<in> set ts. steps_only (st_before t) \<and> steps_only (si_others (st_cycle t))"
  shows "client_run w (snd (snd (switchLoop timeout closeErr ts stats w)))"
  using assms
proof (induction ts arbitrary: stats w)
  case (Cons t ts)
  have w0: "client_run w (st_before t w)" using Cons.prems by (auto intro: steps_onlyD)
  obtain x s1 w1 where r: "runSwitchCycle timeout closeErr (st_cycle t) stats (st_before t w) = (x, s1, w1)"
    using prod_cases3 by blast
  have w1: "client_run w w1" by (rule client_run_trans [OF w0 run_switch [OF r]]) (use Cons.prems in \<open>auto intro: steps_onlyD\<close>)
  with w0 r Cons client_run_trans show ?case by (auto simp: Let_def split: option.split)
qed simp


text \<open>A tick of the switch loop and a round of the reconnect loop on a connected client.\<close>

definition demo_connect :: connect_run where
  "demo_connect = \<lparr>cn_ctx = None, cn_probe_ctx = None, cn_lkg = demo_direct, cn_sessions = (\<lambda>c. demo_stopped_session),
     cn_direct = (\<lambda>p. demo_direct), cn_probes = []\<rparr>"

definition demo_loop :: loop_input where
  "demo_loop = \<lparr>lp_before = id,
     lp_round = \<lparr>ri_stopped = False, ri_active = False, ri_session = False, ri_signal = True, ri_now1 = 0, ri_now2 = 0,
       ri_sample = Fin 0, ri_timer = True, ri_now3 = 0, ri_attempt = None\<rparr>, lp_during = id, lp_connect = demo_connect\<rparr>"


end
