(* ===== verification/Server.thy ===== *)
theory Server
  imports Server_Props Go_Strings
begin

text \<open>
  The WebSocket server: internal/tunnel/server.go. It keeps the table of sessions by id; a connection
  that says hello either opens a session (a fresh connection to the target, a fresh id) or resumes one.
  A session pointer is an index into the list of all sessions ever made; an operation of one session runs
  on its view of the server's world. The result of \<open>net.Dial\<close> and of \<open>newSessionID\<close> are inputs.
\<close>

section \<open>The handshake\<close>

definition headerHasProtocol :: "string \<Rightarrow> string \<Rightarrow> bool" where
  "headerHasProtocol header proto \<longleftrightarrow> list_ex (\<lambda>part. trim_space part = proto) (split_char (CHR '','') header)"

text \<open>The handshake function of \<open>serveListener\<close>, given the path of the request and its protocol header.\<close>

definition handshake :: "config \<Rightarrow> string \<Rightarrow> string \<Rightarrow> unit result" where
  "handshake cfg path header =
     (if path \<noteq> sv_http_path (cfg_server cfg) then Inl (Errorf ''bad websocket path'')
      else if \<not> headerHasProtocol header wsProtocol then Inl (Errorf (''missing websocket subprotocol '' @ wsProtocol))
      else Inr ())"

section \<open>State\<close>

record ws_server =
  srv_cfg :: config
  srv_now :: instant
  srv_heap :: "server_session list"
  srv_sessions :: "string \<rightharpoonup> nat"
  srv_ws :: "nat \<Rightarrow> ws"
  srv_dropped :: "target list"

text \<open>What an operation of session \<open>k\<close> sees, and its effect on the server: \<open>closeTerminal\<close> deletes the id.\<close>

definition session_view :: "nat \<Rightarrow> ws_server \<Rightarrow> sworld" where
  "session_view k W = \<lparr>sw_cfg = cfg_resume (srv_cfg W), sw_now = srv_now W, sw_sess = srv_heap W ! k, sw_ws = srv_ws W,
     sw_registered = (srv_sessions W (ss_id (srv_heap W ! k)) = Some k)\<rparr>"

definition session_put :: "nat \<Rightarrow> sworld \<Rightarrow> ws_server \<Rightarrow> ws_server" where
  "session_put k v W = W\<lparr>srv_heap := (srv_heap W)[k := sw_sess v], srv_ws := sw_ws v,
     srv_sessions := (if sw_registered (session_view k W) \<and> \<not> sw_registered v
        then (srv_sessions W)(ss_id (srv_heap W ! k) := None) else srv_sessions W)\<rparr>"

definition on_session :: "nat \<Rightarrow> (sworld \<Rightarrow> 'a \<times> sworld) \<Rightarrow> ws_server \<Rightarrow> 'a \<times> ws_server" where
  "on_session k f W = (case f (session_view k W) of (r, v) \<Rightarrow> (r, session_put k v W))"

text \<open>\<open>writeFrame\<close> on a connection that has no session; \<open>sendError\<close> of protocol.go.\<close>

definition srv_write :: "nat \<Rightarrow> frame_header \<Rightarrow> ws_server \<Rightarrow> ws_server" where
  "srv_write i h W = W\<lparr>srv_ws := (srv_ws W)(i := snd (ws_send h [] (srv_ws W i)))\<rparr>"

definition sendError :: "nat \<Rightarrow> string \<Rightarrow> string \<Rightarrow> ws_server \<Rightarrow> ws_server" where
  "sendError i code message W = srv_write i (zero_header\<lparr>h_type := ''error'', h_code := code, h_message := message\<rparr>) W"

section \<open>Hello\<close>

record accept_input =
  ai_target :: "target result"
  ai_id :: "string result"

text \<open>A target whose session gets no id is closed; the server keeps no other trace of it.\<close>

definition accept_drop :: "target \<Rightarrow> ws_server \<Rightarrow> ws_server" where
  "accept_drop tgt W = W\<lparr>srv_dropped := srv_dropped W @ [target_close tgt]\<rparr>"

text \<open>A new session: it is registered and its reader runs before the accept frame is sent.\<close>

definition accept_register :: "nat \<Rightarrow> string \<Rightarrow> target \<Rightarrow> ws_server \<Rightarrow> ws_server" where
  "accept_register i sid tgt W = W\<lparr>srv_heap := srv_heap W @ [open_session sid i tgt],
     srv_sessions := (srv_sessions W)(sid \<mapsto> length (srv_heap W))\<rparr>"

definition accept_send :: "nat \<Rightarrow> string \<Rightarrow> sworld \<Rightarrow> server_conn result \<times> sworld" where
  "accept_send i sid v =
     (let conn = \<lparr>sc_ws = i, sc_epoch = 1\<rparr> in
      case server_send conn (accept_header sid 1 0 0) [] v of
        (Some e, v1) \<Rightarrow> (Inl e, closeTerminal ''protocol_error'' (error_text e) v1)
      | (None, v1) \<Rightarrow> (Inr conn, v1))"

definition accept :: "nat \<Rightarrow> frame_header \<Rightarrow> accept_input \<Rightarrow> ws_server \<Rightarrow> (nat \<times> server_conn) result \<times> ws_server" where
  "accept i f inp W =
     (if h_version f \<noteq> 1 then (Inl (Errorf ''unsupported version''), W)
      else if h_name f = [] then (Inl (Errorf ''name is required''), W)
      else if \<not> h_resume f then
        (case ai_target inp of
           Inl e \<Rightarrow> (Inl e, srv_write i (zero_header\<lparr>h_type := ''error'', h_code := ''target_dial_failed'', h_message := error_text e\<rparr>) W)
         | Inr tgt \<Rightarrow> (case ai_id inp of
             Inl e \<Rightarrow> (Inl e, accept_drop tgt W)
           | Inr sid \<Rightarrow>
               let k = length (srv_heap W) in
               case on_session k (accept_send i sid) (accept_register i sid tgt W) of
                 (Inl e, W1) \<Rightarrow> (Inl e, W1)
               | (Inr conn, W1) \<Rightarrow> (Inr (k, conn), W1)))
      else if h_session_id f = [] then (Inl (Errorf ''session_id is required for resume''), W)
      else case srv_sessions W (h_session_id f) of
        None \<Rightarrow> (Inl (Errorf ''unknown session''), W)
      | Some k \<Rightarrow> (case on_session k (resume i f) W of
          (Inl e, W1) \<Rightarrow> (Inl e, W1)
        | (Inr conn, W1) \<Rightarrow> (Inr (k, conn), W1)))"

section \<open>One connection\<close>

text \<open>The loop of \<open>run\<close> on what is read from the connection; the result says whether it still runs.\<close>

fun session_run_loop :: "nat \<Rightarrow> server_conn \<Rightarrow> frame result list \<Rightarrow> ws_server \<Rightarrow> bool \<times> ws_server" where
  "session_run_loop k conn [] W = (True, W)"
| "session_run_loop k conn (Inl e # rs) W = (False, snd (on_session k (\<lambda>v. ((), run_read_error conn e v)) W))"
| "session_run_loop k conn (Inr (f, p) # rs) W = (case on_session k (run_frame conn f p) W of
     (True, W1) \<Rightarrow> session_run_loop k conn rs W1
   | (False, W1) \<Rightarrow> (False, W1))"

fun handle :: "nat \<Rightarrow> accept_input \<Rightarrow> frame result list \<Rightarrow> ws_server \<Rightarrow> bool \<times> ws_server" where
  "handle i inp [] W = (True, W)"
| "handle i inp (Inl e # rs) W = (False, if is_frame_error e then sendError i ''protocol_error'' (error_text e) W else W)"
| "handle i inp (Inr (f, p) # rs) W =
     (if h_type f = ''ping'' then handle i inp rs (srv_write i (pong_header f) W)
      else if h_type f = ''hello'' then
        (case accept i f inp W of
           (Inl e, W1) \<Rightarrow> (False, sendError i ''protocol_error'' (error_text e) W1)
         | (Inr (k, conn), W1) \<Rightarrow> session_run_loop k conn rs W1)
      else (False, sendError i ''protocol_error'' ''expected hello or ping'' W))"

section \<open>The table holds the open sessions\<close>

text \<open>What the operations of a session do to its id, its closed flag and its place in the table.\<close>

definition table_step :: "sworld \<Rightarrow> sworld \<Rightarrow> bool" where
  "table_step v v' \<longleftrightarrow> ss_id (sw_sess v') = ss_id (sw_sess v)
     \<and> (ss_closed (sw_sess v') = ss_closed (sw_sess v) \<and> sw_registered v' = sw_registered v
        \<or> ss_closed (sw_sess v') \<and> \<not> sw_registered v')"

lemma table_step_refl [simp]: "table_step v v"
  by (simp add: table_step_def)

lemma table_step_trans: "table_step v v1 \<Longrightarrow> table_step v1 v2 \<Longrightarrow> table_step v v2"
  by (auto simp: table_step_def)

lemma table_step_eqs:
  "ss_id (sw_sess v') = ss_id (sw_sess v) \<Longrightarrow> ss_closed (sw_sess v') = ss_closed (sw_sess v) \<Longrightarrow> sw_registered v' = sw_registered v
    \<Longrightarrow> table_step v v'"
  by (simp add: table_step_def)

lemma table_send: "server_send conn h p v = (e, v') \<Longrightarrow> table_step v v'"
  by (rule table_step_eqs) (use server_send_eq in auto)

lemma table_close: "table_step v (closeTerminal code m v)"
  by (auto simp: table_step_def closeTerminal_def Let_def split: option.split)

lemma table_disconnect: "table_step v (disconnect conn v)"
  by (auto simp: table_step_def disconnect_def Let_def)

lemma table_chunks: "sendDataChunks conn d off p v = (e, v') \<Longrightarrow> table_step v v'"
  by (rule table_step_eqs) (use sendDataChunks_frame in \<open>metis snd_conv\<close>)+

lemma table_client_data: "handleClientData conn f p v = (e, v') \<Longrightarrow> table_step v v'"
proof -
  assume h: "handleClientData conn f p v = (e, v')"
  obtain n err sk where wr: "writeAll sink_write (tg_sink (ss_target (sw_sess v))) p = (n, err, sk)"
    by (cases "writeAll sink_write (tg_sink (ss_target (sw_sess v))) p")
  let ?v1 = "upd_sess (\<lambda>s. s\<lparr>ss_target := (ss_target s)\<lparr>tg_sink := sk\<rparr>, ss_c2sRx := ss_c2sRx s + of_nat n\<rparr>) v"
  obtain e2 v2 where s: "server_send conn (ack_header dirClientToServer (ss_c2sRx (sw_sess ?v1))) [] ?v1 = (e2, v2)" by fastforce
  have v2: "table_step v v2" by (rule table_step_trans [OF _ table_send [OF s]]) (simp add: table_step_def)
  with table_step_trans [OF v2 table_close] h wr s show ?thesis
    by (auto simp: handleClientData_def Let_def dest: table_send split: if_splits option.splits)
qed

lemma table_client_fin: "handleClientFin conn f v = (e, v') \<Longrightarrow> table_step v v'"
proof -
  assume h: "handleClientFin conn f v = (e, v')"
  let ?v1 = "upd_sess (\<lambda>s. s\<lparr>ss_c2sFin := True, ss_target := target_close_write (ss_target s)\<rparr>) v"
  have "table_step v ?v1" by (simp add: table_step_def)
  with h table_step_trans table_send show ?thesis
    by (auto simp: handleClientFin_def Let_def split: if_splits)
qed

lemma table_reject: "table_step v v1 \<Longrightarrow> table_step v (snd (reject conn m v1))"
proof -
  assume v1: "table_step v v1"
  obtain e v2 where s: "server_send conn (error_header m) [] v1 = (e, v2)" by fastforce
  from table_step_trans [OF table_step_trans [OF v1 table_send [OF s]] table_disconnect] s show ?thesis by (simp add: reject_def)
qed

lemma table_broadcast: "table_step v (v\<lparr>sw_sess := cond_broadcast s\<rparr>) = table_step v (v\<lparr>sw_sess := s\<rparr>)"
  by (simp add: table_step_def)

lemma table_advance: "advanceS2CAckLocked off (sw_sess v) = Inr s \<Longrightarrow> table_step v (v\<lparr>sw_sess := s\<rparr>)"
  by (auto simp: advanceS2CAckLocked_def table_step_def Let_def split: if_splits)

lemma table_run_frame: "table_step v (snd (run_frame conn f p v))"
proof -
  obtain e1 v1 where d: "handleClientData conn f p v = (e1, v1)" by fastforce
  obtain e2 v2 where n: "handleClientFin conn f v = (e2, v2)" by fastforce
  obtain e3 v3 where g: "server_send conn (pong_header f) [] v = (e3, v3)" by fastforce
  have b: "table_step v (upd_sess cond_broadcast v)" by (simp add: table_step_def)
  note t = table_client_data [OF d] table_client_fin [OF n] table_send [OF g] table_close table_disconnect
  show ?thesis
    using d n g t t(1,2) [THEN table_reject] table_reject [OF table_step_refl] table_reject [OF b]
      table_advance [of "h_received_offset f" v]
    by (auto simp: run_frame_def table_broadcast split: option.split sum.split)
qed

lemma table_read_error: "table_step v (run_read_error conn e v)"
proof -
  obtain e1 v1 where s: "server_send conn (error_header (error_text e)) [] v = (e1, v1)" by fastforce
  from table_step_trans [OF table_send [OF s] table_disconnect] s table_disconnect show ?thesis
    by (simp add: run_read_error_def)
qed

lemma table_resume_replay: "resume_replay conn s v = (e, v') \<Longrightarrow> table_step v v'"
proof -
  assume r: "resume_replay conn s v = (e, v')"
  obtain e1 v1 where a: "server_send conn (accept_header (ss_id s) (ss_epoch s) (ss_c2sRx s) (ss_s2cAck s)) [] v = (e1, v1)" by fastforce
  obtain e2 v2 where c: "sendDataChunks conn dirServerToClient (ss_s2cBufFrom s) (ss_s2cBuf s) v1 = (e2, v2)" by fastforce
  obtain e3 v3 where n: "server_send conn (fin_header dirServerToClient (ss_s2cNext s)) [] v2 = (e3, v3)" by fastforce
  note v1 = table_send [OF a] and v2 = table_step_trans [OF table_send [OF a] table_chunks [OF c]]
  note v3 = table_step_trans [OF v2 table_send [OF n]]
  from r a c n v1 v2 v3 table_step_trans [OF v1 table_disconnect] table_step_trans [OF v2 table_disconnect] show ?thesis
    by (auto simp: resume_replay_def split: option.splits if_splits)
qed

lemma table_resume: "resume i f v = (r, v') \<Longrightarrow> table_step v v'"
proof -
  assume r: "resume i f v = (r, v')"
  show ?thesis
  proof (cases "advanceS2CAckLocked (h_s2c_rx f) (sw_sess v)")
    case (Inl e)
    with r table_close show ?thesis by (auto simp: resume_def Let_def split: if_splits)
  next
    case (Inr s1)
    let ?s2 = "resume_commit i s1"
    let ?v2 = "(case ss_active (sw_sess v) of None \<Rightarrow> v\<lparr>sw_sess := ?s2\<rparr> | Some old \<Rightarrow> server_ws_close (sc_ws old) (v\<lparr>sw_sess := ?s2\<rparr>))"
    from table_advance [OF Inr] have v2: "table_step v ?v2"
      by (auto simp: table_step_def resume_commit_def split: option.split)
    obtain e v3 where p: "resume_replay \<lparr>sc_ws = i, sc_epoch = ss_epoch ?s2\<rparr> ?s2 ?v2 = (e, v3)" by fastforce
    from table_step_trans [OF v2 table_resume_replay [OF p]] r Inr p table_close show ?thesis
      by (auto simp: resume_def Let_def split: if_splits option.splits)
  qed
qed

lemma table_reader_check: "table_step v (reader_check v)"
  by (simp add: reader_check_def table_step_def)

lemma table_reader_read: "table_step v (reader_read bs failed v)"
proof -
  have data: "table_step u (reader_data bs u)" for u
  proof (cases "bs = []")
    case False
    let ?u1 = "upd_sess (\<lambda>s. append_s2c bs (note_read bs s)) u"
    have u1: "table_step u ?u1" by (simp add: table_step_def append_s2c_def note_read_def)
    show ?thesis
    proof (cases "ss_active (sw_sess ?u1)")
      case None
      with False u1 show ?thesis by (simp add: reader_data_def Let_def)
    next
      case (Some conn)
      obtain e u2 where s: "server_send conn (zero_header\<lparr>h_type := ''data'', h_direction := dirServerToClient,
          h_offset := ss_s2cNext (sw_sess u)\<rparr>) bs ?u1 = (e, u2)" by fastforce
      note u2 = table_step_trans [OF u1 table_send [OF s]]
      from u2 table_step_trans [OF u2 table_disconnect] False Some s show ?thesis
        by (cases e) (simp_all add: reader_data_def Let_def)
    qed
  qed (simp add: reader_data_def)
  have fin: "table_step u (reader_end u)" for u
  proof -
    let ?u1 = "upd_sess (\<lambda>s. s\<lparr>ss_s2cFin := True, ss_reader := ReaderStopped\<rparr>) u"
    have u1: "table_step u ?u1" by (simp add: table_step_def)
    have "table_step u (case ss_active (sw_sess ?u1) of None \<Rightarrow> ?u1
        | Some conn \<Rightarrow> snd (server_send conn (fin_header dirServerToClient (ss_s2cNext (sw_sess ?u1))) [] ?u1))"
    proof (cases "ss_active (sw_sess ?u1)")
      case (Some conn)
      obtain e u2 where s: "server_send conn (fin_header dirServerToClient (ss_s2cNext (sw_sess ?u1))) [] ?u1 = (e, u2)" by fastforce
      from table_step_trans [OF u1 table_send [OF s]] s Some show ?thesis by simp
    qed (use u1 in simp)
    from table_step_trans [OF this table_close] show ?thesis by (simp add: reader_end_def Let_def)
  qed
  have "table_step v (upd_sess (\<lambda>s. s\<lparr>ss_reader := ReaderCheck\<rparr>) v)" by (simp add: table_step_def)
  note d = table_step_trans [OF this data]
  from d table_step_trans [OF d fin] show ?thesis by (simp add: reader_read_def Let_def)
qed

lemma table_timer: "table_step v (disconnectTTL_fires v)"
proof -
  have "table_step v (closeTerminal code m (upd_sess (\<lambda>s. s\<lparr>ss_disconnectTTL := None\<rparr>) v))" for code m
    by (rule table_step_trans [OF _ table_close]) (simp add: table_step_def)
  then show ?thesis by (simp add: disconnectTTL_fires_def split: option.split)
qed

section \<open>Runs of the server\<close>

definition table_ok :: "ws_server \<Rightarrow> bool" where
  "table_ok W \<longleftrightarrow> distinct (map ss_id (srv_heap W))
     \<and> (\<forall>sid k. srv_sessions W sid = Some k \<longleftrightarrow>
          k < length (srv_heap W) \<and> ss_id (srv_heap W ! k) = sid \<and> \<not> ss_closed (srv_heap W ! k))"

lemma table_ok_put:
  assumes ok: "table_ok W" and k: "k < length (srv_heap W)" and t: "table_step (session_view k W) v"
  shows "table_ok (session_put k v W)"
proof -
  let ?s = "srv_heap W ! k"
  have id: "ss_id (sw_sess v) = ss_id ?s" using t by (simp add: table_step_def session_view_def)
  have reg: "sw_registered (session_view k W) \<longleftrightarrow> \<not> ss_closed ?s"
    using ok k by (simp add: session_view_def table_ok_def)
  have now: "sw_registered v \<longleftrightarrow> \<not> ss_closed (sw_sess v)" "ss_closed ?s \<Longrightarrow> ss_closed (sw_sess v)"
    using t reg by (auto simp: table_step_def session_view_def)
  have ids: "map ss_id ((srv_heap W)[k := sw_sess v]) = map ss_id (srv_heap W)"
    using id k by (simp add: map_update list_update_same_conv)
  have inj: "j = k" if "j < length (srv_heap W)" "ss_id (srv_heap W ! j) = ss_id ?s" for j
    using ok k that nth_eq_iff_index_eq [of "map ss_id (srv_heap W)" j k] by (simp add: table_ok_def)
  show ?thesis
    using ok ids id reg now inj k
    by (auto simp: table_ok_def session_put_def nth_list_update)
qed

lemma table_ok_on_session:
  assumes "table_ok W" and "k < length (srv_heap W)" and "\<And>v. table_step v (snd (f v))"
  shows "table_ok (snd (on_session k f W))"
proof -
  obtain r v where f: "f (session_view k W) = (r, v)" by fastforce
  with assms(3) [of "session_view k W"] table_ok_put [OF assms(1,2)] show ?thesis by (simp add: on_session_def)
qed

lemma table_ok_register:
  assumes "table_ok W" and "sid \<notin> set (map ss_id (srv_heap W))"
  shows "table_ok (accept_register i sid tgt W)"
proof -
  have new: "ss_id (open_session sid i tgt) = sid" "\<not> ss_closed (open_session sid i tgt)"
    by (simp_all add: open_session_def newServerSession_def)
  have "\<And>k. k < length (srv_heap W) \<Longrightarrow> ss_id (srv_heap W ! k) \<noteq> sid" using assms(2) by (metis length_map nth_map nth_mem)
  with assms new show ?thesis
    by (auto simp: table_ok_def accept_register_def nth_append less_Suc_eq)
qed

lemma table_accept_send: "table_step v (snd (accept_send i sid v))"
proof -
  obtain e v1 where s: "server_send \<lparr>sc_ws = i, sc_epoch = 1\<rparr> (accept_header sid 1 0 0) [] v = (e, v1)" by fastforce
  from table_step_trans [OF table_send [OF s] table_close] table_send [OF s] s show ?thesis
    by (cases e) (simp_all add: accept_send_def)
qed

text \<open>
  What can happen: frames written outside any session, a session registered under a fresh id, an operation of any
  session ever made, the clock and the sockets. \<open>newSessionID\<close> draws 256 random bits: a fresh id is one that no session
  has had.
\<close>

inductive server_step :: "ws_server \<Rightarrow> ws_server \<Rightarrow> bool" where
  sv_write: "server_step W (srv_write i h W)"
| sv_register: "sid \<notin> set (map ss_id (srv_heap W)) \<Longrightarrow> server_step W (accept_register i sid tgt W)"
| sv_accept: "k < length (srv_heap W) \<Longrightarrow> server_step W (snd (on_session k (accept_send i sid) W))"
| sv_resume: "k < length (srv_heap W) \<Longrightarrow> server_step W (snd (on_session k (resume i f) W))"
| sv_frame: "k < length (srv_heap W) \<Longrightarrow> server_step W (snd (on_session k (run_frame conn f p) W))"
| sv_error: "k < length (srv_heap W) \<Longrightarrow> server_step W (snd (on_session k (\<lambda>v. ((), run_read_error conn e v)) W))"
| sv_check: "k < length (srv_heap W) \<Longrightarrow> server_step W (snd (on_session k (\<lambda>v. ((), reader_check v)) W))"
| sv_read: "k < length (srv_heap W) \<Longrightarrow> server_step W (snd (on_session k (\<lambda>v. ((), reader_read bs failed v)) W))"
| sv_timer: "k < length (srv_heap W) \<Longrightarrow> server_step W (snd (on_session k (\<lambda>v. ((), disconnectTTL_fires v)) W))"
| sv_drop: "server_step W (accept_drop tgt W)"
| sv_clock: "srv_now W \<le> t \<Longrightarrow> server_step W (W\<lparr>srv_now := t\<rparr>)"
| sv_socket: "server_step W (W\<lparr>srv_ws := ws\<rparr>)"

abbreviation server_run :: "ws_server \<Rightarrow> ws_server \<Rightarrow> bool" where
  "server_run \<equiv> server_step\<^sup>*\<^sup>*"

lemma table_resume': "table_step v (snd (resume i f v))"
  by (metis table_resume prod.collapse)

lemma server_step_ok: "server_step W W' \<Longrightarrow> table_ok W \<Longrightarrow> table_ok W'"
proof (induction rule: server_step.induct)
  case (sv_write W i h)
  then show ?case by (simp add: table_ok_def srv_write_def)
next
  case (sv_drop W tgt)
  then show ?case by (simp add: table_ok_def accept_drop_def)
next
  case (sv_clock W t)
  then show ?case by (simp add: table_ok_def)
next
  case (sv_socket W ws)
  then show ?case by (simp add: table_ok_def)
qed (simp_all add: table_ok_register table_ok_on_session table_accept_send table_resume' table_run_frame table_read_error
    table_reader_check table_reader_read table_timer)

definition fresh_server :: "config \<Rightarrow> instant \<Rightarrow> (nat \<Rightarrow> ws) \<Rightarrow> ws_server" where
  "fresh_server cfg now ws = \<lparr>srv_cfg = cfg, srv_now = now, srv_heap = [], srv_sessions = Map.empty, srv_ws = ws, srv_dropped = []\<rparr>"

lemma table_ok_fresh: "table_ok (fresh_server cfg now ws)"
  by (simp add: table_ok_def fresh_server_def)

interpretation listener: step_system server_step table_ok
  by unfold_locales (rule server_step_ok)

lemmas server_run_ok = listener.run_inv

text \<open>The handler of a connection is a run of the server.\<close>

lemma run_accept:
  assumes "accept i f inp W = (r, W')" and "table_ok W"
    and fresh: "\<forall>sid. ai_id inp = Inr sid \<longrightarrow> sid \<notin> set (map ss_id (srv_heap W))"
  shows "server_run W W'" "r = Inr (k, conn) \<Longrightarrow> k < length (srv_heap W')"
proof -
  have len: "length (srv_heap (snd (on_session k f W))) = length (srv_heap W)" for k and f :: "sworld \<Rightarrow> 'b \<times> sworld" and W
    by (simp add: on_session_def session_put_def split: prod.split)
  have new: "server_run W W1 \<and> length (srv_heap W1) = Suc (length (srv_heap W))"
    if "ai_id inp = Inr sid" and "on_session (length (srv_heap W)) (accept_send i sid) (accept_register i sid tgt W) = (x, W1)"
    for sid tgt x W1
  proof -
    have "server_step W (accept_register i sid tgt W)" using fresh that(1) by (auto intro: sv_register)
    moreover have "server_step (accept_register i sid tgt W) W1"
      using sv_accept [of "length (srv_heap W)" "accept_register i sid tgt W" i sid] that(2) by (simp add: accept_register_def)
    moreover have "length (srv_heap W1) = Suc (length (srv_heap W))"
      using len [of "length (srv_heap W)" "accept_send i sid" "accept_register i sid tgt W"] that(2)
      by (simp add: accept_register_def)
    ultimately show ?thesis by auto
  qed
  have old: "server_run W W1 \<and> length (srv_heap W1) = length (srv_heap W) \<and> j < length (srv_heap W)"
    if "srv_sessions W (h_session_id f) = Some j" and "on_session j (resume i f) W = (x, W1)" for j x W1
  proof -
    have "j < length (srv_heap W)" using assms(2) that(1) by (simp add: table_ok_def)
    with sv_resume [OF this, of i f] len [of j "resume i f" W] that(2) show ?thesis by auto
  qed
  have wr: "server_run W (srv_write i h W)" for h using sv_write by (rule r_into_rtranclp)
  have dr: "server_run W (accept_drop tgt W)" for tgt using sv_drop by (rule r_into_rtranclp)
  have "server_run W W' \<and> (\<forall>k conn. r = Inr (k, conn) \<longrightarrow> k < length (srv_heap W'))"
    using assms(1) new old wr dr
    by (auto simp: accept_def Let_def split: if_splits sum.splits option.splits prod.splits)
  then show "server_run W W'" "r = Inr (k, conn) \<Longrightarrow> k < length (srv_heap W')" by simp_all
qed

lemma session_run_loop_run: "k < length (srv_heap W) \<Longrightarrow> server_run W (snd (session_run_loop k conn rs W))"
proof (induction k conn rs W rule: session_run_loop.induct)
  case (2 k conn e rs W)
  with sv_error [of k W conn e] show ?case by auto
next
  case (3 k conn f p rs W)
  obtain b W1 where s: "on_session k (run_frame conn f p) W = (b, W1)" by fastforce
  have W1: "server_run W W1" using sv_frame [OF 3(2), of conn f p] s by auto
  have "length (srv_heap W1) = length (srv_heap W)" using s by (auto simp: on_session_def session_put_def split: prod.splits)
  with 3 s W1 show ?case by (cases b) (auto intro: rtranclp_trans)
qed simp

lemma table_run: "server_run W W' \<Longrightarrow> table_ok W \<Longrightarrow> table_ok W'"
  by (rule server_run_ok)

lemma handle_run:
  assumes "table_ok W" and "\<forall>sid. ai_id inp = Inr sid \<longrightarrow> sid \<notin> set (map ss_id (srv_heap W))"
  shows "server_run W (snd (handle i inp rs W))"
  using assms
proof (induction i inp rs W rule: handle.induct)
  case (2 i inp e rs W)
  have "server_run W (srv_write i h W)" for h using sv_write by (rule r_into_rtranclp)
  then show ?case by (simp add: sendError_def)
next
  case (3 i inp f p rs W)
  have wr: "server_run V (srv_write i h V)" for h V using sv_write by (rule r_into_rtranclp)
  obtain r W1 where a: "accept i f inp W = (r, W1)" by fastforce
  note ra = run_accept [OF a 3(2,3)]
  have ping: "server_run W (snd (handle i inp rs (srv_write i (pong_header f) W)))" if "h_type f = ''ping''"
  proof -
    have "table_ok (srv_write i (pong_header f) W)" by (rule server_run_ok [OF wr 3(2)])
    moreover have "srv_heap (srv_write i (pong_header f) W) = srv_heap W" by (simp add: srv_write_def)
    ultimately have "server_run (srv_write i (pong_header f) W) (snd (handle i inp rs (srv_write i (pong_header f) W)))"
      using 3(1) [OF that] 3(3) by simp
    with wr show ?thesis by (rule rtranclp_trans)
  qed
  have refused: "server_run W (sendError i code m W1)" for code m
    using rtranclp_trans [OF ra(1) wr] by (simp add: sendError_def)
  have accepted: "server_run W (snd (session_run_loop k conn rs W1))" if "r = Inr (k, conn)" for k conn
    by (rule rtranclp_trans [OF ra(1) session_run_loop_run [OF ra(2) [OF that]]])
  show ?case
    using ping refused accepted a wr by (auto simp: sendError_def split: sum.split)
qed simp

section \<open>What a hello does\<close>

lemma session_view_simps [simp]:
  "sw_sess (session_view k W) = srv_heap W ! k" "sw_cfg (session_view k W) = cfg_resume (srv_cfg W)"
  "sw_now (session_view k W) = srv_now W" "sw_ws (session_view k W) = srv_ws W"
  by (simp_all add: session_view_def)

lemma session_resume_accepts:
  assumes r: "resume i f v = (Inr conn, v')"
  shows "\<not> ss_closed (sw_sess v) \<and> sc_ws conn = i \<and> sc_epoch conn = ss_epoch (sw_sess v) + 1
    \<and> ss_active (sw_sess v') = Some conn \<and> ss_epoch (sw_sess v') = sc_epoch conn \<and> \<not> ss_closed (sw_sess v')"
proof -
  from r obtain s1 where adv: "advanceS2CAckLocked (h_s2c_rx f) (sw_sess v) = Inr s1" and open_v: "\<not> ss_closed (sw_sess v)"
    by (auto simp: resume_def Let_def split: if_splits sum.splits)
  let ?s2 = "resume_commit i s1"
  let ?v2 = "(case ss_active (sw_sess v) of None \<Rightarrow> v\<lparr>sw_sess := ?s2\<rparr> | Some old \<Rightarrow> server_ws_close (sc_ws old) (v\<lparr>sw_sess := ?s2\<rparr>))"
  let ?c = "\<lparr>sc_ws = i, sc_epoch = ss_epoch ?s2\<rparr>"
  from r adv have p: "resume_replay ?c ?s2 ?v2 = (None, v')" and conn: "conn = ?c"
    by (auto simp: resume_def Let_def split: if_splits option.splits prod.splits)
  have v2: "sw_sess ?v2 = ?s2" by (simp split: option.split)
  obtain e1 v1 where a: "server_send ?c (accept_header (ss_id ?s2) (ss_epoch ?s2) (ss_c2sRx ?s2) (ss_s2cAck ?s2)) [] ?v2 = (e1, v1)" by fastforce
  obtain e3 v3 where c: "sendDataChunks ?c dirServerToClient (ss_s2cBufFrom ?s2) (ss_s2cBuf ?s2) v1 = (e3, v3)" by fastforce
  obtain e4 v4 where n: "server_send ?c (fin_header dirServerToClient (ss_s2cNext ?s2)) [] v3 = (e4, v4)" by fastforce
  have "sw_sess v3 = sw_sess v1" using c by (metis sendDataChunks_frame(3) snd_conv)
  with server_send_eq [OF a] server_send_eq [OF n] have "sw_sess v3 = ?s2" "sw_sess v4 = ?s2" using v2 by simp_all
  with p a c n have "sw_sess v' = ?s2" by (auto simp: resume_replay_def split: option.splits if_splits)
  moreover have "ss_epoch s1 = ss_epoch (sw_sess v)" "ss_closed s1 = ss_closed (sw_sess v)"
    using adv by (auto simp: advanceS2CAckLocked_def Let_def split: if_splits)
  ultimately show ?thesis using conn open_v by (simp add: resume_commit_def)
qed

lemma accept_send_accepts:
  "accept_send i sid v = (Inr conn, v') \<Longrightarrow> conn = \<lparr>sc_ws = i, sc_epoch = 1\<rparr> \<and> sw_sess v' = sw_sess v"
  by (auto simp: accept_send_def Let_def dest: server_send_eq split: option.splits prod.splits)

text \<open>
  C31. A hello that is accepted has version 1 and a name, and the session that it yields is open, is in the table
  under its id and has the new connection as its active one, at its epoch; no other session changed. A
  resume yields the open session of the id that the client gave, at the next epoch; any other hello yields a new
  session at epoch 1.
\<close>

theorem hello_accepted:
  assumes ok: "table_ok W" and fresh: "\<forall>sid. ai_id inp = Inr sid \<longrightarrow> sid \<notin> set (map ss_id (srv_heap W))"
    and acc: "accept i f inp W = (Inr (k, conn), W')"
  shows "h_version f = 1 \<and> h_name f \<noteq> [] \<and> sc_ws conn = i \<and> k < length (srv_heap W')
    \<and> ss_active (srv_heap W' ! k) = Some conn \<and> ss_epoch (srv_heap W' ! k) = sc_epoch conn
    \<and> srv_sessions W' (ss_id (srv_heap W' ! k)) = Some k
    \<and> (\<forall>j < length (srv_heap W). j \<noteq> k \<longrightarrow> srv_heap W' ! j = srv_heap W ! j)
    \<and> (if h_resume f then srv_sessions W (h_session_id f) = Some k \<and> ss_id (srv_heap W' ! k) = h_session_id f
          \<and> sc_epoch conn = ss_epoch (srv_heap W ! k) + 1
        else k = length (srv_heap W) \<and> ai_id inp = Inr (ss_id (srv_heap W' ! k)) \<and> sc_epoch conn = 1)"
proof -
  have ok': "table_ok W'" by (rule server_run_ok [OF run_accept(1) [OF acc ok fresh] ok])
  have k': "k < length (srv_heap W')" by (rule run_accept(2) [OF acc ok fresh refl])
  have vn: "h_version f = 1" "h_name f \<noteq> []" using acc by (auto simp: accept_def split: if_splits)
  show ?thesis
  proof (cases "h_resume f")
    case True
    with acc vn have k: "srv_sessions W (h_session_id f) = Some k" and s: "on_session k (resume i f) W = (Inr conn, W')"
      by (auto simp: accept_def split: if_splits option.splits sum.splits prod.splits)
    from s obtain v where r: "resume i f (session_view k W) = (Inr conn, v)" and W': "W' = session_put k v W"
      by (auto simp: on_session_def split: prod.splits)
    from ok k have kk: "k < length (srv_heap W)" "ss_id (srv_heap W ! k) = h_session_id f" by (simp_all add: table_ok_def)
    have "ss_id (sw_sess v) = h_session_id f" using table_resume [OF r] kk by (simp add: table_step_def)
    have h: "srv_heap W' ! k = sw_sess v" using W' kk by (simp add: session_put_def)
    have others: "\<forall>j < length (srv_heap W). j \<noteq> k \<longrightarrow> srv_heap W' ! j = srv_heap W ! j"
      using W' by (simp add: session_put_def)
    note ra = session_resume_accepts [OF r]
    have "srv_sessions W' (ss_id (srv_heap W' ! k)) = Some k"
      using ok' k' h ra by (simp add: table_ok_def)
    moreover have "sc_ws conn = i" "ss_active (srv_heap W' ! k) = Some conn" "ss_epoch (srv_heap W' ! k) = sc_epoch conn"
      "sc_epoch conn = ss_epoch (srv_heap W ! k) + 1" unfolding h using ra by simp_all
    moreover have "ss_id (srv_heap W' ! k) = h_session_id f" unfolding h using \<open>ss_id (sw_sess v) = _\<close> .
    ultimately show ?thesis using vn k k' True others by (simp only: if_True simp_thms)
  next
    case False
    from acc vn False obtain tgt where tgt: "ai_target inp = Inr tgt" by (cases "ai_target inp") (simp_all add: accept_def)
    from acc vn False tgt obtain sid where sid: "ai_id inp = Inr sid" by (cases "ai_id inp") (simp_all add: accept_def)
    obtain x V where x: "on_session (length (srv_heap W)) (accept_send i sid) (accept_register i sid tgt W) = (x, V)" by fastforce
    from acc vn False tgt sid x have s: "on_session (length (srv_heap W)) (accept_send i sid) (accept_register i sid tgt W) = (Inr conn, W')"
      and k: "k = length (srv_heap W)" by (cases x; simp add: accept_def)+
    let ?W1 = "accept_register i sid tgt W"
    from s obtain v where r: "accept_send i sid (session_view (length (srv_heap W)) ?W1) = (Inr conn, v)"
      and W': "W' = session_put (length (srv_heap W)) v ?W1"
      by (auto simp: on_session_def split: prod.splits)
    from accept_send_accepts [OF r] have v: "sw_sess v = open_session sid i tgt" "conn = \<lparr>sc_ws = i, sc_epoch = 1\<rparr>"
      by (simp_all add: accept_register_def)
    have h: "srv_heap W' ! k = open_session sid i tgt" using W' v k by (simp add: session_put_def accept_register_def)
    have others: "\<forall>j < length (srv_heap W). j \<noteq> k \<longrightarrow> srv_heap W' ! j = srv_heap W ! j"
      using W' by (simp add: session_put_def accept_register_def nth_append)
    have new: "\<not> ss_closed (srv_heap W' ! k)" "ss_active (srv_heap W' ! k) = Some conn" "ss_epoch (srv_heap W' ! k) = sc_epoch conn"
      "sc_epoch conn = 1" "sc_ws conn = i" "ai_id inp = Inr (ss_id (srv_heap W' ! k))"
      unfolding h using v sid by (simp_all add: open_session_def newServerSession_def)
    have "srv_sessions W' (ss_id (srv_heap W' ! k)) = Some k"
      using ok' k' new(1) by (simp add: table_ok_def)
    with new others vn k k' False show ?thesis by (simp only: if_False simp_thms)
  qed
qed


section \<open>A concrete server\<close>

definition demo_target :: target where
  "demo_target = \<lparr>tg_read = [], tg_sink = \<lparr>sk_written = [], sk_budget = None, sk_closed = False\<rparr>, tg_closed = False\<rparr>"

definition demo_server :: ws_server where
  "demo_server = fresh_server \<lparr>cfg_schema = 1, cfg_name = ''d'', cfg_server = \<lparr>sv_listen = [], sv_http_path = ''/'', sv_connect = []\<rparr>,
     cfg_resume = demo_cfg, cfg_probe = \<lparr>pr_interval = 1, pr_timeout = 1, pr_switch_cooldown = 0, pr_active_failures = 1,
       pr_candidate_successes = 1, pr_better_min_delta = 0, pr_better_ratio = Fin 0\<rparr>, cfg_paths = [], cfg_identity = []\<rparr>
     0 (\<lambda>_. \<lparr>ws_out = [], ws_budget = None, ws_closed = False\<rparr>)"

definition demo_new_hello :: frame_header where
  "demo_new_hello = zero_header\<lparr>h_type := ''hello'', h_version := 1, h_name := ''c''\<rparr>"

definition demo_accept :: accept_input where
  "demo_accept = \<lparr>ai_target = Inr demo_target, ai_id = Inr ''s''\<rparr>"

lemma demo_accept_written: "\<exists>msg. writeFrame (fill_header ''s'' 1 (accept_header ''s'' 1 0 0)) [] = Inr msg"
  by (rule writeFrame_small)
     (simp_all add: fill_header_def accept_header_def path_level_def wf_header_def header_text_def utf8_valid_ascii)

lemma demo_accepted: "\<exists>W'. accept 0 demo_new_hello demo_accept demo_server = (Inr (0, \<lparr>sc_ws = 0, sc_epoch = 1\<rparr>), W')"
proof -
  obtain msg where "writeFrame (fill_header ''s'' 1 (accept_header ''s'' 1 0 0)) [] = Inr msg" using demo_accept_written ..
  then show ?thesis
    by (simp add: accept_def demo_new_hello_def demo_accept_def on_session_def accept_send_def accept_register_def session_view_def
        demo_server_def fresh_server_def server_send_def ws_send_def open_session_def newServerSession_def Let_def)
qed

theorem hello_accepted_witness:
  "\<exists>W'. accept 0 demo_new_hello demo_accept demo_server = (Inr (0, \<lparr>sc_ws = 0, sc_epoch = 1\<rparr>), W')
     \<and> srv_sessions W' ''s'' = Some 0 \<and> ss_active (srv_heap W' ! 0) = Some \<lparr>sc_ws = 0, sc_epoch = 1\<rparr>"
proof -
  obtain W' where a: "accept 0 demo_new_hello demo_accept demo_server = (Inr (0, \<lparr>sc_ws = 0, sc_epoch = 1\<rparr>), W')"
    using demo_accepted by blast
  have ok: "table_ok demo_server" unfolding demo_server_def by (rule table_ok_fresh)
  have fresh: "\<forall>sid. ai_id demo_accept = Inr sid \<longrightarrow> sid \<notin> set (map ss_id (srv_heap demo_server))"
    by (simp add: demo_server_def fresh_server_def)
  from hello_accepted [OF ok fresh a] a show ?thesis by (auto simp: demo_new_hello_def demo_accept_def)
qed


end
