(* ===== verification/Identity.thy ===== *)
theory Identity
  imports Server Client_Session
begin

text \<open>
  Session identifiers and nonces: newSessionID and newNonce (util.go), which write random bytes in the URL alphabet
  of base64 without padding (encoding/base64), and what the server owes to them. Different draws give different
  identifiers, and an identifier fits into every frame.
\<close>

section \<open>base64.RawURLEncoding\<close>

definition encodeURL :: string where
  "encodeURL = ''ABCDEFGHIJKLMNOPQRSTUVWXYZabcdefghijklmnopqrstuvwxyz0123456789-_''"

abbreviation digit :: "nat \<Rightarrow> char" where
  "digit n \<equiv> encodeURL ! (n mod 64)"

fun raw_url_encode :: "bytes \<Rightarrow> string" where
  "raw_url_encode (a # b # c # r) =
     (let val = unat a * 65536 + unat b * 256 + unat c in
      digit (val div 262144) # digit (val div 4096) # digit (val div 64) # digit val # raw_url_encode r)"
| "raw_url_encode [a, b] =
     (let val = unat a * 65536 + unat b * 256 in [digit (val div 262144), digit (val div 4096), digit (val div 64)])"
| "raw_url_encode [a] = (let val = unat a * 65536 in [digit (val div 262144), digit (val div 4096)])"
| "raw_url_encode [] = []"

lemma digit_eq: "digit m = digit n \<longleftrightarrow> m mod 64 = n mod 64"
proof -
  have "distinct encodeURL" "length encodeURL = 64" by (simp_all add: encodeURL_def)
  then show ?thesis by (simp add: nth_eq_iff_index_eq)
qed

text \<open>The four digits give the value of a group back, and the value its bytes.\<close>

lemma group_value:
  fixes v :: nat
  assumes "v < 16777216"
  shows "v = 64 * (64 * (64 * ((v div 262144) mod 64) + (v div 4096) mod 64) + (v div 64) mod 64) + v mod 64"
proof -
  have "v div 4096 = v div 64 div 64" "v div 262144 = v div 64 div 64 div 64" by (simp_all only: div_mult2_eq [symmetric] mult_numeral_left_semiring_numeral) simp_all
  moreover have "v div 262144 < 64" using assms by (simp add: less_mult_imp_div_less)
  ultimately show ?thesis using mult_div_mod_eq [of 64 v] mult_div_mod_eq [of 64 "v div 64"] mult_div_mod_eq [of 64 "v div 64 div 64"] by simp
qed

lemma byte_less: "unat (b :: byte) < 256"
  using unsigned_less [of b] by simp

lemma bytes_eq:
  fixes a b c a' b' c' :: byte
  assumes "unat a * 65536 + unat b * 256 + unat c = unat a' * 65536 + unat b' * 256 + unat c'"
  shows "a = a'" "b = b'" "c = c'"
proof -
  have low: "(256 * x + unat z) mod 256 = unat z" "(256 * x + unat z) div 256 = x" for x and z :: byte using byte_less [of z] by simp_all
  have "256 * (256 * unat a + unat b) + unat c = 256 * (256 * unat a' + unat b') + unat c'" using assms by simp
  then have "256 * unat a + unat b = 256 * unat a' + unat b'" "unat c = unat c'" by (metis low)+
  then have "unat a = unat a'" "unat b = unat b'" "unat c = unat c'" by (metis low)+
  then show "a = a'" "b = b'" "c = c'" by (simp_all add: unsigned_word_eqI)
qed

lemma group_eq:
  assumes "digit (v div 262144) = digit (w div 262144)" "digit (v div 4096) = digit (w div 4096)"
    "digit (v div 64) = digit (w div 64)" "digit v = digit w" and "v < 16777216" "w < 16777216"
  shows "v = w"
proof -
  have eq: "v div 262144 mod 64 = w div 262144 mod 64" "v div 4096 mod 64 = w div 4096 mod 64" "v div 64 mod 64 = w div 64 mod 64" "v mod 64 = w mod 64"
    using assms(1-4) unfolding digit_eq .
  show ?thesis by (rule group_value [OF assms(5), unfolded eq, folded group_value [OF assms(6)]])
qed

lemma group_bound:
  fixes a b c :: byte
  shows "unat a * 65536 + unat b * 256 + unat c < 16777216"
  using byte_less [of a] byte_less [of b] byte_less [of c] by simp

lemma pair_digits: "(unat (a :: byte) * 65536 + unat (b :: byte) * 256) mod 64 = 0" "(unat a * 65536) div 64 mod 64 = 0"
proof -
  have "unat a * 65536 + unat b * 256 = 64 * (unat a * 1024 + unat b * 4)" by simp
  then show "(unat a * 65536 + unat b * 256) mod 64 = 0" by (simp only: mod_mult_self1_is_0)
  have "unat a * 65536 = 64 * (64 * (unat a * 16))" by simp
  then show "(unat a * 65536) div 64 mod 64 = 0" by (simp only: nonzero_mult_div_cancel_left mod_mult_self1_is_0)
qed

lemma raw_url_encode_inj: "raw_url_encode xs = raw_url_encode ys \<Longrightarrow> xs = ys"
proof (induction xs arbitrary: ys rule: raw_url_encode.induct)
  case (1 a b c r)
  then obtain a' b' c' r' where ys: "ys = a' # b' # c' # r'" by (cases ys rule: raw_url_encode.cases) (auto simp: Let_def)
  let ?v = "unat a * 65536 + unat b * 256 + unat c" and ?w = "unat a' * 65536 + unat b' * 256 + unat c'"
  have "?v = ?w" using 1(2) by (intro group_eq group_bound) (simp_all add: ys Let_def)
  from bytes_eq [OF this] 1 ys show ?case by (simp add: Let_def)
next
  case (2 a b)
  then obtain a' b' where ys: "ys = [a', b']" by (cases ys rule: raw_url_encode.cases) (auto simp: Let_def)
  have "unat a * 65536 + unat b * 256 + unat (0 :: byte) = unat a' * 65536 + unat b' * 256 + unat (0 :: byte)"
    using 2 by (intro group_eq group_bound) (simp_all add: ys Let_def pair_digits)
  from bytes_eq [OF this] ys show ?case by simp
next
  case (3 a)
  then obtain a' where ys: "ys = [a']" by (cases ys rule: raw_url_encode.cases) (auto simp: Let_def)
  have "unat a * 65536 + unat (0 :: byte) * 256 + unat (0 :: byte) = unat a' * 65536 + unat (0 :: byte) * 256 + unat (0 :: byte)"
    using 3 by (intro group_eq group_bound) (simp_all add: ys Let_def digit_eq pair_digits)
  from bytes_eq [OF this] ys show ?case by simp
next
  case 4
  then show ?case by (cases ys rule: raw_url_encode.cases) (auto simp: Let_def)
qed

lemma raw_url_encode_length: "length (raw_url_encode bs) = (4 * length bs + 2) div 3"
  by (induction bs rule: raw_url_encode.induct) (auto simp: Let_def)

lemma raw_url_encode_ascii: "list_all (\<lambda>c. code_of c < 0x80) (raw_url_encode bs)"
proof -
  have "list_all (\<lambda>c. code_of c < 0x80) encodeURL" by (simp add: encodeURL_def)
  then have "code_of (digit n) < 0x80" for n by (simp add: list_all_length encodeURL_def)
  then show ?thesis by (induction bs rule: raw_url_encode.induct) (simp_all add: Let_def)
qed

section \<open>Identifiers and nonces\<close>

text \<open>The argument is what \<open>rand.Read\<close> gives: an error, or the 32 bytes it filled.\<close>

definition newSessionID :: "bytes result \<Rightarrow> string result" where
  "newSessionID drawn = (case drawn of Inl e \<Rightarrow> Inl e | Inr b \<Rightarrow> Inr (raw_url_encode b))"

definition newNonce :: "bytes result \<Rightarrow> instant \<Rightarrow> string" where
  "newNonce drawn now = (case newSessionID drawn of Inl e \<Rightarrow> dec_int now | Inr sid \<Rightarrow> sid)"

lemma newSessionID_eq: "newSessionID drawn = Inr sid \<longleftrightarrow> (\<exists>b. drawn = Inr b \<and> sid = raw_url_encode b)"
  by (auto simp: newSessionID_def split: sum.splits)

section \<open>The server with drawn identifiers\<close>

text \<open>
  The server of Server takes fresh identifiers as an input. Here it draws them: the state remembers the draws, a new
  session uses the next one, and everything else the server does registers no session.
\<close>

inductive drawn_step :: "bytes set \<times> ws_server \<Rightarrow> bytes set \<times> ws_server \<Rightarrow> bool" where
  dr_open: "length b = 32 \<Longrightarrow> b \<notin> used \<Longrightarrow> newSessionID (Inr b) = Inr sid \<Longrightarrow> drawn_step (used, W) (insert b used, accept_register i sid tgt W)"
| dr_other: "server_step W W' \<Longrightarrow> length (srv_heap W') = length (srv_heap W) \<Longrightarrow> drawn_step (used, W) (used, W')"

definition drawn_inv :: "bytes set \<times> ws_server \<Rightarrow> bool" where
  "drawn_inv s \<longleftrightarrow> table_ok (snd s) \<and> ss_id ` set (srv_heap (snd s)) \<subseteq> raw_url_encode ` fst s"

lemma fresh_draw: "drawn_inv (used, W) \<Longrightarrow> b \<notin> used \<Longrightarrow> newSessionID (Inr b) = Inr sid \<Longrightarrow> sid \<notin> set (map ss_id (srv_heap W))"
  by (auto simp: drawn_inv_def newSessionID_def dest: raw_url_encode_inj)

lemma on_session_ids:
  assumes "k < length (srv_heap W)" and "\<And>v. table_step v (snd (f v))"
  shows "map ss_id (srv_heap (snd (on_session k f W))) = map ss_id (srv_heap W)"
proof -
  obtain r v where f: "f (session_view k W) = (r, v)" by fastforce
  with assms(2) [of "session_view k W"] have "ss_id (sw_sess v) = ss_id (srv_heap W ! k)" by (simp add: table_step_def)
  with f assms(1) show ?thesis by (simp add: on_session_def session_put_def map_update list_update_same_conv)
qed

lemma server_step_ids: "server_step W W' \<Longrightarrow> length (srv_heap W') = length (srv_heap W) \<Longrightarrow> map ss_id (srv_heap W') = map ss_id (srv_heap W)"
proof (induction rule: server_step.induct)
  case (sv_register sid W i tgt)
  then show ?case by (simp add: accept_register_def)
qed (simp_all add: on_session_ids table_accept_send table_resume' table_run_frame table_read_error table_reader_check table_reader_read
    table_timer srv_write_def accept_drop_def)

text \<open>A drawn identifier is fresh, so this server does what the one of Server may do.\<close>

lemma drawn_step_server: "drawn_step s s' \<Longrightarrow> drawn_inv s \<Longrightarrow> server_step (snd s) (snd s')"
  by (induction rule: drawn_step.induct) (simp_all only: snd_conv sv_register fresh_draw not_False_eq_True)

lemma drawn_step_inv:
  assumes step: "drawn_step s s'" and inv: "drawn_inv s"
  shows "drawn_inv s'"
proof -
  have ok: "table_ok (snd s')"
    using server_step_ok [OF drawn_step_server [OF step inv]] inv by (simp add: drawn_inv_def)
  from step show ?thesis
  proof cases
    case (dr_open b used sid W i tgt)
    with inv ok show ?thesis
      by (auto simp: drawn_inv_def newSessionID_def accept_register_def open_session_def newServerSession_def)
  next
    case (dr_other W W' used)
    from server_step_ids [OF dr_other(3,4)] have "ss_id ` set (srv_heap W') = ss_id ` set (srv_heap W)"
      by (metis list.set_map)
    with inv ok dr_other show ?thesis by (simp add: drawn_inv_def)
  qed
qed

interpretation drawing: refinement drawn_step drawn_inv server_step snd
proof
  fix s s' assume "drawn_inv s" "drawn_step s s'"
  then show "server_step\<^sup>*\<^sup>* (snd s) (snd s')" using drawn_step_server by blast
qed (rule drawn_step_inv)

text \<open>\<open>accept\<close> with the result of \<open>newSessionID\<close> is a run of it.\<close>

lemma accept_drawn:
  assumes inv: "drawn_inv (used, W)" and b: "length b = 32" "b \<notin> used" and id: "ai_id inp = newSessionID (Inr b)"
    and acc: "accept i f inp W = (r, W')"
  shows "\<exists>used'. used \<subseteq> used' \<and> used' \<subseteq> insert b used \<and> drawn_step\<^sup>*\<^sup>* (used, W) (used', W')"
proof -
  let ?sid = "raw_url_encode b"
  have sid: "newSessionID (Inr b) = Inr ?sid" by (simp add: newSessionID_def)
  have same: "drawn_step\<^sup>*\<^sup>* (used, W) (used, V)" if "server_step W V" "length (srv_heap V) = length (srv_heap W)" for V
    using dr_other [OF that, of used] by (rule r_into_rtranclp)
  have len: "length (srv_heap (snd (on_session k f V))) = length (srv_heap V)" for k V and f :: "sworld \<Rightarrow> 'b \<times> sworld"
    by (simp add: on_session_def session_put_def split: prod.split)
  have new: "drawn_step\<^sup>*\<^sup>* (used, W) (insert b used, snd (on_session (length (srv_heap W)) (accept_send i ?sid) (accept_register i ?sid tgt W)))" for tgt
  proof (rule run_then [OF r_into_rtranclp])
    show "drawn_step (used, W) (insert b used, accept_register i ?sid tgt W)" by (rule dr_open [OF b sid])
    show "drawn_step (insert b used, accept_register i ?sid tgt W)
        (insert b used, snd (on_session (length (srv_heap W)) (accept_send i ?sid) (accept_register i ?sid tgt W)))"
      by (intro dr_other sv_accept len) (simp add: accept_register_def)
  qed
  have old: "drawn_step\<^sup>*\<^sup>* (used, W) (used, snd (on_session k (resume i f) W))" if "srv_sessions W (h_session_id f) = Some k" for k
    using inv that by (intro same sv_resume len) (simp add: drawn_inv_def table_ok_def)
  have wr: "drawn_step\<^sup>*\<^sup>* (used, W) (used, srv_write i h W)" "drawn_step\<^sup>*\<^sup>* (used, W) (used, accept_drop tgt W)" for h tgt
    using same [OF sv_write, of i h] same [OF sv_drop, of tgt] by (simp_all add: srv_write_def accept_drop_def)
  have "drawn_step\<^sup>*\<^sup>* (used, W) (used, W') \<or> drawn_step\<^sup>*\<^sup>* (used, W) (insert b used, W')"
    using acc new old wr unfolding accept_def id sid
    by (auto simp: Let_def split: if_splits sum.splits option.splits prod.splits) (metis snd_conv)+
  then show ?thesis by blast
qed

section \<open>What holds of them\<close>


lemma encoded_valid: "utf8_valid (raw_url_encode b)"
  by (rule utf8_valid_ascii [OF raw_url_encode_ascii])

text \<open>
  C30. An identifier of 32 random bytes has 43 characters, and the accept frame that carries it is never refused and
  gives it back when it is read, whatever the epoch and the offsets are.
\<close>

theorem session_id_travels:
  assumes "length b = 32" and "newSessionID (Inr b) = Inr sid"
  shows "length sid = 43 \<and> (\<exists>msg. writeFrame (accept_header sid e rx ack) [] = Inr msg
    \<and> readFrame msg = Inr (accept_header sid e rx ack, []))"
proof -
  have sid: "sid = raw_url_encode b" using assms(2) by (simp add: newSessionID_def)
  then have len: "length sid = 43" using assms(1) by (simp only: raw_url_encode_length)
  have wf: "wf_header (accept_header sid e rx ack)"
    by (simp add: wf_header_def accept_header_def utf8_valid_ascii sid encoded_valid)
  have "\<exists>msg. writeFrame (accept_header sid e rx ack) [] = Inr msg"
    by (rule writeFrame_small [OF wf]) (simp_all add: accept_header_def header_text_def len)
  with readFrame_writeFrame [OF wf] len show ?thesis by blast
qed

text \<open>The nonce of a heartbeat or a probe, drawn or, when the random source fails, the time.\<close>

lemma nonce_travels:
  assumes "\<And>b. drawn = Inr b \<Longrightarrow> length b = 32" and "- (2 ^ 63) \<le> now" "now < 2 ^ 63" and "- (2 ^ 63) \<le> sent" "sent < 2 ^ 63"
  shows "\<exists>msg. writeFrame (ping_header (newNonce drawn now) sent) [] = Inr msg
    \<and> readFrame msg = Inr (ping_header (newNonce drawn now) sent, [])"
proof -
  have n: "utf8_valid (newNonce drawn now) \<and> length (newNonce drawn now) \<le> 43"
  proof (cases drawn)
    case (Inl x)
    have "list_all (\<lambda>c. code_of c < 0x80) (dec_nat n)" for n
      using dec_nat_digits [of n] by (rule list.pred_mono_strong) (auto simp: is_digit_def in_range_def)
    then have "list_all (\<lambda>c. code_of c < 0x80) (dec_int now)" by (simp add: dec_int_def)
    with Inl length_dec_int [OF assms(2,3)] show ?thesis by (simp add: newNonce_def newSessionID_def utf8_valid_ascii)
  next
    case (Inr b)
    with assms(1) have "length b = 32" by simp
    with Inr show ?thesis by (simp add: newNonce_def newSessionID_def encoded_valid raw_url_encode_length)
  qed
  then have wf: "wf_header (ping_header (newNonce drawn now) sent)"
    using assms(4,5) by (simp add: wf_header_def ping_header_def utf8_valid_ascii)
  have "\<exists>msg. writeFrame (ping_header (newNonce drawn now) sent) [] = Inr msg"
    by (rule writeFrame_small [OF wf]) (use n in \<open>simp_all add: ping_header_def header_text_def\<close>)
  with readFrame_writeFrame [OF wf] show ?thesis by blast
qed

theorem session_id_travels_witness:
  "\<exists>sid. newSessionID (Inr (replicate 32 0)) = Inr sid \<and> length sid = 43 \<and> (\<exists>msg. writeFrame (accept_header sid 1 0 0) [] = Inr msg)"
proof -
  obtain sid where "newSessionID (Inr (replicate 32 0)) = Inr sid" by (metis newSessionID_eq)
  with session_id_travels [OF length_replicate this, of 1 0 0] show ?thesis by blast
qed

lemma two_draws:
  assumes "length a = 32" "length b = 32" and "a \<noteq> b"
  obtains W where "drawn_step\<^sup>*\<^sup>* ({}, demo_server) ({b, a}, W)" and "length (srv_heap W) = 2"
proof
  let ?W1 = "accept_register 0 (raw_url_encode a) demo_target demo_server"
  let ?W2 = "accept_register 1 (raw_url_encode b) demo_target ?W1"
  have "drawn_step ({}, demo_server) ({a}, ?W1)" using assms by (intro dr_open) (simp_all add: newSessionID_def)
  moreover have "drawn_step ({a}, ?W1) ({b, a}, ?W2)" using assms by (intro dr_open) (simp_all add: newSessionID_def)
  ultimately show "drawn_step\<^sup>*\<^sup>* ({}, demo_server) ({b, a}, ?W2)" by (metis r_into_rtranclp rtranclp.rtrancl_into_rtrancl)
  show "length (srv_heap ?W2) = 2" by (simp add: accept_register_def demo_server_def fresh_server_def)
qed


end
