(* ===== verification/Entry_Points.thy ===== *)
theory Entry_Points
  imports Proxy_Loops Identity
begin

text \<open>
  The entry points of tunnel.go. \<open>Proxy\<close> starts one goroutine for its context, connects, starts the loops and waits for
  the end; here these goroutines are a step system around the world of the client. \<open>Serve\<close> listens and serves.
\<close>

section \<open>Serve\<close>

text \<open>
  \<open>serveListener\<close> returns when \<open>http.Server.Serve\<close> does; the goroutine that waits for the context closes the server, and
  then \<open>Serve\<close> reports \<open>ErrServerClosed\<close>, which \<open>server_closed\<close> recognises.
\<close>

definition serveListener :: "(gerror \<Rightarrow> bool) \<Rightarrow> gerror option \<Rightarrow> gerror option" where
  "serveListener server_closed served = (case served of None \<Rightarrow> None | Some e \<Rightarrow> if server_closed e then None else Some e)"

definition Serve :: "(gerror \<Rightarrow> bool) \<Rightarrow> unit result \<Rightarrow> gerror option \<Rightarrow> gerror option" where
  "Serve server_closed listened served = (case listened of Inl e \<Rightarrow> Some e | Inr _ \<Rightarrow> serveListener server_closed served)"

section \<open>Proxy\<close>

text \<open>
  Where the call of \<open>Proxy\<close> is: in its first \<open>connectAny\<close>, blocked there when the environment gives it nothing more,
  back with the error of that connection, in \<open>wait\<close>, or back from it.
\<close>

datatype proxy_phase = Connecting | Blocked | Failed gerror | Waiting | Returned "gerror option"

text \<open>\<open>px_watch\<close>: the goroutine of the context still waits. A loop that does not run is \<open>None\<close>.\<close>

record proxy_run =
  px_world :: client_world
  px_phase :: proxy_phase
  px_watch :: bool
  px_reconnect :: "reconnect_vars option"
  px_switch :: "path_stats option"

definition start_proxy :: "config \<Rightarrow> path_config option result \<Rightarrow> bool \<Rightarrow> proxy_run" where
  "start_proxy cfg loaded half = \<lparr>px_world = fresh_client cfg (case loaded of Inl e \<Rightarrow> None | Inr p \<Rightarrow> p) half, px_phase = Connecting,
     px_watch = True, px_reconnect = None, px_switch = None\<rparr>"

text \<open>After the first \<open>connectAny\<close>: the loops start, or its error is returned.\<close>

definition proxy_connected :: "gerror option option \<Rightarrow> proxy_run \<Rightarrow> proxy_run" where
  "proxy_connected x s = (case x of
     None \<Rightarrow> s\<lparr>px_phase := Blocked\<rparr>
   | Some (Some e) \<Rightarrow> s\<lparr>px_phase := Failed e\<rparr>
   | Some None \<Rightarrow> s\<lparr>px_phase := Waiting, px_reconnect := Some initial_vars, px_switch := Some Map.empty\<rparr>)"

text \<open>
  The context ends; the first connection; a round of the reconnect loop; a turn of the switch loop; a step of any other
  goroutine (\<open>stdinLoop\<close>, a receive loop, a heartbeat); \<open>wait\<close> returns.
\<close>

inductive proxy_step :: "(gerror \<Rightarrow> bool) \<Rightarrow> (nat \<Rightarrow> gerror option) \<Rightarrow> proxy_run \<Rightarrow> proxy_run \<Rightarrow> bool" for timeout closeErr where
  px_cancel: "px_watch s \<Longrightarrow> proxy_step timeout closeErr s (s\<lparr>px_world := finish (Some e) (px_world s), px_watch := False\<rparr>)"
| px_connect: "px_phase s = Connecting \<Longrightarrow> connect_with timeout closeErr False run (px_world s) = (x, w) \<Longrightarrow>
    proxy_step timeout closeErr s (proxy_connected x (s\<lparr>px_world := w\<rparr>))"
| px_round: "px_reconnect s = Some v \<Longrightarrow> steps_only (lp_before li) \<Longrightarrow> steps_only (lp_during li) \<Longrightarrow>
    loop_round timeout closeErr li v (px_world s) = (x, w) \<Longrightarrow>
    proxy_step timeout closeErr s (s\<lparr>px_world := w, px_reconnect := Option.bind x id\<rparr>)"
| px_tick: "px_switch s = Some stats \<Longrightarrow> steps_only (st_before t) \<Longrightarrow> steps_only (si_others (st_cycle t)) \<Longrightarrow>
    switchLoop timeout closeErr [t] stats (px_world s) = (ended, stats1, w) \<Longrightarrow>
    proxy_step timeout closeErr s (s\<lparr>px_world := w, px_switch := (if ended then None else Some stats1)\<rparr>)"
| px_other: "client_step (px_world s) w \<Longrightarrow> proxy_step timeout closeErr s (s\<lparr>px_world := w\<rparr>)"
| px_return: "px_phase s = Waiting \<Longrightarrow> proxy_result (cl_rt (px_world s)) = Some r \<Longrightarrow>
    proxy_step timeout closeErr s (s\<lparr>px_phase := Returned r\<rparr>)"

definition proxy_inv :: "proxy_run \<Rightarrow> bool" where
  "proxy_inv s \<longleftrightarrow> client_inv (px_world s)
     \<and> (\<forall>r. px_phase s = Returned r \<longrightarrow> rt_finished (cl_rt (px_world s)) \<and> rt_doneErr (cl_rt (px_world s)) = r)
     \<and> (px_phase s \<in> {Connecting, Blocked} \<union> range Failed \<longrightarrow> px_reconnect s = None \<and> px_switch s = None)
     \<and> (\<not> px_watch s \<longrightarrow> rt_finished (cl_rt (px_world s)))"

text \<open>Every step is a run of the client, so its theorems hold of the whole proxy.\<close>

lemma proxy_world_run: "proxy_step timeout closeErr s s' \<Longrightarrow> client_run (px_world s) (px_world s')"
proof (induction rule: proxy_step.induct)
  case (px_cancel s e)
  show ?case using cs_finish by (simp add: client_run_step)
next
  case (px_connect s run x w)
  from run_connect_with [OF px_connect(2)] show ?case
    by (cases x) (simp_all add: proxy_connected_def split: option.split)
next
  case (px_round s v li x w)
  from run_loop_round [OF px_round(4,2,3)] show ?case by simp
next
  case (px_tick s stats t ended stats1 w)
  from run_switchLoop [of "[t]" "px_world s" timeout closeErr stats] px_tick(2-4) show ?case by simp
next
  case (px_other s w)
  then show ?case by (simp add: client_run_step)
qed simp

lemma proxy_step_inv:
  assumes step: "proxy_step timeout closeErr s s'" and inv: "proxy_inv s"
  shows "proxy_inv s'"
proof -
  have i: "client_inv (px_world s)" using inv by (simp add: proxy_inv_def)
  note run = proxy_world_run [OF step]
  have i': "client_inv (px_world s')" by (rule client_reachable_inv [OF run i])
  have fin: "rt_finished (cl_rt (px_world s')) \<and> rt_doneErr (cl_rt (px_world s')) = rt_doneErr (cl_rt (px_world s))"
    if "rt_finished (cl_rt (px_world s))" using finished_reachable [OF run i that] by simp
  from step show ?thesis
  proof cases
    case (px_cancel e)
    with inv i' fin show ?thesis by (auto simp: proxy_inv_def finish_rt)
  next
    case (px_connect run x w)
    with inv i' fin show ?thesis
      by (cases x) (auto simp: proxy_inv_def proxy_connected_def split: option.splits)
  next
    case (px_round v li x w)
    with inv i' fin show ?thesis by (auto simp: proxy_inv_def)
  next
    case (px_tick stats t ended stats1 w)
    with inv i' fin show ?thesis by (auto simp: proxy_inv_def)
  next
    case (px_other w)
    with inv i' fin show ?thesis by (auto simp: proxy_inv_def)
  next
    case (px_return r)
    with inv i' show ?thesis by (auto simp: proxy_inv_def proxy_result_def client_inv_def client_life_def split: if_splits)
  qed
qed

interpretation proxy: refinement "proxy_step timeout closeErr" proxy_inv client_step px_world for timeout closeErr
  by unfold_locales (rule proxy_step_inv proxy_world_run; assumption)+

lemma start_proxy_inv: "0 < rc_buffer (cfg_resume cfg) \<Longrightarrow> proxy_inv (start_proxy cfg loaded half)"
  using fresh_client_inv [of cfg] by (simp add: proxy_inv_def start_proxy_def)

text \<open>Once \<open>done\<close> is closed the reconnect loop returns at its next round, and a waiting proxy keeps waiting or returns.\<close>

lemma loop_round_done:
  assumes "rt_done (cl_rt (lp_before li w))"
  shows "fst (loop_round timeout closeErr li v w) = Some None"
  using assms by (simp add: loop_round_def Let_def observed_round_def reconnect_round_def)

lemma proxy_step_waiting:
  assumes "proxy_step timeout closeErr s s'" and "proxy_inv s" and "px_phase s \<in> {Waiting} \<union> range Returned"
    and "rt_finished (cl_rt (px_world s))" and "rt_doneErr (cl_rt (px_world s)) = r"
  shows "px_phase s' = px_phase s \<or> px_phase s = Waiting \<and> px_phase s' = Returned r"
  using assms(1)
proof cases
  case (px_return q)
  with assms show ?thesis by (simp add: proxy_result_def split: if_splits)
qed (use assms in auto)


section \<open>A proxy that connects over its cached path and is cancelled\<close>

definition demo_cached :: client_world where
  "demo_cached = fresh_client demo_client_cfg (Some demo_path) False"

definition demo_first :: connect_run where
  "demo_first = demo_connect\<lparr>cn_lkg := \<lparr>dr_timings = zero_timings, dr_dial = Inr 0, dr_session = \<lparr>sr_ctx = None, sr_write_ctx = None,
     sr_inputs = [\<lparr>hi_read = Inr (ac_accept (demo_commit 0 1 0), []), hi_ctx = None, hi_stopped = True, hi_clear = None\<rparr>], sr_took = 0\<rparr>\<rparr>\<rparr>"

lemma demo_hello_written: "\<exists>msg. writeFrame (hello_header (make_request demo_client_cfg demo_path False (cl_rt demo_cached))) [] = Inr msg"
  by (rule writeFrame_small)
     (simp_all add: hello_header_def make_request_def helloOffsets_def demo_cached_def fresh_client_def newClientRuntime_def demo_client_cfg_def
       wf_header_def header_text_def utf8_valid_ascii)

lemma demo_first_connects:
  obtains w where "connect_with (\<lambda>e. False) (\<lambda>i. None) False demo_first demo_cached = (Some None, w)" and "\<not> rt_finished (cl_rt w)"
proof -
  let ?h = "hello_header (make_request demo_client_cfg demo_path False (cl_rt demo_cached))"
  obtain msg where m: "writeFrame ?h [] = Inr msg" using demo_hello_written ..
  obtain w1 where r: "raw_send 0 ?h [] demo_cached = (None, w1)" and w1: "cl_rt w1 = cl_rt demo_cached" "cl_cfg w1 = cl_cfg demo_cached"
    using m by (simp add: raw_send_def ws_send_def demo_cached_def fresh_client_def)
  let ?request = "make_request demo_client_cfg demo_path False (cl_rt demo_cached)" and ?c = "demo_commit 0 1 0"
  have st: "startSession 0 ?request None None (sr_inputs (dr_session (cn_lkg demo_first))) demo_cached = (Some (Inr (ac_conn ?c, ac_accept ?c)), w1)"
    using r by (simp add: startSession_def demo_first_def demo_commit_def demo_conn_def make_request_def helloOffsets_def)
  have rt: "rt_finished (cl_rt w1) = False" "rt_c2sNext (cl_rt w1) = 0" "rt_c2sAck (cl_rt w1) = 0" "rt_c2sBufFrom (cl_rt w1) = 0"
      "rt_c2sBuf (cl_rt w1) = []" "rt_c2sFin (cl_rt w1) = False" "rt_active (cl_rt w1) = None"
    by (simp_all add: w1 demo_cached_def fresh_client_def newClientRuntime_def)
  obtain w2 where co: "commitActivation ?c w1 = (None, w2)" and fin: "\<not> rt_finished (cl_rt w2)"
    using rt by (simp add: commitActivation_def commit_publish_def advanceC2SAckLocked_def demo_commit_def replayClientBytes_def chunk_loop.simps
        Let_def commit_state_def rt_broadcast_def)
  have "rt_lastKnownGood (cl_rt demo_cached) = Some demo_path" "cl_cfg demo_cached = demo_client_cfg"
    by (simp_all add: demo_cached_def fresh_client_def newClientRuntime_def)
  moreover have "startProbeBatch (pathsExcept (cfg_paths demo_client_cfg) (pc_name demo_path)) = False"
    by (simp add: startProbeBatch_def pathsExcept_def enabledPaths_def demo_client_cfg_def)
  moreover have "ac_resume ?c = False" "ac_path ?c = demo_path" by (simp_all add: demo_commit_def)
  then have "\<lparr>ac_conn = ac_conn ?c, ac_accept = ac_accept ?c, ac_path = demo_path, ac_resume = False\<rparr> = ?c" by simp
  ultimately have "connect_with (\<lambda>e. False) (\<lambda>i. None) False demo_first demo_cached = (Some None, w2)"
    using st co by (simp add: connect_with_def connectAny_def activate_def activateDirect_def start_and_commit_def Let_def demo_first_def)
  with fin show ?thesis by (rule_tac that)
qed


end
