(* ===== verification/Path_State.thy ===== *)
theory Path_State
  imports Protocol Config_Types Go_Strings
begin

text \<open>
  The cache of the last known good path: internal/tunnel/path_state.go. The file system is a map from
  names to contents and modes; the calls that change it are recorded as operations, so that a crash
  between any two of them can be looked at. Which calls fail is an input. The digest of the identity
  (SHA-256 in hexadecimal) is a parameter.
\<close>

section \<open>The file system\<close>

record file_system =
  fs_files :: "string \<rightharpoonup> string \<times> nat"
  fs_dirs :: "string \<rightharpoonup> nat"

text \<open>\<open>MkdirAll\<close>, \<open>Chmod\<close> of a directory, \<open>CreateTemp\<close>, \<open>Chmod\<close> and \<open>Write\<close> of the open file, \<open>Rename\<close>,
  \<open>Remove\<close>. Modes are written in decimal: 448 is 0700 and 384 is 0600.\<close>

datatype fs_op =
    Mkdir string nat
  | ChmodDir string nat
  | CreateTemp string
  | ChmodFile string nat
  | WriteFile string string
  | Rename string string
  | Remove string

fun apply_op :: "fs_op \<Rightarrow> file_system \<Rightarrow> file_system" where
  "apply_op (Mkdir d m) fs = (if fs_dirs fs d = None then fs\<lparr>fs_dirs := (fs_dirs fs)(d \<mapsto> m)\<rparr> else fs)"
| "apply_op (ChmodDir d m) fs = fs\<lparr>fs_dirs := (fs_dirs fs)(d \<mapsto> m)\<rparr>"
| "apply_op (CreateTemp f) fs = fs\<lparr>fs_files := (fs_files fs)(f \<mapsto> ([], 384))\<rparr>"
| "apply_op (ChmodFile f m) fs = fs\<lparr>fs_files := (fs_files fs)(f := map_option (\<lambda>(s, _). (s, m)) (fs_files fs f))\<rparr>"
| "apply_op (WriteFile f t) fs = fs\<lparr>fs_files := (fs_files fs)(f := map_option (\<lambda>(s, m). (s @ t, m)) (fs_files fs f))\<rparr>"
| "apply_op (Rename f g) fs = fs\<lparr>fs_files := (fs_files fs)(g := fs_files fs f, f := None)\<rparr>"
| "apply_op (Remove f) fs = fs\<lparr>fs_files := (fs_files fs)(f := None)\<rparr>"

definition apply_ops :: "fs_op list \<Rightarrow> file_system \<Rightarrow> file_system" where
  "apply_ops ops fs = fold apply_op ops fs"

section \<open>The store\<close>

definition pathStateVersion :: int where
  "pathStateVersion = 1"

record path_store =
  ps_path :: string

record path_record =
  pt_version :: int
  pt_path :: string

definition newPathStateStore :: "(string \<Rightarrow> string) \<Rightarrow> string \<Rightarrow> string \<Rightarrow> path_store" where
  "newPathStateStore digest cacheDir identity =
     \<lparr>ps_path = cacheDir @ ''/moltssh/path-state/'' @ digest identity @ ''.json''\<rparr>"

text \<open>\<open>filepath.Dir\<close> of a clean path that is not in the root.\<close>

definition dir_of :: "string \<Rightarrow> string" where
  "dir_of path = rev (tl (dropWhile (\<lambda>c. c \<noteq> CHR ''/'') (rev path)))"

definition newPathStateError :: "string \<Rightarrow> gerror \<Rightarrow> gerror" where [simp]:
  "newPathStateError operation err = PathStateErr operation err"

definition pathStateStoreForConfig :: "(string \<Rightarrow> string) \<Rightarrow> string result \<Rightarrow> config option \<Rightarrow> path_store option result" where
  "pathStateStoreForConfig digest cacheDir cfg = (case cfg of
     None \<Rightarrow> Inr None
   | Some c \<Rightarrow> if cfg_identity c = [] then Inr None else (case cacheDir of
       Inl e \<Rightarrow> Inl (newPathStateError ''locate cache'' e)
     | Inr d \<Rightarrow> Inr (Some (newPathStateStore digest d (cfg_identity c)))))"

section \<open>The JSON form\<close>

definition record_members :: "path_record \<Rightarrow> (string \<times> json) list" where
  "record_members r = [(''version'', JNum (dec_int (pt_version r))), (''path'', JStr (pt_path r))]"

definition marshal_record :: "path_record \<Rightarrow> string" where
  "marshal_record r = render_json (JObj (record_members r))"

text \<open>\<open>Decode\<close> with \<open>DisallowUnknownFields\<close> into a zero record; \<open>None\<close> is an error of encoding/json.\<close>

definition zero_record :: path_record where
  "zero_record = \<lparr>pt_version = 0, pt_path = []\<rparr>"

definition names_field :: "string \<Rightarrow> string \<Rightarrow> bool" where
  "names_field name key \<longleftrightarrow> key = name \<or> (key \<noteq> ''version'' \<and> key \<noteq> ''path'' \<and> fold_name key = fold_name name)"

definition set_record_member :: "string \<Rightarrow> json \<Rightarrow> path_record \<Rightarrow> path_record option" where
  "set_record_member key v r =
     (if names_field ''version'' key then
        (case v of JNull \<Rightarrow> Some r | JNum s \<Rightarrow> map_option (\<lambda>x. r\<lparr>pt_version := x\<rparr>) (parse_int64 s) | _ \<Rightarrow> None)
      else if names_field ''path'' key then
        (case v of JNull \<Rightarrow> Some r | JStr s \<Rightarrow> Some (r\<lparr>pt_path := s\<rparr>) | _ \<Rightarrow> None)
      else None)"

fun set_record_members :: "(string \<times> json) list \<Rightarrow> path_record \<Rightarrow> path_record option" where
  "set_record_members [] r = Some r"
| "set_record_members ((k, v) # ms) r = Option.bind (set_record_member k v r) (set_record_members ms)"

definition decode_value :: "json \<Rightarrow> path_record option" where
  "decode_value v = (case v of JObj ms \<Rightarrow> set_record_members ms zero_record | JNull \<Rightarrow> Some zero_record | _ \<Rightarrow> None)"

text \<open>The next value of a stream of JSON values and what follows it.\<close>

definition next_value :: "string \<Rightarrow> (json \<times> string) option" where
  "next_value s = parse_value (2 * length s + 2) 0 s"

definition consumeEOF :: "string \<Rightarrow> gerror option" where
  "consumeEOF s = (if skip_space s = [] then None
     else case next_value s of Some v \<Rightarrow> Some (Errorf ''multiple JSON values'') | None \<Rightarrow> Some json_error)"

section \<open>Reading and writing\<close>

text \<open>\<open>readErr\<close> is a failure of \<open>ReadFile\<close> other than a missing file.\<close>

definition readLocked :: "path_store \<Rightarrow> gerror option \<Rightarrow> file_system \<Rightarrow> (path_record \<times> bool) result" where
  "readLocked st readErr fs = (case readErr of
     Some e \<Rightarrow> Inl (newPathStateError ''read'' e)
   | None \<Rightarrow> (case fs_files fs (ps_path st) of
       None \<Rightarrow> Inr (zero_record, False)
     | Some (data, mode) \<Rightarrow> (case next_value data of
         None \<Rightarrow> Inl (newPathStateError ''decode'' json_error)
       | Some (v, rest) \<Rightarrow> (case decode_value v of
           None \<Rightarrow> Inl (newPathStateError ''decode'' json_error)
         | Some r \<Rightarrow> (case consumeEOF rest of
             Some e \<Rightarrow> Inl (newPathStateError ''decode'' e)
           | None \<Rightarrow> Inr (r, True))))))"

text \<open>The outcome of each call of \<open>writeLocked\<close>; a failed \<open>Write\<close> has written some bytes.\<close>

record write_env =
  we_mkdir :: "gerror option"
  we_chmod_dir :: "gerror option"
  we_temp :: "string result"
  we_chmod :: "gerror option"
  we_write :: "(nat \<times> gerror) option"
  we_sync :: "gerror option"
  we_close :: "gerror option"
  we_rename :: "gerror option"

definition closePathStateTemp :: "write_env \<Rightarrow> gerror \<Rightarrow> gerror" where
  "closePathStateTemp env operationErr = (case we_close env of
     Some closeErr \<Rightarrow> Joined [operationErr, closeErr] | None \<Rightarrow> operationErr)"

text \<open>The part behind \<open>CreateTemp\<close>; its deferred \<open>Remove\<close> is the last operation on every return.\<close>

definition write_temp :: "write_env \<Rightarrow> path_store \<Rightarrow> string \<Rightarrow> string \<Rightarrow> gerror option \<times> fs_op list" where
  "write_temp env st temp data =
     (case we_chmod env of
        Some e \<Rightarrow> (Some (newPathStateError ''secure temporary state'' (closePathStateTemp env e)), [])
      | None \<Rightarrow> (case we_write env of
          Some (n, e) \<Rightarrow> (Some (newPathStateError ''write'' (closePathStateTemp env e)), [ChmodFile temp 384, WriteFile temp (take n data)])
        | None \<Rightarrow> (case we_sync env of
            Some e \<Rightarrow> (Some (newPathStateError ''sync'' (closePathStateTemp env e)), [ChmodFile temp 384, WriteFile temp data])
          | None \<Rightarrow> (case we_close env of
              Some e \<Rightarrow> (Some (newPathStateError ''close'' e), [ChmodFile temp 384, WriteFile temp data])
            | None \<Rightarrow> (case we_rename env of
                Some e \<Rightarrow> (Some (newPathStateError ''replace'' e), [ChmodFile temp 384, WriteFile temp data])
              | None \<Rightarrow> (None, [ChmodFile temp 384, WriteFile temp data, Rename temp (ps_path st)]))))))"

definition writeLocked :: "write_env \<Rightarrow> path_store \<Rightarrow> path_record \<Rightarrow> gerror option \<times> fs_op list" where
  "writeLocked env st r =
     (let dir = dir_of (ps_path st) in
      case we_mkdir env of
        Some e \<Rightarrow> (Some (newPathStateError ''create cache directory'' e), [])
      | None \<Rightarrow> (case we_chmod_dir env of
          Some e \<Rightarrow> (Some (newPathStateError ''secure cache directory'' e), [Mkdir dir 448])
        | None \<Rightarrow> (case we_temp env of
            Inl e \<Rightarrow> (Some (newPathStateError ''create temporary state'' e), [Mkdir dir 448, ChmodDir dir 448])
          | Inr temp \<Rightarrow> (case write_temp env st temp (marshal_record r) of
              (res, ops) \<Rightarrow> (res, [Mkdir dir 448, ChmodDir dir 448, CreateTemp temp] @ ops @ [Remove temp])))))"

section \<open>Load and Save\<close>

definition load_path :: "path_store \<Rightarrow> gerror option \<Rightarrow> config option \<Rightarrow> file_system \<Rightarrow> path_config option result" where
  "load_path st readErr cfg fs = (case readLocked st readErr fs of
     Inl e \<Rightarrow> Inl e
   | Inr (r, present) \<Rightarrow>
       if \<not> present then Inr None
       else if pt_version r \<noteq> pathStateVersion then
         Inl (newPathStateError ''validate'' (Errorf (''unsupported version '' @ dec_int (pt_version r))))
       else Inr (enabledPathByName cfg (pt_path r)))"

definition save_path :: "path_store \<Rightarrow> gerror option \<Rightarrow> write_env \<Rightarrow> config option \<Rightarrow> string \<Rightarrow> file_system \<Rightarrow> gerror option \<times> fs_op list" where
  "save_path st readErr env cfg name fs =
     (if enabledPathByName cfg name = None then
        (Some (newPathStateError ''validate'' (Errorf (''path '' @ go_quote name @ '' is not enabled''))), [])
      else if readLocked st readErr fs = Inr (\<lparr>pt_version = pathStateVersion, pt_path = name\<rparr>, True) then (None, [])
      else writeLocked env st \<lparr>pt_version = pathStateVersion, pt_path = name\<rparr>)"

definition LoadLastKnownGoodPath :: "(string \<Rightarrow> string) \<Rightarrow> string result \<Rightarrow> gerror option \<Rightarrow> config option \<Rightarrow> file_system \<Rightarrow> path_config option result" where
  "LoadLastKnownGoodPath digest cacheDir readErr cfg fs = (case pathStateStoreForConfig digest cacheDir cfg of
     Inl e \<Rightarrow> Inl e
   | Inr None \<Rightarrow> Inr None
   | Inr (Some st) \<Rightarrow> load_path st readErr cfg fs)"

definition SaveLastKnownGoodPath :: "(string \<Rightarrow> string) \<Rightarrow> string result \<Rightarrow> gerror option \<Rightarrow> write_env \<Rightarrow> config option \<Rightarrow> string \<Rightarrow> file_system \<Rightarrow>
    gerror option \<times> fs_op list" where
  "SaveLastKnownGoodPath digest cacheDir readErr env cfg name fs = (case pathStateStoreForConfig digest cacheDir cfg of
     Inl e \<Rightarrow> (Some e, [])
   | Inr None \<Rightarrow> (None, [])
   | Inr (Some st) \<Rightarrow> save_path st readErr env cfg name fs)"

section \<open>A saved record is read back\<close>

lemma parse_json_next:
  assumes "parse_json s = Some v"
  shows "\<exists>rest. next_value s = Some (v, rest) \<and> consumeEOF rest = None"
  using assms by (auto simp: parse_json_def next_value_def consumeEOF_def split: option.splits prod.splits if_splits)

lemma decode_marshal:
  assumes "utf8_valid (pt_path r)" and "- (2 ^ 63) \<le> pt_version r" "pt_version r < 2 ^ 63"
  shows "parse_json (marshal_record r) = Some (JObj (record_members r)) \<and> decode_value (JObj (record_members r)) = Some r"
proof
  show "parse_json (marshal_record r) = Some (JObj (record_members r))"
    unfolding marshal_record_def by (rule parse_json_render) (use assms(1) in \<open>auto simp: record_members_def member_ok_def scalar_ok_def utf8_valid_ascii\<close>)
  show "decode_value (JObj (record_members r)) = Some r"
    using assms(2,3) by (simp add: decode_value_def record_members_def set_record_member_def names_field_def zero_record_def parse_int64_dec_int)
qed

lemma read_written:
  assumes "utf8_valid name" and "fs_files fs (ps_path st) = Some (marshal_record \<lparr>pt_version = pathStateVersion, pt_path = name\<rparr>, mode)"
  shows "readLocked st None fs = Inr (\<lparr>pt_version = pathStateVersion, pt_path = name\<rparr>, True)"
proof -
  let ?r = "\<lparr>pt_version = pathStateVersion, pt_path = name\<rparr>"
  have "parse_json (marshal_record ?r) = Some (JObj (record_members ?r)) \<and> decode_value (JObj (record_members ?r)) = Some ?r"
    by (rule decode_marshal) (simp_all add: assms pathStateVersion_def)
  with parse_json_next [of "marshal_record ?r"] assms(2) show ?thesis by (auto simp: readLocked_def)
qed

section \<open>Crashes\<close>

text \<open>The state file while a record is being written: what it was, or the whole record with mode 0600.\<close>

definition old_or_new :: "path_store \<Rightarrow> path_record \<Rightarrow> file_system \<Rightarrow> file_system \<Rightarrow> bool" where
  "old_or_new st r fs fs' \<longleftrightarrow> fs_files fs' (ps_path st) = fs_files fs (ps_path st)
     \<or> fs_files fs' (ps_path st) = Some (marshal_record r, 384)"

definition safe_op :: "string \<Rightarrow> fs_op \<Rightarrow> bool" where
  "safe_op path p \<longleftrightarrow> (case p of CreateTemp f \<Rightarrow> f \<noteq> path | ChmodFile f m \<Rightarrow> f \<noteq> path | WriteFile f s \<Rightarrow> f \<noteq> path
     | Rename f g \<Rightarrow> False | Remove f \<Rightarrow> f \<noteq> path | _ \<Rightarrow> True)"

lemma safe_op_keeps: "safe_op path p \<Longrightarrow> fs_files (apply_op p fs) path = fs_files fs path"
  by (cases p) (auto simp: safe_op_def)

lemma safe_ops_keep: "list_all (safe_op path) ops \<Longrightarrow> fs_files (apply_ops ops fs) path = fs_files fs path"
  by (induction ops arbitrary: fs) (auto simp: apply_ops_def safe_op_keeps)

lemma safe_take_keeps: "list_all (safe_op path) ops \<Longrightarrow> fs_files (apply_ops (take n ops) fs) path = fs_files fs path"
  by (rule safe_ops_keep) (auto simp: list_all_iff dest: in_set_takeD)

lemma apply_ops_append: "apply_ops (xs @ ys) fs = apply_ops ys (apply_ops xs fs)"
  by (simp add: apply_ops_def)

text \<open>Either no operation touches the state file, or the file is renamed over it once, complete.\<close>

lemma writeLocked_shape:
  assumes "writeLocked env st r = (res, ops)" and "\<forall>t. we_temp env = Inr t \<longrightarrow> t \<noteq> ps_path st"
  shows "res \<noteq> None \<and> list_all (safe_op (ps_path st)) ops
    \<or> res = None \<and> (\<exists>temp. we_temp env = Inr temp \<and> ops = [Mkdir (dir_of (ps_path st)) 448, ChmodDir (dir_of (ps_path st)) 448, CreateTemp temp,
        ChmodFile temp 384, WriteFile temp (marshal_record r), Rename temp (ps_path st), Remove temp])"
  using assms by (fastforce simp: writeLocked_def write_temp_def Let_def safe_op_def split: option.splits sum.splits)

lemma written_ops:
  assumes "temp \<noteq> path"
  shows "fs_files (apply_ops [Mkdir d 448, ChmodDir d 448, CreateTemp temp, ChmodFile temp 384, WriteFile temp data, Rename temp path, Remove temp] fs) path
      = Some (data, 384)"
    "list_all (safe_op path) [Mkdir d 448, ChmodDir d 448, CreateTemp temp, ChmodFile temp 384, WriteFile temp data]"
  using assms by (auto simp: apply_ops_def safe_op_def)

lemma writeLocked_atomic:
  assumes "writeLocked env st r = (res, ops)" and t: "\<forall>t. we_temp env = Inr t \<longrightarrow> t \<noteq> ps_path st"
  shows "old_or_new st r fs (apply_ops (take n ops) fs)
    \<and> (res = None \<longrightarrow> fs_files (apply_ops ops fs) (ps_path st) = Some (marshal_record r, 384))"
  using writeLocked_shape [OF assms]
proof (elim disjE conjE exE)
  assume "list_all (safe_op (ps_path st)) ops" and "res \<noteq> None"
  then show ?thesis using safe_take_keeps by (auto simp: old_or_new_def)
next
  fix temp
  assume "res = None" and temp: "we_temp env = Inr temp" and ops: "ops = [Mkdir (dir_of (ps_path st)) 448, ChmodDir (dir_of (ps_path st)) 448, CreateTemp temp,
        ChmodFile temp 384, WriteFile temp (marshal_record r), Rename temp (ps_path st), Remove temp]"
  let ?pre = "[Mkdir (dir_of (ps_path st)) 448, ChmodDir (dir_of (ps_path st)) 448, CreateTemp temp, ChmodFile temp 384, WriteFile temp (marshal_record r)]"
  have ne: "temp \<noteq> ps_path st" using t temp by blast
  note w = written_ops [OF ne]
  have ops': "ops = ?pre @ [Rename temp (ps_path st), Remove temp]" by (simp add: ops)
  have complete: "fs_files (apply_ops ops fs) (ps_path st) = Some (marshal_record r, 384)" unfolding ops by (rule w(1))
  have "old_or_new st r fs (apply_ops (take n ops) fs)"
  proof (cases "n \<le> 5")
    case True
    then have "take n ops = take n ?pre" by (simp only: ops' take_append) simp
    with safe_take_keeps [OF w(2)] show ?thesis by (simp only: old_or_new_def simp_thms)
  next
    case False
    have "fs_files (apply_ops (?pre @ [Rename temp (ps_path st)]) fs) (ps_path st) = Some (marshal_record r, 384)"
      using complete ne unfolding ops' by (simp add: apply_ops_def)
    moreover have "take n ops = ops \<or> take n ops = ?pre @ [Rename temp (ps_path st)]"
      using False by (cases "n = 6") (auto simp: ops)
    ultimately show ?thesis using complete by (auto simp: old_or_new_def)
  qed
  with complete show ?thesis by simp
qed

text \<open>
  C22. Saving the last known good path is atomic and durable as far as the program goes: if the process stops
  after any number of file system operations the state file is what it was or the complete new record with
  mode 0600, whatever calls failed; and once \<open>Save\<close> has returned without an error a later \<open>Load\<close> finds the
  saved path, for a name that is valid UTF-8.
\<close>

theorem path_state_saved:
  assumes "\<forall>t. we_temp env = Inr t \<longrightarrow> t \<noteq> ps_path st"
    and "save_path st readErr env cfg name fs = (res, ops)"
  shows "old_or_new st \<lparr>pt_version = pathStateVersion, pt_path = name\<rparr> fs (apply_ops (take n ops) fs)
    \<and> (res = None \<and> utf8_valid name \<longrightarrow> (\<exists>p. load_path st None cfg (apply_ops ops fs) = Inr (Some p)
         \<and> pc_name p = name \<and> pc_enabled p \<and> enabledPathByName cfg name = Some p))"
proof -
  let ?r = "\<lparr>pt_version = pathStateVersion, pt_path = name\<rparr>"
  have load: "\<exists>p. load_path st None cfg fs' = Inr (Some p) \<and> pc_name p = name \<and> pc_enabled p \<and> enabledPathByName cfg name = Some p"
    if rd: "readLocked st None fs' = Inr (?r, True)" and en: "enabledPathByName cfg name \<noteq> None" for fs'
  proof -
    obtain p where p: "enabledPathByName cfg name = Some p" using en by blast
    then obtain c where c: "cfg = Some c" by (cases cfg) (simp_all add: enabledPathByName_def)
    from enabledPathByName_Some [of c name p] p c have "pc_name p = name \<and> pc_enabled p" by (simp add: enabledPaths_def)
    with rd p show ?thesis by (simp add: load_path_def)
  qed
  consider (refused) "enabledPathByName cfg name = None" "res \<noteq> None" "ops = []"
    | (same) "enabledPathByName cfg name \<noteq> None" "readLocked st readErr fs = Inr (?r, True)" "res = None" "ops = []"
    | (new) "enabledPathByName cfg name \<noteq> None" "writeLocked env st ?r = (res, ops)"
  proof (cases "enabledPathByName cfg name = None")
    case True
    with assms(2) show thesis by (intro refused) (auto simp: save_path_def)
  next
    case n: False
    show thesis
    proof (cases "readLocked st readErr fs = Inr (?r, True)")
      case True
      with n assms(2) show thesis by (intro same) (auto simp: save_path_def)
    next
      case False
      with n assms(2) show thesis by (intro new) (simp_all only: save_path_def if_False not_False_eq_True)
    qed
  qed
  then show ?thesis
  proof cases
    case refused
    then show ?thesis by (simp add: old_or_new_def apply_ops_def)
  next
    case same
    have "readLocked st None fs = Inr (?r, True)" using same(2) by (auto simp: readLocked_def split: option.splits)
    with same load show ?thesis by (simp add: old_or_new_def apply_ops_def)
  next
    case new
    from writeLocked_atomic [OF new(2) assms(1)] have a: "old_or_new st ?r fs (apply_ops (take n ops) fs)"
      and w: "res = None \<longrightarrow> fs_files (apply_ops ops fs) (ps_path st) = Some (marshal_record ?r, 384)" by blast+
    show ?thesis
    proof (intro conjI a impI)
      assume r: "res = None \<and> utf8_valid name"
      with w read_written [of name "apply_ops ops fs" st 384] have "readLocked st None (apply_ops ops fs) = Inr (?r, True)" by simp
      from load [OF this new(1)] show "\<exists>p. load_path st None cfg (apply_ops ops fs) = Inr (Some p)
         \<and> pc_name p = name \<and> pc_enabled p \<and> enabledPathByName cfg name = Some p" .
    qed
  qed
qed

definition demo_store :: path_store where
  "demo_store = newPathStateStore (\<lambda>s. ''ab'') ''/c'' ''/etc/m''"

definition demo_write :: write_env where
  "demo_write = \<lparr>we_mkdir = None, we_chmod_dir = None, we_temp = Inr ''/c/moltssh/path-state/.path-state-1'', we_chmod = None,
     we_write = None, we_sync = None, we_close = None, we_rename = None\<rparr>"

definition no_files :: file_system where
  "no_files = \<lparr>fs_files = Map.empty, fs_dirs = Map.empty\<rparr>"

theorem path_state_saved_witness:
  "\<exists>cfg ops p. save_path demo_store None demo_write (Some cfg) ''p'' no_files = (None, ops) \<and> ops \<noteq> []
     \<and> load_path demo_store None (Some cfg) (apply_ops ops no_files) = Inr (Some p) \<and> pc_name p = ''p''"
proof -
  let ?p = "\<lparr>pc_name = ''p'', pc_transport = ''ws'', pc_endpoint = ''ws://h'', pc_priority = 0, pc_enabled = True\<rparr>"
  fix cfg :: config
  let ?cfg = "cfg\<lparr>cfg_paths := [?p]\<rparr>"
  have e: "enabledPathByName (Some ?cfg) ''p'' = Some ?p" by (simp add: enabledPathByName_def)
  have t: "\<forall>t. we_temp demo_write = Inr t \<longrightarrow> t \<noteq> ps_path demo_store" by (simp add: demo_write_def demo_store_def newPathStateStore_def)
  obtain res ops where s: "save_path demo_store None demo_write (Some ?cfg) ''p'' no_files = (res, ops)" by fastforce
  then have "res = None \<and> ops \<noteq> []"
    by (auto simp: save_path_def e readLocked_def no_files_def writeLocked_def write_temp_def demo_write_def Let_def)
  with s path_state_saved [OF t s, of 0] show ?thesis by (auto simp: utf8_valid_ascii)
qed

end
