(* ===== verification/Dial.thy ===== *)
theory Dial
  imports Probe Go_Strings "HOL-Library.Multiset"
begin

text \<open>
  Opening a WebSocket: internal/tunnel/dial.go. TCP connections are numbered, and the model records
  which of them were closed; TLS and the WebSocket layer wrap the connection they are given, so closing
  either closes it. Results of the resolver, the dialer, the handshakes and the context, and the time
  that each phase took, are inputs. \<open>websocket.NewConfig\<close> and \<open>websocket.NewClient\<close> belong to a package
  outside the program: only their results are used.
\<close>

section \<open>The endpoint\<close>

text \<open>What the code reads of \<open>cfg.Location\<close>.\<close>

record location =
  lo_scheme :: string
  lo_host :: string
  lo_port :: string

definition endpointPort :: "location \<Rightarrow> string result" where
  "endpointPort l =
     (if lo_port l \<noteq> [] then Inr (lo_port l)
      else if lo_scheme l = ''ws'' then Inr ''80''
      else if lo_scheme l = ''wss'' then Inr ''443''
      else Inl (Errorf ''unsupported websocket scheme''))"

text \<open>\<open>ParseAddr\<close> of the host, the lookup with the context behind it, and how long it took.\<close>

record resolve_input =
  rs_literal :: "string option"
  rs_lookup :: "string list result"
  rs_ctx :: "gerror option"
  rs_took :: duration

definition resolveEndpoint :: "resolve_input \<Rightarrow> dial_timings \<Rightarrow> string list result \<times> dial_timings" where
  "resolveEndpoint inp t = (case rs_literal inp of
     Some address \<Rightarrow> (Inr [address], t)
   | None \<Rightarrow>
       let t1 = t\<lparr>dt_dns := rs_took inp\<rparr> in
       (case rs_lookup inp of
          Inl e \<Rightarrow> (Inl (contextError (rs_ctx inp) e), t1)
        | Inr addresses \<Rightarrow>
            (if addresses = [] then Inl (Errorf ''DNS returned no addresses'') else Inr addresses, t1)))"

section \<open>The first TCP connection\<close>

definition maxConcurrentTCPDials :: nat where
  "maxConcurrentTCPDials = 4"

record tcp_result =
  tr_conn :: "nat option"
  tr_err :: "gerror option"

text \<open>The goroutines that are started, and the address each dials.\<close>

definition dial_count :: "string list \<Rightarrow> nat" where
  "dial_count addresses = min (length addresses) maxConcurrentTCPDials"

text \<open>The loop over the results, in the order of the channel: the winner, the failures, what was closed.\<close>

fun collect_dials :: "tcp_result list \<Rightarrow> nat option \<Rightarrow> gerror list \<Rightarrow> nat list \<Rightarrow> nat option \<times> gerror list \<times> nat list" where
  "collect_dials [] winner failures closed_conns = (winner, failures, closed_conns)"
| "collect_dials (r # rs) winner failures closed_conns =
     (case (tr_err r, tr_conn r) of
        (None, Some c) \<Rightarrow>
          (case winner of
             None \<Rightarrow> collect_dials rs (Some c) failures closed_conns
           | Some w \<Rightarrow> collect_dials rs winner failures (closed_conns @ [c]))
      | (e, c) \<Rightarrow> collect_dials rs winner
          (failures @ [case e of Some x \<Rightarrow> x | None \<Rightarrow> Errorf ''TCP dial returned no connection''])
          (closed_conns @ (case c of Some x \<Rightarrow> [x] | None \<Rightarrow> [])))"

text \<open>\<open>results\<close> are the first \<open>dial_count\<close> dials as they finish; \<open>ctx\<close> is the error of the context then.
  Without any dial the program would return neither a connection nor an error.\<close>

definition dialFirstTCP :: "gerror option \<Rightarrow> tcp_result list \<Rightarrow> nat option \<times> gerror option \<times> nat list" where
  "dialFirstTCP ctx results = (case collect_dials results None [] [] of
     (Some w, failures, closed_conns) \<Rightarrow> (Some w, None, closed_conns)
   | (None, failures, closed_conns) \<Rightarrow>
       (None, (case ctx of Some e \<Rightarrow> Some e | None \<Rightarrow> errors_join (map Some failures)), closed_conns))"

section \<open>The WebSocket\<close>

text \<open>Which case of the \<open>select\<close> was taken; \<open>UpgradeDone r ctx\<close> is the result of \<open>NewClient\<close> and the context then.\<close>

datatype upgrade_event = UpgradeCanceled gerror | UpgradeDone "unit result" "gerror option"

definition upgradeWebSocket :: "nat \<Rightarrow> upgrade_event \<Rightarrow> nat result \<times> nat list" where
  "upgradeWebSocket raw ev = (case ev of
     UpgradeCanceled e \<Rightarrow> (Inl e, [raw])
   | UpgradeDone r ctx \<Rightarrow> (case ctx of
       Some e \<Rightarrow> (Inl e, (case r of Inr u \<Rightarrow> [raw] | Inl x \<Rightarrow> []))
     | None \<Rightarrow> ((case r of Inr u \<Rightarrow> Inr raw | Inl x \<Rightarrow> Inl x), [])))"

record dial_input =
  di_location :: "location option"
  di_resolve :: resolve_input
  di_dials :: "tcp_result list"
  di_tcp_ctx :: "gerror option"
  di_tcp_took :: duration
  di_tls :: "gerror option"
  di_tls_ctx :: "gerror option"
  di_tls_took :: duration
  di_upgrade :: upgrade_event
  di_upgrade_took :: duration
  di_clear :: "gerror option"
  di_total :: duration

text \<open>The phases (timing.go).\<close>

definition dialPhaseDNS :: string where [simp]: "dialPhaseDNS = ''dns''"
definition dialPhaseTCP :: string where [simp]: "dialPhaseTCP = ''tcp''"
definition dialPhaseTLS :: string where [simp]: "dialPhaseTLS = ''tls''"
definition dialPhaseUpgrade :: string where [simp]: "dialPhaseUpgrade = ''websocket_upgrade''"

text \<open>
  From the TCP connection to the WebSocket, with the deferred close while it is owned. The results are the
  connection, the timings, the error and the connections that were closed.
\<close>

definition wrap_connection :: "location \<Rightarrow> nat \<Rightarrow> dial_input \<Rightarrow> dial_timings \<Rightarrow> nat result \<times> dial_timings \<times> nat list" where
  "wrap_connection l raw inp t =
     (if lo_scheme l = ''wss'' \<and> di_tls inp \<noteq> None then
        (Inl (phaseError dialPhaseTLS (contextError (di_tls_ctx inp) (the (di_tls inp)))), t\<lparr>dt_tls := di_tls_took inp\<rparr>, [raw])
      else
        let t1 = (if lo_scheme l = ''wss'' then t\<lparr>dt_tls := di_tls_took inp\<rparr> else t);
            t2 = t1\<lparr>dt_upgrade := di_upgrade_took inp\<rparr> in
        case upgradeWebSocket raw (di_upgrade inp) of
          (Inl e, cs) \<Rightarrow> (Inl (phaseError dialPhaseUpgrade e), t2, cs @ [raw])
        | (Inr ws, cs) \<Rightarrow> (case di_clear inp of
            Some e \<Rightarrow> (Inl (phaseError dialPhaseUpgrade (Wrapf ''clear connection deadline: '' e)), t2, cs @ [ws])
          | None \<Rightarrow> (Inr ws, t2, cs)))"

definition open_phases :: "dial_input \<Rightarrow> nat result \<times> dial_timings \<times> nat list" where
  "open_phases inp =
     (case di_location inp of
        None \<Rightarrow> (Inl (phaseError dialPhaseUpgrade (Errorf ''invalid websocket endpoint'')), zero_timings, [])
      | Some l \<Rightarrow> (case endpointPort l of
          Inl e \<Rightarrow> (Inl (phaseError dialPhaseUpgrade e), zero_timings, [])
        | Inr port \<Rightarrow> (case resolveEndpoint (di_resolve inp) zero_timings of
            (Inl e, t) \<Rightarrow> (Inl (phaseError dialPhaseDNS e), t, [])
          | (Inr addresses, t) \<Rightarrow>
              let t1 = t\<lparr>dt_tcp := di_tcp_took inp\<rparr> in
              (case dialFirstTCP (di_tcp_ctx inp) (take (dial_count addresses) (di_dials inp)) of
                 (Some raw, _, cs) \<Rightarrow> (case wrap_connection l raw inp t1 of (r, t2, cs') \<Rightarrow> (r, t2, cs @ cs'))
               | (None, Some e, cs) \<Rightarrow> (Inl (phaseError dialPhaseTCP e), t1, cs)
               | (None, None, cs) \<Rightarrow> (Inl (NetErr ''nil connection''), t1, cs)))))"

definition openWebSocketWith :: "dial_input \<Rightarrow> nat result \<times> dial_timings \<times> nat list" where
  "openWebSocketWith inp = (case open_phases inp of (r, t, cs) \<Rightarrow> (r, t\<lparr>dt_total := di_total inp\<rparr>, cs))"

definition dialWS :: "dial_input \<Rightarrow> nat result" where
  "dialWS inp = fst (openWebSocketWith inp)"

section \<open>Who owns the connections\<close>

text \<open>The connections that a list of dials opened, and those of them that are good.\<close>

definition dialed_conns :: "tcp_result list \<Rightarrow> nat list" where
  "dialed_conns rs = List.map_filter tr_conn rs"

definition good_conns :: "tcp_result list \<Rightarrow> nat list" where
  "good_conns rs = List.map_filter (\<lambda>r. if tr_err r = None then tr_conn r else None) rs"

lemma conns_simps [simp]:
  "dialed_conns [] = []" "good_conns [] = []"
  "dialed_conns (r # rs) = (case tr_conn r of Some c \<Rightarrow> [c] | None \<Rightarrow> []) @ dialed_conns rs"
  "good_conns (r # rs) = (case tr_conn r of Some c \<Rightarrow> if tr_err r = None then [c] else [] | None \<Rightarrow> []) @ good_conns rs"
  by (simp_all add: dialed_conns_def good_conns_def List.map_filter_def split: option.split)

lemma dialed_append: "dialed_conns (xs @ ys) = dialed_conns xs @ dialed_conns ys"
  by (simp add: dialed_conns_def List.map_filter_def)

definition option_list :: "'a option \<Rightarrow> 'a list" where
  "option_list x = (case x of Some a \<Rightarrow> [a] | None \<Rightarrow> [])"

lemma option_list_simps [simp]: "option_list None = []" "option_list (Some a) = [a]"
  by (simp_all add: option_list_def)

definition first_of :: "'a list \<Rightarrow> 'a option" where
  "first_of xs = (case xs of [] \<Rightarrow> None | x # _ \<Rightarrow> Some x)"

lemma first_of_simps [simp]: "first_of [] = None" "first_of (x # xs) = Some x"
  by (simp_all add: first_of_def)

text \<open>The first good connection wins, and each of the others is closed once.\<close>

lemma collect_dials_result:
  "collect_dials rs winner failures cs = (w, fs, cs') \<Longrightarrow>
     w = (case winner of Some x \<Rightarrow> Some x | None \<Rightarrow> first_of (good_conns rs))
     \<and> mset (option_list w @ cs') = mset (option_list winner @ cs @ dialed_conns rs)
     \<and> (w = None \<longrightarrow> length fs = length failures + length rs)"
proof (induction rs arbitrary: winner failures cs)
  case (Cons r rs)
  obtain f c win where "collect_dials rs win f c = (w, fs, cs')" and
    "win = (if winner = None \<and> tr_err r = None then tr_conn r else winner)" and
    "mset (option_list win @ c) = mset (option_list winner @ cs @ option_list (tr_conn r))" and
    "win = None \<longrightarrow> length f = Suc (length failures)"
    using Cons.prems by (cases "tr_err r"; cases "tr_conn r"; cases winner) (fastforce simp: option_list_def)+
  with Cons.IH [of win f c] show ?case
    by (cases "tr_err r"; cases "tr_conn r"; cases winner) (auto simp: option_list_def)
qed (auto split: option.split)

text \<open>The dials that are made: none before the endpoint is resolved, at most four afterwards.\<close>

definition dials_of :: "dial_input \<Rightarrow> tcp_result list" where
  "dials_of inp = (case di_location inp of None \<Rightarrow> []
     | Some l \<Rightarrow> (case endpointPort l of Inl e \<Rightarrow> []
       | Inr port \<Rightarrow> (case fst (resolveEndpoint (di_resolve inp) zero_timings) of Inl e \<Rightarrow> []
         | Inr addresses \<Rightarrow> take (dial_count addresses) (di_dials inp))))"

text \<open>Every dial that was started has ended.\<close>

definition dials_ended :: "dial_input \<Rightarrow> bool" where
  "dials_ended inp \<longleftrightarrow> (case fst (resolveEndpoint (di_resolve inp) zero_timings) of Inl e \<Rightarrow> True
     | Inr addresses \<Rightarrow> dial_count addresses \<le> length (di_dials inp))"

lemma dials_of_bound: "length (dials_of inp) \<le> maxConcurrentTCPDials"
  by (auto simp: dials_of_def dial_count_def split: option.split sum.split)

lemma wrap_connection_owns:
  "wrap_connection l raw inp t = (r, t', cs) \<Longrightarrow>
     (case r of Inr ws \<Rightarrow> ws = raw \<and> cs = [] | Inl e \<Rightarrow> (\<exists>phase e'. e = DialErr phase e') \<and> set cs = {raw})"
  by (auto simp: wrap_connection_def upgradeWebSocket_def phaseError_def Let_def split: if_splits upgrade_event.splits option.splits sum.splits prod.splits)

lemma dialFirstTCP_owns:
  assumes "dialFirstTCP ctx rs = (w, e, cs)"
  shows "w = first_of (good_conns rs)" and "mset (option_list w @ cs) = mset (dialed_conns rs)"
    and "w = None \<Longrightarrow> rs \<noteq> [] \<Longrightarrow> e \<noteq> None"
proof -
  obtain w' fs cs' where c: "collect_dials rs None [] [] = (w', fs, cs')" using prod_cases3 by blast
  note r = collect_dials_result [OF c]
  have w: "w = w' \<and> cs = cs'" using assms c by (cases w') (simp_all add: dialFirstTCP_def)
  with r show "w = first_of (good_conns rs)" "mset (option_list w @ cs) = mset (dialed_conns rs)" by auto
  assume "w = None" "rs \<noteq> []"
  with w r have "fs \<noteq> []" "w' = None" by auto
  then show "e \<noteq> None" using assms c by (cases ctx; cases fs) (auto simp: dialFirstTCP_def errors_join_def List.map_filter_def Let_def)
qed

text \<open>
  C23. Opening a WebSocket leaks no connection. At most four addresses are dialed at once. If it succeeds
  the result is the first good connection to arrive, and every other one that a dial returned is closed; if
  it fails at any point, the error names its phase and every connection that was opened is closed. No
  connection is closed that the caller still gets.
\<close>

theorem dial_owns_or_closes:
  assumes "openWebSocketWith inp = (r, t, cs)" and "dials_ended inp" and "distinct (dialed_conns (di_dials inp))"
  shows "length (dials_of inp) \<le> 4
    \<and> (case r of
         Inr ws \<Rightarrow> first_of (good_conns (dials_of inp)) = Some ws \<and> ws \<notin> set cs
           \<and> set (dialed_conns (dials_of inp)) = insert ws (set cs)
       | Inl e \<Rightarrow> (\<exists>phase e'. e = DialErr phase e') \<and> set cs = set (dialed_conns (dials_of inp)))"
proof -
  obtain t' where o: "open_phases inp = (r, t', cs)" using assms(1) by (auto simp: openWebSocketWith_def split: prod.splits)
  show ?thesis
  proof (cases "dials_of inp = [] \<and> cs = [] \<and> (\<exists>phase e'. r = Inl (DialErr phase e'))")
    case True
    then show ?thesis by auto
  next
    case False
    with o obtain l port addresses t0 where l: "di_location inp = Some l" "endpointPort l = Inr port"
      and res: "resolveEndpoint (di_resolve inp) zero_timings = (Inr addresses, t0)"
      by (fastforce simp: open_phases_def dials_of_def phaseError_def split: option.splits sum.splits prod.splits)
    let ?rs = "take (dial_count addresses) (di_dials inp)"
    have ds: "dials_of inp = ?rs" using l res by (simp add: dials_of_def)
    have "addresses \<noteq> []" using res by (auto simp: resolveEndpoint_def Let_def split: option.splits sum.splits if_splits)
    then have "?rs \<noteq> []" using assms(2) res
      by (cases "di_dials inp"; cases addresses) (auto simp: dials_ended_def dial_count_def maxConcurrentTCPDials_def)
    obtain w e cs0 where f: "dialFirstTCP (di_tcp_ctx inp) ?rs = (w, e, cs0)" using prod_cases3 by blast
    note own = dialFirstTCP_owns [OF f]
    have dist: "distinct (option_list w @ cs0)"
    proof -
      have "dialed_conns (di_dials inp) = dialed_conns ?rs @ dialed_conns (drop (dial_count addresses) (di_dials inp))"
        by (simp add: dialed_append [symmetric])
      with assms(3) have "distinct (dialed_conns ?rs)" by simp
      with own(2) show ?thesis by (metis mset_eq_imp_distinct_iff)
    qed
    have all: "set (dialed_conns ?rs) = set (option_list w) \<union> set cs0" using own(2) by (metis mset_eq_setD set_append)
    show ?thesis
    proof (cases w)
      case None
      with own(3) \<open>?rs \<noteq> []\<close> obtain x where "e = Some x" by blast
      with o l res f None have "r = Inl (DialErr ''tcp'' x)" "cs = cs0" by (simp_all add: open_phases_def phaseError_def Let_def)
      with all None ds dials_of_bound [of inp] show ?thesis by (simp add: maxConcurrentTCPDials_def)
    next
      case (Some raw)
      obtain r' t2 cs' where wc: "wrap_connection l raw inp (t0\<lparr>dt_tcp := di_tcp_took inp\<rparr>) = (r', t2, cs')" using prod_cases3 by blast
      with o l res f Some have rr: "r = r'" "cs = cs0 @ cs'" by (simp_all add: open_phases_def Let_def)
      with wrap_connection_owns [OF wc] all Some ds dist own(1) dials_of_bound [of inp] show ?thesis
        by (cases r') (auto simp: maxConcurrentTCPDials_def)
    qed
  qed
qed

definition demo_dial :: dial_input where
  "demo_dial = \<lparr>di_location = Some \<lparr>lo_scheme = ''wss'', lo_host = ''h'', lo_port = []\<rparr>,
     di_resolve = \<lparr>rs_literal = None, rs_lookup = Inr [''192.0.2.1'', ''192.0.2.2''], rs_ctx = None, rs_took = 1\<rparr>,
     di_dials = [\<lparr>tr_conn = Some 5, tr_err = None\<rparr>, \<lparr>tr_conn = Some 7, tr_err = None\<rparr>], di_tcp_ctx = None, di_tcp_took = 2,
     di_tls = None, di_tls_ctx = None, di_tls_took = 3, di_upgrade = UpgradeDone (Inr ()) None, di_upgrade_took = 4, di_clear = None, di_total = 10\<rparr>"

lemma demo_dial_opens: "\<exists>t. openWebSocketWith demo_dial = (Inr 5, t, [7])"
  by (simp add: openWebSocketWith_def open_phases_def demo_dial_def endpointPort_def resolveEndpoint_def dial_count_def
      maxConcurrentTCPDials_def dialFirstTCP_def wrap_connection_def upgradeWebSocket_def Let_def)

theorem dial_owns_or_closes_witness:
  "\<exists>t. openWebSocketWith demo_dial = (Inr 5, t, [7]) \<and> first_of (good_conns (dials_of demo_dial)) = Some 5"
proof -
  obtain t where o: "openWebSocketWith demo_dial = (Inr 5, t, [7])" using demo_dial_opens by blast
  have "dials_ended demo_dial" "distinct (dialed_conns (di_dials demo_dial))"
    by (simp_all add: dials_ended_def demo_dial_def resolveEndpoint_def dial_count_def)
  from dial_owns_or_closes [OF o this] o show ?thesis by auto
qed

end
