(* ===== verification/Report.thy ===== *)
theory Report
  imports Probe_Batch Go_Strings
begin

text \<open>
  What the program tells about its paths: the probe command of probe_command.go, the log line of a dial
  in client_dial_log.go and \<open>redactEndpoint\<close> of util.go. The functions of \<open>net/url\<close> are parameters; a
  parsed query is a list in the order of the iteration over the map.
\<close>

section \<open>Durations\<close>

text \<open>\<open>time.Duration.String\<close>: a fraction without trailing zeros, and the units.\<close>

fun fmt_frac :: "nat \<Rightarrow> nat \<Rightarrow> bool \<Rightarrow> string \<Rightarrow> string \<times> nat" where
  "fmt_frac v 0 print acc = ((if print then CHR ''.'' # acc else acc), v)"
| "fmt_frac v (Suc prec) print acc =
     (let digit = v mod 10; p = (print \<or> digit \<noteq> 0) in
      fmt_frac (v div 10) prec p (if p then digit_char digit # acc else acc))"

definition with_unit :: "nat \<Rightarrow> nat \<Rightarrow> string \<Rightarrow> string" where
  "with_unit u prec unit = (case fmt_frac u prec False [] of (f, v) \<Rightarrow> dec_nat v @ f @ unit)"

definition clock_string :: "nat \<Rightarrow> string" where
  "clock_string u = (case fmt_frac u 9 False [] of (f, v) \<Rightarrow>
     (if v div 60 = 0 then []
      else (if v div 3600 = 0 then [] else dec_nat (v div 3600) @ ''h'') @ dec_nat (v div 60 mod 60) @ ''m'')
     @ dec_nat (v mod 60) @ f @ ''s'')"

definition duration_string :: "duration \<Rightarrow> string" where
  "duration_string d =
     (let u = nat \<bar>d\<bar> in
      (if d < 0 then ''-'' else []) @
      (if u = 0 then ''0s''
       else if u < 1000 then with_unit u 0 ''ns''
       else if u < 1000000 then with_unit u 3 [CHR 0xC2, CHR 0xB5, CHR ''s'']
       else if u < 1000000000 then with_unit u 6 ''ms''
       else clock_string u))"

section \<open>Redaction\<close>

type_synonym url_query = "(string \<times> string list) list"

text \<open>\<open>uf_string\<close> is \<open>String\<close> after the user, if any, and the query were replaced.\<close>

record 'u url_functions =
  uf_parse :: "string \<Rightarrow> 'u result"
  uf_query :: "'u \<Rightarrow> url_query"
  uf_string :: "'u \<Rightarrow> url_query \<Rightarrow> string"
  uf_lower :: "string \<Rightarrow> string"
  uf_escape :: "string \<Rightarrow> string"

definition secret_key :: "'u url_functions \<Rightarrow> string \<Rightarrow> bool" where
  "secret_key uf k =
     (let lower = uf_lower uf k in
      contains_str lower ''token'' \<or> contains_str lower ''secret'' \<or> contains_str lower ''key''
      \<or> contains_str lower ''pass'' \<or> contains_str lower ''auth'')"

definition redactEndpoint :: "'u url_functions \<Rightarrow> string \<Rightarrow> string" where
  "redactEndpoint uf endpoint = (case uf_parse uf endpoint of
     Inl e \<Rightarrow> endpoint
   | Inr u \<Rightarrow> uf_string uf u (map (\<lambda>(k, vs). (k, if secret_key uf k then [''redacted''] else vs)) (uf_query uf u)))"

text \<open>The loops over the values of a query.\<close>

definition redact_value :: "'u url_functions \<Rightarrow> string \<Rightarrow> string \<Rightarrow> string" where
  "redact_value uf value message =
     (if value = [] then message
      else replace_all (replace_all message value ''redacted'') (uf_escape uf value) ''redacted'')"

definition redactDialError :: "'u url_functions \<Rightarrow> string \<Rightarrow> gerror \<Rightarrow> client_runtime \<Rightarrow> string" where
  "redactDialError uf endpoint attemptErr rt =
     (let m0 = replace_all (error_text attemptErr) endpoint ''redacted'';
          m1 = (case uf_parse uf endpoint of
            Inl e \<Rightarrow> m0
          | Inr u \<Rightarrow> fold (redact_value uf) (concat (map snd (uf_query uf u))) m0) in
      if rt_sessionID rt \<noteq> [] then replace_all m1 (rt_sessionID rt) ''redacted'' else m1)"

definition logToken :: "string \<Rightarrow> string" where
  "logToken value = map (\<lambda>c. if c \<in> {CHR '' '', CHR 0x09, CHR 0x0D, CHR 0x0A} then CHR ''_'' else c) value"

text \<open>The line that \<open>logDialAttempt\<close> prints.\<close>

definition logDialAttempt :: "'u url_functions \<Rightarrow> path_config \<Rightarrow> dial_timings \<Rightarrow> gerror option \<Rightarrow> client_runtime \<Rightarrow> string" where
  "logDialAttempt uf path t attemptErr rt =
     (let (status, failedPhase, errorMessage) = (case attemptErr of
        None \<Rightarrow> (''ok'', [], [])
      | Some e \<Rightarrow> (''fail'', (case dial_phase_of e of Some phase \<Rightarrow> phase | None \<Rightarrow> []), redactDialError uf (pc_endpoint path) e rt)) in
      ''event=proxy_dial path='' @ logToken (pc_name path) @ '' status='' @ status @ '' failed_phase='' @ failedPhase
      @ '' dns='' @ duration_string (dt_dns t) @ '' tcp='' @ duration_string (dt_tcp t) @ '' tls='' @ duration_string (dt_tls t)
      @ '' websocket_upgrade='' @ duration_string (dt_upgrade t) @ '' moltssh_hello='' @ duration_string (dt_hello t)
      @ '' probe_rtt='' @ duration_string (dt_probe_rtt t) @ '' total='' @ duration_string (dt_total t)
      @ '' error='' @ go_quote errorMessage)"

definition warnPathState :: "string \<Rightarrow> gerror \<Rightarrow> string" where
  "warnPathState operation e = ''event=path_state_'' @ operation @ '' status=fail error='' @ go_quote (error_text e)"

section \<open>The probe command\<close>

definition escape_newlines :: "string \<Rightarrow> string" where
  "escape_newlines s = concat (map (\<lambda>c. if c = CHR 0x0D then [CHR 0x5C, CHR ''r''] else if c = CHR 0x0A then [CHR 0x5C, CHR ''n''] else [c]) s)"

text \<open>The values that the redacted endpoint no longer has under the same key.\<close>

definition changed_values :: "url_query \<Rightarrow> url_query \<Rightarrow> string list" where
  "changed_values original redacted =
     concat (map (\<lambda>(k, vs). if vs = (case map_of redacted k of Some ws \<Rightarrow> ws | None \<Rightarrow> []) then [] else vs) original)"

definition probe_error_message :: "'u url_functions \<Rightarrow> string \<Rightarrow> gerror \<Rightarrow> string" where
  "probe_error_message uf original e =
     (let endpoint = redactEndpoint uf original;
          m0 = replace_all (error_text e) original endpoint;
          m1 = (case (uf_parse uf original, uf_parse uf endpoint) of
            (Inr u, Inr v) \<Rightarrow> fold (redact_value uf) (changed_values (uf_query uf u) (uf_query uf v)) m0
          | _ \<Rightarrow> m0) in
      escape_newlines m1)"

definition formatProbeRecord :: "'u url_functions \<Rightarrow> probe_candidate \<Rightarrow> string" where
  "formatProbeRecord uf c =
     (let t = pb_timings c; (status, failedPhase, errorMessage) = (case pb_err c of
        None \<Rightarrow> (''ok'', [], [])
      | Some e \<Rightarrow> (''fail'', pb_phase c, probe_error_message uf (pc_endpoint (pb_path c)) e)) in
      ''path='' @ pc_name (pb_path c) @ '' status='' @ status @ '' dns='' @ duration_string (dt_dns t) @ '' tcp='' @ duration_string (dt_tcp t)
      @ '' tls='' @ duration_string (dt_tls t) @ '' websocket_upgrade='' @ duration_string (dt_upgrade t)
      @ '' probe_rtt='' @ duration_string (dt_probe_rtt t) @ '' total='' @ duration_string (dt_total t)
      @ '' failed_phase='' @ failedPhase @ '' endpoint='' @ redactEndpoint uf (pc_endpoint (pb_path c)) @ '' error='' @ errorMessage)"

definition by_order :: "probe_candidate \<Rightarrow> probe_candidate \<Rightarrow> bool" where
  "by_order x y \<longleftrightarrow> pb_order x < pb_order y"

text \<open>The write of record \<open>i\<close> fails with \<open>writes i\<close>.\<close>

definition write_errors :: "(nat \<Rightarrow> gerror option) \<Rightarrow> probe_candidate list \<Rightarrow> gerror list" where
  "write_errors writes cs = concat (map (\<lambda>(i, c). case writes i of None \<Rightarrow> []
     | Some e \<Rightarrow> [Wrapf (''write probe result for path '' @ go_quote (pc_name (pb_path c)) @ '': '') e]) (enumerate 0 cs))"

text \<open>\<open>Probe\<close>: the error, the records printed, and the world; \<open>None\<close> while a probe still waits.\<close>

definition Probe :: "'u url_functions \<Rightarrow> (gerror \<Rightarrow> bool) \<Rightarrow> (nat \<Rightarrow> gerror option) \<Rightarrow> (nat \<Rightarrow> gerror option) \<Rightarrow> path_config list \<Rightarrow> gerror option \<Rightarrow>
    probe_run list \<Rightarrow> client_world \<Rightarrow> (gerror option \<times> string list) option \<times> client_world" where
  "Probe uf timeout closeErr writes paths ctx runs w =
     (case probeBatch timeout closeErr paths ctx runs w of
        (None, w1) \<Rightarrow> (None, w1)
      | (Some (candidates, batchErr), w1) \<Rightarrow>
          let cs = slice_stable by_order candidates;
              probeErr = (if list_ex (\<lambda>c. pb_err c \<noteq> None) cs then Some ProbePathFailed else None);
              err = errors_join [batchErr, probeErr, errors_join (map Some (write_errors writes cs))] in
          case closeProbeCandidates closeErr cs w1 of (e, _, w2) \<Rightarrow>
            (Some (errors_join [err, e], map (formatProbeRecord uf) cs), w2))"

section \<open>What the probe command reports\<close>

interpretation listing: keyed_less by_order pb_order
  by unfold_locales (simp add: by_order_def)

lemma map_insort_key: "map f (insort_key (\<lambda>x. g (f x)) x xs) = insort_key g (f x) (map f xs)"
  by (induction xs) auto

lemma map_sort_key: "map f (sort_key (\<lambda>x. g (f x)) xs) = sort_key g (map f xs)"
  by (induction xs) (simp_all add: map_insort_key)

lemma probe_jobs_orders: "map pq_order (probe_jobs paths) = map int [0..<length (enabledPaths paths)]"
proof -
  have "map pq_order (probe_jobs paths) = map int (map fst (enumerate 0 (enabledPaths paths)))"
    by (simp only: probe_jobs_def map_map) (rule map_cong, simp_all add: split_def)
  then show ?thesis by simp
qed

lemma probe_jobs_paths: "map pq_path (probe_jobs paths) = enabledPaths paths"
  by (simp add: probe_jobs_def comp_def split_def enumerate_eq_zip)

lemma listing_restores_order:
  assumes "mset (map request_of cs) = mset (probe_jobs paths)"
  shows "map request_of (slice_stable by_order cs) = probe_jobs paths"
proof -
  have o: "pb_order = (\<lambda>c. pq_order (request_of c))" by (simp add: request_of_def fun_eq_iff)
  have s: "sorted (map pq_order (probe_jobs paths)) \<and> distinct (map pq_order (probe_jobs paths))"
    unfolding probe_jobs_orders by (simp add: sorted_map distinct_map inj_on_def sorted_wrt_map)
  have "map request_of (slice_stable by_order cs) = sort_key pq_order (map request_of cs)"
    unfolding listing.slice_stable_sort o by (rule map_sort_key)
  also have "\<dots> = probe_jobs paths"
  proof (rule sort_key_inj_key_eq [OF assms])
    show "inj_on pq_order (set (map request_of cs))" using s mset_eq_setD [OF assms] by (simp add: distinct_map)
  qed (use s in simp)
  finally show ?thesis .
qed

lemma errors_join_None: "errors_join es = None \<longleftrightarrow> (\<forall>e \<in> set es. e = None)"
  by (induction es) (auto simp: errors_join_def List.map_filter_def Let_def split: if_splits)


definition demo_url_functions :: "string url_functions" where
  "demo_url_functions = \<lparr>uf_parse = Inr, uf_query = (\<lambda>u. []), uf_string = (\<lambda>u q. u), uf_lower = id, uf_escape = id\<rparr>"


end
