(* ===== verification/Go_Parse.thy ===== *)
theory Go_Parse
  imports Go_Strings Go_Float
begin

text \<open>
  The parsers of Go's standard library that the configuration uses: \<open>strconv.Unquote\<close> of a
  double-quoted string, \<open>strconv.ParseFloat\<close> and \<open>time.ParseDuration\<close>. (\<open>strconv.Atoi\<close> is
  \<open>parse_int64\<close>.) \<open>None\<close> is an error; the callers replace its text.
\<close>

section \<open>Unquote\<close>

fun hex_digits_value :: "nat \<Rightarrow> string \<Rightarrow> nat option" where
  "hex_digits_value v [] = Some v"
| "hex_digits_value v (c # r) = (case hex_value c of None \<Rightarrow> None | Some x \<Rightarrow> hex_digits_value (v * 16 + x) r)"

definition valid_rune :: "nat \<Rightarrow> bool" where
  "valid_rune v \<longleftrightarrow> v < 0xD800 \<or> 0xDFFF < v \<and> v \<le> 0x10FFFF"

text \<open>\<open>UnquoteChar\<close> behind a backslash, for the quote \<open>"\<close>: the bytes produced and the rest.\<close>

definition hex_escape :: "nat \<Rightarrow> string \<Rightarrow> (nat \<times> string) option" where
  "hex_escape n s = (if length s < n then None
     else case hex_digits_value 0 (take n s) of None \<Rightarrow> None | Some v \<Rightarrow> Some (v, drop n s))"

definition octal_digit :: "char \<Rightarrow> bool" where
  "octal_digit c \<longleftrightarrow> in_range 48 55 c"

definition control_escape :: "char \<Rightarrow> char option" where
  "control_escape c =
     (if c = CHR ''a'' then Some (CHR 0x07)
      else if c = CHR ''b'' then Some (CHR 0x08)
      else if c = CHR ''f'' then Some (CHR 0x0C)
      else if c = CHR ''n'' then Some (CHR 0x0A)
      else if c = CHR ''r'' then Some (CHR 0x0D)
      else if c = CHR ''t'' then Some (CHR 0x09)
      else if c = CHR ''v'' then Some (CHR 0x0B)
      else if c = CHR 0x5C \<or> c = CHR 0x22 then Some c
      else None)"

definition rune_escape :: "(nat \<times> string) option \<Rightarrow> (string \<times> string) option" where
  "rune_escape r = (case r of None \<Rightarrow> None | Some (v, s) \<Rightarrow> if valid_rune v then Some (utf8_encode v, s) else None)"

definition unquote_escape :: "string \<Rightarrow> (string \<times> string) option" where
  "unquote_escape s = (case s of
     [] \<Rightarrow> None
   | c # r \<Rightarrow> (case control_escape c of
       Some x \<Rightarrow> Some ([x], r)
     | None \<Rightarrow>
         if c = CHR ''x'' then map_option (\<lambda>(v, t). ([char_of v], t)) (hex_escape 2 r)
         else if c = CHR ''u'' then rune_escape (hex_escape 4 r)
         else if c = CHR ''U'' then rune_escape (hex_escape 8 r)
         else if octal_digit c then
           (case r of
              d # e # t \<Rightarrow>
                if octal_digit d \<and> octal_digit e then
                  (let v = (code_of c - 48) * 64 + (code_of d - 48) * 8 + (code_of e - 48) in
                   if 255 < v then None else Some ([char_of v], t))
                else None
            | _ \<Rightarrow> None)
         else None))"

lemma hex_escape_shorter: "hex_escape n s = Some (v, t) \<Longrightarrow> length t \<le> length s"
  by (auto simp: hex_escape_def split: if_splits option.splits)

lemma unquote_escape_shorter: "unquote_escape s = Some (out, t) \<Longrightarrow> length t < length s"
  by (auto simp: unquote_escape_def rune_escape_def Let_def dest: hex_escape_shorter split: list.splits option.splits if_splits)

text \<open>
  The loop behind the opening quote: the contents and what follows the closing quote. A newline, a bad
  escape and a missing closing quote are errors; an invalid byte becomes U+FFFD. (The fast path of
  \<open>unquote\<close> for contents without escapes returns the same.)
\<close>

function unquote_body :: "string \<Rightarrow> (string \<times> string) option" where
  "unquote_body [] = None"
| "unquote_body (c # r) =
     (if c = CHR 0x22 then Some ([], r)
      else if c = CHR 0x0A then None
      else if c = CHR 0x5C then
        (case unquote_escape r of None \<Rightarrow> None | Some (out, t) \<Rightarrow> push_out out (unquote_body t))
      else if code_of c < 0x80 then push_out [c] (unquote_body r)
      else case utf8_width (c # r) of
        None \<Rightarrow> push_out replacement (unquote_body r)
      | Some n \<Rightarrow> push_out (take n (c # r)) (unquote_body (drop n (c # r))))"
  by pat_completeness auto
termination
  by (relation "measure length") (auto dest: utf8_width_bounds unquote_escape_shorter)

declare unquote_body.simps(2) [simp del]

definition unquote :: "string \<Rightarrow> string option" where
  "unquote s = (case s of
     [] \<Rightarrow> None
   | c # r \<Rightarrow> if c \<noteq> CHR 0x22 then None
       else (case unquote_body r of Some (out, []) \<Rightarrow> Some out | _ \<Rightarrow> None))"

section \<open>ParseFloat\<close>

text \<open>
  The mantissa: value of the digits, number of digits behind the point, whether a point and a digit were
  seen, and the rest. Underscores are skipped here and checked by \<open>underscore_ok\<close> afterwards.
\<close>

definition float_digit :: "bool \<Rightarrow> char \<Rightarrow> nat option" where
  "float_digit hex c = (if is_digit c then Some (code_of c - 48) else if hex then hex_value c else None)"

fun scan_mantissa :: "bool \<Rightarrow> string \<Rightarrow> nat \<Rightarrow> nat \<Rightarrow> bool \<Rightarrow> bool \<Rightarrow> nat \<times> nat \<times> bool \<times> string" where
  "scan_mantissa hex [] m behind dot digits = (m, behind, digits, [])"
| "scan_mantissa hex (c # r) m behind dot digits =
     (if c = CHR ''_'' then scan_mantissa hex r m behind dot digits
      else if c = CHR ''.'' then
        (if dot then (m, behind, digits, c # r) else scan_mantissa hex r m behind True digits)
      else case float_digit hex c of
        None \<Rightarrow> (m, behind, digits, c # r)
      | Some d \<Rightarrow> scan_mantissa hex r (m * (if hex then 16 else 10) + d) (if dot then behind + 1 else behind) dot True)"

fun scan_exponent :: "string \<Rightarrow> nat \<Rightarrow> nat \<times> string" where
  "scan_exponent [] e = (e, [])"
| "scan_exponent (c # r) e =
     (if c = CHR ''_'' then scan_exponent r e
      else if is_digit c then scan_exponent r (if e < 10000 then e * 10 + (code_of c - 48) else e)
      else (e, c # r))"

definition float_exponent :: "bool \<Rightarrow> string \<Rightarrow> (int \<times> string) option" where
  "float_exponent hex s = (case s of
     c # r \<Rightarrow>
       if c = (if hex then CHR ''p'' else CHR ''e'') \<or> c = (if hex then CHR ''P'' else CHR ''E'') then
         (let (neg, t) = (case r of x # t \<Rightarrow> if x = CHR ''+'' then (False, t) else if x = CHR ''-'' then (True, t) else (False, r)
                                  | [] \<Rightarrow> (False, r)) in
          case t of
            [] \<Rightarrow> None
          | x # _ \<Rightarrow> if \<not> is_digit x then None
              else (case scan_exponent t 0 of (e, t') \<Rightarrow> Some (if neg then - int e else int e, t')))
       else if hex then None else Some (0, s)
   | [] \<Rightarrow> if hex then None else Some (0, s))"

text \<open>\<open>underscoreOK\<close>: \<open>saw\<close> is the kind of the last character, a digit, an underscore, or neither.\<close>

fun underscores_from :: "bool \<Rightarrow> char \<Rightarrow> string \<Rightarrow> bool" where
  "underscores_from hex saw [] = (saw \<noteq> CHR ''_'')"
| "underscores_from hex saw (c # r) =
     (if float_digit hex c \<noteq> None then underscores_from hex (CHR ''0'') r
      else if c = CHR ''_'' then saw = CHR ''0'' \<and> underscores_from hex (CHR ''_'') r
      else saw \<noteq> CHR ''_'' \<and> underscores_from hex (CHR ''!'') r)"

definition strip_sign :: "string \<Rightarrow> bool \<times> string" where
  "strip_sign s = (case s of c # r \<Rightarrow> if c = CHR ''+'' then (False, r) else if c = CHR ''-'' then (True, r) else (False, s)
     | [] \<Rightarrow> (False, s))"

definition hex_prefix :: "string \<Rightarrow> bool" where
  "hex_prefix s \<longleftrightarrow> 2 < length s \<and> s ! 0 = CHR ''0'' \<and> (s ! 1 = CHR ''x'' \<or> s ! 1 = CHR ''X'')"

definition underscore_ok :: "string \<Rightarrow> bool" where
  "underscore_ok s = (if hex_prefix s then underscores_from True (CHR ''0'') (drop 2 s) else underscores_from False (CHR ''^'') s)"

text \<open>\<open>strconv.ParseFloat\<close> with 64 bits on a string that is no name of an infinity or NaN: the nearest
  \<open>float64\<close>, or an error for bad syntax and for a value out of range.\<close>

definition float_value :: "bool \<Rightarrow> nat \<Rightarrow> nat \<Rightarrow> int \<Rightarrow> rat" where
  "float_value hex m behind e =
     (if hex then of_nat m / 16 ^ behind * 2 powi e else of_nat m / 10 ^ behind * 10 powi e)"

definition parse_float :: "string \<Rightarrow> rat option" where
  "parse_float s =
     (let (neg, s0) = strip_sign s; hex = hex_prefix s0; s1 = (if hex then drop 2 s0 else s0) in
      case scan_mantissa hex s1 0 0 False False of (m, behind, digits, s2) \<Rightarrow>
      if \<not> digits then None
      else case float_exponent hex s2 of
        None \<Rightarrow> None
      | Some (e, s3) \<Rightarrow>
          if s3 \<noteq> [] \<or> (CHR ''_'' \<in> set s0 \<and> \<not> underscore_ok s0) then None
          else let x = f64_round (float_value hex m behind e) in
            if 2 ^ 1024 \<le> x then None else Some (if neg then - x else x))"

section \<open>ParseDuration\<close>

text \<open>\<open>leadingInt\<close> and \<open>leadingFraction\<close>; the scale is a power of ten up to \<open>10 ^ 19\<close>, which \<open>float64\<close> holds
  exactly.\<close>

fun leading_int :: "string \<Rightarrow> nat \<Rightarrow> (nat \<times> string) option" where
  "leading_int [] x = Some (x, [])"
| "leading_int (c # r) x =
     (if \<not> is_digit c then Some (x, c # r)
      else if 2 ^ 63 div 10 < x then None
      else let y = x * 10 + (code_of c - 48) in if 2 ^ 63 < y then None else leading_int r y)"

fun leading_fraction :: "string \<Rightarrow> nat \<Rightarrow> nat \<Rightarrow> bool \<Rightarrow> nat \<times> nat \<times> string" where
  "leading_fraction [] x scale overflow = (x, scale, [])"
| "leading_fraction (c # r) x scale overflow =
     (if \<not> is_digit c then (x, scale, c # r)
      else if overflow then leading_fraction r x scale True
      else if (2 ^ 63 - 1) div 10 < x then leading_fraction r x scale True
      else let y = x * 10 + (code_of c - 48) in
        if 2 ^ 63 < y then leading_fraction r x scale True else leading_fraction r y (scale * 10) False)"

definition duration_unit :: "string \<Rightarrow> nat option" where
  "duration_unit u =
     (if u = ''ns'' then Some 1
      else if u = ''us'' \<or> u = [CHR 0xC2, CHR 0xB5, CHR ''s''] \<or> u = [CHR 0xCE, CHR 0xBC, CHR ''s''] then Some 1000
      else if u = ''ms'' then Some 1000000
      else if u = ''s'' then Some 1000000000
      else if u = ''m'' then Some 60000000000
      else if u = ''h'' then Some 3600000000000
      else None)"

definition fraction_ns :: "nat \<Rightarrow> nat \<Rightarrow> nat \<Rightarrow> nat" where
  "fraction_ns f unit scale =
     nat (f64_trunc (f64_round (f64_of_int (int f) * f64_round (of_nat unit / of_nat scale))))"

definition number_char :: "char \<Rightarrow> bool" where
  "number_char c \<longleftrightarrow> c = CHR ''.'' \<or> is_digit c"

text \<open>One term: a number and its unit. The result is its value in nanoseconds and the rest.\<close>

definition duration_term :: "string \<Rightarrow> (nat \<times> string) option" where
  "duration_term s =
     (if s = [] \<or> \<not> number_char (hd s) then None
      else case leading_int s 0 of
        None \<Rightarrow> None
      | Some (v, s1) \<Rightarrow>
          case (if s1 \<noteq> [] \<and> hd s1 = CHR ''.'' then leading_fraction (tl s1) 0 1 False else (0, 1, s1)) of (f, scale, s2) \<Rightarrow>
          if length s1 = length s \<and> (s1 = [] \<or> hd s1 \<noteq> CHR ''.'' \<or> length s2 = length (tl s1)) then None
          else case duration_unit (takeWhile (\<lambda>c. \<not> number_char c) s2) of
            None \<Rightarrow> None
          | Some unit \<Rightarrow>
              if 2 ^ 63 div unit < v then None
              else let v1 = v * unit + (if 0 < f then fraction_ns f unit scale else 0) in
                if 0 < f \<and> 2 ^ 63 < v1 then None
                else Some (v1, dropWhile (\<lambda>c. \<not> number_char c) s2))"

lemma leading_int_shorter: "leading_int s x = Some (v, t) \<Longrightarrow> length t \<le> length s"
  by (induction s x rule: leading_int.induct) (auto simp: Let_def split: if_splits)

lemma leading_fraction_shorter: "leading_fraction s x sc ov = (f, sc', t) \<Longrightarrow> length t \<le> length s"
proof (induction s arbitrary: x sc ov)
  case (Cons c r)
  then show ?case by (auto simp: Let_def le_Suc_eq split: if_splits)
qed simp

lemma duration_term_shorter: "duration_term s = Some (v, t) \<Longrightarrow> length t < length s"
proof -
  assume a: "duration_term s = Some (v, t)"
  obtain v0 s1 where i: "leading_int s 0 = Some (v0, s1)" using a by (auto simp: duration_term_def split: if_splits option.splits)
  obtain f sc s2 where f: "(if s1 \<noteq> [] \<and> hd s1 = CHR ''.'' then leading_fraction (tl s1) 0 1 False else (0, 1, s1)) = (f, sc, s2)"
    using prod_cases3 by blast
  have t: "t = dropWhile (\<lambda>c. \<not> number_char c) s2" and u: "duration_unit (takeWhile (\<lambda>c. \<not> number_char c) s2) \<noteq> None"
    using a i f by (auto simp: duration_term_def Let_def split: if_splits option.splits)
  have "takeWhile (\<lambda>c. \<not> number_char c) s2 \<noteq> []" using u by (auto simp: duration_unit_def)
  moreover have "length s2 = length (takeWhile (\<lambda>c. \<not> number_char c) s2) + length t"
    unfolding t by (metis length_append takeWhile_dropWhile_id)
  moreover have "length s2 \<le> length s1" using f leading_fraction_shorter [of "tl s1"] by (fastforce split: if_splits)
  moreover have "length s1 \<le> length s" by (rule leading_int_shorter [OF i])
  ultimately show ?thesis by (cases "takeWhile (\<lambda>c. \<not> number_char c) s2") auto
qed

text \<open>The sum of the terms is a \<open>uint64\<close>.\<close>

function duration_terms :: "string \<Rightarrow> nat \<Rightarrow> nat option" where
  "duration_terms s d = (if s = [] then Some d else case duration_term s of
     None \<Rightarrow> None
   | Some (v, t) \<Rightarrow> let d1 = (d + v) mod 2 ^ 64 in if 2 ^ 63 < d1 then None else duration_terms t d1)"
  by pat_completeness auto
termination
  by (relation "measure (\<lambda>(s, d). length s)") (auto dest: duration_term_shorter)

declare duration_terms.simps [simp del]

definition parse_duration :: "string \<Rightarrow> duration option" where
  "parse_duration s =
     (let (neg, s0) = strip_sign s in
      if s0 = ''0'' then Some 0
      else if s0 = [] then None
      else case duration_terms s0 0 of
        None \<Rightarrow> None
      | Some d \<Rightarrow> if neg then Some (- int d) else if 2 ^ 63 - 1 < d then None else Some (int d))"

section \<open>Facts\<close>

lemma duration_terms_bound: "duration_terms s d = Some n \<Longrightarrow> d \<le> 2 ^ 63 \<Longrightarrow> n \<le> 2 ^ 63"
proof (induction s d rule: duration_terms.induct)
  case (1 s d)
  show ?case
  proof (cases "s = []")
    case True
    with "1.prems" show ?thesis by (simp add: duration_terms.simps)
  next
    case False
    with "1.prems"(1) obtain v t where t: "duration_term s = Some (v, t)"
      by (subst (asm) duration_terms.simps) (auto split: option.splits)
    with False "1.prems"(1) have b: "\<not> 2 ^ 63 < (d + v) mod 2 ^ 64" and n: "duration_terms t ((d + v) mod 2 ^ 64) = Some n"
      by (subst (asm) duration_terms.simps, simp add: Let_def split: if_splits)+
    from "1.IH" [OF False t _ refl b n] b show ?thesis by simp
  qed
qed

text \<open>What these parsers accept fits the type of the field: an \<open>int64\<close>, and a finite \<open>float64\<close>.\<close>

definition int64 :: "int \<Rightarrow> bool" where
  "int64 i \<longleftrightarrow> - (2 ^ 63) \<le> i \<and> i < 2 ^ 63"

lemma parse_duration_int64: "parse_duration s = Some d \<Longrightarrow> int64 d"
  using duration_terms_bound [of _ 0]
  by (fastforce simp: parse_duration_def int64_def split: prod.splits if_splits option.splits)

lemma parse_int64_int64: "parse_int64 s = Some i \<Longrightarrow> int64 i"
  by (auto simp: parse_int64_def int64_def Let_def split: prod.splits if_splits list.splits)

text \<open>\<open>Unquote\<close> undoes \<open>Quote\<close>, on every byte string.\<close>

lemma hex_escape_2: "x < 256 \<Longrightarrow> hex_escape 2 (hex_digit (x div 16) # hex_digit (x mod 16) # r) = Some (x, r)"
  by (simp add: hex_escape_def numeral_2_eq_2 hex_value_digit)

lemma unquote_body_escape:
  assumes "x < 256"
  shows "unquote_body ([CHR 0x5C, CHR ''x'', hex_digit (x div 16), hex_digit (x mod 16)] @ r) = push_out [char_of x] (unquote_body r)"
  using assms by (simp add: unquote_body.simps(2) unquote_escape_def control_escape_def hex_escape_2)

lemma unquote_body_quote_ascii:
  assumes "code_of c < 0x80"
  shows "unquote_body (quote_ascii c @ r) = push_out [c] (unquote_body r)"
proof -
  have h: "unquote_body (CHR 0x5C # CHR ''x'' # hex_digit (code_of c div 16) # hex_digit (code_of c mod 16) # r) = push_out [c] (unquote_body r)"
    using unquote_body_escape [of "code_of c" r] of_char_of by (simp add: assms)
  show ?thesis
    using assms h by (auto simp: quote_ascii_def unquote_body.simps(2) unquote_escape_def control_escape_def)
qed

lemma unquote_quote_body: "unquote_body (quote_body s @ CHR 0x22 # r) = Some (s, r)"
proof (induction s rule: quote_body.induct)
  case 1
  show ?case by (simp add: unquote_body.simps(2))
next
  case (2 c s)
  show ?case
  proof (cases "code_of c < 0x80")
    case True
    with 2(1) show ?thesis by (simp add: quote_body.simps(2) unquote_body_quote_ascii)
  next
    case False
    show ?thesis
    proof (cases "utf8_width (c # s)")
      case None
      with False 2(2) have "unquote_body ([CHR 0x5C, CHR ''x'', hex_digit (code_of c div 16), hex_digit (code_of c mod 16)]
          @ (quote_body s @ CHR 0x22 # r)) = Some (c # s, r)"
        by (subst unquote_body_escape) simp_all
      with False None show ?thesis by (simp add: quote_body.simps(2))
    next
      case (Some n)
      note b = utf8_width_bounds [OF Some]
      obtain m where n: "n = Suc m" using b by (cases n) auto
      let ?rest = "quote_body (drop n (c # s)) @ CHR 0x22 # r"
      have ih: "unquote_body ?rest = Some (drop n (c # s), r)" by (rule 2(3) [OF False Some])
      have e: "quote_body (c # s) @ CHR 0x22 # r = c # take m s @ ?rest" using False Some n by (simp add: quote_body.simps(2))
      have w: "utf8_width (c # take m s @ ?rest) = Some n"
        using utf8_width_take [OF Some] n by simp
      have ne: "c \<noteq> CHR 0x22" "c \<noteq> CHR 0x0A" "c \<noteq> CHR 0x5C" using False by auto
      have d: "drop n (c # take m s @ ?rest) = ?rest" "take n (c # take m s @ ?rest) = take n (c # s)"
        using b n by auto
      show ?thesis unfolding e by (simp add: unquote_body.simps(2) ne False w d ih del: drop_Suc_Cons take_Suc_Cons)
    qed
  qed
qed

lemma unquote_go_quote: "unquote (go_quote s) = Some s"
  using unquote_quote_body [of s "[]"] by (simp add: unquote_def go_quote_def)

end
