(* ===== verification/Config_Parse.thy ===== *)
theory Config_Parse
  imports Go_Parse Config_Types
begin

text \<open>
  The configuration file: config_parse.go (sections, keys and comments), config_values.go (the typed
  lookups) and config.go (\<open>ParseConfig\<close>, \<open>parsePaths\<close>, \<open>LoadConfigFile\<close>). \<open>url.Parse\<close> is a parameter, of which
  the code reads the scheme and the host; so are the file system functions of \<open>LoadConfigFile\<close>.
\<close>

section \<open>Results\<close>

text \<open>\<open>if err != nil { return err }\<close> as the bind of the sum.\<close>

definition rbind :: "'a result \<Rightarrow> ('a \<Rightarrow> 'b result) \<Rightarrow> 'b result" where
  "rbind r f = (case r of Inl e \<Rightarrow> Inl e | Inr x \<Rightarrow> f x)"

definition wrap :: "string \<Rightarrow> 'a result \<Rightarrow> 'a result" where
  "wrap s r = (case r of Inl e \<Rightarrow> Inl (Wrapf s e) | Inr x \<Rightarrow> Inr x)"

lemma rbind_simps [simp]: "rbind (Inl e) f = Inl e" "rbind (Inr x) f = f x"
  by (simp_all add: rbind_def)

lemma rbind_Inr: "rbind r f = Inr y \<longleftrightarrow> (\<exists>x. r = Inr x \<and> f x = Inr y)"
  by (cases r) simp_all

lemma wrap_Inr [simp]: "wrap s r = Inr x \<longleftrightarrow> r = Inr x"
  by (cases r) (simp_all add: wrap_def)

section \<open>Lines\<close>

text \<open>
  A value read from the file. The maps of \<open>rawConfig\<close> are references in the program, and \<open>current\<close> is the
  one of the section being read: the map that the name of the section stands for.
\<close>

datatype raw_value = RStr string | RBool bool | RFloat f64 | RInt int

type_synonym raw_map = "string \<rightharpoonup> raw_value"

record raw_config =
  rw_top :: raw_map
  rw_server :: raw_map
  rw_resume :: raw_map
  rw_probe :: raw_map
  rw_paths :: "raw_map list"

definition empty_raw :: raw_config where
  "empty_raw = \<lparr>rw_top = Map.empty, rw_server = Map.empty, rw_resume = Map.empty, rw_probe = Map.empty, rw_paths = []\<rparr>"

definition current_map :: "string \<Rightarrow> raw_config \<Rightarrow> raw_map" where
  "current_map sect raw =
     (if sect = ''server'' then rw_server raw else if sect = ''resume'' then rw_resume raw
      else if sect = ''probe'' then rw_probe raw
      else if sect = ''paths'' then rw_paths raw ! (length (rw_paths raw) - 1) else rw_top raw)"

definition current_put :: "string \<Rightarrow> string \<Rightarrow> raw_value \<Rightarrow> raw_config \<Rightarrow> raw_config" where
  "current_put sect key v raw =
     (if sect = ''server'' then raw\<lparr>rw_server := (rw_server raw)(key \<mapsto> v)\<rparr>
      else if sect = ''resume'' then raw\<lparr>rw_resume := (rw_resume raw)(key \<mapsto> v)\<rparr>
      else if sect = ''probe'' then raw\<lparr>rw_probe := (rw_probe raw)(key \<mapsto> v)\<rparr>
      else if sect = ''paths'' then
        (let k = length (rw_paths raw) - 1 in raw\<lparr>rw_paths := (rw_paths raw)[k := (rw_paths raw ! k)(key \<mapsto> v)]\<rparr>)
      else raw\<lparr>rw_top := (rw_top raw)(key \<mapsto> v)\<rparr>)"

text \<open>\<open>stripComment\<close>; only ASCII bytes matter, so the scan by runes is one by bytes.\<close>

fun strip_comment_from :: "bool \<Rightarrow> bool \<Rightarrow> string \<Rightarrow> string" where
  "strip_comment_from inString escaped [] = []"
| "strip_comment_from inString escaped (c # r) =
     (if escaped then c # strip_comment_from inString False r
      else if c = CHR 0x5C \<and> inString then c # strip_comment_from inString True r
      else if c = CHR 0x22 then c # strip_comment_from (\<not> inString) False r
      else if c = CHR ''#'' \<and> \<not> inString then []
      else c # strip_comment_from inString False r)"

definition stripComment :: "string \<Rightarrow> string" where
  "stripComment line = strip_comment_from False False line"

definition allowed_keys :: "string \<Rightarrow> string list" where
  "allowed_keys sect =
     (if sect = ''top'' then [''schema_version'', ''name'']
      else if sect = ''server'' then [''listen'', ''http_path'', ''connect'']
      else if sect = ''resume'' then [''timeout'', ''buffer_bytes'']
      else if sect = ''probe'' then [''interval'', ''timeout'', ''switch_cooldown'', ''active_failure_threshold'',
        ''candidate_success_threshold'', ''better_rtt_min_delta'', ''better_rtt_ratio'']
      else if sect = ''paths'' then [''name'', ''transport'', ''endpoint'', ''priority'', ''enabled'']
      else [])"

definition allowedKey :: "string \<Rightarrow> string \<Rightarrow> bool" where
  "allowedKey sect key \<longleftrightarrow> key \<in> set (allowed_keys sect)"

definition parseValue :: "string \<Rightarrow> raw_value result" where
  "parseValue s =
     (if has_prefix s [CHR 0x22] then
        (case unquote s of None \<Rightarrow> Inl (Errorf ''invalid syntax'') | Some v \<Rightarrow> Inr (RStr v))
      else if s = ''true'' then Inr (RBool True)
      else if s = ''false'' then Inr (RBool False)
      else if contains_str s ''.'' then
        (case parse_float s of None \<Rightarrow> Inl (Errorf (''bad float '' @ go_quote s)) | Some v \<Rightarrow> Inr (RFloat (Fin v)))
      else (case parse_int64 s of None \<Rightarrow> Inl (Errorf (''bad value '' @ go_quote s)) | Some v \<Rightarrow> Inr (RInt v)))"

definition at_line :: "nat \<Rightarrow> string \<Rightarrow> string" where
  "at_line i s = ''line '' @ dec_nat (i + 1) @ '': '' @ s"

text \<open>One turn of the loop of \<open>parseTOML\<close> on line \<open>i\<close> (from 0): the section and the maps afterwards.\<close>

definition toml_line :: "nat \<Rightarrow> string \<Rightarrow> string \<Rightarrow> raw_config \<Rightarrow> (string \<times> raw_config) result" where
  "toml_line i text sect raw =
     (let line = trim_space (stripComment text) in
      if line = [] then Inr (sect, raw)
      else if has_prefix line ''[['' \<and> has_suffix line '']]'' then
        (let name = trim_space (trim_suffix (trim_prefix line ''[['') '']]'') in
         if name \<noteq> ''paths'' then Inl (Errorf (at_line i (''unknown table array '' @ go_quote name)))
         else Inr (''paths'', raw\<lparr>rw_paths := rw_paths raw @ [Map.empty]\<rparr>))
      else if has_prefix line ''['' \<and> has_suffix line '']'' then
        (let name = trim_space (trim_suffix (trim_prefix line ''['') '']'') in
         if name = ''server'' \<or> name = ''resume'' \<or> name = ''probe'' then Inr (name, raw)
         else Inl (Errorf (at_line i (''unknown section '' @ go_quote name))))
      else case cut_char (CHR ''='') line of (key0, val, ok) \<Rightarrow>
        if \<not> ok then Inl (Errorf (at_line i ''expected key = value''))
        else let key = trim_space key0 in
          if \<not> allowedKey sect key then Inl (Errorf (at_line i (''unknown key '' @ sect @ ''.'' @ key)))
          else if current_map sect raw key \<noteq> None then Inl (Errorf (at_line i (''duplicate key '' @ sect @ ''.'' @ key)))
          else case parseValue (trim_space val) of
            Inl e \<Rightarrow> Inl (Wrapf (at_line i []) e)
          | Inr v \<Rightarrow> Inr (sect, current_put sect key v raw))"

fun toml_lines :: "nat \<Rightarrow> string list \<Rightarrow> string \<Rightarrow> raw_config \<Rightarrow> raw_config result" where
  "toml_lines i [] sect raw = Inr raw"
| "toml_lines i (line # rest) sect raw = (case toml_line i line sect raw of
     Inl e \<Rightarrow> Inl e
   | Inr (sect', raw') \<Rightarrow> toml_lines (i + 1) rest sect' raw')"

definition parseTOML :: "string \<Rightarrow> raw_config result" where
  "parseTOML data = toml_lines 0 (split_char (CHR 0x0A) data) ''top'' empty_raw"

section \<open>Typed lookups\<close>

definition requiredString :: "raw_map \<Rightarrow> string \<Rightarrow> string result" where
  "requiredString m key = (case m key of
     None \<Rightarrow> Inl (Errorf (''missing '' @ key))
   | Some (RStr s) \<Rightarrow> Inr s
   | Some v \<Rightarrow> Inl (Errorf (key @ '' must be a string'')))"

definition optionalString :: "raw_map \<Rightarrow> string \<Rightarrow> string \<Rightarrow> string result" where
  "optionalString m key d = (if m key = None then Inr d else requiredString m key)"

definition requiredDuration :: "raw_map \<Rightarrow> string \<Rightarrow> duration result" where
  "requiredDuration m key = rbind (requiredString m key) (\<lambda>s. case parse_duration s of
     None \<Rightarrow> Inl (Errorf (key @ '' must be a Go duration''))
   | Some d \<Rightarrow> Inr d)"

definition optionalDuration :: "raw_map \<Rightarrow> string \<Rightarrow> duration \<Rightarrow> duration result" where
  "optionalDuration m key d = (if m key = None then Inr d else requiredDuration m key)"

definition requiredInt :: "raw_map \<Rightarrow> string \<Rightarrow> int result" where
  "requiredInt m key = (case m key of
     None \<Rightarrow> Inl (Errorf (''missing '' @ key))
   | Some (RInt n) \<Rightarrow> Inr n
   | Some v \<Rightarrow> Inl (Errorf (key @ '' must be an integer'')))"

definition optionalInt :: "raw_map \<Rightarrow> string \<Rightarrow> int \<Rightarrow> int result" where
  "optionalInt m key d = (if m key = None then Inr d else requiredInt m key)"

definition requiredFloat :: "raw_map \<Rightarrow> string \<Rightarrow> f64 result" where
  "requiredFloat m key = (case m key of
     None \<Rightarrow> Inl (Errorf (''missing '' @ key))
   | Some (RInt n) \<Rightarrow> Inr (Fin (f64_of_int n))
   | Some (RFloat x) \<Rightarrow> Inr x
   | Some v \<Rightarrow> Inl (Errorf (key @ '' must be a number'')))"

definition optionalFloat :: "raw_map \<Rightarrow> string \<Rightarrow> f64 \<Rightarrow> f64 result" where
  "optionalFloat m key d = (if m key = None then Inr d else requiredFloat m key)"

definition requiredBool :: "raw_map \<Rightarrow> string \<Rightarrow> bool result" where
  "requiredBool m key = (case m key of
     None \<Rightarrow> Inl (Errorf (''missing '' @ key))
   | Some (RBool b) \<Rightarrow> Inr b
   | Some v \<Rightarrow> Inl (Errorf (key @ '' must be a boolean'')))"

definition optionalBool :: "raw_map \<Rightarrow> string \<Rightarrow> bool \<Rightarrow> bool result" where
  "optionalBool m key d = (if m key = None then Inr d else requiredBool m key)"

section \<open>The configuration\<close>

definition second :: duration where
  "second = 1000000000"

definition millisecond :: duration where
  "millisecond = 1000000"

definition commandProxy :: string where
  "commandProxy = ''proxy''"

definition commandServer :: string where
  "commandServer = ''server''"

definition commandProbe :: string where
  "commandProbe = ''probe''"

text \<open>The defaults of config.go.\<close>

definition defaultServerHTTPPath :: string where [simp]:
  "defaultServerHTTPPath = ''/moltssh''"

definition defaultResumeTimeout :: duration where [simp]:
  "defaultResumeTimeout = 60 * second"

definition defaultResumeBufferBytes :: int where [simp]:
  "defaultResumeBufferBytes = 32 * 1024 * 1024"

definition defaultProbeInterval :: duration where [simp]:
  "defaultProbeInterval = 3 * second"

definition defaultProbeTimeout :: duration where [simp]:
  "defaultProbeTimeout = 2 * second"

definition defaultProbeSwitchCooldown :: duration where [simp]:
  "defaultProbeSwitchCooldown = 10 * second"

definition defaultProbeActiveFailureThreshold :: int where [simp]:
  "defaultProbeActiveFailureThreshold = 2"

definition defaultProbeCandidateSuccessThreshold :: int where [simp]:
  "defaultProbeCandidateSuccessThreshold = 3"

definition defaultProbeBetterRTTMinDelta :: duration where [simp]:
  "defaultProbeBetterRTTMinDelta = 30 * millisecond"

definition defaultProbeBetterRTTRatio :: f64 where [simp]:
  "defaultProbeBetterRTTRatio = Fin (1 / 4)"

definition defaultPathTransport :: string where [simp]:
  "defaultPathTransport = ''ws''"

definition defaultPathPriority :: int where [simp]:
  "defaultPathPriority = 0"

definition defaultPathEnabled :: bool where [simp]:
  "defaultPathEnabled = True"

lemmas default_defs = defaultServerHTTPPath_def defaultResumeTimeout_def defaultResumeBufferBytes_def defaultProbeInterval_def
  defaultProbeTimeout_def defaultProbeSwitchCooldown_def defaultProbeActiveFailureThreshold_def defaultProbeCandidateSuccessThreshold_def
  defaultProbeBetterRTTMinDelta_def defaultProbeBetterRTTRatio_def defaultPathTransport_def defaultPathPriority_def
  defaultPathEnabled_def

definition zero_config :: config where
  "zero_config = \<lparr>cfg_schema = 0, cfg_name = [], cfg_server = \<lparr>sv_listen = [], sv_http_path = [], sv_connect = []\<rparr>,
     cfg_resume = \<lparr>rc_timeout = 0, rc_buffer = 0\<rparr>,
     cfg_probe = \<lparr>pr_interval = 0, pr_timeout = 0, pr_switch_cooldown = 0, pr_active_failures = 0,
       pr_candidate_successes = 0, pr_better_min_delta = 0, pr_better_ratio = Fin 0\<rparr>,
     cfg_paths = [], cfg_identity = []\<rparr>"

text \<open>\<open>parseURL\<close> returns the scheme and the host of an endpoint.\<close>

type_synonym url_parser = "string \<Rightarrow> (string \<times> string) result"

definition endpoint_ok :: "url_parser \<Rightarrow> string \<Rightarrow> bool" where
  "endpoint_ok parseURL endpoint \<longleftrightarrow> (case parseURL endpoint of
     Inl e \<Rightarrow> False
   | Inr (scheme, host) \<Rightarrow> (scheme = ''ws'' \<or> scheme = ''wss'') \<and> host \<noteq> [])"

definition in_path :: "nat \<Rightarrow> string" where
  "in_path i = ''paths['' @ dec_nat i @ '']''"

fun parse_paths_from :: "url_parser \<Rightarrow> nat \<Rightarrow> string list \<Rightarrow> raw_map list \<Rightarrow> path_config list result" where
  "parse_paths_from parseURL i seen [] = Inr []"
| "parse_paths_from parseURL i seen (item # items) =
     rbind (wrap (in_path i @ ''.'') (requiredString item ''name'')) (\<lambda>name.
     if name \<in> set seen then Inl (Errorf (''duplicate path name '' @ go_quote name))
     else rbind (wrap (in_path i @ ''.'') (optionalString item ''transport'' defaultPathTransport)) (\<lambda>transport.
     if transport \<noteq> ''ws'' then Inl (Errorf (in_path i @ ''.transport must be ws''))
     else rbind (wrap (in_path i @ ''.'') (requiredString item ''endpoint'')) (\<lambda>endpoint.
     if \<not> endpoint_ok parseURL endpoint then Inl (Errorf (in_path i @ ''.endpoint must be ws:// or wss:// URL''))
     else rbind (wrap (in_path i @ ''.'') (optionalInt item ''priority'' defaultPathPriority)) (\<lambda>priority.
     rbind (wrap (in_path i @ ''.'') (optionalBool item ''enabled'' defaultPathEnabled)) (\<lambda>enabled.
     rbind (parse_paths_from parseURL (i + 1) (name # seen) items) (\<lambda>paths.
     Inr (\<lparr>pc_name = name, pc_transport = transport, pc_endpoint = endpoint, pc_priority = priority, pc_enabled = enabled\<rparr> # paths)))))))"

definition parsePaths :: "url_parser \<Rightarrow> raw_map list \<Rightarrow> path_config list result" where
  "parsePaths parseURL raw = parse_paths_from parseURL 0 [] raw"

text \<open>The three blocks of \<open>ParseConfig\<close> that depend on the command.\<close>

definition parse_server :: "raw_map \<Rightarrow> server_config result" where
  "parse_server m =
     rbind (requiredString m ''listen'') (\<lambda>listen.
     rbind (optionalString m ''http_path'' defaultServerHTTPPath) (\<lambda>httpPath.
     if \<not> has_prefix httpPath ''/'' then Inl (Errorf ''server.http_path must start with /'')
     else rbind (requiredString m ''connect'') (\<lambda>connect.
     Inr \<lparr>sv_listen = listen, sv_http_path = httpPath, sv_connect = connect\<rparr>)))"

definition parse_resume :: "raw_map \<Rightarrow> resume_config result" where
  "parse_resume m =
     rbind (optionalDuration m ''timeout'' defaultResumeTimeout) (\<lambda>timeout.
     rbind (optionalInt m ''buffer_bytes'' defaultResumeBufferBytes) (\<lambda>buffer.
     if timeout \<le> 0 \<or> buffer \<le> 0 then Inl (Errorf ''resume timeout and buffer_bytes must be positive'')
     else Inr \<lparr>rc_timeout = timeout, rc_buffer = buffer\<rparr>))"

text \<open>\<open>r < 0\<close> on \<open>float64\<close>.\<close>

definition f64_negative :: "f64 \<Rightarrow> bool" where
  "f64_negative r \<longleftrightarrow> r < Fin 0"

definition parse_probe :: "raw_map \<Rightarrow> probe_config result" where
  "parse_probe m =
     rbind (optionalDuration m ''interval'' defaultProbeInterval) (\<lambda>interval.
     rbind (optionalDuration m ''timeout'' defaultProbeTimeout) (\<lambda>timeout.
     rbind (optionalDuration m ''switch_cooldown'' defaultProbeSwitchCooldown) (\<lambda>cooldown.
     rbind (optionalInt m ''active_failure_threshold'' defaultProbeActiveFailureThreshold) (\<lambda>failures.
     rbind (optionalInt m ''candidate_success_threshold'' defaultProbeCandidateSuccessThreshold) (\<lambda>successes.
     rbind (optionalDuration m ''better_rtt_min_delta'' defaultProbeBetterRTTMinDelta) (\<lambda>minDelta.
     rbind (optionalFloat m ''better_rtt_ratio'' defaultProbeBetterRTTRatio) (\<lambda>ratio.
     if interval \<le> 0 \<or> timeout \<le> 0 \<or> cooldown < 0 \<or> failures \<le> 0 \<or> successes \<le> 0 \<or> minDelta < 0 \<or> f64_negative ratio
     then Inl (Errorf ''probe fields must be positive'')
     else Inr \<lparr>pr_interval = interval, pr_timeout = timeout, pr_switch_cooldown = cooldown, pr_active_failures = failures,
       pr_candidate_successes = successes, pr_better_min_delta = minDelta, pr_better_ratio = ratio\<rparr>)))))))"

definition parse_path_list :: "url_parser \<Rightarrow> raw_map list \<Rightarrow> path_config list result" where
  "parse_path_list parseURL raw = rbind (parsePaths parseURL raw) (\<lambda>paths.
     if enabledPaths paths = [] then Inl (Errorf ''at least one enabled path is required'') else Inr paths)"

definition ParseConfig :: "url_parser \<Rightarrow> string \<Rightarrow> string \<Rightarrow> config result" where
  "ParseConfig parseURL data command =
     rbind (parseTOML data) (\<lambda>raw.
     rbind (requiredInt (rw_top raw) ''schema_version'') (\<lambda>schema.
     if schema \<noteq> 1 then Inl (Errorf (''unsupported schema_version '' @ dec_int schema))
     else rbind (requiredString (rw_top raw) ''name'') (\<lambda>name.
     if name = [] then Inl (Errorf ''name must not be empty'')
     else let c0 = zero_config\<lparr>cfg_schema := schema, cfg_name := name\<rparr> in
     rbind (if command = commandServer then rbind (parse_server (rw_server raw)) (\<lambda>s. Inr (c0\<lparr>cfg_server := s\<rparr>)) else Inr c0) (\<lambda>c1.
     rbind (if command = commandProxy \<or> command = commandServer
       then rbind (parse_resume (rw_resume raw)) (\<lambda>r. Inr (c1\<lparr>cfg_resume := r\<rparr>)) else Inr c1) (\<lambda>c2.
     if command = commandProxy \<or> command = commandProbe then
       rbind (parse_probe (rw_probe raw)) (\<lambda>p.
       rbind (parse_path_list parseURL (rw_paths raw)) (\<lambda>paths. Inr (c2\<lparr>cfg_probe := p, cfg_paths := paths\<rparr>)))
     else Inr c2)))))"

text \<open>The file system: reading a file, and the functions of \<open>filepath\<close>.\<close>

record file_functions =
  ff_read :: "string \<Rightarrow> string result"
  ff_abs :: "string \<Rightarrow> string result"
  ff_clean :: "string \<Rightarrow> string"
  ff_links :: "string \<Rightarrow> string result"

definition canonicalConfigIdentity :: "file_functions \<Rightarrow> string \<Rightarrow> string" where
  "canonicalConfigIdentity ff path = (case ff_abs ff path of
     Inl e \<Rightarrow> []
   | Inr a \<Rightarrow> let a1 = ff_clean ff a in
       (case ff_links ff a1 of Inr resolved \<Rightarrow> ff_clean ff resolved | Inl e \<Rightarrow> a1))"

definition LoadConfigFile :: "file_functions \<Rightarrow> url_parser \<Rightarrow> string \<Rightarrow> string \<Rightarrow> config result" where
  "LoadConfigFile ff parseURL path command =
     (if path = [] then Inl (Errorf ''--config is required'')
      else rbind (ff_read ff path) (\<lambda>data.
      rbind (ParseConfig parseURL data command) (\<lambda>cfg.
      Inr (if command = commandProxy then cfg\<lparr>cfg_identity := canonicalConfigIdentity ff path\<rparr> else cfg))))"

end
