(* ===== verification/Config_Props.thy ===== *)
theory Config_Props
  imports Config_Parse
begin

text \<open>
  What the configuration file promises: an accepted configuration is well formed, an error names the first
  bad line, and a quoted value is read back unchanged.
\<close>

section \<open>Accepted configurations\<close>

text \<open>Every typed lookup yields what its type promises.\<close>

definition raw_ok :: "raw_map \<Rightarrow> bool" where
  "raw_ok m \<longleftrightarrow> (\<forall>key v. m key = Some v \<longrightarrow> (case v of RInt i \<Rightarrow> int64 i | RFloat x \<Rightarrow> (\<exists>q. x = Fin q) | _ \<Rightarrow> True))"

definition raw_config_ok :: "raw_config \<Rightarrow> bool" where
  "raw_config_ok raw \<longleftrightarrow> raw_ok (rw_top raw) \<and> raw_ok (rw_server raw) \<and> raw_ok (rw_resume raw) \<and> raw_ok (rw_probe raw)
     \<and> (\<forall>m \<in> set (rw_paths raw). raw_ok m)"

lemma raw_ok_upd: "raw_ok m \<Longrightarrow> parseValue s = Inr v \<Longrightarrow> raw_ok (m(key \<mapsto> v))"
  by (auto simp: raw_ok_def parseValue_def dest: parse_int64_int64 split: if_splits option.splits raw_value.splits)

lemma raw_config_ok_put:
  assumes "raw_config_ok raw" and "parseValue s = Inr v" and "sect = ''paths'' \<longrightarrow> rw_paths raw \<noteq> []"
  shows "raw_config_ok (current_put sect key v raw)"
proof -
  have "raw_ok (rw_paths raw ! (length (rw_paths raw) - 1))" if "sect = ''paths''"
    using that assms(1,3) by (simp add: raw_config_ok_def)
  with assms show ?thesis
    using set_update_subset_insert [of "rw_paths raw"]
    by (fastforce simp: current_put_def raw_config_ok_def Let_def raw_ok_upd)
qed

definition sections_ok :: "string \<Rightarrow> raw_config \<Rightarrow> bool" where
  "sections_ok sect raw \<longleftrightarrow> raw_config_ok raw \<and> (sect = ''paths'' \<longrightarrow> rw_paths raw \<noteq> [])"

lemma toml_line_ok: "toml_line i line sect raw = Inr (sect', raw') \<Longrightarrow> sections_ok sect raw \<Longrightarrow> sections_ok sect' raw'"
proof -
  assume t: "toml_line i line sect raw = Inr (sect', raw')" and ok: "sections_ok sect raw"
  have new: "sections_ok ''paths'' (raw\<lparr>rw_paths := rw_paths raw @ [Map.empty]\<rparr>)"
    using ok by (auto simp: sections_ok_def raw_config_ok_def raw_ok_def)
  have put: "sections_ok sect (current_put sect key v raw)" if "parseValue s = Inr v" for key s v
    using ok raw_config_ok_put [OF _ that, of raw sect key] by (auto simp: sections_ok_def current_put_def Let_def)
  show ?thesis using t ok new put
    by (auto simp: toml_line_def Let_def sections_ok_def split: if_splits prod.splits sum.splits)
qed

lemma toml_lines_ok: "toml_lines i lines sect raw = Inr raw' \<Longrightarrow> sections_ok sect raw \<Longrightarrow> raw_config_ok raw'"
proof (induction i lines sect raw rule: toml_lines.induct)
  case (2 i line rest sect raw)
  from "2.prems"(1) obtain sect' raw1 where l: "toml_line i line sect raw = Inr (sect', raw1)"
    and r: "toml_lines (i + 1) rest sect' raw1 = Inr raw'" by (auto split: sum.splits)
  from "2.IH" [OF l refl r toml_line_ok [OF l "2.prems"(2)]] show ?case .
qed (simp add: sections_ok_def)

lemma parseTOML_ok: "parseTOML data = Inr raw \<Longrightarrow> raw_config_ok raw"
  unfolding parseTOML_def by (erule toml_lines_ok) (simp add: sections_ok_def raw_config_ok_def raw_ok_def empty_raw_def)

lemma requiredInt_ok: "raw_ok m \<Longrightarrow> requiredInt m key = Inr n \<Longrightarrow> int64 n"
  by (fastforce simp: raw_ok_def requiredInt_def split: option.splits raw_value.splits)

lemma optionalInt_ok: "raw_ok m \<Longrightarrow> optionalInt m key d = Inr n \<Longrightarrow> int64 d \<Longrightarrow> int64 n"
  by (auto simp: optionalInt_def requiredInt_ok split: if_splits)

lemma optionalDuration_ok: "optionalDuration m key d = Inr n \<Longrightarrow> int64 d \<Longrightarrow> int64 n"
  by (auto simp: optionalDuration_def requiredDuration_def rbind_Inr parse_duration_int64 split: if_splits option.splits)

lemma optionalFloat_ok: "raw_ok m \<Longrightarrow> optionalFloat m key (Fin q) = Inr x \<Longrightarrow> \<exists>q'. x = Fin q'"
  by (fastforce simp: raw_ok_def optionalFloat_def requiredFloat_def split: option.splits raw_value.splits if_splits)

text \<open>The invariant of the configuration, by command.\<close>

definition resume_ok :: "resume_config \<Rightarrow> bool" where
  "resume_ok r \<longleftrightarrow> 0 < rc_timeout r \<and> int64 (rc_timeout r) \<and> 0 < rc_buffer r \<and> int64 (rc_buffer r)"

definition probe_ok :: "probe_config \<Rightarrow> bool" where
  "probe_ok p \<longleftrightarrow> 0 < pr_interval p \<and> 0 < pr_timeout p \<and> 0 \<le> pr_switch_cooldown p \<and> 0 < pr_active_failures p
     \<and> 0 < pr_candidate_successes p \<and> 0 \<le> pr_better_min_delta p \<and> (\<exists>q \<ge> 0. pr_better_ratio p = Fin q)
     \<and> list_all int64 [pr_interval p, pr_timeout p, pr_switch_cooldown p, pr_active_failures p, pr_candidate_successes p, pr_better_min_delta p]"

definition path_ok :: "url_parser \<Rightarrow> path_config \<Rightarrow> bool" where
  "path_ok parseURL p \<longleftrightarrow> pc_transport p = ''ws'' \<and> endpoint_ok parseURL (pc_endpoint p) \<and> int64 (pc_priority p)"

definition config_ok :: "url_parser \<Rightarrow> string \<Rightarrow> config \<Rightarrow> bool" where
  "config_ok parseURL command c \<longleftrightarrow> cfg_schema c = 1 \<and> cfg_name c \<noteq> []
     \<and> (command = ''server'' \<longrightarrow> has_prefix (sv_http_path (cfg_server c)) ''/'' \<and> resume_ok (cfg_resume c))
     \<and> (command = ''proxy'' \<longrightarrow> resume_ok (cfg_resume c))
     \<and> (command = ''proxy'' \<or> command = ''probe'' \<longrightarrow> probe_ok (cfg_probe c) \<and> list_all (path_ok parseURL) (cfg_paths c)
          \<and> distinct (map pc_name (cfg_paths c)) \<and> (\<exists>p \<in> set (cfg_paths c). pc_enabled p))"

lemma parse_resume_ok: "raw_ok m \<Longrightarrow> parse_resume m = Inr r \<Longrightarrow> resume_ok r"
  by (auto simp: parse_resume_def rbind_Inr resume_ok_def second_def not_le int64_def split: if_splits
      dest: optionalDuration_ok optionalInt_ok)

lemma parse_probe_ok:
  assumes m: "raw_ok m" and r: "parse_probe m = Inr p"
  shows "probe_ok p"
proof -
  have d: "int64 (3 * second)" "int64 (2 * second)" "int64 (10 * second)" "int64 (30 * millisecond)" "int64 2" "int64 3"
    by (simp_all add: int64_def second_def millisecond_def)
  from r obtain interval timeout cooldown failures successes minDelta ratio where
    f: "optionalDuration m ''interval'' (3 * second) = Inr interval" "optionalDuration m ''timeout'' (2 * second) = Inr timeout"
      "optionalDuration m ''switch_cooldown'' (10 * second) = Inr cooldown" "optionalInt m ''active_failure_threshold'' 2 = Inr failures"
      "optionalInt m ''candidate_success_threshold'' 3 = Inr successes" "optionalDuration m ''better_rtt_min_delta'' (30 * millisecond) = Inr minDelta"
      "optionalFloat m ''better_rtt_ratio'' (Fin (1 / 4)) = Inr ratio"
    and c: "\<not> (interval \<le> 0 \<or> timeout \<le> 0 \<or> cooldown < 0 \<or> failures \<le> 0 \<or> successes \<le> 0 \<or> minDelta < 0 \<or> f64_negative ratio)"
    and p: "p = \<lparr>pr_interval = interval, pr_timeout = timeout, pr_switch_cooldown = cooldown, pr_active_failures = failures,
       pr_candidate_successes = successes, pr_better_min_delta = minDelta, pr_better_ratio = ratio\<rparr>"
    unfolding parse_probe_def default_defs rbind_Inr by (metis Inl_Inr_False sum.inject(2))
  obtain q where q: "ratio = Fin q" using optionalFloat_ok [OF m f(7)] by blast
  with c p f(1-6) d m optionalDuration_ok optionalInt_ok show ?thesis
    by (auto simp: probe_ok_def f64_negative_def not_le not_less)
qed

lemma parse_paths_ok:
  assumes "parse_paths_from parseURL i seen items = Inr paths" and "\<forall>m \<in> set items. raw_ok m"
  shows "list_all (path_ok parseURL) paths \<and> distinct (map pc_name paths) \<and> set (map pc_name paths) \<inter> set seen = {}
    \<and> length paths = length items"
  using assms
proof (induction items arbitrary: i seen paths)
  case (Cons item items)
  from Cons.prems(1) obtain name transport endpoint priority enabled rest where
    f: "requiredString item ''name'' = Inr name" "optionalString item ''transport'' ''ws'' = Inr transport"
      "requiredString item ''endpoint'' = Inr endpoint" "optionalInt item ''priority'' 0 = Inr priority"
      "optionalBool item ''enabled'' True = Inr enabled" "parse_paths_from parseURL (i + 1) (name # seen) items = Inr rest"
    and c: "name \<notin> set seen" "transport = ''ws''" "endpoint_ok parseURL endpoint"
    and p: "paths = \<lparr>pc_name = name, pc_transport = transport, pc_endpoint = endpoint, pc_priority = priority, pc_enabled = enabled\<rparr> # rest"
    by (auto simp: rbind_Inr split: if_splits)
  have "int64 priority" using Cons.prems(2) optionalInt_ok [OF _ f(4)] by (simp add: int64_def)
  moreover have "list_all (path_ok parseURL) rest \<and> distinct (map pc_name rest) \<and> set (map pc_name rest) \<inter> set (name # seen) = {}
      \<and> length rest = length items"
    by (rule Cons.IH [OF f(6)]) (use Cons.prems(2) in simp)
  moreover from calculation c p have "path_ok parseURL (hd paths)" by (simp add: path_ok_def)
  ultimately show ?case using c p by auto
qed simp

lemma parse_path_list_ok:
  assumes "parse_path_list parseURL items = Inr paths" and "\<forall>m \<in> set items. raw_ok m"
  shows "list_all (path_ok parseURL) paths \<and> distinct (map pc_name paths) \<and> (\<exists>p \<in> set paths. pc_enabled p)"
proof -
  from assms(1) have p: "parse_paths_from parseURL 0 [] items = Inr paths" and e: "enabledPaths paths \<noteq> []"
    by (auto simp: parse_path_list_def parsePaths_def rbind_Inr split: if_splits)
  from e have "\<exists>p \<in> set paths. pc_enabled p" by (auto simp: enabledPaths_def filter_empty_conv)
  with parse_paths_ok [OF p assms(2)] show ?thesis by simp
qed

lemma ParseConfig_ok:
  assumes "ParseConfig parseURL data command = Inr c"
  shows "config_ok parseURL command c"
proof -
  from assms obtain raw schema name c1 c2 where raw: "parseTOML data = Inr raw"
    and schema: "schema = 1" and name: "name \<noteq> []"
    and c1: "(if command = commandServer then rbind (parse_server (rw_server raw))
        (\<lambda>s. Inr (zero_config\<lparr>cfg_schema := schema, cfg_name := name, cfg_server := s\<rparr>))
      else Inr (zero_config\<lparr>cfg_schema := schema, cfg_name := name\<rparr>)) = Inr c1"
    and c2: "(if command = commandProxy \<or> command = commandServer
       then rbind (parse_resume (rw_resume raw)) (\<lambda>r. Inr (c1\<lparr>cfg_resume := r\<rparr>)) else Inr c1) = Inr c2"
    and c3: "(if command = commandProxy \<or> command = commandProbe then
       rbind (parse_probe (rw_probe raw)) (\<lambda>p.
       rbind (parse_path_list parseURL (rw_paths raw)) (\<lambda>paths. Inr (c2\<lparr>cfg_probe := p, cfg_paths := paths\<rparr>)))
     else Inr c2) = Inr c"
    by (auto simp: ParseConfig_def rbind_Inr Let_def split: if_split_asm)
  note ok = parseTOML_ok [OF raw, unfolded raw_config_ok_def]
  have 1: "cfg_schema c1 = 1 \<and> cfg_name c1 \<noteq> [] \<and> (command = commandServer \<longrightarrow> has_prefix (sv_http_path (cfg_server c1)) ''/'')"
    using c1 schema name by (auto simp: rbind_Inr parse_server_def split: if_splits)
  have 2: "cfg_schema c2 = 1 \<and> cfg_name c2 \<noteq> [] \<and> (command = commandServer \<longrightarrow> has_prefix (sv_http_path (cfg_server c2)) ''/'')
      \<and> (command = commandProxy \<or> command = commandServer \<longrightarrow> resume_ok (cfg_resume c2))"
    using 1 c2 ok parse_resume_ok by (auto simp: rbind_Inr split: if_splits)
  show ?thesis
  proof (cases "command = commandProxy \<or> command = commandProbe")
    case True
    with c3 obtain p paths where p: "parse_probe (rw_probe raw) = Inr p" "parse_path_list parseURL (rw_paths raw) = Inr paths"
      and c: "c = c2\<lparr>cfg_probe := p, cfg_paths := paths\<rparr>" by (auto simp: rbind_Inr)
    from True 2 c parse_probe_ok [OF _ p(1)] parse_path_list_ok [OF p(2)] ok show ?thesis
      by (simp add: config_ok_def commandProxy_def commandServer_def commandProbe_def)
  next
    case False
    with c3 2 show ?thesis by (simp add: config_ok_def commandProxy_def commandServer_def commandProbe_def)
  qed
qed

text \<open>Sections that set nothing are accepted, with the defaults.\<close>

lemma empty_resume: "parse_resume Map.empty = Inr \<lparr>rc_timeout = defaultResumeTimeout, rc_buffer = defaultResumeBufferBytes\<rparr>"
  by (simp add: parse_resume_def optionalDuration_def optionalInt_def rbind_def second_def)

lemma empty_probe: "\<exists>p. parse_probe Map.empty = Inr p \<and> probe_ok p"
proof -
  have "\<exists>p. parse_probe Map.empty = Inr p"
    by (simp add: parse_probe_def optionalDuration_def optionalInt_def optionalFloat_def rbind_def second_def millisecond_def f64_negative_def)
  moreover have "raw_ok Map.empty" by (simp add: raw_ok_def)
  ultimately show ?thesis using parse_probe_ok by blast
qed

text \<open>
  C25. A configuration that \<open>ParseConfig\<close> accepts is well formed for its command: schema version 1 and a
  name; a server has an absolute HTTP path; a proxy and a server have a positive resume timeout and buffer;
  a proxy and a probe have positive intervals and thresholds, a finite ratio that is not negative, and at least one enabled path, with
  distinct names, WebSocket endpoints and priorities that fit an integer. All numbers are in the range of their Go type.
\<close>

theorem parsed_config_ok:
  assumes "ParseConfig parseURL data command = Inr c"
  shows "config_ok parseURL command c"
  using assms by (rule ParseConfig_ok)

definition demo_url :: url_parser where
  "demo_url s = (if has_prefix s ''wss://'' then Inr (''wss'', drop 6 s) else Inl (NetErr ''bad''))"

definition demo_file :: string where
  "demo_file = join_with [CHR 0x0A]
     [''schema_version = 1 # one'', ''name = '' @ go_quote ''a'', [], ''[[paths]]'', ''name = '' @ go_quote ''p'',
      ''endpoint = '' @ go_quote ''wss://h'', ''[resume]'', ''buffer_bytes = 64'']"

definition demo_parsed :: config where
  "demo_parsed = zero_config\<lparr>cfg_schema := 1, cfg_name := ''a'', cfg_resume := \<lparr>rc_timeout = 60 * second, rc_buffer = 64\<rparr>,
     cfg_probe := \<lparr>pr_interval = 3 * second, pr_timeout = 2 * second, pr_switch_cooldown = 10 * second, pr_active_failures = 2,
       pr_candidate_successes = 3, pr_better_min_delta = 30 * millisecond, pr_better_ratio = Fin (1 / 4)\<rparr>,
     cfg_paths := [\<lparr>pc_name = ''p'', pc_transport = ''ws'', pc_endpoint = ''wss://h'', pc_priority = 0, pc_enabled = True\<rparr>]\<rparr>"

lemma demo_file_parsed: "ParseConfig demo_url demo_file ''proxy'' = Inr demo_parsed"
  by code_simp

theorem parsed_config_ok_witness:
  "ParseConfig demo_url demo_file ''proxy'' = Inr demo_parsed \<and> config_ok demo_url ''proxy'' demo_parsed"
  using parsed_config_ok [OF demo_file_parsed] demo_file_parsed by simp

section \<open>The first bad line\<close>

lemma toml_lines_error:
  assumes "toml_lines i lines sect raw = Inl e"
  shows "\<exists>k < length lines. \<exists>raw' msg. toml_lines i (take k lines) sect raw = Inr raw'
    \<and> (\<forall>rest. toml_lines i (take (Suc k) lines @ rest) sect raw = Inl e) \<and> error_text e = at_line (i + k) msg"
  using assms
proof (induction lines arbitrary: i sect raw)
  case (Cons line lines)
  show ?case
  proof (cases "toml_line i line sect raw")
    case (Inl e')
    with Cons.prems have e: "e' = e" by simp
    have "\<exists>msg. error_text e = at_line i msg"
      using Inl e by (auto simp: toml_line_def Let_def at_line_def split: if_splits prod.splits sum.splits)
    with Inl e show ?thesis by (intro exI [where x = 0]) auto
  next
    case (Inr sr)
    obtain sect' raw' where sr: "sr = (sect', raw')" by (cases sr)
    with Inr Cons.prems have "toml_lines (i + 1) lines sect' raw' = Inl e" by simp
    from Cons.IH [OF this] obtain k r msg where k: "k < length lines" "toml_lines (i + 1) (take k lines) sect' raw' = Inr r"
      "\<forall>rest. toml_lines (i + 1) (take (Suc k) lines @ rest) sect' raw' = Inl e" "error_text e = at_line (i + 1 + k) msg" by blast
    with Inr sr show ?thesis by (intro exI [where x = "Suc k"]) auto
  qed
qed simp

text \<open>
  C27. A file that \<open>parseTOML\<close> refuses is refused for its first bad line: the lines before it are accepted,
  the error names its number, counted from one, and nothing that follows it changes the error.
\<close>

theorem parse_error_names_first_bad_line:
  assumes "parseTOML data = Inl e"
  shows "\<exists>k msg. k < length (split_char (CHR 0x0A) data)
    \<and> (\<exists>raw. toml_lines 0 (take k (split_char (CHR 0x0A) data)) ''top'' empty_raw = Inr raw)
    \<and> (\<forall>rest. toml_lines 0 (take (Suc k) (split_char (CHR 0x0A) data) @ rest) ''top'' empty_raw = Inl e)
    \<and> error_text e = ''line '' @ dec_nat (k + 1) @ '': '' @ msg"
  using toml_lines_error [OF assms [unfolded parseTOML_def]] by (fastforce simp: at_line_def)

definition demo_bad_file :: string where
  "demo_bad_file = ''# x'' @ [CHR 0x0A] @ ''b''"

lemma demo_bad_error: "parseTOML demo_bad_file = Inl (Errorf ''line 2: expected key = value'')"
proof -
  have "(case parseTOML demo_bad_file of Inl e \<Rightarrow> e = Errorf ''line 2: expected key = value'' | Inr raw \<Rightarrow> False)" by code_simp
  then show ?thesis by (auto split: sum.splits)
qed

theorem parse_error_names_first_bad_line_witness:
  "\<exists>k msg. k < length (split_char (CHR 0x0A) demo_bad_file)
    \<and> (\<exists>raw. toml_lines 0 (take k (split_char (CHR 0x0A) demo_bad_file)) ''top'' empty_raw = Inr raw)
    \<and> (\<forall>rest. toml_lines 0 (take (Suc k) (split_char (CHR 0x0A) demo_bad_file) @ rest) ''top'' empty_raw
         = Inl (Errorf ''line 2: expected key = value''))
    \<and> error_text (Errorf ''line 2: expected key = value'') = ''line '' @ dec_nat (k + 1) @ '': '' @ msg"
  by (rule parse_error_names_first_bad_line [OF demo_bad_error])

section \<open>Quoted values\<close>

text \<open>A quoted string is copied by \<open>stripComment\<close>, whatever it contains.\<close>

lemma strip_plain: "CHR 0x22 \<notin> set s \<and> CHR 0x5C \<notin> set s \<Longrightarrow> strip_comment_from True False (s @ r) = s @ strip_comment_from True False r"
  by (induction s) auto

lemma utf8_no_ascii:
  assumes "utf8_width (c # s) = Some n" and "\<not> code_of c < 0x80" and "x \<in> set (take n (c # s))"
  shows "\<not> code_of x < 0x80"
proof (cases s)
  case Nil
  with assms show ?thesis by (auto simp: utf8_width_def in_range_def split: if_splits)
next
  case (Cons d r)
  with assms show ?thesis
    by (cases r; cases "tl r") (auto simp: utf8_width_def in_range_def split: if_split_asm)
qed

lemma hex_digit_plain: "n < 16 \<Longrightarrow> hex_digit n \<noteq> CHR 0x22 \<and> hex_digit n \<noteq> CHR 0x5C"
proof -
  assume "n < 16"
  moreover have "hex_value (CHR 0x22) = None" "hex_value (CHR 0x5C) = None" by (simp_all add: hex_value_def in_range_def)
  ultimately show ?thesis by (metis hex_value_digit option.distinct(1))
qed

lemma strip_quote_ascii:
  assumes "code_of c < 0x80"
  shows "strip_comment_from True False (quote_ascii c @ r) = quote_ascii c @ strip_comment_from True False r"
proof -
  have "code_of c div 16 < 16" "code_of c mod 16 < 16" using assms by auto
  from this [THEN hex_digit_plain] show ?thesis by (simp add: quote_ascii_def)
qed

lemma strip_quote_body: "strip_comment_from True False (quote_body s @ r) = quote_body s @ strip_comment_from True False r"
proof (induction s rule: quote_body.induct)
  case (2 c s)
  show ?case
  proof (cases "code_of c < 0x80")
    case True
    with 2(1) show ?thesis by (simp add: quote_body.simps(2) strip_quote_ascii)
  next
    case False
    show ?thesis
    proof (cases "utf8_width (c # s)")
      case None
      have "code_of c div 16 < 16" "code_of c mod 16 < 16"
        using nat_of_char_less_256 [of c] by linarith+
      from this [THEN hex_digit_plain] False None 2(2) show ?thesis by (simp add: quote_body.simps(2))
    next
      case (Some n)
      have "CHR 0x22 \<notin> set (take n (c # s))" "CHR 0x5C \<notin> set (take n (c # s))"
        using utf8_no_ascii [OF Some False] by fastforce+
      with False Some 2(3) [OF False Some] strip_plain [of "take n (c # s)"] show ?thesis by (simp add: quote_body.simps(2))
    qed
  qed
qed simp

lemma strip_keyed:
  assumes "CHR 0x22 \<notin> set k" and "CHR ''#'' \<notin> set k"
  shows "stripComment (k @ go_quote s) = k @ go_quote s"
proof -
  have "strip_comment_from False False (k @ r) = k @ strip_comment_from False False r" for r
    using assms by (induction k) auto
  then show ?thesis by (simp add: stripComment_def go_quote_def strip_quote_body)
qed

text \<open>Trimming the line, the key and the quoted value.\<close>

definition plain_ends :: "char \<Rightarrow> bool" where
  "plain_ends c \<longleftrightarrow> list_all (\<lambda>p. p \<noteq> [] \<and> hd p \<noteq> c \<and> last p \<noteq> c) space_runes"

lemma trim_left_head:
  assumes "plain_ends c"
  shows "trim_left (c # r) = c # r"
proof -
  have "\<not> has_prefix (c # r) p" if "p \<in> set space_runes" for p
  proof -
    from that assms have "p \<noteq> []" "hd p \<noteq> c" by (auto simp: plain_ends_def list_all_iff)
    then show ?thesis by (cases p) (auto simp: has_prefix_def)
  qed
  then have "leading_space (c # r) = 0" by (auto simp: leading_space_def find_None_iff split: option.split dest: find_Some_iff [THEN iffD1])
  then show ?thesis by (subst trim_left.simps) simp
qed

lemma trim_right_end:
  assumes "plain_ends c"
  shows "trim_right (r @ [c]) = r @ [c]"
proof -
  have "\<not> has_suffix (r @ [c]) p" if "p \<in> set space_runes" for p
  proof
    assume h: "has_suffix (r @ [c]) p"
    from that assms have n: "p \<noteq> []" "last p \<noteq> c" by (auto simp: plain_ends_def list_all_iff)
    from h obtain q where "r @ [c] = q @ p" by (metis has_suffix_def append_take_drop_id)
    with n show False by (metis last_appendR last_snoc)
  qed
  then have "trailing_space (r @ [c]) = 0" by (auto simp: trailing_space_def find_None_iff split: option.split dest: find_Some_iff [THEN iffD1])
  then show ?thesis by (subst trim_right.simps) simp
qed

lemma plain_quote: "plain_ends (CHR 0x22)"
  by code_simp

lemma trim_left_space: "trim_left (CHR '' '' # CHR 0x22 # s) = CHR 0x22 # s"
proof -
  have "leading_space (CHR '' '' # CHR 0x22 # s) = 1" by (simp add: leading_space_def space_runes_def has_prefix_def)
  then show ?thesis by (subst trim_left.simps) (simp add: trim_left_head [OF plain_quote])
qed

definition all_keys :: "string list" where
  "all_keys = concat (map allowed_keys [''top'', ''server'', ''resume'', ''probe'', ''paths''])"

lemma all_keys_facts: "list_all (\<lambda>key. key \<noteq> [] \<and> plain_ends (hd key) \<and> CHR 0x22 \<notin> set key \<and> CHR ''#'' \<notin> set key
    \<and> CHR ''='' \<notin> set key \<and> hd key \<noteq> CHR ''['' \<and> trim_space (key @ '' '') = key) all_keys"
  by code_simp

lemma allowed_in_all: "allowedKey sect key \<Longrightarrow> key \<in> set all_keys"
  by (auto simp: allowedKey_def allowed_keys_def all_keys_def split: if_splits)

text \<open>
  C26. A quoted value is read back unchanged: a line \<open>key = "..."\<close> with an allowed key that the section does not
  hold yet, whose value is the quotation of any byte string (with quotes, backslashes, hashes, brackets,
  equal signs, control characters or invalid UTF-8 inside), stores exactly that string under exactly that key.
\<close>

theorem quoted_value_roundtrip:
  assumes "allowedKey sect key" and "current_map sect raw key = None"
  shows "toml_line i (key @ '' = '' @ go_quote s) sect raw = Inr (sect, current_put sect key (RStr s) raw)"
proof -
  let ?line = "key @ '' = '' @ go_quote s"
  have key: "key \<noteq> []" "plain_ends (hd key)" "CHR 0x22 \<notin> set key" "CHR ''#'' \<notin> set key" "CHR ''='' \<notin> set key"
      "hd key \<noteq> CHR ''[''" and tkey: "trim_space (key @ '' '') = key"
    using all_keys_facts allowed_in_all [OF assms(1)] by (auto simp: list_all_iff)
  obtain a rest where a: "key = a # rest" using key(1) by (cases key) auto
  have strip: "stripComment ?line = ?line" using strip_keyed [of "key @ '' = ''" s] key by simp
  have "trim_left ?line = ?line" using key a by (simp add: trim_left_head)
  moreover have "trim_right ?line = ?line"
    using trim_right_end [OF plain_quote, of "key @ '' = '' @ CHR 0x22 # quote_body s"] by (simp add: go_quote_def)
  ultimately have trim: "trim_space ?line = ?line" by (simp only: trim_space_def)
  have nobr: "\<not> has_prefix ?line ''[''" "\<not> has_prefix ?line ''[[''" and ne: "?line \<noteq> []"
    using key a by (auto simp: has_prefix_def)
  have cut: "cut_char (CHR ''='') ?line = (key @ '' '', '' '' @ go_quote s, True)"
    using cut_char_append [of "CHR ''=''" "key @ '' ''" "'' '' @ go_quote s"] key by simp
  have tval: "trim_space ('' '' @ go_quote s) = go_quote s"
    using trim_right_end [OF plain_quote, of "CHR 0x22 # quote_body s"] by (simp add: trim_space_def go_quote_def trim_left_space)
  have val: "parseValue (go_quote s) = Inr (RStr s)"
    by (simp add: parseValue_def unquote_go_quote) (simp add: go_quote_def has_prefix_def)
  show ?thesis
    unfolding toml_line_def Let_def strip trim cut using assms by (simp add: ne nobr tkey tval val del: append.simps append_assoc)
qed

theorem quoted_value_roundtrip_witness:
  "toml_line 0 (''name'' @ '' = '' @ go_quote ''a#b'') ''top'' empty_raw = Inr (''top'', current_put ''top'' ''name'' (RStr ''a#b'') empty_raw)"
  by (rule quoted_value_roundtrip) (simp_all add: allowedKey_def allowed_keys_def current_map_def empty_raw_def)

end
