(* ===== verification/Command_Line.thy ===== *)
theory Command_Line
  imports Config_Props Protocol
begin

text \<open>
  The command line: internal/cli/cli.go, internal/cli/help.go, cmd/moltssh/main.go and the build
  information of internal/buildinfo. \<open>Run\<close> is modelled up to the point where it starts the tunnel with a
  configuration, and from its return on; \<open>flag.FlagSet.Parse\<close> is modelled for the one flag the commands
  define. \<open>net.SplitHostPort\<close> and \<open>net.ParseIP(_).IsLoopback()\<close> are parameters.
\<close>

section \<open>Build information\<close>

record build_info =
  bi_version :: string
  bi_commit :: string
  bi_go :: string

text \<open>What \<open>resolve\<close> reads of \<open>debug.BuildInfo\<close>.\<close>

record go_build =
  gb_main_version :: string
  gb_settings :: "(string \<times> string) list"

definition buildSetting :: "(string \<times> string) list \<Rightarrow> string \<Rightarrow> string" where
  "buildSetting settings key = (case find (\<lambda>s. fst s = key) settings of Some s \<Rightarrow> snd s | None \<Rightarrow> [])"

definition or_default :: "string \<Rightarrow> string \<Rightarrow> string" where
  "or_default s d = (if s = [] then d else s)"

definition resolve :: "string \<Rightarrow> string \<Rightarrow> string \<Rightarrow> go_build option \<Rightarrow> build_info" where
  "resolve injectedVersion injectedCommit goVersion goInfo =
     (let (version, commit) = (case goInfo of
        None \<Rightarrow> (injectedVersion, injectedCommit)
      | Some g \<Rightarrow>
          (if injectedVersion = [] \<and> gb_main_version g \<noteq> [] \<and> gb_main_version g \<noteq> ''(devel)'' then gb_main_version g else injectedVersion,
           if injectedCommit = [] then
             (let c = buildSetting (gb_settings g) ''vcs.revision'' in
              if c \<noteq> [] \<and> buildSetting (gb_settings g) ''vcs.modified'' = ''true'' then c @ ''-dirty'' else c)
           else injectedCommit)) in
      \<lparr>bi_version = or_default version ''dev'', bi_commit = or_default commit ''unknown'', bi_go = or_default goVersion ''unknown''\<rparr>)"

section \<open>Help\<close>

definition quoted :: "string \<Rightarrow> string" where
  "quoted s = [CHR 0x22] @ s @ [CHR 0x22]"

definition rootUsage :: "string list" where
  "rootUsage =
    [''MoltSSH: resumable OpenSSH ProxyCommand over WebSocket'',
     [],
     ''Usage:'',
     ''  moltssh COMMAND [OPTIONS]'',
     [],
     ''Commands:'',
     ''  proxy     Run as an OpenSSH ProxyCommand'',
     ''  server    Keep the stable TCP connection to sshd'',
     ''  probe     Check configured WebSocket paths and timing phases'',
     ''  version   Print version, commit, and Go toolchain'',
     ''  help      Show help for a command'',
     [],
     ''Run '' @ quoted ''moltssh help COMMAND'' @ '' for command-specific help.'',
     [],
     ''Security:'',
     ''  MoltSSH has no application-layer authentication. Keep the raw server'',
     ''  listener on loopback or behind a protected private access layer.'']"

definition proxyUsage :: "string list" where
  "proxyUsage =
    [''Usage:'', ''  moltssh proxy --config FILE'', [],
     ''Run MoltSSH as an OpenSSH ProxyCommand using paths from FILE.'',
     ''Troubleshooting: run '' @ quoted ''moltssh probe --config FILE'' @ '' to inspect DNS, TCP,'',
     ''TLS, WebSocket upgrade, and MoltSSH handshake timing.'']"

definition serverUsage :: "string list" where
  "serverUsage =
    [''Usage:'', ''  moltssh server --config FILE'', [],
     ''Serve the resumable WebSocket protocol and keep a stable TCP connection to sshd.'',
     ''Security: the server has no application-layer authentication. Bind to loopback'',
     ''or place it behind a protected reverse proxy or private access layer.'']"

definition probeUsage :: "string list" where
  "probeUsage =
    [''Usage:'', ''  moltssh probe --config FILE'', [],
     ''Probe every enabled WebSocket path and print phase timings.'',
     ''Use failed_phase to identify DNS, TCP, TLS, WebSocket upgrade, or MoltSSH ping/pong failures.'']"

definition versionUsage :: "string list" where
  "versionUsage =
    [''Usage:'', ''  moltssh version'', [],
     ''Print the MoltSSH version, source commit, and Go toolchain version.'']"

definition printVersion :: "build_info \<Rightarrow> string list" where
  "printVersion info = [''moltssh'', ''  version: '' @ bi_version info, ''  commit: '' @ bi_commit info, ''  go: '' @ bi_go info]"

definition hint :: "string \<Rightarrow> string" where
  "hint s = [CHR 0x0A] @ ''hint: '' @ s"

definition run_hint :: "string \<Rightarrow> string" where
  "run_hint s = hint (''run '' @ quoted s)"

text \<open>What a finished command printed on the standard output and its error.\<close>

definition runHelp :: "string list \<Rightarrow> string list \<times> gerror option" where
  "runHelp args = (case args of
     [] \<Rightarrow> (rootUsage, None)
   | [topic] \<Rightarrow>
       (if topic = ''proxy'' then (proxyUsage, None)
        else if topic = ''server'' then (serverUsage, None)
        else if topic = ''probe'' then (probeUsage, None)
        else if topic = ''version'' then (versionUsage, None)
        else ([], Some (Errorf (''unknown help topic '' @ go_quote topic @ run_hint ''moltssh --help''))))
   | _ \<Rightarrow> ([], Some (Errorf (''help accepts at most one command'' @ run_hint ''moltssh --help''))))"

definition missingConfigError :: "string \<Rightarrow> gerror" where
  "missingConfigError command = Errorf (command @ '' requires --config FILE'' @ run_hint (''moltssh help '' @ command))"

text \<open>\<open>strings.EqualFold\<close> with an ASCII word is the folding of names that encoding/json uses, too.\<close>

record host_functions =
  hf_split :: "string \<Rightarrow> string result"
  hf_loopback :: "string \<Rightarrow> bool"

definition serverSecurityWarning :: "host_functions \<Rightarrow> string \<Rightarrow> string" where
  "serverSecurityWarning hf listen = (case hf_split hf listen of
     Inr host \<Rightarrow> if fold_name host = fold_name ''localhost'' \<or> hf_loopback hf host then [] else
       ''warning: server.listen='' @ go_quote listen @ '' is not loopback and MoltSSH has no application-layer authentication; place the raw listener behind a protected reverse proxy or private access layer''
   | Inl e \<Rightarrow>
       ''warning: server.listen='' @ go_quote listen @ '' is not loopback and MoltSSH has no application-layer authentication; place the raw listener behind a protected reverse proxy or private access layer'')"

section \<open>Flags\<close>

text \<open>\<open>FlagSet.Parse\<close> with the string flag \<open>config\<close>: its value and the arguments that are left, or an error,
  which is \<open>None\<close> for \<open>flag.ErrHelp\<close>.\<close>

definition flag_name :: "string \<Rightarrow> string \<times> string option" where
  "flag_name s = (case cut_char (CHR ''='') s of (a, b, ok) \<Rightarrow> if ok then (a, Some b) else (s, None))"

fun parse_flags :: "string list \<Rightarrow> string \<Rightarrow> (gerror option) + (string \<times> string list)" where
  "parse_flags [] config = Inr (config, [])"
| "parse_flags (s # args) config =
     (if length s < 2 \<or> hd s \<noteq> CHR ''-'' then Inr (config, s # args)
      else if s = ''--'' then Inr (config, args)
      else
        let name = (if s ! 1 = CHR ''-'' then drop 2 s else drop 1 s) in
        if name = [] \<or> hd name = CHR ''-'' \<or> hd name = CHR ''='' then Inl (Some (Errorf (''bad flag syntax: '' @ s)))
        else case flag_name name of (flag, val) \<Rightarrow>
          if flag \<noteq> ''config'' then
            (if flag = ''help'' \<or> flag = ''h'' then Inl None else Inl (Some (Errorf (''flag provided but not defined: -'' @ flag))))
          else case (val, args) of
            (Some v, _) \<Rightarrow> parse_flags args v
          | (None, v # rest) \<Rightarrow> parse_flags rest v
          | (None, []) \<Rightarrow> Inl (Some (Errorf (''flag needs an argument: -'' @ flag))))"

section \<open>The commands\<close>

text \<open>A command ends with an error or none, or it starts the tunnel on a configuration loaded from a file.\<close>

datatype cli_action = Ends "gerror option" | Starts string string config

record cli_result =
  cr_stdout :: "string list"
  cr_stderr :: "string list"
  cr_action :: cli_action

definition ended :: "string list \<Rightarrow> string list \<Rightarrow> gerror option \<Rightarrow> cli_result" where
  "ended out err e = \<lparr>cr_stdout = out, cr_stderr = err, cr_action = Ends e\<rparr>"

definition command_usage :: "string \<Rightarrow> string list" where
  "command_usage command = (if command = ''proxy'' then proxyUsage else if command = ''server'' then serverUsage else probeUsage)"

definition load_hint :: "string \<Rightarrow> string \<Rightarrow> string" where
  "load_hint command path =
     (if command = ''proxy'' then ''check the TOML file, then run '' @ quoted (''moltssh probe --config '' @ path)
      else if command = ''server'' then ''verify server.listen and server.connect, then run '' @ quoted ''moltssh help server''
      else ''verify each paths[].endpoint and retry'')"

text \<open>\<open>runProxy\<close>, \<open>runServer\<close> and \<open>runProbe\<close> up to the start of the tunnel; they differ in their texts and in
  the warning of the server. \<open>wrapped\<close> is \<open>fmt.Errorf\<close> with text on both sides of \<open>%w\<close>; nobody unwraps these errors.\<close>

definition wrapped :: "string \<Rightarrow> gerror \<Rightarrow> string \<Rightarrow> gerror" where
  "wrapped before e after = Wrapf before (Errorf (error_text e @ after))"

definition run_command :: "file_functions \<Rightarrow> url_parser \<Rightarrow> host_functions \<Rightarrow> string \<Rightarrow> string list \<Rightarrow> cli_result" where
  "run_command ff parseURL hf command args = (case parse_flags args [] of
     Inl None \<Rightarrow> ended (command_usage command) [] None
   | Inl (Some e) \<Rightarrow> ended [] [] (Some (wrapped (''parse '' @ command @ '' arguments: '') e (run_hint (''moltssh help '' @ command))))
   | Inr (path, rest) \<Rightarrow>
       if rest \<noteq> [] then ended [] [] (Some (Errorf (command @ '' accepts no positional arguments'' @ run_hint (''moltssh help '' @ command))))
       else if path = [] then ended [] [] (Some (missingConfigError command))
       else case LoadConfigFile ff parseURL path command of
         Inl e \<Rightarrow> ended [] [] (Some (wrapped (''load '' @ command @ '' config '' @ go_quote path @ '': '') e (hint (load_hint command path))))
       | Inr cfg \<Rightarrow>
           \<lparr>cr_stdout = [], cr_stderr = (if command = ''server'' \<and> serverSecurityWarning hf (sv_listen (cfg_server cfg)) \<noteq> []
               then [serverSecurityWarning hf (sv_listen (cfg_server cfg))] else []),
            cr_action = Starts command path cfg\<rparr>)"

text \<open>The error of a command after the tunnel returned.\<close>

definition command_ended :: "string \<Rightarrow> string \<Rightarrow> gerror option \<Rightarrow> gerror option" where
  "command_ended command path res = (case res of
     None \<Rightarrow> None
   | Some e \<Rightarrow> Some (
       if command = ''proxy'' then wrapped ''proxy session failed: '' e
         (run_hint (''moltssh probe --config '' @ path) @ '' to identify the failing network phase'')
       else if command = ''server'' then wrapped ''server failed: '' e
         (hint ''verify that server.listen is available and server.connect reaches sshd'')
       else wrapped ''probe failed: '' e
         (hint ''inspect failed_phase to distinguish DNS, TCP, TLS, WebSocket upgrade, and MoltSSH ping/pong failures'')))"

definition runProxy :: "file_functions \<Rightarrow> url_parser \<Rightarrow> host_functions \<Rightarrow> string list \<Rightarrow> cli_result" where
  "runProxy ff parseURL hf args = run_command ff parseURL hf ''proxy'' args"

definition runServer :: "file_functions \<Rightarrow> url_parser \<Rightarrow> host_functions \<Rightarrow> string list \<Rightarrow> cli_result" where
  "runServer ff parseURL hf args = run_command ff parseURL hf ''server'' args"

definition runProbe :: "file_functions \<Rightarrow> url_parser \<Rightarrow> host_functions \<Rightarrow> string list \<Rightarrow> cli_result" where
  "runProbe ff parseURL hf args = run_command ff parseURL hf ''probe'' args"

definition Run :: "file_functions \<Rightarrow> url_parser \<Rightarrow> host_functions \<Rightarrow> build_info \<Rightarrow> string list \<Rightarrow> cli_result" where
  "Run ff parseURL hf info args = (case args of
     [] \<Rightarrow> ended rootUsage [] None
   | a # rest \<Rightarrow>
       if a = ''proxy'' then runProxy ff parseURL hf rest
       else if a = ''server'' then runServer ff parseURL hf rest
       else if a = ''probe'' then runProbe ff parseURL hf rest
       else if a = ''version'' \<or> a = ''-v'' \<or> a = ''--version'' then
         (if rest \<noteq> [] then ended [] [] (Some (Errorf (''version accepts no arguments'' @ run_hint ''moltssh help version'')))
          else ended (printVersion info) [] None)
       else if a = ''help'' then (case runHelp rest of (out, e) \<Rightarrow> ended out [] e)
       else if a = ''-h'' \<or> a = ''--help'' then
         (if rest \<noteq> [] then ended [] [] (Some (Errorf (''--help accepts no arguments'' @ run_hint ''moltssh help COMMAND'')))
          else ended rootUsage [] None)
       else ended [] rootUsage (Some (Errorf (''unknown command '' @ go_quote a @ run_hint ''moltssh --help''))))"

text \<open>The line of \<open>main\<close> on the standard error, and the exit status.\<close>

definition main_exit :: "gerror option \<Rightarrow> string list \<times> nat" where
  "main_exit e = (case e of None \<Rightarrow> ([], 0) | Some x \<Rightarrow> ([''moltssh: '' @ error_text x], 1))"

section \<open>What is started\<close>

lemma LoadConfigFile_ok: "LoadConfigFile ff parseURL path command = Inr cfg \<Longrightarrow>
    path \<noteq> [] \<and> config_ok parseURL command cfg \<and> (\<exists>data. ff_read ff path = Inr data)"
  by (auto simp: LoadConfigFile_def rbind_Inr config_ok_def dest!: ParseConfig_ok split: if_splits)

text \<open>
  C21. The tunnel is started only by one of the three commands, on the file that \<open>--config\<close> names last
  and nothing else on the command line, and only with a configuration of that file which is well formed for that
  command. The server warns unless it listens on a loopback address.
\<close>

theorem cli_starts_checked_config:
  assumes "cr_action (Run ff parseURL hf info args) = Starts command path cfg"
  shows "\<exists>flags. args = command # flags \<and> command \<in> {''proxy'', ''server'', ''probe''} \<and> parse_flags flags [] = Inr (path, [])
    \<and> path \<noteq> [] \<and> LoadConfigFile ff parseURL path command = Inr cfg \<and> config_ok parseURL command cfg
    \<and> cr_stderr (Run ff parseURL hf info args) = (if command = ''server'' \<and> serverSecurityWarning hf (sv_listen (cfg_server cfg)) \<noteq> []
         then [serverSecurityWarning hf (sv_listen (cfg_server cfg))] else [])"
proof (cases args)
  case (Cons a rest)
  show ?thesis
  proof (cases "a = ''proxy'' \<or> a = ''server'' \<or> a = ''probe''")
    case True
    then have run: "Run ff parseURL hf info args = run_command ff parseURL hf a rest" by (auto simp: Run_def Cons runProxy_def runServer_def runProbe_def)
    from assms run obtain v where p: "parse_flags rest [] = Inr (v, [])" and l: "LoadConfigFile ff parseURL v a = Inr cfg"
      and eq: "command = a" "path = v" "v \<noteq> []"
      by (auto simp: run_command_def ended_def split: sum.splits option.splits prod.splits if_splits)
    have "cr_stderr (run_command ff parseURL hf a rest) = (if a = ''server'' \<and> serverSecurityWarning hf (sv_listen (cfg_server cfg)) \<noteq> []
         then [serverSecurityWarning hf (sv_listen (cfg_server cfg))] else [])"
      using p l eq by (simp add: run_command_def)
    with LoadConfigFile_ok [OF l] True p l eq Cons run show ?thesis by auto
  next
    case False
    with assms Cons show ?thesis by (auto simp: Run_def ended_def split: if_splits prod.splits)
  qed
qed (use assms in \<open>simp add: Run_def ended_def\<close>)

definition demo_files :: file_functions where
  "demo_files = \<lparr>ff_read = (\<lambda>p. Inr demo_file), ff_abs = Inr, ff_clean = id, ff_links = Inr\<rparr>"

definition demo_hosts :: host_functions where
  "demo_hosts = \<lparr>hf_split = Inr, hf_loopback = (\<lambda>h. False)\<rparr>"

theorem cli_starts_checked_config_witness:
  "\<exists>cfg. cr_action (Run demo_files demo_url demo_hosts \<lparr>bi_version = [], bi_commit = [], bi_go = []\<rparr> [''proxy'', ''--config'', ''m''])
      = Starts ''proxy'' ''m'' cfg \<and> config_ok demo_url ''proxy'' cfg"
proof -
  let ?run = "Run demo_files demo_url demo_hosts \<lparr>bi_version = [], bi_commit = [], bi_go = []\<rparr> [''proxy'', ''--config'', ''m'']"
  have "\<exists>cfg. cr_action ?run = Starts ''proxy'' ''m'' cfg"
    by (simp add: Run_def runProxy_def run_command_def flag_name_def LoadConfigFile_def demo_files_def demo_file_parsed)
  then obtain cfg where s: "cr_action ?run = Starts ''proxy'' ''m'' cfg" by blast
  from cli_starts_checked_config [OF this] s show ?thesis by blast
qed

end
