(* ===== verification/Spec2Isabelle.thy ===== *)
theory Spec2Isabelle
  imports Recovery Locked_Pipes Entry_Points Path_State Dial Report Command_Line
begin

text \<open>
  A verification library of MoltSSH, an OpenSSH ProxyCommand that carries one SSH connection over
  WebSockets and survives the loss of each of them. The proxy (internal/tunnel/client*.go) reads standard
  input and writes standard output; the server (server*.go) holds the TCP connection to sshd. Both number
  the bytes of each direction, keep what the peer has not acknowledged, and resend it after a resume, which
  the server counts in epochs. Around this core the proxy probes several paths, picks one, watches it with
  heartbeats, switches and reconnects. This text says which theory models what, what is shown, and what is
  left out.

  FOUNDATIONS. Prelude: machine types and Go errors as values (\<open>gerror\<close>, results as sums, the \<open>Error\<close> methods,
  \<open>errors.As\<close>, \<open>errors.Is\<close>, \<open>errors.Join\<close>). Go_Float, Go_Strings, Go_Parse, Json: the parts of Go's library the program
  calls, on byte strings: rounding of float64, \<open>strings\<close> and \<open>strconv.Quote\<close>, \<open>Unquote\<close>, \<open>ParseFloat\<close>,
  \<open>time.ParseDuration\<close>, and encoding/json. Streams: WebSocket connections and writers that may take only part
  of a write, \<open>writeAll\<close> and the chunking of \<open>sendDataChunks\<close> (util.go), and three interfaces as locales:
  \<open>io_writer\<close> (what any writer logs), \<open>ack_sender\<close> (a side that appends, is acknowledged and resends) and
  \<open>ordered_receiver\<close> (a side that takes only the next bytes). They are interpreted on the state of the
  server (Server_Session) and of the client (Client_Inv), and the stream invariants come from there.
  Step_Systems: \<open>step_system\<close>, a step relation with an invariant, \<open>refinement\<close>, a system whose runs are runs of a
  specification, and \<open>component_system\<close>, a system inside a larger one; every step relation of the library is an
  interpretation, and what holds of runs is proved once there.

  WIRE FORMAT (protocol.go). Protocol and Frame_Size: the frame header with its struct tags, the envelope,
  the limits and every error; writing and reading are inverse, and a header of the protocol fits its limit.

  SERVER (server_session.go, server_io.go, server.go). Server_Session: one session (\<open>server_session\<close> is the
  struct) inside \<open>sworld\<close>, which adds the clock, the sockets and its entry in the table; each handler is one
  function (\<open>run_frame\<close>, \<open>resume\<close>, \<open>handleClientData\<close>, \<open>reader_check\<close> and \<open>reader_read\<close> for the rounds of \<open>readTarget\<close>,
  \<open>disconnect\<close>, \<open>disconnectTTL_fires\<close>, \<open>closeTerminal\<close>). Server_Inv: the step relation \<open>session_step\<close> and its invariant.
  Server_Props: exact offsets, bounded buffer, truthful frames, fencing, the frames of a resume, finality.
  Server: the listener with its handshake, the table of sessions, \<open>accept\<close> and \<open>handle\<close>, with the invariant of the table.
  Identity (util.go): session identifiers and nonces as the base64 text of the bytes that were drawn, and the server that
  draws them; no two sessions share an identifier unless the random source repeats itself.

  CLIENT (client.go, client_state.go, client_io.go, client_receive.go, client_session.go). Client_Runtime: \<open>clientRuntime\<close>
  as \<open>client_runtime\<close> in \<open>client_world\<close> (streams, sockets, trackers, clock), \<open>stdinLoop\<close> by its rounds with the state
  of the goroutine explicit, \<open>receiveLoop\<close> as \<open>receive_frame\<close>, \<open>commitActivation\<close>. Client_Session: the hello
  exchange and the step relation \<open>client_step\<close>, in which every operation may come between any two others, also a
  hello with a request taken earlier. Client_Inv, Client_Props: the same kinds of theorems as for the server.

  BOTH ENDS. Tunnel composes the two step relations over a network that delivers any frame ever sent on a
  connection, late, twice or never; its theorems (Tunnel_Props) need no assumption on the order of deliveries.
  The client and the session are its two components (\<open>component_system\<close>), so their own theorems carry over. Recovery: from
  every reachable state in which neither side has ended, one resume and the frames it sends deliver all bytes of both
  directions.
  Server_Races and the end of Tunnel_Props show behaviours that a handler split at its unlocked stretches has.

  LOCKS. Goroutines: a goroutine is the list of the stretches it still has to do (one locked section, send, write or close
  each), a pool is a world with its goroutines, and any of them may go next. Two locales say what each stretch has to
  keep so that every interleaving keeps the invariant (\<open>goroutine_pool\<close>), and what makes the delivery of a stream exact
  (\<open>exclusive_delivery\<close>). Server_Locks and Client_Locks are the session and the client again at this grain (\<open>exec\<close>,
  \<open>client_exec\<close>) and interpret both locales: the handlers of Server_Session and Client_Runtime are the uninterrupted runs, the
  invariants hold under every interleaving, and delivery is exact as long as no two deliveries overlap (Server_Races shows
  what happens when they do). Locked_Tunnel composes the two pools over the network. Pipe is the specification of the whole tunnel,
  two reliable pipes without connections, offsets or epochs, and Locked_Pipes shows that the composition refines it, the
  ends of the streams included. An activation is split like the rest: the hello, each frame read after it, \<open>commitActivation\<close>
  and each frame of the replay are stretches of their own. The wakeup that \<open>finish\<close> loses is at the end of Client_Locks.

  PATHS. Dial (dial.go): resolving, the race of TCP dials, TLS, the upgrade, and who closes what. Probe, Probe_Batch
  (probe.go): a candidate and its ownership; the ranking, shown equal to a stable sort by a key through the locale
  \<open>keyed_less\<close>; a batch and its workers. Connect, Connect_Props (client_connect.go, client_connect_first.go):
  \<open>connectAny\<close> with direct activation and promotion; nothing leaks. Heartbeat (heartbeat.go) and Switch, Switch_Props
  (client_heartbeat.go, client_switch.go): the tracker, a heartbeat, the statistics and the decision of a cycle;
  Retry, Reconnect (retry.go, client_reconnect.go): delays and the deadline of an outage. Proxy_Loops: the start of \<open>Proxy\<close>,
  \<open>reconnectLoop\<close> and \<open>switchLoop\<close> on the client; with \<open>connectAny\<close> and \<open>runSwitchCycle\<close> they refine its step relation.
  Entry_Points (tunnel.go, server.go): \<open>Serve\<close>, and \<open>Proxy\<close> with its goroutines as a system that refines the client; the
  outcome is decided once and \<open>Proxy\<close> returns it. Path_State (path_state.go): the cache of the last good path over a file
  system whose every call may fail. Report (probe_command.go, client_dial_log.go, util.go): records, log lines and redaction.

  CONFIGURATION AND COMMAND LINE. Config_Types, Config_Parse, Config_Props (config.go, config_parse.go, config_values.go): the
  TOML subset, the typed lookups with the defaults, \<open>ParseConfig\<close> and what it promises. Command_Line (internal/cli, internal/buildinfo,
  cmd/moltssh): arguments up to the start of the tunnel, help and build information.

  CORRESPONDENCE. A struct is a record with prefixed fields, a mutex-protected section is one function, an
  unlocked stretch between two sections is a separate function where other goroutines matter (everywhere in the theories
  under LOCKS), a goroutine is a field that says where it stands or a list of stretches, a channel of capacity one is a list. \<open>uint64\<close> offsets and epochs are words and wrap;
  Go \<open>int\<close> values that only count small things are integers. A blocking wait is a value (\<open>Sleep\<close>, or an outer \<open>None\<close>).
  Inputs of a function that come from the environment (results of dials and reads, contexts, clocks, nonces) are
  arguments; in an input list the end means that the goroutine still waits.

  BOUNDS AND FUEL. Stream lengths stay below 2 to the 64 (\<open>stream_limit\<close>) in the step relations, since the offsets
  wrap there. The JSON parser spends one unit of fuel per call, and twice the length of the text is enough; nesting is
  limited to 10000 as in Go. All other recursions are structural or have a measure.

  NOT MODELLED. net/http and the WebSocket package below a whole message; \<open>url.Parse\<close>, the functions of filepath, SHA-256,
  the random source, name resolution (parameters or inputs; the hypotheses on them are in the theorems); the text of encoding/json errors; the table of
  \<open>unicode.IsPrint\<close> (runes beyond ASCII are printed as they are by \<open>%q\<close>); closing a session is one step
  except in Server_Locks. The functions of Connect and Switch run as one goroutine executes them; what others do meanwhile is
  an argument there and an interleaving in \<open>client_step\<close>; at the grain of the locks their hello and activation are stretches
  of Client_Locks. The registration of the handler with net/http's mux in \<open>serveListener\<close> and the log lines of the server.
\<close>

section \<open>The wire format\<close>

text \<open>
  C15. The wire format loses nothing: reading a message that \<open>writeFrame\<close> built returns the header and the
  payload that were written, for every header whose strings are valid UTF-8 and whose signed fields are
  64-bit.
\<close>

theorem frame_roundtrip:
  assumes "wf_header h" and "writeFrame h p = Inr msg"
  shows "readFrame msg = Inr (h, p)"
  using assms by (rule readFrame_writeFrame)

theorem frame_roundtrip_witness:
  "\<exists>msg. writeFrame (accept_header ''s'' 2 7 9) [] = Inr msg \<and> readFrame msg = Inr (accept_header ''s'' 2 7 9, [])"
proof -
  have wf: "wf_header (accept_header ''s'' 2 7 9)" by (simp add: wf_header_def accept_header_def utf8_valid_ascii)
  have "\<exists>msg. writeFrame (accept_header ''s'' 2 7 9) [] = Inr msg"
    by (rule writeFrame_small [OF wf]) (simp_all add: accept_header_def header_text_def)
  with frame_roundtrip [OF wf] show ?thesis by blast
qed

text \<open>
  What \<open>readFrame\<close> accepts is within the limits of the protocol: the type is not empty, only data
  frames carry a payload, which is the end of the message and at most 1 MiB, and the message is at most
  the envelope, a 64 KiB header and that payload. Whatever it refuses itself is a frame error.
\<close>

theorem readFrame_checked:
  "(\<forall>h p. readFrame msg = Inr (h, p) \<longrightarrow> h_type h \<noteq> [] \<and> (h_type h \<noteq> ''data'' \<longrightarrow> p = []) \<and> length p \<le> maxPayloadBytes
      \<and> length msg \<le> 8 + maxHeaderBytes + maxPayloadBytes \<and> suffix p msg)
   \<and> (\<forall>e. readFrame msg = Inl e \<longrightarrow> is_frame_error e)"
  using readFrame_Inr readFrame_error_is_frame_error by blast

theorem readFrame_checked_witness:
  "readFrame [1, 2, 3] = Inl (FrameError (Errorf ''truncated frame envelope''))
   \<and> is_frame_error (FrameError (Errorf ''truncated frame envelope''))"
proof -
  have "readFrame [1, 2, 3] = Inl (FrameError (Errorf ''truncated frame envelope''))" by (simp add: readFrame_def)
  with readFrame_checked [of "[1, 2, 3]"] show ?thesis by blast
qed

end
